(* ===== verification/Go_Prelude.thy ===== *)
theory Go_Prelude
  imports Main "HOL-Library.Signed_Division" "HOL-Library.Multiset" "HOL-Library.Char_ord"
    "HOL-Library.List_Lexorder" "HOL-Library.AList"
begin

section \<open>What the Go sources use of their language and standard library\<close>

text \<open>
  The part of Go that every component of the operator uses, as HOL definitions:
  \<^item> an \<open>int64\<close> or \<open>int32\<close> is an \<open>int\<close>; where a computation of the source can leave the range of
    its type the wrap-around is written out with \<open>wrap64\<close> and \<open>wrap32\<close>; division and remainder
    truncate (\<open>sdiv\<close> and \<open>smod\<close> of \<open>HOL-Library.Signed_Division\<close>);
  \<^item> a \<open>time.Time\<close> is an \<open>int\<close>, the nanoseconds since 1970, and a \<open>time.Duration\<close> an \<open>int\<close> of
    nanoseconds; \<open>Time.Sub\<close> saturates (\<open>tsub\<close>);
  \<^item> \<open>slices.SortStableFunc\<close> is \<open>sort_cmp\<close>, and the contract its comparison has to meet is the
    locale \<open>weak_order\<close>, in which the sorting lemmas are proved once;
  \<^item> a \<open>map[string]string\<close> is an association list, \<open>lookup0\<close> its read with Go's zero value;
  \<^item> the functions of package \<open>strings\<close> the code calls, on strings of bytes.
\<close>

named_theorems go_time "facts about saturating time arithmetic"
named_theorems go_map "facts about reads and writes of Go maps"

subsection \<open>Machine integers\<close>

definition wrap64 :: "int \<Rightarrow> int" where
  "wrap64 x = (x + 2 ^ 63) mod 2 ^ 64 - 2 ^ 63"

definition wrap32 :: "int \<Rightarrow> int" where
  "wrap32 x = (x + 2 ^ 31) mod 2 ^ 32 - 2 ^ 31"

definition max_int64 :: int where "max_int64 = 2 ^ 63 - 1"

definition min_int64 :: int where "min_int64 = - (2 ^ 63)"

definition max_int32 :: int where "max_int32 = 2 ^ 31 - 1"

definition in64 :: "int \<Rightarrow> bool" where
  "in64 x \<longleftrightarrow> min_int64 \<le> x \<and> x \<le> max_int64"

definition in32 :: "int \<Rightarrow> bool" where
  "in32 x \<longleftrightarrow> - (2 ^ 31) \<le> x \<and> x \<le> max_int32"

subsection \<open>Time\<close>

type_synonym time = int
type_synonym duration = int

definition Nanosecond :: duration where "Nanosecond = 1"
definition Second :: duration where "Second = 1000000000"
definition Minute :: duration where "Minute = 60 * Second"
definition Hour :: duration where "Hour = 60 * Minute"

lemmas duration_defs = Second_def Minute_def Hour_def

text \<open>\<open>t.Sub(u)\<close>: the difference, held to the range of a \<open>Duration\<close>.\<close>

definition tsub :: "time \<Rightarrow> time \<Rightarrow> duration" where
  "tsub t u = max min_int64 (min max_int64 (t - u))"

text \<open>\<open>metav1.Time\<close> values are pointers in the status types: \<open>None\<close> is nil.\<close>

subsection \<open>Comparison and sorting\<close>

definition cmp_compare :: "'a::linorder \<Rightarrow> 'a \<Rightarrow> int" where
  "cmp_compare a b = (if a < b then -1 else if b < a then 1 else 0)"

definition cmp_or :: "int \<Rightarrow> int \<Rightarrow> int" where
  "cmp_or a b = (if a \<noteq> 0 then a else b)"

text \<open>
  \<open>slices.SortStableFunc\<close>. For a comparison that is a strict weak order its result is the one
  stable, sorted arrangement, whichever algorithm computes it; insertion from the right computes it
  here.
\<close>

fun insort_cmp :: "('a \<Rightarrow> 'a \<Rightarrow> int) \<Rightarrow> 'a \<Rightarrow> 'a list \<Rightarrow> 'a list" where
  "insort_cmp cmp x [] = [x]"
| "insort_cmp cmp x (y # ys) = (if cmp x y \<le> 0 then x # y # ys else y # insort_cmp cmp x ys)"

fun sort_cmp :: "('a \<Rightarrow> 'a \<Rightarrow> int) \<Rightarrow> 'a list \<Rightarrow> 'a list" where
  "sort_cmp cmp [] = []"
| "sort_cmp cmp (x # xs) = insort_cmp cmp x (sort_cmp cmp xs)"

subsection \<open>Maps and strings\<close>

type_synonym labels = "(string \<times> string) list"

definition lookup0 :: "labels \<Rightarrow> string \<Rightarrow> string" where
  "lookup0 m k = (case map_of m k of None \<Rightarrow> [] | Some v \<Rightarrow> v)"

definition has_key :: "('k \<times> 'v) list \<Rightarrow> 'k \<Rightarrow> bool" where
  "has_key m k = (case map_of m k of None \<Rightarrow> False | Some _ \<Rightarrow> True)"

definition has_prefix :: "string \<Rightarrow> string \<Rightarrow> bool" where
  "has_prefix p s \<longleftrightarrow> take (length p) s = p"

definition has_suffix :: "string \<Rightarrow> string \<Rightarrow> bool" where
  "has_suffix p s \<longleftrightarrow> has_prefix (rev p) (rev s)"

definition cut_prefix :: "string \<Rightarrow> string \<Rightarrow> string option" where
  "cut_prefix p s = (if has_prefix p s then Some (drop (length p) s) else None)"

fun string_contains :: "string \<Rightarrow> string \<Rightarrow> bool" where
  "string_contains [] p = (p = [])"
| "string_contains (c # s) p = (has_prefix p (c # s) \<or> string_contains s p)"

definition is_space :: "char \<Rightarrow> bool" where
  "is_space c \<longleftrightarrow> of_char c = (32::nat) \<or> (9 \<le> (of_char c :: nat) \<and> of_char c \<le> (13::nat))"

text \<open>\<open>strings.TrimSpace\<close>, for the white space of ASCII.\<close>

definition trim_space :: "string \<Rightarrow> string" where
  "trim_space s = rev (dropWhile is_space (rev (dropWhile is_space s)))"

definition to_lower_char :: "char \<Rightarrow> char" where
  "to_lower_char c = (if 65 \<le> (of_char c :: nat) \<and> of_char c \<le> (90::nat)
     then char_of ((of_char c :: nat) + 32) else c)"

definition to_lower :: "string \<Rightarrow> string" where
  "to_lower s = map to_lower_char s"

subsection \<open>Numbers in strings\<close>

definition digit_of :: "char \<Rightarrow> int option" where
  "digit_of c = (let n = (of_char c :: nat) in if 48 \<le> n \<and> n \<le> 57 then Some (int n - 48) else None)"

fun parse_digits :: "int \<Rightarrow> string \<Rightarrow> int option" where
  "parse_digits acc [] = Some acc"
| "parse_digits acc (c # cs) = (case digit_of c of None \<Rightarrow> None | Some d \<Rightarrow> parse_digits (10 * acc + d) cs)"

text \<open>\<open>strconv.ParseInt(s, 10, 64)\<close> and \<open>strconv.Atoi\<close>: an optional sign, then digits only, in range.\<close>

definition parse_int64 :: "string \<Rightarrow> int option" where
  "parse_int64 s =
     (let (neg, ds) = (case s of c # cs \<Rightarrow> if c = CHR ''-'' then (True, cs) else if c = CHR ''+'' then (False, cs) else (False, s)
                       | [] \<Rightarrow> (False, []))
      in if ds = [] then None
         else case parse_digits 0 ds of
           None \<Rightarrow> None
         | Some n \<Rightarrow> (let v = (if neg then - n else n) in if in64 v then Some v else None))"

text \<open>A number in decimal, as \<open>%d\<close> prints it.\<close>

fun itoa_nat :: "nat \<Rightarrow> string" where
  "itoa_nat n = (if n < 10 then [char_of (48 + n)] else itoa_nat (n div 10) @ [char_of (48 + n mod 10)])"

declare itoa_nat.simps [simp del]

definition itoa :: "int \<Rightarrow> string" where
  "itoa n = (if n < 0 then CHR ''-'' # itoa_nat (nat (- n)) else itoa_nat (nat n))"

section \<open>Lemmas\<close>

lemma wrap64_id [simp]: "in64 x \<Longrightarrow> wrap64 x = x"
  by (auto simp: wrap64_def in64_def min_int64_def max_int64_def)

lemma wrap64_range: "in64 (wrap64 x)"
  using pos_mod_bound [of "2 ^ 64" "x + 2 ^ 63"] pos_mod_sign [of "2 ^ 64" "x + 2 ^ 63"]
  by (simp add: wrap64_def in64_def min_int64_def max_int64_def)

lemma wrap32_id [simp]: "in32 x \<Longrightarrow> wrap32 x = x"
  by (auto simp: wrap32_def in32_def max_int32_def)

lemma shifted_mod_add: "((a + h) mod m - h + b + h) mod m - h = (a + b + h) mod m - (h :: int)"
proof -
  have "((a + h) mod m - h + b + h) mod m = ((a + h) mod m + b) mod m" by simp
  also have "\<dots> = (a + h + b) mod m" by (rule mod_add_left_eq)
  also have "a + h + b = a + b + h" by simp
  finally show ?thesis by simp
qed

lemma wrap64_add: "wrap64 (wrap64 a + b) = wrap64 (a + b)"
  unfolding wrap64_def by (rule shifted_mod_add)

lemma wrap32_add: "wrap32 (wrap32 a + b) = wrap32 (a + b)"
  unfolding wrap32_def by (rule shifted_mod_add)

lemma wrap64_add_right: "wrap64 (b + wrap64 a) = wrap64 (b + a)"
  using wrap64_add [of a b] by (simp add: add.commute)

lemma wrap32_add_right: "wrap32 (b + wrap32 a) = wrap32 (b + a)"
  using wrap32_add [of a b] by (simp add: add.commute)

lemmas wrap_simps = wrap64_add wrap32_add wrap64_add_right wrap32_add_right

text \<open>Comparing a saturated difference with a duration in range is comparing the exact one.\<close>

lemma tsub_less [go_time]: "min_int64 < d \<Longrightarrow> d \<le> max_int64 \<Longrightarrow> tsub t u < d \<longleftrightarrow> t - u < d"
  by (auto simp: tsub_def min_int64_def max_int64_def)

lemma tsub_greater [go_time]: "min_int64 \<le> d \<Longrightarrow> d < max_int64 \<Longrightarrow> d < tsub t u \<longleftrightarrow> d < t - u"
  by (auto simp: tsub_def min_int64_def max_int64_def)

lemma tsub_ge [go_time]: "min_int64 < d \<Longrightarrow> d \<le> max_int64 \<Longrightarrow> d \<le> tsub t u \<longleftrightarrow> d \<le> t - u"
  by (auto simp: tsub_def min_int64_def max_int64_def)

lemma tsub_le [go_time]: "min_int64 \<le> d \<Longrightarrow> d < max_int64 \<Longrightarrow> tsub t u \<le> d \<longleftrightarrow> t - u \<le> d"
  by (auto simp: tsub_def min_int64_def max_int64_def)

text \<open>The contract of a comparison function: a weak order.\<close>

locale weak_order =
  fixes cmp :: "'a \<Rightarrow> 'a \<Rightarrow> int"
  assumes cmp_flip: "cmp x y < 0 \<longleftrightarrow> 0 < cmp y x"
    and cmp_trans: "cmp x y \<le> 0 \<Longrightarrow> cmp y z \<le> 0 \<Longrightarrow> cmp x z \<le> 0"
begin

lemma cmp_self: "cmp x x = 0"
  using cmp_flip [of x x] by linarith

lemma cmp_total: "\<not> cmp x y \<le> 0 \<Longrightarrow> cmp y x \<le> 0"
  using cmp_flip [of y x] by linarith

lemma cmp_eq_sym: "cmp x y = 0 \<longleftrightarrow> cmp y x = 0"
  using cmp_flip [of x y] cmp_flip [of y x] by linarith

lemma cmp_eq_trans: "cmp x y = 0 \<Longrightarrow> cmp y z = 0 \<Longrightarrow> cmp x z = 0"
  using cmp_trans [of x y z] cmp_trans [of z y x] cmp_eq_sym [of x y] cmp_eq_sym [of y z]
    cmp_flip [of x z] cmp_flip [of z x] by linarith

lemma sorted_insort_cmp:
  assumes "sorted_wrt (\<lambda>a b. cmp a b \<le> 0) ys" and mem: "\<And>x ys. set (insort_cmp cmp x ys) = insert x (set ys)"
  shows "sorted_wrt (\<lambda>a b. cmp a b \<le> 0) (insort_cmp cmp x ys)"
  using assms(1) by (induction ys) (auto simp: mem intro: cmp_trans dest: cmp_total)

end

lemma mset_insort_cmp [simp]: "mset (insort_cmp cmp x ys) = add_mset x (mset ys)"
  by (induction ys) auto

lemma mset_sort_cmp [simp]: "mset (sort_cmp cmp xs) = mset xs"
  by (induction xs) auto

lemma set_insort_cmp [simp]: "set (insort_cmp cmp x ys) = insert x (set ys)"
  by (metis mset_insort_cmp set_mset_add_mset_insert set_mset_mset)

lemma set_sort_cmp [simp]: "set (sort_cmp cmp xs) = set xs"
  by (metis mset_sort_cmp set_mset_mset)

lemma length_sort_cmp [simp]: "length (sort_cmp cmp xs) = length xs"
  by (metis mset_sort_cmp size_mset)

context weak_order
begin

lemma sorted_sort_cmp: "sorted_wrt (\<lambda>a b. cmp a b \<le> 0) (sort_cmp cmp xs)"
  by (induction xs) (auto intro: sorted_insort_cmp)

lemma filter_insort_cmp:
  "filter (\<lambda>b. cmp a b = 0) (insort_cmp cmp x ys) =
     (if cmp a x = 0 then x # filter (\<lambda>b. cmp a b = 0) ys else filter (\<lambda>b. cmp a b = 0) ys)"
proof (induction ys)
  case Nil
  then show ?case by simp
next
  case (Cons y ys)
  have "\<not> cmp x y \<le> 0 \<Longrightarrow> cmp a x = 0 \<Longrightarrow> cmp a y \<noteq> 0"
    using cmp_eq_trans [of x a y] cmp_eq_sym [of a x] by auto
  with Cons.IH show ?case by auto
qed

lemma stable_sort_cmp:
  "filter (\<lambda>b. cmp a b = 0) (sort_cmp cmp xs) = filter (\<lambda>b. cmp a b = 0) xs"
  by (induction xs) (auto simp: filter_insort_cmp)

end

lemma weak_order_compare: "weak_order (\<lambda>a b. cmp_compare (f a) (f b))"
  by unfold_locales (auto simp: cmp_compare_def split: if_splits)

lemma weak_order_flip: "weak_order c \<Longrightarrow> weak_order (\<lambda>a b. c b a)"
  by (auto simp: weak_order_def)

lemma weak_order_lex:
  assumes "weak_order c" "weak_order d"
  shows "weak_order (\<lambda>a b. cmp_or (c a b) (d a b))"
proof
  fix x y z
  show "cmp_or (c x y) (d x y) < 0 \<longleftrightarrow> 0 < cmp_or (c y x) (d y x)"
    using weak_order.cmp_flip [OF assms(1), of x y] weak_order.cmp_eq_sym [OF assms(1), of x y]
      weak_order.cmp_flip [OF assms(2), of x y] by (auto simp: cmp_or_def)
  assume "cmp_or (c x y) (d x y) \<le> 0" "cmp_or (c y z) (d y z) \<le> 0"
  then have le: "c x y \<le> 0" "c y z \<le> 0" "c x y = 0 \<Longrightarrow> d x y \<le> 0" "c y z = 0 \<Longrightarrow> d y z \<le> 0"
    by (auto simp: cmp_or_def split: if_splits)
  have "c x z = 0 \<Longrightarrow> c x y = 0 \<and> c y z = 0"
    using le weak_order.cmp_trans [OF assms(1), of y z x] weak_order.cmp_trans [OF assms(1), of z x y]
      weak_order.cmp_eq_sym [OF assms(1), of x z] weak_order.cmp_flip [OF assms(1), of x y]
      weak_order.cmp_flip [OF assms(1), of y z] by linarith
  with le show "cmp_or (c x z) (d x z) \<le> 0"
    using weak_order.cmp_trans [OF assms(1), of x y z] weak_order.cmp_trans [OF assms(2), of x y z]
    by (auto simp: cmp_or_def)
qed

lemma digit_of_char [simp]: "n < 10 \<Longrightarrow> digit_of (char_of (48 + n)) = Some (int n)"
  by (simp add: digit_of_def Let_def)

lemma parse_digits_append: "parse_digits acc (xs @ ys) = (case parse_digits acc xs of None \<Rightarrow> None | Some a \<Rightarrow> parse_digits a ys)"
  by (induction acc xs rule: parse_digits.induct) (auto split: option.splits)

lemma size_filter_weaken:
  "(\<And>i. i \<in># L \<Longrightarrow> P i \<Longrightarrow> Q i) \<Longrightarrow> size (filter_mset P L) \<le> size (filter_mset Q L)"
  by (induction L) (auto intro: le_SucI)

lemma lookup0_Nil [simp]: "lookup0 [] k = []"
  by (simp add: lookup0_def)

lemma lookup0_update [go_map]: "lookup0 (AList.update k v m) j = (if j = k then v else lookup0 m j)"
  by (simp add: lookup0_def update_conv')

lemma lookup0_delete [go_map]: "lookup0 (AList.delete k m) j = (if j = k then [] else lookup0 m j)"
  by (simp add: lookup0_def delete_conv')

lemma update_new: "k \<notin> fst ` set m \<Longrightarrow> AList.update k v m = m @ [(k, v)]"
  by (induction m) auto

lemma has_key_iff [go_map]: "has_key m k \<longleftrightarrow> k \<in> fst ` set m"
  by (auto simp: has_key_def map_of_eq_None_iff split: option.splits dest!: map_of_SomeD intro: rev_image_eqI)

lemma has_prefix_append [simp]: "has_prefix p (p @ s)"
  by (simp add: has_prefix_def)

lemma has_prefix_iff: "has_prefix p s \<longleftrightarrow> (\<exists>r. s = p @ r)"
  by (metis append_eq_conv_conj append_take_drop_id has_prefix_def)

lemma cut_prefix_append [simp]: "cut_prefix p (p @ s) = Some s"
  by (simp add: cut_prefix_def)

lemma cut_prefix_Some [simp]: "cut_prefix p s = Some r \<longleftrightarrow> s = p @ r"
  by (auto simp: cut_prefix_def has_prefix_iff)

lemma cut_prefix_None: "cut_prefix p s = None \<longleftrightarrow> \<not> has_prefix p s"
  by (simp add: cut_prefix_def)

end
