(* ===== verification/Mail_Limiter.thy ===== *)
theory Mail_Limiter
  imports Go_Prelude
begin

section \<open>The mail relay's rate limiter (internal/mailrelay/limiter.go)\<close>

text \<open>
  Each organization's messages are counted in sliding windows of a minute, an hour and a day, each a
  ring of fixed buckets. \<open>ring\<close> and its operations are the code's; \<open>orgCounters\<close> is what the relay
  keeps per organization, with one function per method. A method holds the counters' mutex for its
  whole body, so the concurrent histories of one organization are the interleavings of whole calls:
  a list of \<open>relay_event\<close>s run by \<open>relay_run\<close>.

  The locale \<open>sliding_counter\<close> is the contract a window gives the limiter: its state stands for the
  multiset of the buckets that messages were counted in. The ring is interpreted as one, and the
  bound on every window is proved from the contract.
\<close>

subsection \<open>Windows and rings\<close>

record window =
  w_name :: string
  w_length :: duration
  w_bucket :: duration

definition minuteWindow :: window where
  "minuteWindow = \<lparr>w_name = ''minute'', w_length = Minute, w_bucket = Second\<rparr>"

definition hourWindow :: window where
  "hourWindow = \<lparr>w_name = ''hour'', w_length = Hour, w_bucket = Minute\<rparr>"

definition dayWindow :: window where
  "dayWindow = \<lparr>w_name = ''day'', w_length = 24 * Hour, w_bucket = Minute\<rparr>"

definition windows :: "window list" where
  "windows = [minuteWindow, hourWindow, dayWindow]"

record limits =
  MessagesPerMinute :: int
  MessagesPerHour :: int
  MessagesPerDay :: int
  RecipientsPerMessage :: int
  MaxMessageBytes :: int
  Connections :: int

definition window_limit :: "window \<Rightarrow> limits \<Rightarrow> int" where
  "window_limit w l =
     (if w_name w = w_name minuteWindow then MessagesPerMinute l
      else if w_name w = w_name hourWindow then MessagesPerHour l
      else MessagesPerDay l)"

record bucket =
  b_index :: int
  b_count :: int

record ring =
  r_window :: window
  r_buckets :: "bucket list"

definition newRing :: "window \<Rightarrow> ring" where
  "newRing w = \<lparr>r_window = w,
     r_buckets = replicate (nat (w_length w sdiv w_bucket w + 1)) \<lparr>b_index = 0, b_count = 0\<rparr>\<rparr>"

definition indexOf :: "ring \<Rightarrow> time \<Rightarrow> int" where
  "indexOf r t = t sdiv w_bucket (r_window r)"

text \<open>The position of the bucket an index is kept in; a position is a pointer in the code.\<close>

definition slot :: "ring \<Rightarrow> int \<Rightarrow> nat" where
  "slot r index = (let n = int (length (r_buckets r)) in nat (((index smod n) + n) smod n))"

definition ring_count :: "ring \<Rightarrow> time \<Rightarrow> int" where
  "ring_count r now =
     (let current = indexOf r now;
          oldest = current - int (length (r_buckets r)) + 1
      in sum_list (map (\<lambda>b. if b_index b \<ge> oldest \<and> b_index b \<le> current then b_count b else 0)
           (r_buckets r)))"

definition ring_add :: "ring \<Rightarrow> time \<Rightarrow> ring \<times> int" where
  "ring_add r now =
     (let index = indexOf r now;
          k = slot r index;
          b = r_buckets r ! k;
          b = (if b_index b \<noteq> index then \<lparr>b_index = index, b_count = 0\<rparr> else b)
      in (r\<lparr>r_buckets := (r_buckets r)[k := b\<lparr>b_count := b_count b + 1\<rparr>]\<rparr>, index))"

definition ring_remove :: "ring \<Rightarrow> int \<Rightarrow> ring" where
  "ring_remove r index =
     (let k = slot r index; b = r_buckets r ! k
      in if b_index b = index \<and> b_count b > 0
         then r\<lparr>r_buckets := (r_buckets r)[k := b\<lparr>b_count := b_count b - 1\<rparr>]\<rparr>
         else r)"

subsection \<open>The counters of an organization\<close>

record orgCounters =
  rings :: "ring list"
  connections :: int
  accepted :: int
  recipients :: int
  bytes :: int
  rejected :: "string \<rightharpoonup> int"
  upstreamFailed :: "string \<rightharpoonup> int"
  authFailures :: int
  lastAccepted :: "time option"

definition newOrgCounters :: orgCounters where
  "newOrgCounters = \<lparr>rings = map newRing windows, connections = 0, accepted = 0, recipients = 0,
     bytes = 0, rejected = Map.empty, upstreamFailed = Map.empty, authFailures = 0,
     lastAccepted = None\<rparr>"

text \<open>A reservation points at its counters in the code; here they are passed beside it.\<close>

record reservation =
  indexes :: "int list"
  finished :: bool

definition reserve ::
    "orgCounters \<Rightarrow> time \<Rightarrow> limits \<Rightarrow> orgCounters \<times> reservation option \<times> window option" where
  "reserve c now l =
     (case find (\<lambda>r. ring_count r now \<ge> window_limit (r_window r) l) (rings c) of
        Some r \<Rightarrow> (c, None, Some (r_window r))
      | None \<Rightarrow>
          (let added = map (\<lambda>r. ring_add r now) (rings c)
           in (c\<lparr>rings := map fst added\<rparr>, Some \<lparr>indexes = map snd added, finished = False\<rparr>, None)))"

definition release :: "orgCounters \<Rightarrow> reservation option \<Rightarrow> orgCounters \<times> reservation option" where
  "release c res =
     (case res of
        None \<Rightarrow> (c, None)
      | Some res \<Rightarrow>
          if finished res then (c, Some res)
          else (c\<lparr>rings := map2 ring_remove (rings c) (indexes res)\<rparr>, Some (res\<lparr>finished := True\<rparr>)))"

definition keep ::
    "orgCounters \<Rightarrow> reservation option \<Rightarrow> time \<Rightarrow> int \<Rightarrow> int \<Rightarrow> orgCounters \<times> reservation option" where
  "keep c res now nrcpt msize =
     (case res of
        None \<Rightarrow> (c, None)
      | Some res \<Rightarrow>
          (c\<lparr>accepted := accepted c + 1, recipients := recipients c + nrcpt,
             bytes := bytes c + msize, lastAccepted := Some now\<rparr>, Some (res\<lparr>finished := True\<rparr>)))"

definition acquire :: "orgCounters \<Rightarrow> int \<Rightarrow> orgCounters \<times> bool" where
  "acquire c limit =
     (if connections c \<ge> limit then (c, False)
      else (c\<lparr>connections := connections c + 1\<rparr>, True))"

definition releaseConnection :: "orgCounters \<Rightarrow> orgCounters" where
  "releaseConnection c =
     (if connections c > 0 then c\<lparr>connections := connections c - 1\<rparr> else c)"

definition bump_count :: "(string \<rightharpoonup> int) \<Rightarrow> string \<Rightarrow> (string \<rightharpoonup> int)" where
  "bump_count m k = m(k \<mapsto> (case m k of None \<Rightarrow> 0 | Some v \<Rightarrow> v) + 1)"

definition countRejected :: "orgCounters \<Rightarrow> string \<Rightarrow> orgCounters" where
  "countRejected c reason = c\<lparr>rejected := bump_count (rejected c) reason\<rparr>"

definition countUpstreamFailure :: "orgCounters \<Rightarrow> string \<Rightarrow> orgCounters" where
  "countUpstreamFailure c kind = c\<lparr>upstreamFailed := bump_count (upstreamFailed c) kind\<rparr>"

definition countAuthFailure :: "orgCounters \<Rightarrow> orgCounters" where
  "countAuthFailure c = c\<lparr>authFailures := authFailures c + 1\<rparr>"

subsection \<open>Histories of one organization\<close>

text \<open>
  A sent message is in one of three states: reserved, kept or given back. \<open>taken\<close> lists the messages
  whose reservation succeeded, with the moment each was taken and its reservation; \<open>released\<close> marks
  those given back. An event names an earlier message by its position.
\<close>

record message =
  m_at :: time
  m_res :: reservation
  m_released :: bool

record relay_state =
  counters :: orgCounters
  taken :: "message list"

datatype relay_event =
    Reserve time
  | Release nat
  | Keep nat time int int
  | Acquire
  | ReleaseConnection
  | Rejected string
  | UpstreamFailure string
  | AuthFailure

definition release_message :: "relay_state \<Rightarrow> nat \<Rightarrow> relay_state" where
  "release_message s k =
     (let m = taken s ! k
      in case release (counters s) (Some (m_res m)) of
           (c, Some res) \<Rightarrow> s\<lparr>counters := c,
              taken := (taken s)[k := m\<lparr>m_res := res, m_released := m_released m \<or> \<not> finished (m_res m)\<rparr>]\<rparr>
         | (c, None) \<Rightarrow> s)"

definition keep_message :: "relay_state \<Rightarrow> nat \<Rightarrow> time \<Rightarrow> int \<Rightarrow> int \<Rightarrow> relay_state" where
  "keep_message s k now n msize =
     (let m = taken s ! k
      in case keep (counters s) (Some (m_res m)) now n msize of
           (c, Some res) \<Rightarrow> s\<lparr>counters := c, taken := (taken s)[k := m\<lparr>m_res := res\<rparr>]\<rparr>
         | (c, None) \<Rightarrow> s)"

fun relay_step :: "limits \<Rightarrow> relay_state \<Rightarrow> relay_event \<Rightarrow> relay_state" where
  "relay_step l s (Reserve now) =
     (case reserve (counters s) now l of
        (c, Some res, _) \<Rightarrow>
          s\<lparr>counters := c, taken := taken s @ [\<lparr>m_at = now, m_res = res, m_released = False\<rparr>]\<rparr>
      | (c, None, _) \<Rightarrow> s\<lparr>counters := c\<rparr>)"
| "relay_step l s (Release k) = (if k < length (taken s) then release_message s k else s)"
| "relay_step l s (Keep k now n msize) =
     (if k < length (taken s) then keep_message s k now n msize else s)"
| "relay_step l s Acquire = s\<lparr>counters := fst (acquire (counters s) (Connections l))\<rparr>"
| "relay_step l s ReleaseConnection = s\<lparr>counters := releaseConnection (counters s)\<rparr>"
| "relay_step l s (Rejected reason) = s\<lparr>counters := countRejected (counters s) reason\<rparr>"
| "relay_step l s (UpstreamFailure kind) = s\<lparr>counters := countUpstreamFailure (counters s) kind\<rparr>"
| "relay_step l s AuthFailure = s\<lparr>counters := countAuthFailure (counters s)\<rparr>"

definition relay_run :: "limits \<Rightarrow> relay_event list \<Rightarrow> relay_state" where
  "relay_run l es = foldl (relay_step l) \<lparr>counters = newOrgCounters, taken = []\<rparr> es"

text \<open>The clock does not go back between reservations.\<close>

fun reserve_times :: "relay_event list \<Rightarrow> time list" where
  "reserve_times [] = []"
| "reserve_times (Reserve t # es) = t # reserve_times es"
| "reserve_times (_ # es) = reserve_times es"

definition counted_within :: "relay_state \<Rightarrow> time \<Rightarrow> time \<Rightarrow> message list" where
  "counted_within s lo hi =
     filter (\<lambda>m. \<not> m_released m \<and> lo < m_at m \<and> m_at m \<le> hi) (taken s)"

section \<open>The contract of a window\<close>

text \<open>
  A sliding counter \<open>r\<close> represents a log: the multiset \<open>L\<close> of the indexes messages are counted in,
  none later than \<open>hi\<close>. Reading it at a moment that is not before the log counts the indexes of the
  last \<open>n\<close> buckets, adding logs the current index and removing takes a logged index back.
\<close>

locale sliding_counter =
  fixes idx :: "time \<Rightarrow> int"
    and n :: int
    and count_at :: "'r \<Rightarrow> time \<Rightarrow> int"
    and add_at :: "'r \<Rightarrow> time \<Rightarrow> 'r \<times> int"
    and take_back :: "'r \<Rightarrow> int \<Rightarrow> 'r"
    and rep :: "'r \<Rightarrow> int multiset \<Rightarrow> int \<Rightarrow> bool"
  assumes idx_mono: "s \<le> t \<Longrightarrow> idx s \<le> idx t"
    and rep_top: "rep r L hi \<Longrightarrow> i \<in># L \<Longrightarrow> i \<le> hi"
    and rep_count: "rep r L hi \<Longrightarrow> hi \<le> idx now \<Longrightarrow>
      count_at r now = int (size (filter_mset (\<lambda>i. idx now - n < i \<and> i \<le> idx now) L))"
    and rep_add_index: "rep r L hi \<Longrightarrow> snd (add_at r now) = idx now"
    and rep_add: "rep r L hi \<Longrightarrow> hi \<le> idx now \<Longrightarrow>
      rep (fst (add_at r now)) (add_mset (idx now) L) (idx now)"
    and rep_remove: "rep r L hi \<Longrightarrow> i \<in># L \<Longrightarrow> rep (take_back r i) (L - {#i#}) hi"
begin

text \<open>No \<open>n\<close> consecutive buckets hold more than the limit.\<close>

definition within :: "int \<Rightarrow> int multiset \<Rightarrow> bool" where
  "within lim L \<longleftrightarrow> (\<forall>c. int (size (filter_mset (\<lambda>i. c - n < i \<and> i \<le> c) L)) \<le> lim)"

lemma within_empty: "0 \<le> lim \<Longrightarrow> within lim {#}"
  by (simp add: within_def)

lemma within_remove: "within lim L \<Longrightarrow> within lim (L - M)"
  unfolding within_def
proof
  fix c
  assume "\<forall>c. int (size (filter_mset (\<lambda>i. c - n < i \<and> i \<le> c) L)) \<le> lim"
  then have "int (size (filter_mset (\<lambda>i. c - n < i \<and> i \<le> c) L)) \<le> lim" ..
  moreover have "size (filter_mset (\<lambda>i. c - n < i \<and> i \<le> c) (L - M))
      \<le> size (filter_mset (\<lambda>i. c - n < i \<and> i \<le> c) L)"
    by (simp add: multiset_filter_mono size_mset_mono)
  ultimately show "int (size (filter_mset (\<lambda>i. c - n < i \<and> i \<le> c) (L - M))) \<le> lim" by linarith
qed

lemma within_add:
  assumes rep: "rep r L hi" "hi \<le> idx now" and lim: "within lim L" and room: "count_at r now < lim"
  shows "within lim (add_mset (idx now) L)"
  unfolding within_def
proof
  fix c
  let ?W = "\<lambda>c L. filter_mset (\<lambda>i. c - n < i \<and> i \<le> c) L"
  show "int (size (?W c (add_mset (idx now) L))) \<le> lim"
  proof (cases "c - n < idx now \<and> idx now \<le> c")
    case False
    then show ?thesis using lim by (auto simp: within_def)
  next
    case True
    have "size (?W c L) \<le> size (?W (idx now) L)"
    proof (rule size_filter_weaken)
      fix i assume "i \<in># L" "c - n < i \<and> i \<le> c"
      then show "idx now - n < i \<and> i \<le> idx now"
        using True rep_top [OF rep(1), of i] rep(2) by linarith
    qed
    moreover have "int (size (?W (idx now) L)) < lim"
      using room rep_count [OF rep] by simp
    ultimately show ?thesis using True by simp
  qed
qed

end

section \<open>The ring keeps the contract\<close>

definition ring_size :: "ring \<Rightarrow> int" where
  "ring_size r = int (length (r_buckets r))"

definition held :: "ring \<Rightarrow> int \<Rightarrow> int" where
  "held r i = (let b = r_buckets r ! slot r i in if b_index b = i then b_count b else 0)"

text \<open>
  The ring \<open>r\<close> of window \<open>w\<close> represents the log \<open>L\<close>: a bucket that counts anything stands at the
  position of its index, and the last \<open>n\<close> indexes are held with their counts.
\<close>

definition ring_rep :: "window \<Rightarrow> ring \<Rightarrow> int multiset \<Rightarrow> int \<Rightarrow> bool" where
  "ring_rep w r L hi \<longleftrightarrow>
     r_window r = w \<and> 0 < w_bucket w \<and> 0 \<le> w_length w \<and>
     ring_size r = w_length w sdiv w_bucket w + 1 \<and>
     (\<forall>i. i \<in># L \<longrightarrow> i \<le> hi) \<and>
     (\<forall>k < length (r_buckets r). 0 \<le> b_count (r_buckets r ! k) \<and>
        (0 < b_count (r_buckets r ! k) \<longrightarrow>
           slot r (b_index (r_buckets r ! k)) = k \<and> b_index (r_buckets r ! k) \<le> hi)) \<and>
     (\<forall>i. hi - ring_size r < i \<and> i \<le> hi \<longrightarrow> int (count L i) = held r i)"

lemma sdiv_nonneg [simp]: "0 \<le> a \<Longrightarrow> 0 < b \<Longrightarrow> (a :: int) sdiv b = a div b"
  by (cases "a = 0") (auto simp: signed_divide_int_def)

lemma sdiv_neg: "a < 0 \<Longrightarrow> 0 < b \<Longrightarrow> (a :: int) sdiv b = - ((- a) div b)"
  by (auto simp: signed_divide_int_def)

lemma sdiv_mono: "s \<le> t \<Longrightarrow> 0 < b \<Longrightarrow> (s :: int) sdiv b \<le> t sdiv b"
proof (cases "0 \<le> s"; cases "0 \<le> t")
  assume "s \<le> t" "0 < b" "\<not> 0 \<le> s" "0 \<le> t"
  then have "0 \<le> (- s) div b" "0 \<le> t div b" by (auto simp: pos_imp_zdiv_nonneg_iff)
  then show ?thesis using \<open>0 < b\<close> \<open>\<not> 0 \<le> s\<close> \<open>0 \<le> t\<close> by (simp add: sdiv_neg)
qed (auto simp: sdiv_neg zdiv_mono1)

lemma slot_mod: "0 < ring_size r \<Longrightarrow> slot r i = nat (i mod ring_size r)"
proof -
  assume pos: "0 < ring_size r"
  let ?n = "ring_size r"
  have ge: "0 \<le> i smod ?n + ?n"
    using pos smod_int_range [of ?n i] by auto
  have "(i smod ?n + ?n) smod ?n = (i smod ?n + ?n) mod ?n"
    using ge pos by (simp add: smod_mod_positive)
  also have "\<dots> = i mod ?n"
    by (simp add: minus_sdiv_mult_eq_smod [symmetric] mod_diff_right_eq [symmetric])
  finally show ?thesis
    by (simp add: slot_def Let_def ring_size_def [symmetric])
qed

lemma slot_less: "0 < ring_size r \<Longrightarrow> slot r i < length (r_buckets r)"
  by (simp add: slot_mod nat_less_iff) (simp add: ring_size_def)

lemma slot_inj:
  assumes "0 < ring_size r" "slot r i = slot r j" "\<bar>i - j\<bar> < ring_size r"
  shows "i = j"
proof -
  have "i mod ring_size r = j mod ring_size r"
    using assms(1,2) pos_mod_sign [of "ring_size r"] by (simp add: slot_mod eq_nat_nat_iff)
  then have "ring_size r dvd i - j"
    by (simp add: mod_eq_dvd_iff)
  then show ?thesis using assms(3) dvd_imp_le_int [of "i - j" "ring_size r"] by auto
qed

lemma slot_bij:
  assumes "0 < ring_size r"
  shows "bij_betw (slot r) {c - ring_size r <.. c} {..< length (r_buckets r)}"
proof -
  have inj: "inj_on (slot r) {c - ring_size r <.. c}"
    by (rule inj_onI) (rule slot_inj [OF assms], auto)
  have "card (slot r ` {c - ring_size r <.. c}) = length (r_buckets r)"
    using card_image [OF inj] by (simp add: ring_size_def)
  moreover have "slot r ` {c - ring_size r <.. c} \<subseteq> {..< length (r_buckets r)}"
    using slot_less [OF assms] by auto
  ultimately show ?thesis
    using inj by (simp add: bij_betw_def card_subset_eq)
qed

lemma size_filter_range:
  "int (size (filter_mset (\<lambda>i. a < i \<and> i \<le> c) L)) = (\<Sum>i \<in> {a <.. c :: int}. int (count L i))"
proof (induction L)
  case empty
  then show ?case by simp
next
  case (add x L)
  have "(\<Sum>i \<in> {a <.. c}. int (count (add_mset x L) i)) =
      (\<Sum>i \<in> {a <.. c}. int (count L i) + (if i = x then 1 else 0))"
    by (rule sum.cong) auto
  also have "\<dots> = (\<Sum>i \<in> {a <.. c}. int (count L i)) + (if a < x \<and> x \<le> c then 1 else 0)"
    by (simp add: sum.distrib)
  finally show ?case using add by auto
qed

lemma ring_rep_pos: "ring_rep w r L hi \<Longrightarrow> 0 < ring_size r"
  by (simp add: ring_rep_def pos_imp_zdiv_nonneg_iff add_nonneg_pos)

lemma ring_rep_top: "ring_rep w r L hi \<Longrightarrow> i \<in># L \<Longrightarrow> i \<le> hi"
  by (simp add: ring_rep_def)

text \<open>Above the log nothing is held: the bucket there counts nothing, or counts an older index.\<close>

lemma held_beyond:
  assumes "ring_rep w r L hi" "hi < i"
  shows "held r i = 0"
proof -
  have "slot r i < length (r_buckets r)"
    using ring_rep_pos [OF assms(1)] by (rule slot_less)
  then show ?thesis
    using assms unfolding ring_rep_def held_def Let_def by force
qed

lemma ring_rep_held:
  assumes "ring_rep w r L hi" "hi - ring_size r < i"
  shows "int (count L i) = held r i"
proof (cases "i \<le> hi")
  case True
  then show ?thesis using assms by (simp add: ring_rep_def)
next
  case False
  then have "i \<notin># L" using assms(1) by (auto simp: ring_rep_def)
  with False show ?thesis using held_beyond [OF assms(1)] by (simp add: not_in_iff)
qed

lemma ring_count_rep:
  assumes rep: "ring_rep w r L hi" and now: "hi \<le> indexOf r now"
  shows "ring_count r now =
    int (size (filter_mset (\<lambda>i. indexOf r now - ring_size r < i \<and> i \<le> indexOf r now) L))"
proof -
  let ?n = "ring_size r" and ?c = "indexOf r now" and ?B = "r_buckets r"
  let ?in = "\<lambda>b. if ?c - ?n + 1 \<le> b_index b \<and> b_index b \<le> ?c then b_count b else 0"
  note pos = ring_rep_pos [OF rep]
  have "held r i = ?in (?B ! slot r i)" if "i \<in> {?c - ?n <.. ?c}" for i
  proof (cases "b_count (?B ! slot r i) = 0")
    case True
    then show ?thesis by (simp add: held_def Let_def)
  next
    case False
    then have "slot r (b_index (?B ! slot r i)) = slot r i"
      using rep slot_less [OF pos, of i] by (simp add: ring_rep_def order_less_le)
    then have "b_index (?B ! slot r i) = i"
      if "?c - ?n < b_index (?B ! slot r i)" "b_index (?B ! slot r i) \<le> ?c"
      using slot_inj [OF pos, of "b_index (?B ! slot r i)" i] that \<open>i \<in> _\<close> by force
    then show ?thesis
      using that by (auto simp: held_def Let_def)
  qed
  then have "(\<Sum>i \<in> {?c - ?n <.. ?c}. held r i) = (\<Sum>k < length ?B. ?in (?B ! k))"
    using sum.reindex_bij_betw [OF slot_bij [OF pos, of ?c], of "\<lambda>k. ?in (?B ! k)"] by simp
  also have "\<dots> = ring_count r now"
    by (simp add: ring_count_def Let_def ring_size_def sum_list_sum_nth atLeast0LessThan)
  finally show ?thesis
    using ring_rep_held [OF rep] now by (simp add: size_filter_range)
qed

text \<open>Writing one bucket: the window, the size and the positions stay, and so does every other bucket.\<close>

definition put_bucket :: "ring \<Rightarrow> nat \<Rightarrow> bucket \<Rightarrow> ring" where
  "put_bucket r k b = r\<lparr>r_buckets := (r_buckets r)[k := b]\<rparr>"

lemma put_bucket_simps [simp]:
  "r_window (put_bucket r k b) = r_window r"
  "ring_size (put_bucket r k b) = ring_size r"
  "slot (put_bucket r k b) i = slot r i"
  "length (r_buckets (put_bucket r k b)) = length (r_buckets r)"
  "r_buckets (put_bucket r k b) = (r_buckets r)[k := b]"
  by (auto simp: put_bucket_def ring_size_def slot_def)

lemma bucket_upd: "b\<lparr>b_count := c\<rparr> = \<lparr>b_index = b_index b, b_count = c\<rparr>" for b :: bucket
  by simp

lemma held_put_bucket:
  assumes "0 < ring_size r"
  shows "held (put_bucket r (slot r j) b) i =
    (if slot r i = slot r j then (if b_index b = i then b_count b else 0) else held r i)"
  using slot_less [OF assms, of j] slot_less [OF assms, of i] by (auto simp: held_def Let_def nth_list_update)

text \<open>A written bucket that is well placed keeps the representation, for the log it now agrees with.\<close>

lemma ring_rep_put:
  assumes rep: "ring_rep w r L hi" and hi: "hi \<le> hi'"
    and b: "b_index b = j" "0 \<le> b_count b" "j \<le> hi'"
    and top: "\<And>i. i \<in># L' \<Longrightarrow> i \<le> hi'"
    and at_j: "hi' - ring_size r < j \<Longrightarrow> int (count L' j) = b_count b"
    and others: "\<And>i. i \<noteq> j \<Longrightarrow> count L' i = count L i"
    and alone: "\<And>i. hi' - ring_size r < i \<Longrightarrow> i \<le> hi' \<Longrightarrow> i \<noteq> j \<Longrightarrow> slot r i = slot r j \<Longrightarrow> held r i = 0"
  shows "ring_rep w (put_bucket r (slot r j) b) L' hi'"
proof -
  note pos = ring_rep_pos [OF rep]
  have "int (count L' i) = held (put_bucket r (slot r j) b) i"
    if i: "hi' - ring_size r < i" "i \<le> hi'" for i
  proof (cases "i = j")
    case True
    then show ?thesis using at_j i b(1) by (simp add: held_put_bucket [OF pos])
  next
    case False
    have "int (count L' i) = held r i"
      using others [OF False] ring_rep_held [OF rep, of i] i hi by simp
    then show ?thesis using False alone i b(1) by (auto simp: held_put_bucket [OF pos])
  qed
  then show ?thesis
    using rep hi b top slot_less [OF pos, of j]
    by (auto simp: ring_rep_def nth_list_update)
qed

lemma ring_add_rep:
  assumes rep: "ring_rep w r L hi" and now: "hi \<le> indexOf r now"
  shows "ring_rep w (fst (ring_add r now)) (add_mset (indexOf r now) L) (indexOf r now)"
proof -
  let ?j = "indexOf r now"
  define b where "b = \<lparr>b_index = ?j, b_count = held r ?j + 1\<rparr>"
  note pos = ring_rep_pos [OF rep]
  have "fst (ring_add r now) = put_bucket r (slot r ?j) b"
    by (simp add: ring_add_def put_bucket_def held_def b_def Let_def bucket_upd)
  moreover have "int (count L ?j) = held r ?j"
    using ring_rep_held [OF rep, of ?j] pos now by linarith
  moreover have "i = ?j" if "?j - ring_size r < i" "i \<le> ?j" "slot r i = slot r ?j" for i
    using slot_inj [OF pos that(3)] that by force
  ultimately show ?thesis
    using now ring_rep_top [OF rep]
    by (auto intro!: ring_rep_put [OF rep now] simp: b_def) (metis of_nat_0_le_iff order_trans)+
qed

lemma ring_remove_rep:
  assumes rep: "ring_rep w r L hi" and mem: "j \<in># L"
  shows "ring_rep w (ring_remove r j) (L - {#j#}) hi"
proof (cases "held r j > 0")
  case True
  define b where "b = \<lparr>b_index = j, b_count = held r j - 1\<rparr>"
  have j: "j \<le> hi" and pos: "0 < ring_size r"
    using rep mem ring_rep_pos by (auto simp: ring_rep_def)
  have idx: "b_index (r_buckets r ! slot r j) = j"
    using True by (auto simp: held_def Let_def split: if_splits)
  have "ring_remove r j = put_bucket r (slot r j) b"
    using True idx by (simp add: ring_remove_def put_bucket_def held_def b_def Let_def bucket_upd)
  moreover have "held r i = 0" if "i \<noteq> j" "slot r i = slot r j" for i
    using that idx by (simp add: held_def Let_def)
  moreover have "int (count (L - {#j#}) j) = held r j - 1" if "hi - ring_size r < j"
    using ring_rep_held [OF rep that] True mem by simp
  ultimately show ?thesis
    using True j ring_rep_top [OF rep]
    by (auto intro!: ring_rep_put [OF rep order_refl] simp: b_def dest: in_diffD)
next
  case False
  then have "ring_remove r j = r"
    by (auto simp: ring_remove_def held_def Let_def split: if_splits)
  moreover have "\<not> hi - ring_size r < j"
    using ring_rep_held [OF rep, of j] False mem by (metis count_greater_zero_iff of_nat_0_less_iff)
  ultimately show ?thesis
    using rep by (auto simp: ring_rep_def dest: in_diffD)
qed

lemma ring_rep_size: "ring_rep w r L hi \<Longrightarrow> ring_size r = w_length w sdiv w_bucket w + 1"
  by (simp add: ring_rep_def)

lemma ring_rep_indexOf: "ring_rep w r L hi \<Longrightarrow> indexOf r t = t sdiv w_bucket w"
  by (simp add: ring_rep_def indexOf_def)

lemma ring_sliding_counter:
  assumes "0 < w_bucket w"
  shows "sliding_counter (\<lambda>t. t sdiv w_bucket w) (w_length w sdiv w_bucket w + 1)
    ring_count ring_add ring_remove (ring_rep w)"
proof
  fix r L hi and now :: time and i
  assume rep: "ring_rep w r L hi"
  note idx = ring_rep_indexOf [OF rep] and sz = ring_rep_size [OF rep]
  show "i \<in># L \<Longrightarrow> i \<le> hi" using rep by (simp add: ring_rep_def)
  show "snd (ring_add r now) = now sdiv w_bucket w" by (simp add: ring_add_def Let_def idx)
  show "i \<in># L \<Longrightarrow> ring_rep w (ring_remove r i) (L - {#i#}) hi"
    by (rule ring_remove_rep [OF rep])
  assume now: "hi \<le> now sdiv w_bucket w"
  show "ring_count r now = int (size (filter_mset (\<lambda>i. now sdiv w_bucket w -
      (w_length w sdiv w_bucket w + 1) < i \<and> i \<le> now sdiv w_bucket w) L))"
    using ring_count_rep [OF rep, of now] now by (simp only: idx sz)
  show "ring_rep w (fst (ring_add r now)) (add_mset (now sdiv w_bucket w) L) (now sdiv w_bucket w)"
    using ring_add_rep [OF rep, of now] now by (simp only: idx)
qed (rule sdiv_mono [OF _ assms])

interpretation minute_ring: sliding_counter "\<lambda>t. t sdiv w_bucket minuteWindow"
  "w_length minuteWindow sdiv w_bucket minuteWindow + 1" ring_count ring_add ring_remove "ring_rep minuteWindow"
  by (rule ring_sliding_counter) (simp add: minuteWindow_def duration_defs)

interpretation hour_ring: sliding_counter "\<lambda>t. t sdiv w_bucket hourWindow"
  "w_length hourWindow sdiv w_bucket hourWindow + 1" ring_count ring_add ring_remove "ring_rep hourWindow"
  by (rule ring_sliding_counter) (simp add: hourWindow_def duration_defs)

interpretation day_ring: sliding_counter "\<lambda>t. t sdiv w_bucket dayWindow"
  "w_length dayWindow sdiv w_bucket dayWindow + 1" ring_count ring_add ring_remove "ring_rep dayWindow"
  by (rule ring_sliding_counter) (simp add: dayWindow_def duration_defs)

section \<open>Histories\<close>

abbreviation within_window :: "window \<Rightarrow> int \<Rightarrow> int multiset \<Rightarrow> bool" where
  "within_window w \<equiv> sliding_counter.within (w_length w sdiv w_bucket w + 1)"

definition msg_log :: "window \<Rightarrow> message list \<Rightarrow> int multiset" where
  "msg_log w ms = image_mset (\<lambda>m. m_at m sdiv w_bucket w) (mset (filter (\<lambda>m. \<not> m_released m) ms))"

definition window_inv :: "limits \<Rightarrow> time \<Rightarrow> message list \<Rightarrow> window \<Rightarrow> ring \<Rightarrow> bool" where
  "window_inv l t ms w r \<longleftrightarrow> ring_rep w r (msg_log w ms) (t sdiv w_bucket w) \<and>
     within_window w (max 0 (window_limit w l)) (msg_log w ms)"

definition message_ok :: "message \<Rightarrow> bool" where
  "message_ok m \<longleftrightarrow> indexes (m_res m) = map (\<lambda>w. m_at m sdiv w_bucket w) windows \<and>
     (m_released m \<longrightarrow> finished (m_res m))"

definition relay_inv :: "limits \<Rightarrow> time \<Rightarrow> relay_state \<Rightarrow> bool" where
  "relay_inv l t s \<longleftrightarrow> list_all2 (window_inv l t (taken s)) windows (rings (counters s)) \<and>
     (\<forall>m \<in> set (taken s). message_ok m) \<and>
     0 \<le> connections (counters s) \<and> connections (counters s) \<le> max 0 (Connections l)"

lemma windows_pos: "w \<in> set windows \<Longrightarrow> 0 < w_bucket w \<and> 0 \<le> w_length w"
  by (auto simp: windows_def minuteWindow_def hourWindow_def dayWindow_def duration_defs)

lemma ring_rep_later:
  assumes "ring_rep w r L hi" "hi \<le> hi'"
  shows "ring_rep w r L hi'"
proof -
  have "int (count L i) = held r i" if "hi' - ring_size r < i" for i
    using ring_rep_held [OF assms(1), of i] that assms(2) by linarith
  with assms show ?thesis by (auto simp: ring_rep_def intro: order_trans)
qed

lemma newRing_rep:
  assumes "0 < w_bucket w" "0 \<le> w_length w"
  shows "ring_rep w (newRing w) {#} hi"
proof -
  have "0 \<le> w_length w div w_bucket w" using assms by (simp add: pos_imp_zdiv_nonneg_iff)
  then have sz: "ring_size (newRing w) = w_length w sdiv w_bucket w + 1"
    using assms by (simp add: newRing_def ring_size_def)
  have "0 < ring_size (newRing w)" using sz assms \<open>0 \<le> w_length w div w_bucket w\<close> by simp
  then have "held (newRing w) i = 0" for i
    using slot_less [of "newRing w" i] by (auto simp: held_def newRing_def Let_def)
  then show ?thesis
    using assms sz by (auto simp: ring_rep_def) (auto simp: newRing_def)
qed

lemma msg_log_append: "msg_log w (ms @ [m]) =
    (if m_released m then msg_log w ms else add_mset (m_at m sdiv w_bucket w) (msg_log w ms))"
  by (simp add: msg_log_def)

lemma msg_log_update:
  assumes "k < length ms" "m_at m = m_at (ms ! k)" "m_released (ms ! k) \<longrightarrow> m_released m"
  shows "msg_log w (ms[k := m]) =
    (if m_released m \<and> \<not> m_released (ms ! k) then msg_log w ms - {#m_at m sdiv w_bucket w#} else msg_log w ms)"
proof -
  have "msg_log w (take k ms @ x # drop (Suc k) ms) = msg_log w (take k ms) + msg_log w (drop (Suc k) ms) +
      (if m_released x then {#} else {#m_at x sdiv w_bucket w#})" for x
    by (simp add: msg_log_def)
  from this [of m] this [of "ms ! k"] show ?thesis
    using assms by (auto simp: upd_conv_take_nth_drop id_take_nth_drop [OF assms(1), symmetric])
qed

lemma relay_inv_later: "relay_inv l s t \<Longrightarrow> s \<le> u \<Longrightarrow> relay_inv l u t"
  unfolding relay_inv_def window_inv_def
  by (auto elim!: list.rel_mono_strong intro: ring_rep_later sdiv_mono dest: windows_pos)

lemma window_inv_reserve:
  assumes w: "0 < w_bucket w" and inv: "window_inv l t ms w r" and now: "t \<le> now"
    and room: "ring_count r now < window_limit (r_window r) l"
  shows "window_inv l now (ms @ [\<lparr>m_at = now, m_res = res, m_released = False\<rparr>]) w (fst (ring_add r now))"
proof -
  note sc = ring_sliding_counter [OF w]
  from inv have rep: "ring_rep w r (msg_log w ms) (t sdiv w_bucket w)"
    and lim: "within_window w (max 0 (window_limit w l)) (msg_log w ms)"
    by (auto simp: window_inv_def)
  have le: "t sdiv w_bucket w \<le> now sdiv w_bucket w" using now w by (rule sdiv_mono)
  have "r_window r = w" using rep by (simp add: ring_rep_def)
  then have "ring_count r now < max 0 (window_limit w l)" using room by auto
  then show ?thesis
    using sliding_counter.within_add [OF sc rep le lim] sliding_counter.rep_add [OF sc rep le]
    by (simp add: window_inv_def msg_log_append)
qed

lemma reserve_inv:
  assumes inv: "relay_inv l t s" and now: "t \<le> now"
  shows "relay_inv l now (relay_step l s (Reserve now))"
proof (cases "find (\<lambda>r. ring_count r now \<ge> window_limit (r_window r) l) (rings (counters s))")
  case (Some r)
  then show ?thesis using relay_inv_later [OF inv now] by (simp add: reserve_def)
next
  case None
  define m where "m = \<lparr>m_at = now, m_res = \<lparr>indexes = map (\<lambda>r. snd (ring_add r now)) (rings (counters s)),
      finished = False\<rparr>, m_released = False\<rparr>"
  have room: "\<And>r. r \<in> set (rings (counters s)) \<Longrightarrow> ring_count r now < window_limit (r_window r) l"
    using None by (auto simp: find_None_iff)
  have wins: "list_all2 (window_inv l t (taken s)) windows (rings (counters s))"
    using inv by (simp add: relay_inv_def)
  have "list_all2 (window_inv l now (taken s @ [m])) windows (map (\<lambda>r. fst (ring_add r now)) (rings (counters s)))"
    unfolding list.rel_map(2) m_def
    by (rule list.rel_mono_strong [OF wins]) (use room now windows_pos in \<open>blast intro: window_inv_reserve\<close>)
  moreover have "map (\<lambda>r. snd (ring_add r now)) (rings (counters s)) = map (\<lambda>w. now sdiv w_bucket w) windows"
    using wins
    by (auto simp: list_eq_iff_nth_eq list_all2_conv_all_nth window_inv_def ring_add_def Let_def ring_rep_indexOf)
  ultimately show ?thesis
    using inv None by (simp add: reserve_def relay_inv_def comp_def m_def message_ok_def)
qed

lemma window_inv_released:
  assumes w: "0 < w_bucket w" and inv: "window_inv l t ms w r"
    and k: "k < length ms" "m_at m = m_at (ms ! k)" "m_released m" "\<not> m_released (ms ! k)"
  shows "window_inv l t (ms[k := m]) w (ring_remove r (m_at (ms ! k) sdiv w_bucket w))"
proof -
  note sc = ring_sliding_counter [OF w]
  have "ms ! k \<in> set (filter (\<lambda>m. \<not> m_released m) ms)" using k by simp
  then have "m_at (ms ! k) sdiv w_bucket w \<in># msg_log w ms" by (auto simp: msg_log_def)
  then show ?thesis
    using inv k sliding_counter.rep_remove [OF sc] sliding_counter.within_remove [OF sc]
    by (simp add: window_inv_def msg_log_update)
qed

lemma message_update_ok: "\<forall>m \<in> set ms. message_ok m \<Longrightarrow> message_ok m' \<Longrightarrow> \<forall>m \<in> set (ms[k := m']). message_ok m"
  using set_update_subset_insert [of ms k m'] by blast

lemma release_inv:
  assumes inv: "relay_inv l t s" and k: "k < length (taken s)"
  shows "relay_inv l t (release_message s k)"
proof (cases "finished (m_res (taken s ! k))")
  case True
  have "(taken s)[k := taken s ! k] = taken s" by simp
  with True inv show ?thesis by (simp add: release_message_def release_def Let_def)
next
  case False
  let ?m = "taken s ! k"
  define m where "m = ?m\<lparr>m_res := (m_res ?m)\<lparr>finished := True\<rparr>, m_released := True\<rparr>"
  have ok: "message_ok ?m" using inv k by (simp add: relay_inv_def)
  with False have unrel: "\<not> m_released ?m" by (auto simp: message_ok_def)
  have "list_all2 (window_inv l t (taken s)) windows (rings (counters s))"
    using inv by (simp add: relay_inv_def)
  then have "list_all2 (window_inv l t ((taken s)[k := m])) windows
      (map2 ring_remove (rings (counters s)) (map (\<lambda>w. m_at ?m sdiv w_bucket w) windows))"
    using windows_pos k unrel
    by (auto simp: list_all2_conv_all_nth m_def intro!: window_inv_released)
  moreover have "\<forall>m \<in> set ((taken s)[k := m]). message_ok m"
    using inv ok by (intro message_update_ok) (auto simp: relay_inv_def message_ok_def m_def)
  ultimately show ?thesis
    using inv ok False by (simp add: release_message_def release_def relay_inv_def message_ok_def m_def Let_def)
qed

lemma keep_inv:
  assumes inv: "relay_inv l t s" and k: "k < length (taken s)"
  shows "relay_inv l t (keep_message s k now n msize)"
proof -
  let ?m = "taken s ! k"
  let ?m' = "?m\<lparr>m_res := (m_res ?m)\<lparr>finished := True\<rparr>\<rparr>"
  have "message_ok ?m" using inv k by (simp add: relay_inv_def)
  then have "\<forall>m \<in> set ((taken s)[k := ?m']). message_ok m"
    using inv by (intro message_update_ok) (auto simp: relay_inv_def message_ok_def)
  moreover have "window_inv l t ((taken s)[k := ?m']) = window_inv l t (taken s)"
    using k by (simp add: fun_eq_iff window_inv_def msg_log_update)
  ultimately show ?thesis
    using inv by (simp add: keep_message_def keep_def relay_inv_def Let_def)
qed

lemma relay_step_inv:
  assumes "relay_inv l t s" and "\<forall>u \<in> set (reserve_times [e]). t \<le> u \<and> u \<le> t'" and "t \<le> t'"
  shows "relay_inv l t' (relay_step l s e)"
proof (cases e)
  case (Reserve now)
  then have "relay_inv l now (relay_step l s e)" "now \<le> t'"
    using assms reserve_inv by auto
  then show ?thesis by (rule relay_inv_later)
next
  case (Release k)
  then show ?thesis using assms release_inv relay_inv_later by simp
next
  case (Keep k now n msize)
  then show ?thesis using assms keep_inv relay_inv_later by simp
next
  case Acquire
  then show ?thesis using relay_inv_later [OF assms(1,3)] by (auto simp: relay_inv_def acquire_def)
next
  case ReleaseConnection
  then show ?thesis using relay_inv_later [OF assms(1,3)] by (auto simp: relay_inv_def releaseConnection_def)
qed (use relay_inv_later [OF assms(1,3)] in
    \<open>simp_all add: relay_inv_def countRejected_def countUpstreamFailure_def countAuthFailure_def\<close>)

lemma reserve_times_append: "reserve_times (es @ fs) = reserve_times es @ reserve_times fs"
  by (induction es rule: reserve_times.induct) auto

lemma relay_run_inv:
  "sorted (reserve_times es) \<Longrightarrow> \<forall>u \<in> set (reserve_times es). u \<le> t \<Longrightarrow> relay_inv l t (relay_run l es)"
proof (induction es arbitrary: t rule: rev_induct)
  case Nil
  have "list_all2 (window_inv l t []) windows (map newRing windows)"
    using windows_pos
    by (auto simp: list_all2_conv_all_nth window_inv_def msg_log_def newRing_rep
        sliding_counter.within_empty [OF ring_sliding_counter] simp del: sdiv_nonneg)
  then show ?case by (simp add: relay_run_def relay_inv_def newOrgCounters_def)
next
  case (snoc e es)
  define u where "u = (case reserve_times [e] of [] \<Rightarrow> t | v # _ \<Rightarrow> v)"
  have u: "u \<le> t" "\<forall>v \<in> set (reserve_times [e]). u \<le> v \<and> v \<le> t" "\<forall>v \<in> set (reserve_times es). v \<le> u"
    using snoc.prems by (cases e; auto simp: u_def reserve_times_append sorted_append)+
  have "relay_inv l u (relay_run l es)"
    using snoc.IH [of u] snoc.prems u by (simp add: reserve_times_append sorted_append)
  then show ?case
    using relay_step_inv u by (simp add: relay_run_def)
qed

section \<open>Properties\<close>

lemma bucket_of_recent:
  assumes "0 < b" "0 \<le> len" "b dvd len" "t - len < (u :: int)" "u \<le> t"
  shows "t sdiv b - (len sdiv b + 1) < u sdiv b \<and> u sdiv b \<le> t sdiv b"
proof -
  obtain k where len: "len = b * k" using assms(3) by (elim dvdE)
  have k: "0 \<le> k" using assms(1,2) len by (simp add: zero_le_mult_iff)
  have "t sdiv b - k \<le> (t - len) sdiv b"
  proof (cases "0 \<le> t"; cases "0 \<le> t - len")
    assume "0 \<le> t" "\<not> 0 \<le> t - len"
    then have "(len - t) div b \<le> k - t div b"
      using assms(1) len div_mult_self2 [of b "- t" k] zdiv_zminus1_eq_if [of b t] by (auto simp: algebra_simps)
    then show ?thesis using \<open>0 \<le> t\<close> \<open>\<not> 0 \<le> t - len\<close> assms(1) by (simp add: sdiv_neg)
  next
    assume "\<not> 0 \<le> t" "\<not> 0 \<le> t - len"
    then show ?thesis using assms(1) len div_mult_self2 [of b "- t" k] by (simp add: sdiv_neg algebra_simps)
  qed (use assms len k div_mult_self2 [of b t "- k"] in auto)
  also have "\<dots> \<le> u sdiv b" using assms by (intro sdiv_mono) auto
  finally show ?thesis using assms len sdiv_mono [of u t b] by auto
qed

lemma counted_within_log:
  assumes "w \<in> set windows"
  shows "length (counted_within s (t - w_length w) t) \<le>
    size (filter_mset (\<lambda>i. t sdiv w_bucket w - (w_length w sdiv w_bucket w + 1) < i \<and> i \<le> t sdiv w_bucket w)
      (msg_log w (taken s)))"
proof -
  have "w_bucket w dvd w_length w"
    using assms by (auto simp: windows_def minuteWindow_def hourWindow_def dayWindow_def duration_defs)
  note recent = bucket_of_recent [OF _ _ this, of t]
  let ?W = "\<lambda>i. t sdiv w_bucket w - (w_length w sdiv w_bucket w + 1) < i \<and> i \<le> t sdiv w_bucket w"
  have "length (counted_within s (t - w_length w) t) =
      size (filter_mset (\<lambda>m. \<not> m_released m \<and> t - w_length w < m_at m \<and> m_at m \<le> t) (mset (taken s)))"
    by (simp add: counted_within_def mset_filter [symmetric] del: mset_filter)
  also have "\<dots> \<le> size (filter_mset (\<lambda>m. \<not> m_released m \<and> ?W (m_at m sdiv w_bucket w)) (mset (taken s)))"
    by (rule size_filter_weaken) (use windows_pos [OF assms] recent in blast)
  also have "\<dots> = size (filter_mset ?W (msg_log w (taken s)))"
    by (simp add: msg_log_def filter_mset_image_mset filter_filter_mset conj_commute)
  finally show ?thesis .
qed

text \<open>
  C1. The limit holds for every sliding window: in any history of one organization in which the clock
  does not go back between reservations, and whatever is reserved, given back, kept, refused or
  connected in whatever order, at every moment \<open>t\<close> the messages that were taken within the last
  minute (hour, day) and not given back are at most the organization's limit for that window.
\<close>
theorem window_never_exceeds_limit:
  assumes "sorted (reserve_times es)" and "w \<in> set windows"
  shows "int (length (counted_within (relay_run l es) (t - w_length w) t)) \<le> max 0 (window_limit w l)"
proof -
  have w: "0 < w_bucket w" using windows_pos [OF assms(2)] by simp
  define u where "u = Max (insert 0 (set (reserve_times es)))"
  have "relay_inv l u (relay_run l es)"
    using assms(1) by (intro relay_run_inv) (auto simp: u_def)
  then obtain r where "window_inv l u (taken (relay_run l es)) w r"
    using assms(2) by (auto simp: relay_inv_def list_all2_conv_all_nth in_set_conv_nth)
  then have "within_window w (max 0 (window_limit w l)) (msg_log w (taken (relay_run l es)))"
    by (simp add: window_inv_def)
  then show ?thesis
    using counted_within_log [OF assms(2), of "relay_run l es" t]
    unfolding sliding_counter.within_def [OF ring_sliding_counter [OF w]]
    by (meson of_nat_mono order_trans)
qed

definition demo_limits :: limits where
  "demo_limits = \<lparr>MessagesPerMinute = 2, MessagesPerHour = 3, MessagesPerDay = 10,
     RecipientsPerMessage = 5, MaxMessageBytes = 1000, Connections = 1\<rparr>"

definition demo_history :: "relay_event list" where
  "demo_history = [Reserve 0, Reserve Second, Reserve (2 * Second), Release 0, Reserve (3 * Second)]"

theorem window_never_exceeds_limit_witness:
  "sorted (reserve_times demo_history) \<and> minuteWindow \<in> set windows \<and>
   int (length (counted_within (relay_run demo_limits demo_history) (Minute - w_length minuteWindow) Minute)) \<le>
     max 0 (window_limit minuteWindow demo_limits)"
proof -
  have h: "sorted (reserve_times demo_history)" "minuteWindow \<in> set windows"
    by (simp_all add: demo_history_def windows_def duration_defs)
  show ?thesis using h window_never_exceeds_limit [OF h, of demo_limits Minute] by blast
qed

lemma taken_times: "m \<in> set (taken (relay_run l es)) \<Longrightarrow> m_at m \<in> set (reserve_times es)"
proof (induction es arbitrary: m rule: rev_induct)
  case Nil
  then show ?case by (simp add: relay_run_def)
next
  case (snoc e es)
  let ?s = "relay_run l es"
  have upd: "m \<in> set ((taken ?s)[k := x]) \<Longrightarrow> m_at x = m_at (taken ?s ! k) \<Longrightarrow> k < length (taken ?s) \<Longrightarrow>
      \<exists>m' \<in> set (taken ?s). m_at m = m_at m'" for k x
    using set_update_subset_insert [of "taken ?s" k x] by (metis insertE nth_mem subsetD)
  have step: "m \<in> set (taken (relay_step l ?s e))"
    using snoc.prems by (simp add: relay_run_def)
  have "(\<exists>m' \<in> set (taken ?s). m_at m = m_at m') \<or> m_at m \<in> set (reserve_times [e])"
  proof (cases e)
    case (Reserve now)
    with step show ?thesis
      by (auto simp: reserve_def Let_def split: option.splits)
  next
    case (Release k)
    with step upd [of k] show ?thesis
      by (auto simp: release_message_def release_def Let_def split: if_splits)
  next
    case (Keep k now n msize)
    with step upd [of k] show ?thesis
      by (auto simp: keep_message_def keep_def Let_def split: if_splits)
  qed (use step in auto)
  with snoc.IH show ?case by (auto simp: reserve_times_append)
qed

lemma recent_of_bucket:
  assumes "0 < b" "0 \<le> len" "b dvd len" "0 \<le> u" "u \<le> (t :: int)" "t sdiv b - (len sdiv b + 1) < u sdiv b"
  shows "t - (len + b) < u"
proof -
  obtain k where len: "len = b * k" using assms(3) by (elim dvdE)
  have "t div b - k \<le> u div b" using assms len by auto
  then have "b * (t div b) - b * k \<le> b * (u div b)"
    using assms(1) by (metis mult_left_mono right_diff_distrib less_imp_le)
  moreover have "b * (u div b) \<le> u" "t < b * (t div b) + b"
    using assms(1) mult_div_mod_eq [of b t] mult_div_mod_eq [of b u] pos_mod_bound [of b t] pos_mod_sign [of b u]
    by linarith+
  ultimately show ?thesis using len by linarith
qed

text \<open>
  C2. A message is refused only at the limit: when \<open>reserve\<close> turns a message away for a window, the
  counters are left as they were, the window is one of the three, and the messages taken within that
  window's length and one bucket more, and not given back, are already as many as its limit.
\<close>
theorem reserve_refuses_only_at_limit:
  assumes "sorted (reserve_times es)" and "\<forall>u \<in> set (reserve_times es). 0 \<le> u \<and> u \<le> now"
    and "s = relay_run l es" and "snd (reserve (counters s) now l) = (None, Some w)"
  shows "fst (reserve (counters s) now l) = counters s \<and> w \<in> set windows \<and>
    window_limit w l \<le> int (length (counted_within s (now - (w_length w + w_bucket w)) now))"
proof -
  obtain r where find: "find (\<lambda>r. ring_count r now \<ge> window_limit (r_window r) l) (rings (counters s)) = Some r"
    and w: "w = r_window r" and c: "fst (reserve (counters s) now l) = counters s"
    using assms(4) by (auto simp: reserve_def Let_def split: option.splits)
  have "relay_inv l now s"
    unfolding assms(3) using assms(1,2) by (intro relay_run_inv) auto
  moreover have r: "r \<in> set (rings (counters s))" "window_limit w l \<le> ring_count r now"
    using find w by (auto simp: find_Some_iff)
  ultimately have win: "window_inv l now (taken s) w r" "w \<in> set windows"
    using w by (auto simp: relay_inv_def list_all2_conv_all_nth in_set_conv_nth window_inv_def ring_rep_def)
  note pos = windows_pos [OF win(2)]
  let ?W = "\<lambda>i. now sdiv w_bucket w - (w_length w sdiv w_bucket w + 1) < i \<and> i \<le> now sdiv w_bucket w"
  have dvd: "w_bucket w dvd w_length w"
    using win(2) by (auto simp: windows_def minuteWindow_def hourWindow_def dayWindow_def duration_defs)
  have "ring_count r now = int (size (filter_mset ?W (msg_log w (taken s))))"
    using sliding_counter.rep_count [OF ring_sliding_counter, of w r _ "now sdiv w_bucket w" now] pos win(1)
    by (simp add: window_inv_def)
  also have "size (filter_mset ?W (msg_log w (taken s))) =
      size (filter_mset (\<lambda>m. \<not> m_released m \<and> ?W (m_at m sdiv w_bucket w)) (mset (taken s)))"
    by (simp add: msg_log_def filter_mset_image_mset filter_filter_mset conj_commute)
  also have "\<dots> \<le> size (filter_mset (\<lambda>m. \<not> m_released m \<and> now - (w_length w + w_bucket w) < m_at m
      \<and> m_at m \<le> now) (mset (taken s)))"
  proof (rule size_filter_weaken)
    fix m assume "m \<in># mset (taken s)" "\<not> m_released m \<and> ?W (m_at m sdiv w_bucket w)"
    then show "\<not> m_released m \<and> now - (w_length w + w_bucket w) < m_at m \<and> m_at m \<le> now"
      using recent_of_bucket [OF _ _ dvd, of "m_at m" now] pos assms(2,3) taken_times by fastforce
  qed
  also have "\<dots> = length (counted_within s (now - (w_length w + w_bucket w)) now)"
    by (simp add: counted_within_def mset_filter [symmetric] del: mset_filter)
  finally show ?thesis using c win(2) r(2) by linarith
qed

text \<open>A concrete history: one message is taken at the epoch, and the next is refused a second later.\<close>

definition one_limits :: limits where
  "one_limits = \<lparr>MessagesPerMinute = 1, MessagesPerHour = 3, MessagesPerDay = 10,
     RecipientsPerMessage = 5, MaxMessageBytes = 1000, Connections = 1\<rparr>"

lemma newRing_count: "ring_count (newRing w) now = 0"
  by (simp add: ring_count_def newRing_def Let_def sum_list_replicate)

lemma newRing_window [simp]: "r_window (newRing w) = w"
  by (simp add: newRing_def)

lemma one_message_taken:
  "rings (counters (relay_run one_limits [Reserve 0])) = map (\<lambda>w. fst (ring_add (newRing w) 0)) windows"
proof -
  have "find (\<lambda>r. ring_count r 0 \<ge> window_limit (r_window r) one_limits) (map newRing windows) = None"
    by (auto simp: find_None_iff newRing_count windows_def window_limit_def one_limits_def)
  then show ?thesis
    by (simp add: relay_run_def reserve_def newOrgCounters_def Let_def comp_def)
qed

lemma one_message_counted: "ring_count (fst (ring_add (newRing minuteWindow) 0)) Second = 1"
proof -
  have rep: "ring_rep minuteWindow (newRing minuteWindow) {#} 0"
    by (rule newRing_rep) (simp_all add: minuteWindow_def duration_defs)
  show ?thesis
    using minute_ring.rep_count [OF minute_ring.rep_add [OF rep, of 0], of Second]
    by (simp add: minuteWindow_def duration_defs)
qed

theorem reserve_refuses_only_at_limit_witness:
  "window_limit minuteWindow one_limits \<le> int (length (counted_within (relay_run one_limits [Reserve 0])
     (Second - (w_length minuteWindow + w_bucket minuteWindow)) Second))"
proof -
  have "sorted (reserve_times [Reserve 0])" "\<forall>u \<in> set (reserve_times [Reserve 0]). 0 \<le> u \<and> u \<le> Second"
    by (simp_all add: duration_defs)
  moreover have "r_window (fst (ring_add (newRing minuteWindow) 0)) = minuteWindow"
    by (simp add: ring_add_def Let_def)
  then have "snd (reserve (counters (relay_run one_limits [Reserve 0])) Second one_limits) = (None, Some minuteWindow)"
    by (simp add: reserve_def one_message_taken windows_def one_message_counted)
      (simp add: window_limit_def one_limits_def)
  ultimately show ?thesis
    using reserve_refuses_only_at_limit [OF _ _ refl] by blast
qed

text \<open>
  The connections an organization holds are never negative and never more than its limit, after
  any sequence of the relay's operations (the limit being that of every \<open>acquire\<close>).
\<close>
theorem connections_within_limit:
  "0 \<le> connections (counters (relay_run l es)) \<and>
   connections (counters (relay_run l es)) \<le> max 0 (Connections l)"
proof (induction es rule: rev_induct)
  case Nil
  then show ?case by (simp add: relay_run_def newOrgCounters_def)
next
  case (snoc e es)
  then show ?case
    by (cases e) (auto simp: relay_run_def reserve_def release_message_def release_def keep_message_def keep_def
        acquire_def releaseConnection_def countRejected_def countUpstreamFailure_def countAuthFailure_def Let_def
        split: option.splits)
qed

end
