(* ===== verification/Kube_Types.thy ===== *)
theory Kube_Types
  imports Go_Prelude
begin

section \<open>The Kubernetes objects the operator reads\<close>

text \<open>
  Pods, nodes and Deployments are structs of \<open>k8s.io/api\<close>, which is not part of the repository. Each
  is a record of the fields that the modelled code reads or writes. A pointer that may be nil is an
  \<open>option\<close>; an enumeration that Kubernetes spells as a string is a string; a \<open>resource.Quantity\<close> is the
  record of what its two methods that the code calls return (\<open>MilliValue\<close> and \<open>Value\<close>), and
  \<open>p_controller\<close> is the kind of what \<open>metav1.GetControllerOf\<close> returns.
\<close>

text \<open>The errors of a call of the API server that callers tell apart, where they only read and write one kind of object.\<close>

datatype kube_error = KNotFound | KAlreadyExists | KConflict | KOther string

record quantity =
  MilliValue :: int
  QValue :: int

type_synonym resource_list = "(string \<times> quantity) list"

text \<open>Reading a key a map does not have gives the zero quantity.\<close>

definition rl_get :: "resource_list \<Rightarrow> string \<Rightarrow> quantity" where
  "rl_get rl k = (case map_of rl k of None \<Rightarrow> \<lparr>MilliValue = 0, QValue = 0\<rparr> | Some q \<Rightarrow> q)"

abbreviation ResourceCPU :: string where "ResourceCPU \<equiv> ''cpu''"
abbreviation ResourceMemory :: string where "ResourceMemory \<equiv> ''memory''"

record container =
  c_requests :: resource_list
  c_limits :: resource_list
  c_restart_policy :: "string option"

record toleration =
  tol_key :: string
  tol_operator :: string
  tol_value :: string
  tol_effect :: string

record taint =
  t_key :: string
  t_value :: string
  t_effect :: string

abbreviation TaintEffectNoSchedule :: string where "TaintEffectNoSchedule \<equiv> ''NoSchedule''"
abbreviation TaintEffectNoExecute :: string where "TaintEffectNoExecute \<equiv> ''NoExecute''"
abbreviation TolerationOpExists :: string where "TolerationOpExists \<equiv> ''Exists''"

record node_selector_requirement =
  nsr_key :: string
  nsr_operator :: string
  nsr_values :: "string list"

record node_selector_term =
  MatchExpressions :: "node_selector_requirement list"
  MatchFields :: "node_selector_requirement list"

record volume =
  v_claim :: "string option"
  v_host_path :: bool
  v_empty_dir :: "string option" \<comment> \<open>the medium\<close>

record condition =
  cond_type :: string
  cond_status :: string
  cond_reason :: string
  cond_message :: string
  cond_transition :: time

record container_status =
  cs_running_since :: "time option"
  cs_restarts :: int

record pod =
  p_uid :: string
  p_name :: string
  p_namespace :: string
  p_annotations :: labels
  p_deleting :: bool
  p_controller :: "string option"
  p_node_name :: string
  p_node_selector :: labels
  p_affinity :: "node_selector_term list option"
  p_tolerations :: "toleration list"
  p_init_containers :: "container list"
  p_containers :: "container list"
  p_overhead :: resource_list
  p_resources :: "resource_list option" \<comment> \<open>the requests set for the pod as a whole\<close>
  p_volumes :: "volume list"
  p_phase :: string
  p_conditions :: "condition list"
  p_start_time :: "time option"
  p_container_statuses :: "container_status list"

abbreviation PodPending :: string where "PodPending \<equiv> ''Pending''"
abbreviation PodRunning :: string where "PodRunning \<equiv> ''Running''"
abbreviation PodSucceeded :: string where "PodSucceeded \<equiv> ''Succeeded''"
abbreviation PodFailed :: string where "PodFailed \<equiv> ''Failed''"
abbreviation ConditionTrue :: string where "ConditionTrue \<equiv> ''True''"
abbreviation ConditionFalse :: string where "ConditionFalse \<equiv> ''False''"

record node =
  n_name :: string
  n_labels :: labels
  n_annotations :: labels
  n_unschedulable :: bool
  n_taints :: "taint list"
  n_allocatable :: resource_list
  n_conditions :: "condition list"

abbreviation NodeReady :: string where "NodeReady \<equiv> ''Ready''"

text \<open>A node with nothing but a name, for examples and for the node a placement is applied to.\<close>

definition empty_node :: "string \<Rightarrow> node" where
  "empty_node name = \<lparr>n_name = name, n_labels = [], n_annotations = [], n_unschedulable = False,
     n_taints = [], n_allocatable = [], n_conditions = []\<rparr>"

text \<open>A pod that asks for so much CPU and memory, for examples.\<close>

definition plain_pod :: "string \<Rightarrow> int \<Rightarrow> int \<Rightarrow> pod" where
  "plain_pod name cpu mem = \<lparr>p_uid = name, p_name = name, p_namespace = ''default'', p_annotations = [],
     p_deleting = False, p_controller = Some ''ReplicaSet'', p_node_name = [], p_node_selector = [],
     p_affinity = None, p_tolerations = [], p_init_containers = [],
     p_containers = [\<lparr>c_requests = [(ResourceCPU, \<lparr>MilliValue = cpu, QValue = 0\<rparr>),
         (ResourceMemory, \<lparr>MilliValue = 0, QValue = mem\<rparr>)], c_limits = [], c_restart_policy = None\<rparr>],
     p_overhead = [], p_resources = None, p_volumes = [], p_phase = PodPending, p_conditions = [], p_start_time = None,
     p_container_statuses = []\<rparr>"

end
