(* ===== verification/Abuse_Signal.thy ===== *)
theory Abuse_Signal
  imports Kube_Types Complex_Main
begin

section \<open>The sustained-CPU abuse signal (pkg/abuse)\<close>

text \<open>
  \<open>window.go\<close> (samples, runs and \<open>Observe\<close>), \<open>abuse.go\<close> (the settings and an organization's policy),
  \<open>state.go\<close> (the runs that are kept) and \<open>measure.go\<close> (a sample of a service). A \<open>float64\<close> is the
  rational number it stands for; the digest of the copies' identities (SHA-256, in hexadecimal) is
  the argument \<open>digest\<close> of \<open>Measure\<close>.

  \<open>observe_all\<close> feeds a service's samples to \<open>Observe\<close> one after the other, as the detector does once
  a minute. What a run stands for is said without it: \<open>streak\<close>, an unbroken string of samples that
  count, and the theorems relate the two.
\<close>

subsection \<open>Samples, runs and settings\<close>

record sample =
  At :: time
  Measured :: bool
  Why :: string
  Pods :: string
  UsedMilli :: int
  AllowedMilli :: int
  TrafficKnown :: bool
  RequestsPerMinute :: rat

definition Permille :: "sample \<Rightarrow> int" where
  "Permille s = (if AllowedMilli s \<le> 0 then 0 else wrap64 (UsedMilli s * 1000) sdiv AllowedMilli s)"

record run =
  Since :: time
  Last :: time
  Samples :: int
  SumPermille :: int
  MinPermille :: int
  RunPods :: string
  Blind :: bool

record quiet =
  MaxRequestsPerMinute :: rat
  BlindThresholdPercent :: int
  BlindWindow :: duration

record params =
  ThresholdPercent :: int
  Window :: duration
  Quiet :: "quiet option"

definition MaxGap :: duration where "MaxGap = 3 * Minute"
definition SettleTime :: duration where "SettleTime = 3 * Minute"
definition MaxWindow :: duration where "MaxWindow = 24 * Hour"
definition MaxRuns :: nat where "MaxRuns = 2000"
definition DefaultThresholdPercent :: int where "DefaultThresholdPercent = 90"
definition DefaultBlindThresholdPercent :: int where "DefaultBlindThresholdPercent = 95"
definition DefaultWindow :: duration where "DefaultWindow = 30 * Minute"
definition DefaultReviewExemption :: duration where "DefaultReviewExemption = 30 * 24 * Hour"

definition Lasted :: "run \<Rightarrow> duration" where
  "Lasted r = tsub (Last r) (Since r)"

definition windowFor :: "params \<Rightarrow> run \<Rightarrow> duration" where
  "windowFor p r = (case Quiet p of Some q \<Rightarrow> if Blind r then BlindWindow q else Window p | None \<Rightarrow> Window p)"

definition blind :: "params \<Rightarrow> sample \<Rightarrow> bool" where
  "blind p s = (case Quiet p of None \<Rightarrow> False | Some _ \<Rightarrow> \<not> TrafficKnown s)"

definition thresholdFor :: "params \<Rightarrow> sample \<Rightarrow> int" where
  "thresholdFor p s = (case Quiet p of
       Some q \<Rightarrow> if blind p s then BlindThresholdPercent q * 10 else ThresholdPercent p * 10
     | None \<Rightarrow> ThresholdPercent p * 10)"

definition too_many_requests :: "params \<Rightarrow> sample \<Rightarrow> bool" where
  "too_many_requests p s = (case Quiet p of None \<Rightarrow> False
     | Some q \<Rightarrow> TrafficKnown s \<and> RequestsPerMinute s > MaxRequestsPerMinute q)"

definition starts_over :: "run option \<Rightarrow> sample \<Rightarrow> bool" where
  "starts_over run s = (case run of None \<Rightarrow> True
     | Some r \<Rightarrow> RunPods r \<noteq> Pods s \<or> \<not> Last r < At s \<or> tsub (At s) (Last r) > MaxGap)"

definition Observe :: "run option \<Rightarrow> sample \<Rightarrow> params \<Rightarrow> run option \<times> bool" where
  "Observe run s p =
     (if \<not> Measured s then (None, False)
      else let share = Permille s in
      if share < thresholdFor p s then (None, False)
      else if too_many_requests p s then (None, False)
      else
        let next = (if starts_over run s
              then \<lparr>Since = At s, Last = 0, Samples = 0, SumPermille = 0, MinPermille = share,
                     RunPods = Pods s, Blind = False\<rparr>
              else the run);
            next = next\<lparr>Last := At s, Samples := wrap32 (Samples next + 1),
                     SumPermille := wrap64 (SumPermille next + share),
                     MinPermille := min (MinPermille next) share,
                     Blind := Blind next \<or> blind p s\<rparr>
        in (Some next, Lasted next \<ge> windowFor p next))"

fun observe_all :: "params \<Rightarrow> run option \<Rightarrow> sample list \<Rightarrow> run option \<times> bool" where
  "observe_all p run [] = (run, False)"
| "observe_all p run [s] = Observe run s p"
| "observe_all p run (s # ss) = observe_all p (fst (Observe run s p)) ss"

subsection \<open>Settings and policies\<close>

datatype abuse_action = ActionUnset | ActionNone | ActionSuspend

record abuse_fallback =
  fb_threshold :: int
  fb_window :: int

record quiet_traffic =
  qt_max_requests :: int
  qt_without :: "abuse_fallback option"

record cpu_signal =
  cpu_threshold :: int
  cpu_window :: int
  cpu_quiet :: "quiet_traffic option"

record tenant_abuse =
  ta_cpu :: "cpu_signal option"
  ta_action :: abuse_action
  ta_exemption_days :: int

record settings =
  Params :: params
  Action :: abuse_action
  ReviewExemption :: duration

definition minutes :: "int \<Rightarrow> duration" where
  "minutes n = wrap64 (n * Minute)"

definition quiet_of :: "params \<Rightarrow> quiet_traffic \<Rightarrow> quiet" where
  "quiet_of p qt =
     (let q = \<lparr>MaxRequestsPerMinute = of_int (max (qt_max_requests qt) 0),
               BlindThresholdPercent = max (ThresholdPercent p) DefaultBlindThresholdPercent,
               BlindWindow = min (wrap64 (2 * Window p)) MaxWindow\<rparr>
      in case qt_without qt of None \<Rightarrow> q
         | Some fb \<Rightarrow>
             (let q = (if fb_threshold fb > 0 then q\<lparr>BlindThresholdPercent := min (fb_threshold fb) 100\<rparr> else q)
              in if fb_window fb > 0 then q\<lparr>BlindWindow := min (minutes (fb_window fb)) MaxWindow\<rparr> else q))"

definition SettingsOf :: "tenant_abuse option \<Rightarrow> settings option" where
  "SettingsOf spec = (case spec of None \<Rightarrow> None | Some spec \<Rightarrow>
     (let s = \<lparr>Params = \<lparr>ThresholdPercent = DefaultThresholdPercent, Window = DefaultWindow, Quiet = None\<rparr>,
               Action = ActionNone, ReviewExemption = DefaultReviewExemption\<rparr>;
          s = (if ta_action spec \<noteq> ActionUnset then s\<lparr>Action := ta_action spec\<rparr> else s);
          s = (if ta_exemption_days spec > 0
               then s\<lparr>ReviewExemption := wrap64 (wrap64 (ta_exemption_days spec * 24) * Hour)\<rparr> else s)
      in case ta_cpu spec of None \<Rightarrow> Some s
         | Some cpu \<Rightarrow>
             (let p = Params s;
                  p = (if cpu_threshold cpu > 0 then p\<lparr>ThresholdPercent := min (cpu_threshold cpu) 100\<rparr> else p);
                  p = (if cpu_window cpu > 0 then p\<lparr>Window := min (minutes (cpu_window cpu)) MaxWindow\<rparr> else p);
                  p = (case cpu_quiet cpu of None \<Rightarrow> p | Some qt \<Rightarrow> p\<lparr>Quiet := Some (quiet_of p qt)\<rparr>)
              in Some (s\<lparr>Params := p\<rparr>))))"

text \<open>The ranges the CRD's schema holds the settings to; zero is an unset field.\<close>

definition unset_or :: "int \<Rightarrow> int \<Rightarrow> int \<Rightarrow> bool" where
  "unset_or lo hi x \<longleftrightarrow> x = 0 \<or> lo \<le> x \<and> x \<le> hi"

definition admitted_fallback :: "abuse_fallback \<Rightarrow> bool" where
  "admitted_fallback fb \<longleftrightarrow> unset_or 50 100 (fb_threshold fb) \<and> unset_or 10 1440 (fb_window fb)"

definition admitted_cpu :: "cpu_signal \<Rightarrow> bool" where
  "admitted_cpu cpu \<longleftrightarrow> unset_or 50 100 (cpu_threshold cpu) \<and> unset_or 10 1440 (cpu_window cpu) \<and>
     (case cpu_quiet cpu of None \<Rightarrow> True | Some qt \<Rightarrow> 0 \<le> qt_max_requests qt \<and> qt_max_requests qt \<le> 1000000 \<and>
        (case qt_without qt of None \<Rightarrow> True | Some fb \<Rightarrow> admitted_fallback fb))"

definition admitted :: "tenant_abuse \<Rightarrow> bool" where
  "admitted spec \<longleftrightarrow> unset_or 1 365 (ta_exemption_days spec) \<and>
     (case ta_cpu spec of None \<Rightarrow> True | Some cpu \<Rightarrow> admitted_cpu cpu)"

record org_abuse =
  oa_exempt :: bool
  oa_exempt_projects :: "string list"
  oa_action :: abuse_action

record policy =
  pol_action :: abuse_action
  pol_exempt :: bool
  pol_exempt_projects :: "string list"

definition policy_for :: "settings \<Rightarrow> org_abuse option \<Rightarrow> policy" where
  "policy_for s own = (case own of
       None \<Rightarrow> \<lparr>pol_action = Action s, pol_exempt = False, pol_exempt_projects = []\<rparr>
     | Some own \<Rightarrow> \<lparr>pol_action = (if oa_action own \<noteq> ActionUnset then oa_action own else Action s),
                    pol_exempt = oa_exempt own, pol_exempt_projects = oa_exempt_projects own\<rparr>)"

definition LeavesOut :: "policy \<Rightarrow> string \<Rightarrow> bool" where
  "LeavesOut p project \<longleftrightarrow> pol_exempt p \<or> project \<in> set (pol_exempt_projects p)"

definition Suspends :: "policy \<Rightarrow> bool" where
  "Suspends p \<longleftrightarrow> pol_action p = ActionSuspend"

subsection \<open>The runs that are kept\<close>

definition run_order :: "(string \<times> run) \<Rightarrow> (string \<times> run) \<Rightarrow> int" where
  "run_order a b = cmp_or (cmp_compare (Since (snd a)) (Since (snd b))) (cmp_compare (fst a) (fst b))"

definition bounded :: "(string \<times> run) list \<Rightarrow> (string \<times> run) list" where
  "bounded runs = (if length runs \<le> MaxRuns then runs else take MaxRuns (sort_cmp run_order runs))"

subsection \<open>Measuring a service\<close>

record deployment =
  d_deleting :: bool
  d_generation :: int
  d_spec_replicas :: "int option"
  d_observed_generation :: int
  d_replicas :: int
  d_updated_replicas :: int
  d_ready_replicas :: int

type_synonym pod_usage_milli = "((string \<times> string) \<times> int) list"

definition whyNoDeployment :: string where "whyNoDeployment = ''the service has no Deployment''"
definition whyNoCopies :: string where "whyNoCopies = ''the service has no copies running''"
definition whyChanging :: string where
  "whyChanging = ''the service is rolling out or changing its number of copies''"
definition whySettling :: string where
  "whySettling = ''a copy of the service is starting, or was restarted, less than three minutes ago''"
definition whyNoUse :: string where "whyNoUse = ''the metrics server has not reported what a copy uses''"
definition whyUnbounded :: string where
  "whyUnbounded = ''a container of the service has neither a CPU limit nor a request, so its use is a share of nothing''"

definition settled :: "pod \<Rightarrow> time \<Rightarrow> bool" where
  "settled pod now =
     (let ready = foldl (\<lambda>ready c. if cond_type c = ''Ready'' then cond_status c = ConditionTrue else ready)
                    False (p_conditions pod)
      in case p_start_time pod of None \<Rightarrow> False
         | Some start \<Rightarrow>
             ready \<and> \<not> tsub now start < SettleTime \<and> p_container_statuses pod \<noteq> [] \<and>
             list_all (\<lambda>c. case cs_running_since c of None \<Rightarrow> False
                         | Some started \<Rightarrow> \<not> tsub now started < SettleTime) (p_container_statuses pod))"

definition restarts :: "pod \<Rightarrow> int" where
  "restarts pod = foldl (\<lambda>total c. wrap32 (total + cs_restarts c)) 0 (p_container_statuses pod)"

text \<open>A quantity is zero when its value in thousandths is, because \<open>MilliValue\<close> rounds up.\<close>

fun allowed_sum :: "container list \<Rightarrow> int \<Rightarrow> int option" where
  "allowed_sum [] allowed = Some allowed"
| "allowed_sum (c # cs) allowed =
     (let limit = MilliValue (rl_get (c_limits c) ResourceCPU);
          limit = (if limit = 0 then MilliValue (rl_get (c_requests c) ResourceCPU) else limit)
      in if limit = 0 then None else allowed_sum cs (wrap64 (allowed + limit)))"

definition allowedMilli :: "pod \<Rightarrow> int \<times> bool" where
  "allowedMilli pod =
     (let containers = p_containers pod @
            filter (\<lambda>c. c_restart_policy c = Some ''Always'') (p_init_containers pod)
      in case allowed_sum containers 0 of
           None \<Rightarrow> (0, False)
         | Some allowed \<Rightarrow> (allowed, containers \<noteq> []))"

definition fingerprint :: "pod \<Rightarrow> string" where
  "fingerprint pod = p_uid pod @ '':'' @ itoa (restarts pod)"

text \<open>The loop over the live pods: the sample so far, and the identities of the copies measured.\<close>

fun measure_pods :: "time \<Rightarrow> pod_usage_milli \<Rightarrow> pod list \<Rightarrow> sample \<Rightarrow> string list \<Rightarrow>
    sample + sample \<times> string list" where
  "measure_pods now usage [] s fps = Inr (s, fps)"
| "measure_pods now usage (pod # pods) s fps =
     (if \<not> settled pod now then Inl (s\<lparr>Why := whySettling\<rparr>)
      else case map_of usage (p_namespace pod, p_name pod) of
             None \<Rightarrow> Inl (s\<lparr>Why := whyNoUse\<rparr>)
           | Some use \<Rightarrow>
               (case allowedMilli pod of (allowed, bnd) \<Rightarrow>
                  if \<not> bnd then Inl (s\<lparr>Why := whyUnbounded\<rparr>)
                  else measure_pods now usage pods
                         (s\<lparr>UsedMilli := wrap64 (UsedMilli s + use),
                            AllowedMilli := wrap64 (AllowedMilli s + allowed)\<rparr>)
                         (fps @ [fingerprint pod])))"

definition Measure :: "(string list \<Rightarrow> string) \<Rightarrow> time \<Rightarrow> deployment option \<Rightarrow> pod list \<Rightarrow>
    pod_usage_milli \<Rightarrow> sample" where
  "Measure digest now deploy pods usage =
     (let s = \<lparr>At = now, Measured = False, Why = [], Pods = [], UsedMilli = 0, AllowedMilli = 0,
               TrafficKnown = False, RequestsPerMinute = 0\<rparr>
      in case deploy of None \<Rightarrow> s\<lparr>Why := whyNoDeployment\<rparr>
         | Some d \<Rightarrow>
             if d_deleting d then s\<lparr>Why := whyNoDeployment\<rparr>
             else let wanted = (case d_spec_replicas d of None \<Rightarrow> 1 | Some n \<Rightarrow> n) in
             if wanted = 0 then s\<lparr>Why := whyNoCopies\<rparr>
             else if d_observed_generation d < d_generation d \<or> d_replicas d \<noteq> wanted \<or>
                     d_updated_replicas d \<noteq> wanted \<or> d_ready_replicas d \<noteq> wanted
             then s\<lparr>Why := whyChanging\<rparr>
             else let live = filter (\<lambda>q. \<not> p_deleting q \<and> p_phase q = PodRunning) pods in
             if live = [] then s\<lparr>Why := whyNoCopies\<rparr>
             else if wrap32 (int (length live)) \<noteq> wanted then s\<lparr>Why := whyChanging\<rparr>
             else (case measure_pods now usage live s [] of
                     Inl s \<Rightarrow> s
                   | Inr (s, fps) \<Rightarrow> s\<lparr>Pods := digest (sort fps), Measured := True\<rparr>))"

section \<open>What a run stands for\<close>

text \<open>A sample that counts: it was measured, reaches its threshold and is of a quiet service.\<close>

definition hot :: "params \<Rightarrow> sample \<Rightarrow> bool" where
  "hot p s \<longleftrightarrow> Measured s \<and> thresholdFor p s \<le> Permille s \<and> \<not> too_many_requests p s"

definition follows :: "sample \<Rightarrow> sample \<Rightarrow> bool" where
  "follows a b \<longleftrightarrow> Pods a = Pods b \<and> At a < At b \<and> At b - At a \<le> MaxGap"

fun linked :: "sample list \<Rightarrow> bool" where
  "linked [] = True"
| "linked [s] = True"
| "linked (a # b # ss) = (follows a b \<and> linked (b # ss))"

definition streak :: "params \<Rightarrow> sample list \<Rightarrow> bool" where
  "streak p st \<longleftrightarrow> st \<noteq> [] \<and> list_all (hot p) st \<and> linked st"

text \<open>The run that a streak makes: its span, its evidence and whether it was judged blind.\<close>

definition run_of :: "params \<Rightarrow> sample list \<Rightarrow> run" where
  "run_of p st = \<lparr>Since = At (hd st), Last = At (last st), Samples = wrap32 (int (length st)),
     SumPermille = wrap64 (sum_list (map Permille st)), MinPermille = Min (set (map Permille st)),
     RunPods = Pods (last st), Blind = list_ex (blind p) st\<rparr>"

lemma linked_snoc: "linked (st @ [s]) \<longleftrightarrow> linked st \<and> (st = [] \<or> follows (last st) s)"
  by (induction st rule: linked.induct) auto

lemma streak_snoc: "streak p (st @ [s]) \<longleftrightarrow> hot p s \<and> (st = [] \<or> streak p st \<and> follows (last st) s)"
  by (auto simp: streak_def linked_snoc)

lemma linked_suffix: "linked (xs @ ys) \<Longrightarrow> linked ys"
proof (induction xs)
  case (Cons x xs)
  then show ?case by (cases "xs @ ys") auto
qed simp

lemma streak_suffix: "streak p (xs @ ys) \<Longrightarrow> ys \<noteq> [] \<Longrightarrow> streak p ys"
  by (auto simp: streak_def intro: linked_suffix)

lemma starts_over_run_of: "starts_over (Some (run_of p st)) s \<longleftrightarrow> \<not> follows (last st) s"
  by (auto simp: starts_over_def run_of_def follows_def MaxGap_def duration_defs go_time min_int64_def max_int64_def)

lemma Observe_not_hot: "\<not> hot p s \<Longrightarrow> Observe run s p = (None, False)"
  by (auto simp: Observe_def hot_def Let_def)

lemma Observe_start:
  assumes "hot p s" "starts_over run s"
  shows "Observe run s p = (Some (run_of p [s]), windowFor p (run_of p [s]) \<le> Lasted (run_of p [s]))"
proof -
  have "wrap32 1 = 1" "wrap64 (Permille s) = wrap64 (0 + Permille s)" by (simp_all add: in32_def max_int32_def)
  then show ?thesis using assms by (simp add: Observe_def hot_def run_of_def Let_def)
qed

lemma Observe_extend:
  assumes "hot p s" "st \<noteq> []" "follows (last st) s"
  shows "Observe (Some (run_of p st)) s p =
    (Some (run_of p (st @ [s])), windowFor p (run_of p (st @ [s])) \<le> Lasted (run_of p (st @ [s])))"
proof -
  have "\<not> starts_over (Some (run_of p st)) s" using assms by (simp add: starts_over_run_of)
  moreover have "Pods s = Pods (last st)" using assms by (simp add: follows_def)
  moreover have "min (Min (Permille ` set st)) (Permille s) = Min (insert (Permille s) (Permille ` set st))"
    using assms(2) by (simp add: min.commute)
  ultimately show ?thesis
    using assms
    by (simp add: Observe_def hot_def run_of_def Let_def wrap_simps min.commute add.commute disj_commute)
qed

lemma observe_all_snoc:
  "observe_all p run (ss @ [s]) = Observe (fst (observe_all p run ss)) s p"
  by (induction p run ss rule: observe_all.induct) auto

text \<open>What \<open>observe_all\<close> computes, as a relation between the samples and its result.\<close>

definition longest_streak :: "params \<Rightarrow> sample list \<Rightarrow> sample list \<Rightarrow> bool" where
  "longest_streak p ss st \<longleftrightarrow> streak p st \<and>
     (\<exists>pre. ss = pre @ st \<and> (pre \<noteq> [] \<longrightarrow> \<not> streak p (last pre # st)))"

lemma longest_streak_last: "longest_streak p ss st \<Longrightarrow> ss \<noteq> [] \<and> last ss = last st \<and> hot p (last ss)"
  by (auto simp: longest_streak_def streak_def list_all_iff)

lemma longest_streak_extend:
  assumes "longest_streak p ss st" "hot p s" "follows (last st) s"
  shows "longest_streak p (ss @ [s]) (st @ [s])"
proof -
  obtain pre where pre: "ss = pre @ st" "pre \<noteq> [] \<Longrightarrow> \<not> streak p (last pre # st)" and st: "streak p st"
    using assms(1) by (auto simp: longest_streak_def)
  have "pre \<noteq> [] \<Longrightarrow> \<not> streak p ((last pre # st) @ [s])"
    using pre(2) st unfolding streak_snoc by simp
  then show ?thesis
    using pre(1) st assms by (auto simp: longest_streak_def streak_snoc)
qed

lemma longest_streak_restart:
  assumes "hot p s" "ss \<noteq> [] \<Longrightarrow> \<not> (hot p (last ss) \<and> follows (last ss) s)"
  shows "longest_streak p (ss @ [s]) [s]"
  using assms by (auto simp: longest_streak_def streak_def)

lemma observe_all_cases:
  "(fst (observe_all p None ss) = None \<and> (ss = [] \<or> \<not> hot p (last ss))) \<or>
   (\<exists>st. longest_streak p ss st \<and> observe_all p None ss =
      (Some (run_of p st), windowFor p (run_of p st) \<le> Lasted (run_of p st)))"
proof (induction ss rule: rev_induct)
  case Nil
  then show ?case by simp
next
  case (snoc s ss)
  show ?case
  proof (cases "hot p s")
    case False
    then show ?thesis by (simp add: observe_all_snoc Observe_not_hot)
  next
    case hot: True
    show ?thesis
    proof (cases "fst (observe_all p None ss)")
      case None
      then have "longest_streak p (ss @ [s]) [s]" using snoc hot by (auto intro: longest_streak_restart)
      then show ?thesis
        using None Observe_start [OF hot, of None] by (auto simp: observe_all_snoc starts_over_def)
    next
      case (Some r)
      then obtain st where st: "longest_streak p ss st" "r = run_of p st" using snoc by auto
      then have ne: "st \<noteq> []" by (auto simp: longest_streak_def streak_def)
      show ?thesis
      proof (cases "follows (last st) s")
        case True
        then show ?thesis
          using longest_streak_extend [OF st(1) hot] Observe_extend [OF hot ne] Some st(2)
          by (auto simp: observe_all_snoc)
      next
        case False
        then have "longest_streak p (ss @ [s]) [s]"
          using hot longest_streak_last [OF st(1)] by (auto intro: longest_streak_restart)
        then show ?thesis
          using Observe_start [OF hot, of "Some r"] False Some st(2)
          by (auto simp: observe_all_snoc starts_over_run_of)
      qed
    qed
  qed
qed

section \<open>Properties\<close>

text \<open>
  C4. Fed the samples of a service one by one, \<open>Observe\<close> has no run exactly when there is no sample
  or the latest one does not count, and then it raises nothing. Otherwise the run is that of the
  longest streak the samples end in: an unbroken string of samples that were measured, reached
  their threshold and were of a quiet service, of the same copies, each after the one before and
  within \<open>MaxGap\<close> of it. The suspicion is raised exactly when that streak spans the window it is held to.
\<close>
theorem observe_is_longest_streak:
  "case observe_all p None ss of
     (None, fired) \<Rightarrow> \<not> fired \<and> \<not> (ss \<noteq> [] \<and> hot p (last ss))
   | (Some r, fired) \<Rightarrow> \<exists>st. longest_streak p ss st \<and> r = run_of p st \<and>
       (fired \<longleftrightarrow> windowFor p r \<le> tsub (At (last st)) (At (hd st)))"
proof -
  have quiet: "fst (observe_all p None ss) = None \<Longrightarrow> \<not> snd (observe_all p None ss)"
    by (cases ss rule: rev_cases) (auto simp: observe_all_snoc Observe_def Let_def split: if_splits)
  show ?thesis
    using observe_all_cases [of p ss] quiet
    by (auto simp: Lasted_def run_of_def split: prod.splits option.splits)
qed

text \<open>Samples of a settled service at the threshold, one every so often.\<close>

definition steady :: "sample \<Rightarrow> time \<Rightarrow> duration \<Rightarrow> nat \<Rightarrow> sample list" where
  "steady s t0 every n = map (\<lambda>i. s\<lparr>At := t0 + int i * every\<rparr>) [0..<n]"

lemma sample_At_update [simp]:
  "Permille (s\<lparr>At := t\<rparr>) = Permille s" "thresholdFor p (s\<lparr>At := t\<rparr>) = thresholdFor p s"
  "too_many_requests p (s\<lparr>At := t\<rparr>) = too_many_requests p s" "blind p (s\<lparr>At := t\<rparr>) = blind p s"
  "hot p (s\<lparr>At := t\<rparr>) = hot p s"
  by (simp_all add: Permille_def thresholdFor_def too_many_requests_def blind_def hot_def split: option.split)

lemma steady_streak:
  assumes "hot p s" "0 < every" "every \<le> MaxGap"
  shows "streak p (steady s t0 every (Suc n))"
proof (induction n)
  case 0
  then show ?case using assms by (simp add: steady_def streak_def)
next
  case (Suc n)
  have "steady s t0 every (Suc (Suc n)) = steady s t0 every (Suc n) @ [s\<lparr>At := t0 + int (Suc n) * every\<rparr>]"
    by (simp add: steady_def)
  moreover have "follows (last (steady s t0 every (Suc n))) (s\<lparr>At := t0 + int (Suc n) * every\<rparr>)"
    using assms by (simp add: steady_def follows_def algebra_simps)
  ultimately show ?case using Suc assms(1) by (simp only: streak_snoc) simp
qed

text \<open>
  C5. When the suspicion is raised: for a service that stays at its threshold and is sampled
  regularly, no more than \<open>MaxGap\<close> apart, the \<open>n\<close>th sample raises it exactly when the \<open>n - 1\<close> intervals
  before it make up the window (with a sample a minute and a window of 30 minutes, first the 31st).
\<close>
theorem suspicion_at_the_window:
  assumes "hot p s" and "Quiet p = None" and "0 < every" "every \<le> MaxGap" and "0 < Window p" "Window p \<le> MaxWindow"
  shows "snd (observe_all p None (steady s t0 every (Suc n))) \<longleftrightarrow> Window p \<le> int n * every"
proof -
  let ?ss = "steady s t0 every (Suc n)"
  have st: "streak p ?ss" using assms by (intro steady_streak)
  have "hot p (last ?ss)" using assms(1) by (simp add: steady_def)
  then obtain st' where long: "longest_streak p ?ss st'"
    and obs: "snd (observe_all p None ?ss) \<longleftrightarrow> windowFor p (run_of p st') \<le> Lasted (run_of p st')"
    using observe_all_cases [of p ?ss] st by (auto simp: streak_def)
  have "st' = ?ss"
  proof -
    obtain pre where pre: "?ss = pre @ st'" "pre \<noteq> [] \<Longrightarrow> \<not> streak p (last pre # st')"
      using long by (auto simp: longest_streak_def)
    have "streak p (butlast pre @ last pre # st')" if "pre \<noteq> []"
      using st pre(1) that append_butlast_last_id [OF that] by (metis append.assoc append_Cons append_Nil)
    then have "pre \<noteq> [] \<Longrightarrow> streak p (last pre # st')"
      by (rule streak_suffix) simp_all
    with pre show ?thesis by auto
  qed
  moreover have "At (hd ?ss) = t0"
    by (simp add: steady_def hd_map del: upt_Suc)
  moreover have "At (last ?ss) = t0 + int n * every"
    by (simp add: steady_def)
  ultimately show ?thesis
    using obs assms by (simp add: run_of_def Lasted_def windowFor_def go_time min_int64_def max_int64_def
        MaxWindow_def duration_defs)
qed

definition miner :: sample where
  "miner = \<lparr>At = 0, Measured = True, Why = [], Pods = ''copies'', UsedMilli = 950, AllowedMilli = 1000,
     TrafficKnown = False, RequestsPerMinute = 0\<rparr>"

definition default_params :: params where
  "default_params = \<lparr>ThresholdPercent = 90, Window = 30 * Minute, Quiet = None\<rparr>"

theorem suspicion_at_the_window_witness:
  "snd (observe_all default_params None (steady miner 7 Minute 31)) \<and>
   \<not> snd (observe_all default_params None (steady miner 7 Minute 30))"
proof -
  have "hot default_params miner"
    by (simp add: hot_def miner_def default_params_def Permille_def thresholdFor_def too_many_requests_def
        in64_def min_int64_def max_int64_def)
  moreover have "Quiet default_params = None" "0 < Minute" "Minute \<le> MaxGap" "0 < Window default_params"
    "Window default_params \<le> MaxWindow"
    by (simp_all add: default_params_def MaxGap_def MaxWindow_def duration_defs)
  note this
  ultimately have "\<And>n. snd (observe_all default_params None (steady miner 7 Minute (Suc n))) \<longleftrightarrow>
      Window default_params \<le> int n * Minute"
    using suspicion_at_the_window by blast
  from this [of 30] this [of 29] show ?thesis
    by (simp add: default_params_def duration_defs eval_nat_numeral)
qed

definition params_ok :: "params \<Rightarrow> bool" where
  "params_ok p \<longleftrightarrow> 50 \<le> ThresholdPercent p \<and> ThresholdPercent p \<le> 100 \<and>
     10 * Minute \<le> Window p \<and> Window p \<le> MaxWindow"

definition quiet_ok :: "quiet \<Rightarrow> bool" where
  "quiet_ok q \<longleftrightarrow> 0 \<le> MaxRequestsPerMinute q \<and> 50 \<le> BlindThresholdPercent q \<and>
     BlindThresholdPercent q \<le> 100 \<and> 10 * Minute \<le> BlindWindow q \<and> BlindWindow q \<le> MaxWindow"

lemmas abuse_consts = DefaultThresholdPercent_def DefaultBlindThresholdPercent_def DefaultWindow_def
  DefaultReviewExemption_def MaxWindow_def duration_defs

lemma minutes_exact: "0 \<le> n \<Longrightarrow> n \<le> 1440 \<Longrightarrow> minutes n = n * Minute"
  by (simp add: minutes_def in64_def min_int64_def max_int64_def duration_defs)

lemma quiet_of_ok:
  assumes "params_ok p" "0 \<le> qt_max_requests qt" "\<And>fb. qt_without qt = Some fb \<Longrightarrow> admitted_fallback fb"
  shows "quiet_ok (quiet_of p qt) \<and> (qt_without qt = None \<longrightarrow>
    ThresholdPercent p \<le> BlindThresholdPercent (quiet_of p qt) \<and> Window p \<le> BlindWindow (quiet_of p qt))"
proof -
  have w: "wrap64 (2 * Window p) = 2 * Window p"
    using assms(1) by (simp add: params_ok_def in64_def min_int64_def max_int64_def abuse_consts)
  show ?thesis
  proof (cases "qt_without qt")
    case None
    then show ?thesis
      using assms(1,2) w by (auto simp: quiet_of_def quiet_ok_def params_ok_def abuse_consts)
  next
    case (Some fb)
    then show ?thesis
      using assms w
      by (auto simp: quiet_of_def quiet_ok_def params_ok_def admitted_fallback_def unset_or_def minutes_exact
          abuse_consts Let_def)
  qed
qed

text \<open>The threshold and window of a CPU signal, with the defaults filled in.\<close>

definition base_params :: "cpu_signal \<Rightarrow> params" where
  "base_params cpu = \<lparr>ThresholdPercent = (if cpu_threshold cpu > 0 then min (cpu_threshold cpu) 100 else 90),
     Window = (if cpu_window cpu > 0 then min (minutes (cpu_window cpu)) MaxWindow else 30 * Minute),
     Quiet = None\<rparr>"

definition unset_cpu :: cpu_signal where
  "unset_cpu = \<lparr>cpu_threshold = 0, cpu_window = 0, cpu_quiet = None\<rparr>"

lemma base_params_ok: "admitted_cpu cpu \<Longrightarrow> params_ok (base_params cpu)"
  by (auto simp: base_params_def params_ok_def admitted_cpu_def unset_or_def minutes_exact abuse_consts)

lemma SettingsOf_params:
  assumes "SettingsOf (Some spec) = Some s"
  shows "Params s = (let cpu = (case ta_cpu spec of None \<Rightarrow> unset_cpu | Some cpu \<Rightarrow> cpu)
    in (base_params cpu)\<lparr>Quiet := map_option (quiet_of (base_params cpu)) (cpu_quiet cpu)\<rparr>)"
  using assms by (auto simp: SettingsOf_def Let_def base_params_def unset_cpu_def abuse_consts split: option.splits)

lemma SettingsOf_rest:
  assumes "admitted spec" "SettingsOf (Some spec) = Some s"
  shows "24 * Hour \<le> ReviewExemption s \<and> ReviewExemption s \<le> 365 * 24 * Hour \<and> Action s \<noteq> ActionUnset"
proof -
  have "0 < d \<Longrightarrow> d \<le> 365 \<Longrightarrow> wrap64 (wrap64 (d * 24) * Hour) = d * 24 * Hour" for d
    by (simp add: in64_def min_int64_def max_int64_def duration_defs)
  then show ?thesis
    using assms by (auto simp: SettingsOf_def admitted_def unset_or_def Let_def abuse_consts
        split: option.splits if_splits)
qed

text \<open>
  The settings are in range: for every specification the CRD admits, the threshold is between 50
  and 100 percent and the window between ten minutes and a day, also those that apply without
  traffic data; no multiplication of the conversion overflows; the action is decided; a cleared
  service is left out for between a day and a year; and where the administrator sets no fallback, the
  threshold and the window without traffic data are no laxer than the ordinary ones.
\<close>
theorem SettingsOf_in_range:
  assumes "admitted spec" and "SettingsOf (Some spec) = Some s"
  shows "params_ok (Params s) \<and> Action s \<noteq> ActionUnset \<and>
    24 * Hour \<le> ReviewExemption s \<and> ReviewExemption s \<le> 365 * 24 * Hour \<and>
    (\<forall>q. Quiet (Params s) = Some q \<longrightarrow> quiet_ok q \<and>
      ((\<exists>cpu qt. ta_cpu spec = Some cpu \<and> cpu_quiet cpu = Some qt \<and> qt_without qt = None) \<longrightarrow>
        ThresholdPercent (Params s) \<le> BlindThresholdPercent q \<and> Window (Params s) \<le> BlindWindow q))"
proof -
  define cpu where "cpu = (case ta_cpu spec of None \<Rightarrow> unset_cpu | Some cpu \<Rightarrow> cpu)"
  have adm: "admitted_cpu cpu"
    using assms(1) by (auto simp: cpu_def admitted_def unset_cpu_def admitted_cpu_def unset_or_def split: option.splits)
  have ps: "Params s = (base_params cpu)\<lparr>Quiet := map_option (quiet_of (base_params cpu)) (cpu_quiet cpu)\<rparr>"
    using SettingsOf_params [OF assms(2)] by (simp add: cpu_def Let_def)
  have quiet: "quiet_ok (quiet_of (base_params cpu) qt) \<and> (qt_without qt = None \<longrightarrow>
      ThresholdPercent (base_params cpu) \<le> BlindThresholdPercent (quiet_of (base_params cpu) qt) \<and>
      Window (base_params cpu) \<le> BlindWindow (quiet_of (base_params cpu) qt))" if "cpu_quiet cpu = Some qt" for qt
    using adm that by (intro quiet_of_ok [OF base_params_ok [OF adm]]) (auto simp: admitted_cpu_def)
  have "params_ok (Params s)" using base_params_ok [OF adm] ps by (simp add: params_ok_def)
  then show ?thesis
    using SettingsOf_rest [OF assms] ps quiet by (auto simp: cpu_def)
qed

definition strict_spec :: tenant_abuse where
  "strict_spec = \<lparr>ta_cpu = Some \<lparr>cpu_threshold = 60, cpu_window = 1440,
       cpu_quiet = Some \<lparr>qt_max_requests = 5, qt_without = None\<rparr>\<rparr>,
     ta_action = ActionSuspend, ta_exemption_days = 365\<rparr>"

theorem SettingsOf_in_range_witness:
  "\<exists>s. SettingsOf (Some strict_spec) = Some s \<and> params_ok (Params s) \<and> Action s = ActionSuspend"
proof -
  have adm: "admitted strict_spec"
    by (simp add: strict_spec_def admitted_def admitted_cpu_def unset_or_def)
  obtain s where s: "SettingsOf (Some strict_spec) = Some s" "Action s = ActionSuspend"
    by (simp add: SettingsOf_def strict_spec_def Let_def)
  show ?thesis using s SettingsOf_in_range [OF adm s(1)] by blast
qed

interpretation run_sort: weak_order run_order
  unfolding run_order_def by (intro weak_order_lex weak_order_compare)

text \<open>
  The kept state is bounded: no more than \<open>MaxRuns\<close> runs are written, they are runs of the state,
  as many as there are while there is room, and every run that is left out began no earlier than
  every run that is kept.
\<close>
theorem bounded_keeps_the_oldest:
  "length (bounded runs) = min (length runs) MaxRuns \<and> set (bounded runs) \<subseteq> set runs \<and>
   (\<forall>a b. a \<in> set (bounded runs) \<and> b \<in> set runs \<and> b \<notin> set (bounded runs) \<longrightarrow> Since (snd a) \<le> Since (snd b))"
proof (cases "length runs \<le> MaxRuns")
  case True
  then show ?thesis by (simp add: bounded_def)
next
  case False
  let ?s = "sort_cmp run_order runs"
  have sub: "set (take MaxRuns ?s) \<subseteq> set runs"
    by (metis set_sort_cmp set_take_subset)
  have "Since (snd a) \<le> Since (snd b)"
    if "a \<in> set (take MaxRuns ?s)" "b \<in> set runs" "b \<notin> set (take MaxRuns ?s)" for a b
  proof -
    have "sorted_wrt (\<lambda>a b. run_order a b \<le> 0) (take MaxRuns ?s @ drop MaxRuns ?s)"
      using run_sort.sorted_sort_cmp by simp
    moreover have "b \<in> set (drop MaxRuns ?s)"
      using that(2,3) by (metis Un_iff append_take_drop_id set_append set_sort_cmp)
    ultimately have "run_order a b \<le> 0" using that(1) unfolding sorted_wrt_append by blast
    then show ?thesis by (auto simp: run_order_def cmp_or_def cmp_compare_def split: if_splits)
  qed
  with False sub show ?thesis by (auto simp: bounded_def)
qed

text \<open>One run more than is kept, the last to begin being the one left out.\<close>

definition many_runs :: "(string \<times> run) list" where
  "many_runs = map (\<lambda>i. (replicate i CHR ''x'', (run_of default_params [miner])\<lparr>Since := int i\<rparr>)) [0..<2001]"

theorem bounded_keeps_the_oldest_witness:
  "length many_runs = 2001 \<and> length (bounded many_runs) = 2000 \<and> set (bounded many_runs) \<subseteq> set many_runs"
proof -
  have len: "length many_runs = 2001" by (simp add: many_runs_def)
  show ?thesis using len bounded_keeps_the_oldest [of many_runs] by (simp add: MaxRuns_def)
qed

lemma measure_pods_Inl: "measure_pods now usage pods s fps = Inl s' \<Longrightarrow> Measured s' \<longleftrightarrow> Measured s"
proof (induction pods arbitrary: s fps)
  case (Cons pod pods)
  obtain allowed bnd where "allowedMilli pod = (allowed, bnd)" by (cases "allowedMilli pod")
  with Cons show ?case by (fastforce split: if_splits option.splits)
qed simp

lemma measure_pods_Inr:
  assumes "measure_pods now usage pods s fps = Inr (s', fps')"
  shows "(\<forall>pod \<in> set pods. settled pod now \<and> snd (allowedMilli pod) \<and>
      map_of usage (p_namespace pod, p_name pod) \<noteq> None) \<and>
    wrap64 (UsedMilli s') = wrap64 (UsedMilli s +
      sum_list (map (\<lambda>pod. the (map_of usage (p_namespace pod, p_name pod))) pods)) \<and>
    wrap64 (AllowedMilli s') = wrap64 (AllowedMilli s + sum_list (map (\<lambda>pod. fst (allowedMilli pod)) pods)) \<and>
    fps' = fps @ map fingerprint pods \<and> At s' = At s"
  using assms
proof (induction pods arbitrary: s fps)
  case Nil
  then show ?case by simp
next
  case (Cons pod pods)
  obtain allowed bnd where am: "allowedMilli pod = (allowed, bnd)" by (cases "allowedMilli pod")
  from Cons.prems obtain use where use: "settled pod now" "bnd" "map_of usage (p_namespace pod, p_name pod) = Some use"
    and rest: "measure_pods now usage pods (s\<lparr>UsedMilli := wrap64 (UsedMilli s + use),
      AllowedMilli := wrap64 (AllowedMilli s + allowed)\<rparr>) (fps @ [fingerprint pod]) = Inr (s', fps')"
    by (auto simp: am split: if_splits option.splits)
  show ?case using Cons.IH [OF rest] use by (simp add: am wrap_simps add.assoc)
qed


definition demo_copy :: pod where
  "demo_copy = (plain_pod ''web-1'' 500 0)\<lparr>p_phase := PodRunning, p_node_name := ''n1'',
     p_conditions := [\<lparr>cond_type = ''Ready'', cond_status = ConditionTrue, cond_reason = [], cond_message = [],
        cond_transition = 0\<rparr>],
     p_start_time := Some 0, p_container_statuses := [\<lparr>cs_running_since = Some 0, cs_restarts = 0\<rparr>]\<rparr>"

definition demo_deployment :: deployment where
  "demo_deployment = \<lparr>d_deleting = False, d_generation = 1, d_spec_replicas = None, d_observed_generation = 1,
     d_replicas = 1, d_updated_replicas = 1, d_ready_replicas = 1\<rparr>"


end
