(* ===== verification/Placement.thy ===== *)
theory Placement
  imports Kube_Types
begin

section \<open>Where a workload may run (pkg/platform/placement.go)\<close>

text \<open>
  A \<open>placement\<close> is a region and node tags, its own and those its project requires. The operator turns
  it into the node selector and tolerations of a pod (\<open>NodeSelector\<close>, \<open>Tolerations\<close>,
  \<open>ApplyToPodSpec\<close>), asks whether a node is eligible (\<open>Eligible\<close>), and writes a server's own region,
  zone and tags onto its node as labels and taints and reads them back (\<open>ApplyNodePlacement\<close>,
  \<open>NodePlacementOf\<close>). A Go map is an association list in the order it is iterated in; every result
  that iterates one is sorted by the code, or is a set of labels, so the order does not show.
  The JSON and YAML encodings of a placement (\<open>Encode\<close>, \<open>ParsePlacement\<close>, \<open>HelmValues\<close>) are not
  modelled.
\<close>

subsection \<open>Placements\<close>

definition LabelRegion :: string where "LabelRegion = ''topology.kubernetes.io/region''"
definition LabelZone :: string where "LabelZone = ''topology.kubernetes.io/zone''"
definition TagKeyPrefix :: string where "TagKeyPrefix = ''tag.geass.dev/''"
definition tagLabelValue :: string where "tagLabelValue = ''true''"
definition ReservedTaintValue :: string where "ReservedTaintValue = ''reserved''"
definition ComplianceTaintValue :: string where "ComplianceTaintValue = ''compliance''"
definition TaintEphemeral :: string where "TaintEphemeral = ''geass.dev/ephemeral''"
definition MaxPlacementName :: nat where "MaxPlacementName = 40"

definition TagKey :: "string \<Rightarrow> string" where
  "TagKey tag = TagKeyPrefix @ tag"

record placement =
  Region :: string
  Tags :: "string list"
  Required :: "string list"
  Ephemeral :: bool

definition anywhere :: placement where
  "anywhere = \<lparr>Region = [], Tags = [], Required = [], Ephemeral = False\<rparr>"

definition clean_tags :: "string list \<Rightarrow> string list" where
  "clean_tags tags = remdups_adj (sort (filter (\<lambda>t. t \<noteq> []) (map trim_space tags)))"

definition NewPlacement :: "string \<Rightarrow> string list \<Rightarrow> placement" where
  "NewPlacement region tags = \<lparr>Region = trim_space region, Tags = clean_tags tags, Required = [], Ephemeral = False\<rparr>"

definition WithRequired :: "placement \<Rightarrow> string list \<Rightarrow> placement" where
  "WithRequired p tags = p\<lparr>Required := Tags (NewPlacement [] tags)\<rparr>"

definition Jobs :: "placement \<Rightarrow> placement" where
  "Jobs p = WithRequired (NewPlacement (Region p) []) (Required p)"

definition AllTags :: "placement \<Rightarrow> string list" where
  "AllTags p = (if Required p = [] then Tags p else Tags (NewPlacement [] (Tags p @ Required p)))"

definition IsZero :: "placement \<Rightarrow> bool" where
  "IsZero p \<longleftrightarrow> Region p = [] \<and> Tags p = [] \<and> Required p = []"

definition NodeSelector :: "placement \<Rightarrow> labels" where
  "NodeSelector p = (if IsZero p then []
     else (if Region p \<noteq> [] then [(LabelRegion, Region p)] else []) @
          map (\<lambda>tag. (TagKey tag, tagLabelValue)) (AllTags p))"

definition EphemeralToleration :: toleration where
  "EphemeralToleration = \<lparr>tol_key = TaintEphemeral, tol_operator = TolerationOpExists, tol_value = [],
     tol_effect = TaintEffectNoSchedule\<rparr>"

definition Tolerations :: "placement \<Rightarrow> toleration list" where
  "Tolerations p = (if AllTags p = [] \<and> \<not> Ephemeral p then []
     else (if Ephemeral p then [EphemeralToleration] else []) @
       map (\<lambda>tag. \<lparr>tol_key = TagKey tag, tol_operator = TolerationOpExists, tol_value = [],
                   tol_effect = TaintEffectNoSchedule\<rparr>) (AllTags p))"

definition add_toleration :: "toleration list \<Rightarrow> toleration \<Rightarrow> toleration list" where
  "add_toleration existing t =
     (if list_ex (\<lambda>e. tol_key e = tol_key t \<and> tol_effect e = tol_effect t) existing then existing
      else existing @ [t])"

definition ApplyToPodSpec :: "placement \<Rightarrow> pod \<Rightarrow> pod" where
  "ApplyToPodSpec p pod = pod\<lparr>
     p_node_selector := foldl (\<lambda>sel (k, v). AList.update k v sel) (p_node_selector pod) (NodeSelector p),
     p_tolerations := foldl add_toleration (p_tolerations pod) (Tolerations p)\<rparr>"

subsection \<open>Nodes a placement can use\<close>

definition Matches :: "placement \<Rightarrow> node \<Rightarrow> bool" where
  "Matches p node = list_all (\<lambda>(k, v). lookup0 (n_labels node) k = v) (NodeSelector p)"

definition Tolerates :: "placement \<Rightarrow> taint \<Rightarrow> bool" where
  "Tolerates p t =
     (if t_effect t \<noteq> TaintEffectNoSchedule \<and> t_effect t \<noteq> TaintEffectNoExecute then True
      else if t_key t = TaintEphemeral then Ephemeral p
      else list_ex (\<lambda>tag. t_key t = TagKey tag) (AllTags p))"

definition Eligible :: "placement \<Rightarrow> node \<Rightarrow> bool" where
  "Eligible p node =
     (if n_unschedulable node \<or> \<not> Matches p node then False
      else if list_ex (\<lambda>c. cond_type c = NodeReady \<and> cond_status c \<noteq> ConditionTrue) (n_conditions node) then False
      else list_all (Tolerates p) (n_taints node))"

definition nodeIsReady :: "node \<Rightarrow> bool" where
  "nodeIsReady node = (case find (\<lambda>c. cond_type c = NodeReady) (n_conditions node) of
      None \<Rightarrow> False | Some c \<Rightarrow> cond_status c = ConditionTrue)"

definition ReservedAgainst :: "placement \<Rightarrow> node \<Rightarrow> bool" where
  "ReservedAgainst p node =
     (if n_unschedulable node \<or> \<not> Matches p node \<or> \<not> nodeIsReady node then False
      else list_ex (\<lambda>t. has_prefix TagKeyPrefix (t_key t) \<and> \<not> Tolerates p t) (n_taints node))"

definition IsComplianceNode :: "node \<Rightarrow> bool" where
  "IsComplianceNode node =
     list_ex (\<lambda>t. has_prefix TagKeyPrefix (t_key t) \<and> t_value t = ComplianceTaintValue) (n_taints node)"

definition NodeUsable :: "node \<Rightarrow> bool" where
  "NodeUsable node \<longleftrightarrow> \<not> n_unschedulable node \<and> nodeIsReady node"

definition MissingTags :: "placement \<Rightarrow> string list \<Rightarrow> string list" where
  "MissingTags p required = filter (\<lambda>tag. tag \<notin> set (AllTags p)) (Tags (NewPlacement [] required))"

fun strings_join :: "string \<Rightarrow> string list \<Rightarrow> string" where
  "strings_join sep [] = []"
| "strings_join sep [w] = w"
| "strings_join sep (w # v # ws) = w @ sep @ strings_join sep (v # ws)"

definition joinWords :: "string list \<Rightarrow> string" where
  "joinWords words = (case words of
      [] \<Rightarrow> []
    | [w] \<Rightarrow> w
    | _ \<Rightarrow> strings_join '', '' (butlast words) @ '' and '' @ last words)"

definition Describe :: "placement \<Rightarrow> string" where
  "Describe p = (let tags = AllTags p in
     if Region p \<noteq> [] \<and> tags \<noteq> [] then joinWords tags @ '' nodes in the '' @ Region p @ '' region''
     else if Region p \<noteq> [] then ''the '' @ Region p @ '' region''
     else if tags \<noteq> [] then ''nodes tagged '' @ joinWords tags
     else [])"

definition ComplianceMismatchMessage :: "string \<Rightarrow> placement \<Rightarrow> string list \<Rightarrow> string" where
  "ComplianceMismatchMessage what server required =
     (let missing = MissingTags server required in
      if missing = [] then []
      else ''This '' @ what @ '' does not run on nodes tagged '' @ joinWords missing @
           '', which the project requires'')"

subsection \<open>Names of regions, zones and tags\<close>

datatype name_error = NameRequired | NameTooLong | NameBadCharacters

definition is_lower_alnum :: "char \<Rightarrow> bool" where
  "is_lower_alnum c \<longleftrightarrow> (97 \<le> (of_char c :: nat) \<and> of_char c \<le> (122::nat)) \<or>
     (48 \<le> (of_char c :: nat) \<and> of_char c \<le> (57::nat))"

text \<open>The pattern \<open>^[a-z0-9]([-a-z0-9]*[a-z0-9])?$\<close>.\<close>

definition placementNamePattern :: "string \<Rightarrow> bool" where
  "placementNamePattern s = (s \<noteq> [] \<and> is_lower_alnum (hd s) \<and> is_lower_alnum (last s) \<and>
     list_all (\<lambda>c. c = CHR ''-'' \<or> is_lower_alnum c) s)"

definition ValidatePlacementName :: "string \<Rightarrow> name_error option" where
  "ValidatePlacementName name =
     (if name = [] then Some NameRequired
      else if length name > MaxPlacementName then Some NameTooLong
      else if \<not> placementNamePattern name then Some NameBadCharacters
      else None)"

subsection \<open>A server's own placement\<close>

record node_tag =
  tag_name :: string
  tag_reserved :: bool
  tag_compliance :: bool

record node_placement =
  np_region :: string
  np_zone :: string
  np_tags :: "node_tag list"

definition tag_order :: "node_tag \<Rightarrow> node_tag \<Rightarrow> int" where
  "tag_order a b = cmp_compare (tag_name a) (tag_name b)"

definition reserved_tags :: "taint list \<Rightarrow> (string \<times> bool) list" where
  "reserved_tags ts = foldl (\<lambda>m t. case cut_prefix TagKeyPrefix (t_key t) of
       None \<Rightarrow> m
     | Some tag \<Rightarrow> if t_effect t = TaintEffectNoSchedule
         then AList.update tag (t_value t = ComplianceTaintValue) m else m) [] ts"

definition node_tag_of :: "(string \<times> bool) list \<Rightarrow> string \<Rightarrow> node_tag" where
  "node_tag_of reserved tag = \<lparr>tag_name = tag, tag_reserved = has_key reserved tag,
     tag_compliance = (case map_of reserved tag of None \<Rightarrow> False | Some c \<Rightarrow> c)\<rparr>"

definition label_tags :: "labels \<Rightarrow> string list" where
  "label_tags ls = List.map_filter (\<lambda>(k, v). cut_prefix TagKeyPrefix k) ls"

definition NodePlacementOf :: "node \<Rightarrow> node_placement" where
  "NodePlacementOf node =
     (let reserved = reserved_tags (n_taints node);
          tags = label_tags (n_labels node);
          all = tags @ filter (\<lambda>tag. tag \<notin> set tags) (map fst reserved)
      in \<lparr>np_region = lookup0 (n_labels node) LabelRegion, np_zone = lookup0 (n_labels node) LabelZone,
          np_tags = sort_cmp tag_order (map (node_tag_of reserved) all)\<rparr>)"

definition setLabel :: "string \<Rightarrow> string \<Rightarrow> labels \<times> bool \<Rightarrow> labels \<times> bool" where
  "setLabel key val st = (case st of (ls, changed) \<Rightarrow>
     if val = [] \<and> has_key ls key then (AList.delete key ls, True)
     else if val \<noteq> [] \<and> lookup0 ls key \<noteq> val then (AList.update key val ls, True)
     else (ls, changed))"

definition want_reserved :: "node_tag list \<Rightarrow> (string \<times> string) list" where
  "want_reserved tags = foldl (\<lambda>m t.
     if tag_compliance t then AList.update (tag_name t) ComplianceTaintValue m
     else if tag_reserved t then AList.update (tag_name t) ReservedTaintValue m else m) [] tags"

fun keep_taints :: "(string \<times> string) list \<Rightarrow> taint list \<Rightarrow> string list \<Rightarrow> bool \<Rightarrow> taint list \<times> string list \<times> bool" where
  "keep_taints want [] have_res changed = ([], have_res, changed)"
| "keep_taints want (t # ts) have_res changed =
     (case cut_prefix TagKeyPrefix (t_key t) of
        None \<Rightarrow> (case keep_taints want ts have_res changed of (kept, h, c) \<Rightarrow> (t # kept, h, c))
      | Some tag \<Rightarrow>
          if lookup0 want tag \<noteq> [] \<and> t_value t = lookup0 want tag \<and> t_effect t = TaintEffectNoSchedule \<and>
             tag \<notin> set have_res
          then (case keep_taints want ts (tag # have_res) changed of (kept, h, c) \<Rightarrow> (t # kept, h, c))
          else keep_taints want ts have_res True)"

definition taint_order :: "taint \<Rightarrow> taint \<Rightarrow> int" where
  "taint_order a b = cmp_compare (t_key a) (t_key b)"

definition apply_labels :: "labels \<Rightarrow> node_placement \<Rightarrow> labels \<times> bool" where
  "apply_labels ls desired =
     (let names = remdups (map tag_name (np_tags desired));
          (ls, changed) = setLabel LabelZone (np_zone desired) (setLabel LabelRegion (np_region desired) (ls, False));
          unwanted = (\<lambda>k. case cut_prefix TagKeyPrefix k of None \<Rightarrow> False | Some tag \<Rightarrow> tag \<notin> set names);
          changed = (changed \<or> list_ex (\<lambda>(k, v). unwanted k) ls);
          ls = filter (\<lambda>(k, v). \<not> unwanted k) ls
      in foldl (\<lambda>st tag. setLabel (TagKey tag) tagLabelValue st) (ls, changed) names)"

definition apply_taints :: "taint list \<Rightarrow> node_placement \<Rightarrow> taint list \<times> bool" where
  "apply_taints ts desired =
     (let want = want_reserved (np_tags desired);
          (kept, have_res, changed) = keep_taints want ts [] False;
          missing = filter (\<lambda>(tag, v). tag \<notin> set have_res) want
      in (sort_cmp taint_order (kept @ map (\<lambda>(tag, v).
            \<lparr>t_key = TagKey tag, t_value = v, t_effect = TaintEffectNoSchedule\<rparr>) missing),
          changed \<or> missing \<noteq> []))"

definition ApplyNodePlacement :: "node \<Rightarrow> node_placement \<Rightarrow> node \<times> bool" where
  "ApplyNodePlacement node desired =
     (let (ls, c1) = apply_labels (n_labels node) desired;
          (kept, c2) = apply_taints (n_taints node) desired;
          changed = (c1 \<or> c2);
          node = node\<lparr>n_labels := ls\<rparr>
      in (if changed then node\<lparr>n_taints := kept\<rparr> else node, changed))"

subsection \<open>The regions and tags in use\<close>

definition RegionsOf :: "node list \<Rightarrow> (string \<times> int) list" where
  "RegionsOf nodes = foldl (\<lambda>m node. let region = lookup0 (n_labels node) LabelRegion in
     if region = [] then m
     else AList.update region ((case map_of m region of None \<Rightarrow> 0 | Some n \<Rightarrow> n) + 1) m) [] nodes"

record tag_use =
  tu_nodes :: int
  tu_reserved :: bool

definition use_tag :: "(string \<times> tag_use) list \<Rightarrow> node_tag \<Rightarrow> (string \<times> tag_use) list" where
  "use_tag m t = (let u = (case map_of m (tag_name t) of None \<Rightarrow> \<lparr>tu_nodes = 0, tu_reserved = False\<rparr> | Some u \<Rightarrow> u)
     in AList.update (tag_name t) \<lparr>tu_nodes = tu_nodes u + 1, tu_reserved = tu_reserved u \<or> tag_reserved t\<rparr> m)"

definition TagsOf :: "node list \<Rightarrow> (string \<times> tag_use) list" where
  "TagsOf nodes = foldl (\<lambda>m node. foldl use_tag m (np_tags (NodePlacementOf node))) [] nodes"

section \<open>Lemmas\<close>

subsection \<open>Normalised tags\<close>

lemma trim_space_idem [simp]: "trim_space (trim_space s) = trim_space s"
proof -
  let ?d = "dropWhile is_space s"
  let ?r = "rev (dropWhile is_space (rev ?d))"
  have split: "?d = ?r @ rev (takeWhile is_space (rev ?d))"
    by (metis rev_append rev_rev_ident takeWhile_dropWhile_id)
  have front: "dropWhile is_space ?r = ?r"
  proof (cases "?r = []")
    case False
    then have "hd ?r = hd ?d"
      using split by (metis hd_append2)
    moreover have "?d \<noteq> []"
      using False split by force
    ultimately show ?thesis
      using hd_dropWhile [of is_space s] by (metis dropWhile_eq_self_iff)
  next
    case True
    then show ?thesis
      by (simp only: dropWhile.simps)
  qed
  have rear: "dropWhile is_space (rev ?r) = rev ?r"
    by simp
  show ?thesis
    by (simp add: trim_space_def front del: rev_rev_ident) (simp add: rear)
qed

lemma distinct_remdups_adj_sorted: "sorted xs \<Longrightarrow> distinct (remdups_adj xs)" for xs :: "'a::linorder list"
  by (induction xs rule: remdups_adj.induct) auto

lemma set_clean_tags [simp]: "set (clean_tags tags) = {t \<in> trim_space ` set tags. t \<noteq> []}"
  by (auto simp: clean_tags_def)

lemma sorted_clean_tags [simp]: "sorted (clean_tags tags)" "distinct (clean_tags tags)"
  by (simp_all add: clean_tags_def distinct_remdups_adj_sorted)

lemma Tags_NewPlacement [simp]: "Tags (NewPlacement r tags) = clean_tags tags"
  by (simp add: NewPlacement_def)

lemma sorted_same_set: "sorted xs \<Longrightarrow> distinct xs \<Longrightarrow> sorted ys \<Longrightarrow> distinct ys \<Longrightarrow> set xs = set ys \<Longrightarrow> xs = ys"
  by (rule sorted_distinct_set_unique)

lemma clean_tags_idem [simp]: "clean_tags (clean_tags tags) = clean_tags tags"
  by (rule sorted_same_set) (auto intro!: rev_image_eqI)

text \<open>A placement as \<open>NewPlacement\<close> and \<open>WithRequired\<close> build it.\<close>

definition normal :: "placement \<Rightarrow> bool" where
  "normal p \<longleftrightarrow> clean_tags (Tags p) = Tags p \<and> clean_tags (Required p) = Required p"

lemma normal_built [simp]: "normal (NewPlacement r tags)" "normal p \<Longrightarrow> normal (WithRequired p req)"
  by (simp_all add: normal_def NewPlacement_def WithRequired_def) (simp add: clean_tags_def)

lemma set_AllTags: "normal p \<Longrightarrow> set (AllTags p) = set (Tags p) \<union> set (Required p)"
proof -
  assume "normal p"
  then have "set (Tags p) = {t \<in> trim_space ` set (Tags p). t \<noteq> []}"
    "set (Required p) = {t \<in> trim_space ` set (Required p). t \<noteq> []}"
    by (metis normal_def set_clean_tags)+
  then show ?thesis
    by (auto simp: AllTags_def)
qed


subsection \<open>Writing labels\<close>

definition opt_label :: "string \<Rightarrow> string option" where
  "opt_label v = (if v = [] then None else Some v)"

lemma map_of_setLabel: "map_of (fst (setLabel k v (ls, c))) = (map_of ls)(k := opt_label v)"
  by (auto simp: setLabel_def opt_label_def has_key_def lookup0_def delete_conv' update_conv' fun_eq_iff
      split: option.splits)

lemma snd_setLabel: "snd (setLabel k v (ls, c)) \<longleftrightarrow> c \<or> map_of ls k \<noteq> opt_label v"
  by (auto simp: setLabel_def opt_label_def has_key_def lookup0_def split: option.splits)

lemma setLabel_same: "map_of ls k = opt_label v \<Longrightarrow> setLabel k v (ls, c) = (ls, c)"
  by (auto simp: setLabel_def opt_label_def has_key_def lookup0_def split: if_splits)

lemma distinct_setLabel: "distinct (map fst ls) \<Longrightarrow> distinct (map fst (fst (setLabel k v (ls, c))))"
  by (auto simp: setLabel_def distinct_delete distinct_update)

definition set_tags :: "string list \<Rightarrow> labels \<times> bool \<Rightarrow> labels \<times> bool" where
  "set_tags names st = foldl (\<lambda>st tag. setLabel (TagKey tag) tagLabelValue st) st names"

lemma set_tags_simps [simp]:
  "set_tags [] st = st"
  "set_tags (n # ns) st = set_tags ns (setLabel (TagKey n) tagLabelValue st)"
  by (simp_all add: set_tags_def)

lemma TagKey_inject [simp]: "TagKey a = TagKey b \<longleftrightarrow> a = b"
  by (simp add: TagKey_def)

lemma opt_label_tag [simp]: "opt_label tagLabelValue = Some tagLabelValue"
  by (simp add: opt_label_def tagLabelValue_def)

lemma set_tags_spec:
  "map_of (fst (set_tags names (ls, c))) k =
     (if k \<in> TagKey ` set names then Some tagLabelValue else map_of ls k) \<and>
   (snd (set_tags names (ls, c)) \<longleftrightarrow> c \<or> (\<exists>n \<in> set names. map_of ls (TagKey n) \<noteq> Some tagLabelValue)) \<and>
   (distinct (map fst ls) \<longrightarrow> distinct (map fst (fst (set_tags names (ls, c)))))"
proof (induction names arbitrary: ls c)
  case (Cons n names)
  obtain ls' c' where st: "setLabel (TagKey n) tagLabelValue (ls, c) = (ls', c')" by fastforce
  have ls': "map_of ls' = (map_of ls)(TagKey n \<mapsto> tagLabelValue)"
    and c': "c' \<longleftrightarrow> c \<or> map_of ls (TagKey n) \<noteq> Some tagLabelValue"
    and d: "distinct (map fst ls) \<Longrightarrow> distinct (map fst ls')"
    using map_of_setLabel [of "TagKey n" tagLabelValue ls c] snd_setLabel [of "TagKey n" tagLabelValue ls c]
      distinct_setLabel [of ls "TagKey n" tagLabelValue c] by (simp_all add: st)
  show ?case
    using Cons.IH [of ls' c'] d by (auto simp: st ls' c')
qed simp

definition unwanted :: "string list \<Rightarrow> string \<Rightarrow> bool" where
  "unwanted names k = (case cut_prefix TagKeyPrefix k of None \<Rightarrow> False | Some tag \<Rightarrow> tag \<notin> set names)"

definition tag_names :: "node_placement \<Rightarrow> string list" where
  "tag_names d = map tag_name (np_tags d)"

text \<open>What a label of the node is after its placement was applied.\<close>

definition placed_label :: "labels \<Rightarrow> node_placement \<Rightarrow> string \<Rightarrow> string option" where
  "placed_label ls d k = (if k = LabelRegion then opt_label (np_region d)
     else if k = LabelZone then opt_label (np_zone d)
     else case cut_prefix TagKeyPrefix k of
       Some tag \<Rightarrow> if tag \<in> set (tag_names d) then Some tagLabelValue else None
     | None \<Rightarrow> map_of ls k)"

lemma label_keys [simp]: "LabelZone \<noteq> LabelRegion" "LabelRegion \<noteq> LabelZone"
  "cut_prefix TagKeyPrefix LabelRegion = None" "cut_prefix TagKeyPrefix LabelZone = None"
  by (simp_all add: LabelRegion_def LabelZone_def TagKeyPrefix_def cut_prefix_def has_prefix_def)

lemma cut_TagKey [simp]: "cut_prefix TagKeyPrefix (TagKey n) = Some n"
  by (simp add: TagKey_def)

lemma TagKey_not_topology [simp]: "TagKey n \<noteq> LabelRegion" "TagKey n \<noteq> LabelZone"
  "LabelRegion \<noteq> TagKey n" "LabelZone \<noteq> TagKey n"
  by (metis cut_TagKey label_keys(3,4) option.distinct(1))+

lemma map_of_filter_key: "map_of (filter (\<lambda>(k, v). P k) ls) k = (if P k then map_of ls k else None)"
  by (induction ls) auto

lemma apply_labels_alt:
  "apply_labels ls d =
     (let (ls1, c1) = setLabel LabelZone (np_zone d) (setLabel LabelRegion (np_region d) (ls, False))
      in set_tags (remdups (tag_names d)) (filter (\<lambda>(k, v). \<not> unwanted (remdups (tag_names d)) k) ls1,
           c1 \<or> list_ex (\<lambda>(k, v). unwanted (remdups (tag_names d)) k) ls1))"
  by (simp add: apply_labels_def set_tags_def unwanted_def tag_names_def Let_def cong: option.case_cong)

lemma in_TagKey_image: "k \<in> TagKey ` S \<longleftrightarrow> (\<exists>tag. cut_prefix TagKeyPrefix k = Some tag \<and> tag \<in> S)"
  by (auto simp: TagKey_def)

lemma map_of_apply_labels: "map_of (fst (apply_labels ls d)) k = placed_label ls d k"
proof -
  obtain ls1 c1 where st: "setLabel LabelZone (np_zone d) (setLabel LabelRegion (np_region d) (ls, False)) = (ls1, c1)"
    by fastforce
  have "map_of ls1 = (map_of ls)(LabelRegion := opt_label (np_region d), LabelZone := opt_label (np_zone d))"
    using st by (metis fst_conv map_of_setLabel prod.collapse)
  then show ?thesis
    by (auto simp: apply_labels_alt st set_tags_spec map_of_filter_key placed_label_def in_TagKey_image unwanted_def
        simp del: cut_prefix_Some split: option.splits)
qed

lemma distinct_apply_labels: "distinct (map fst ls) \<Longrightarrow> distinct (map fst (fst (apply_labels ls d)))"
proof -
  assume d: "distinct (map fst ls)"
  obtain ls1 c1 where st: "setLabel LabelZone (np_zone d) (setLabel LabelRegion (np_region d) (ls, False)) = (ls1, c1)"
    by fastforce
  have "distinct (map fst ls1)"
    using st d by (metis distinct_setLabel fst_conv prod.collapse)
  then show ?thesis
    by (auto simp: apply_labels_alt st set_tags_spec distinct_map_filter)
qed

lemma apply_labels_same:
  assumes "\<And>k. map_of ls k = placed_label ls d k"
  shows "apply_labels ls d = (ls, False)"
proof -
  have "setLabel LabelZone (np_zone d) (setLabel LabelRegion (np_region d) (ls, False)) = (ls, False)"
    using assms [of LabelRegion] assms [of LabelZone] by (simp add: placed_label_def setLabel_same)
  moreover have ok: "\<not> unwanted (remdups (tag_names d)) k" if "(k, v) \<in> set ls" for k v
  proof
    assume "unwanted (remdups (tag_names d)) k"
    then have "placed_label ls d k = None"
      by (auto simp: unwanted_def placed_label_def simp del: cut_prefix_Some split: option.splits)
    then show False
      using that assms [of k] by (metis map_of_eq_None_iff fst_conv image_eqI)
  qed
  moreover have "filter (\<lambda>(k, v). \<not> unwanted (remdups (tag_names d)) k) ls = ls"
    using ok by (auto intro: filter_True)
  moreover have "\<not> list_ex (\<lambda>(k, v). unwanted (remdups (tag_names d)) k) ls"
    using ok by (auto simp: list_ex_iff)
  moreover have "set_tags names (ls, False) = (ls, False)" if "set names \<subseteq> set (tag_names d)" for names
    using that
  proof (induction names)
    case (Cons n names)
    then have "map_of ls (TagKey n) = opt_label tagLabelValue"
      by (subst assms) (simp add: placed_label_def)
    with Cons show ?case by (simp add: setLabel_same)
  qed simp
  ultimately show ?thesis
    by (simp add: apply_labels_alt)
qed

subsection \<open>Writing taints\<close>

definition taint_tag :: "taint \<Rightarrow> string option" where
  "taint_tag t = cut_prefix TagKeyPrefix (t_key t)"

text \<open>A taint of one of Geass's tags that says what the wanted reservations say.\<close>

definition wanted_taint :: "(string \<times> string) list \<Rightarrow> taint \<Rightarrow> bool" where
  "wanted_taint want t = (case taint_tag t of None \<Rightarrow> True
     | Some tag \<Rightarrow> lookup0 want tag \<noteq> [] \<and> t_value t = lookup0 want tag \<and> t_effect t = TaintEffectNoSchedule)"

definition tags_of_taints :: "taint list \<Rightarrow> string list" where
  "tags_of_taints ts = List.map_filter taint_tag ts"

lemma tags_of_taints_simps [simp]:
  "tags_of_taints [] = []"
  "tags_of_taints (t # ts) = (case taint_tag t of None \<Rightarrow> tags_of_taints ts | Some tag \<Rightarrow> tag # tags_of_taints ts)"
  by (simp_all add: tags_of_taints_def List.map_filter_def split: option.splits)

lemma set_tags_of_taints: "set (tags_of_taints ts) = {tag. \<exists>t \<in> set ts. taint_tag t = Some tag}"
  by (induction ts) (auto split: option.splits)

lemma mset_tags_of_taints: "mset ts = mset us \<Longrightarrow> mset (tags_of_taints ts) = mset (tags_of_taints us)"
  by (simp add: tags_of_taints_def List.map_filter_def mset_filter)

text \<open>What filtering the taints of a node guarantees of those kept and of the tags found reserved.\<close>

definition kept_ok :: "(string \<times> string) list \<Rightarrow> taint list \<Rightarrow> string list \<Rightarrow> bool \<Rightarrow> taint list \<times> string list \<times> bool \<Rightarrow> bool" where
  "kept_ok want ts h c res = (case res of (kept, h', c') \<Rightarrow>
     set kept \<subseteq> set ts \<and> list_all (wanted_taint want) kept \<and> (c \<longrightarrow> c') \<and>
     filter (\<lambda>t. taint_tag t = None) kept = filter (\<lambda>t. taint_tag t = None) ts \<and>
     set h' = set h \<union> set (tags_of_taints kept) \<and> distinct (tags_of_taints kept) \<and>
     set (tags_of_taints kept) \<inter> set h = {} \<and> (\<not> c' \<longrightarrow> kept = ts))"

lemma kept_ok_skip: "taint_tag t = None \<Longrightarrow> kept_ok want ts h c (kept, h', c') \<Longrightarrow> kept_ok want (t # ts) h c (t # kept, h', c')"
  by (auto simp: kept_ok_def wanted_taint_def)

lemma kept_ok_keep:
  assumes "taint_tag t = Some tag" "wanted_taint want t" "tag \<notin> set h" "kept_ok want ts (tag # h) c (kept, h', c')"
  shows "kept_ok want (t # ts) h c (t # kept, h', c')"
  using assms by (auto simp: kept_ok_def)

lemma kept_ok_drop: "taint_tag t = Some tag \<Longrightarrow> kept_ok want ts h True (kept, h', c') \<Longrightarrow> kept_ok want (t # ts) h c (kept, h', c')"
  by (auto simp: kept_ok_def)

lemma kept_ok_keep_taints: "kept_ok want ts h c (keep_taints want ts h c)"
proof (induction want ts h c rule: keep_taints.induct)
  case (1 want h c)
  then show ?case by (simp add: kept_ok_def)
next
  case (2 want t ts h c)
  show ?case
  proof (cases "taint_tag t")
    case None
    with 2(1) show ?thesis by (auto simp: taint_tag_def intro: kept_ok_skip [unfolded taint_tag_def] split: prod.splits)
  next
    case (Some tag)
    show ?thesis
    proof (cases "wanted_taint want t \<and> tag \<notin> set h")
      case True
      then have step: "keep_taints want (t # ts) h c =
          (case keep_taints want ts (tag # h) c of (kept, h', c') \<Rightarrow> (t # kept, h', c'))"
        using Some by (simp add: wanted_taint_def taint_tag_def)
      obtain kept h' c' where r: "keep_taints want ts (tag # h) c = (kept, h', c')" by (metis prod_cases3)
      have "kept_ok want ts (tag # h) c (kept, h', c')"
        using 2(2) [of tag] True Some r by (simp add: wanted_taint_def taint_tag_def)
      with Some True show ?thesis by (auto simp only: step r prod.case intro: kept_ok_keep)
    next
      case False
      then have step: "keep_taints want (t # ts) h c = keep_taints want ts h True"
        using Some by (auto simp: wanted_taint_def taint_tag_def simp del: cut_prefix_Some)
      obtain kept h' c' where r: "keep_taints want ts h True = (kept, h', c')" by (metis prod_cases3)
      have "kept_ok want ts h True (kept, h', c')"
        using 2(3) [of tag] False Some r by (auto simp: wanted_taint_def taint_tag_def simp del: cut_prefix_Some)
      with Some show ?thesis by (simp only: step r kept_ok_drop)
    qed
  qed
qed

lemma keep_taints_same:
  assumes "list_all (wanted_taint want) ts" "distinct (tags_of_taints ts)" "set (tags_of_taints ts) \<inter> set h = {}"
  shows "\<exists>h'. keep_taints want ts h c = (ts, h', c)"
  using assms
proof (induction ts arbitrary: h)
  case (Cons t ts)
  show ?case
  proof (cases "taint_tag t")
    case None
    with Cons obtain h' where "keep_taints want ts h c = (ts, h', c)" by auto
    with None show ?thesis by (simp add: taint_tag_def)
  next
    case (Some tag)
    with Cons.prems have "set (tags_of_taints ts) \<inter> set (tag # h) = {}" by auto
    with Cons.IH [of "tag # h"] Cons.prems Some obtain h' where "keep_taints want ts (tag # h) c = (ts, h', c)"
      by auto
    with Some Cons.prems show ?thesis by (simp add: taint_tag_def wanted_taint_def)
  qed
qed simp

lemma distinct_want: "distinct (map fst (want_reserved tags))"
proof -
  have "distinct (map fst m) \<Longrightarrow> distinct (map fst (foldl (\<lambda>m t.
     if tag_compliance t then AList.update (tag_name t) ComplianceTaintValue m
     else if tag_reserved t then AList.update (tag_name t) ReservedTaintValue m else m) m tags))" for m
    by (induction tags arbitrary: m) (simp_all add: distinct_update)
  then show ?thesis by (simp add: want_reserved_def)
qed

text \<open>The taint value a tag wants, read from the tag itself.\<close>

definition tag_want :: "node_tag \<Rightarrow> string option" where
  "tag_want t = (if tag_compliance t then Some ComplianceTaintValue
     else if tag_reserved t then Some ReservedTaintValue else None)"

lemma map_of_want_go:
  "distinct (map tag_name tags) \<Longrightarrow> map_of (foldl (\<lambda>m t.
     if tag_compliance t then AList.update (tag_name t) ComplianceTaintValue m
     else if tag_reserved t then AList.update (tag_name t) ReservedTaintValue m else m) m tags) n =
     (case find (\<lambda>t. tag_name t = n) tags of None \<Rightarrow> map_of m n
        | Some t \<Rightarrow> (case tag_want t of None \<Rightarrow> map_of m n | Some v \<Rightarrow> Some v))"
proof (induction tags arbitrary: m)
  case (Cons t tags)
  then have "tag_name t = n \<Longrightarrow> find (\<lambda>t. tag_name t = n) tags = None"
    by (auto simp: find_None_iff image_iff)
  with Cons show ?case
    by (cases "tag_name t = n") (simp_all add: tag_want_def update_conv' split: option.splits)
qed simp

lemma map_of_want:
  "distinct (map tag_name tags) \<Longrightarrow>
   map_of (want_reserved tags) n = (case find (\<lambda>t. tag_name t = n) tags of None \<Rightarrow> None | Some t \<Rightarrow> tag_want t)"
  by (simp add: want_reserved_def map_of_want_go split: option.splits)

definition reserving_value :: "string \<Rightarrow> bool" where
  "reserving_value v \<longleftrightarrow> v = ComplianceTaintValue \<or> v = ReservedTaintValue"

lemma want_nonempty_go:
  "list_all (\<lambda>(n, v). reserving_value v) m \<Longrightarrow> list_all (\<lambda>(n, v). reserving_value v) (foldl (\<lambda>m t.
     if tag_compliance t then AList.update (tag_name t) ComplianceTaintValue m
     else if tag_reserved t then AList.update (tag_name t) ReservedTaintValue m else m) m tags)"
proof (induction tags arbitrary: m)
  case (Cons t tags)
  have "list_all (\<lambda>(n, v). reserving_value v) (AList.update k v m)" if "reserving_value v" for k v
    using Cons.prems that by (induction m) auto
  then show ?case
    using Cons by (simp add: reserving_value_def)
qed simp

lemma want_nonempty: "(n, v) \<in> set (want_reserved tags) \<Longrightarrow> reserving_value v"
  using want_nonempty_go [of "[]" tags] by (auto simp: want_reserved_def list_all_iff)

text \<open>The taints of a node once its reservations are those of \<open>d\<close>: each tag taint is wanted, each
  wanted one is there, and no tag has two.\<close>

definition taints_agree :: "taint list \<Rightarrow> node_placement \<Rightarrow> bool" where
  "taints_agree ts d \<longleftrightarrow> list_all (wanted_taint (want_reserved (np_tags d))) ts \<and> distinct (tags_of_taints ts) \<and>
     set (tags_of_taints ts) = fst ` set (want_reserved (np_tags d))"

lemma taints_agree_mset: "mset ts = mset us \<Longrightarrow> taints_agree ts d \<longleftrightarrow> taints_agree us d"
  using mset_tags_of_taints [of ts us] mset_eq_setD [of ts us]
    mset_eq_setD [of "tags_of_taints ts" "tags_of_taints us"]
    mset_eq_imp_distinct_iff [of "tags_of_taints ts" "tags_of_taints us"]
  by (simp add: taints_agree_def list_all_iff)

lemma tags_of_taints_append [simp]: "tags_of_taints (ts @ us) = tags_of_taints ts @ tags_of_taints us"
  by (induction ts) (auto split: option.splits)

lemma tags_of_new_taints:
  "tags_of_taints (map (\<lambda>(tag, v). \<lparr>t_key = TagKey tag, t_value = v, t_effect = e\<rparr>) xs) = map fst xs"
  by (induction xs) (auto simp: taint_tag_def split: prod.splits)

lemma wanted_lookup: "(tag, v) \<in> set (want_reserved tags) \<Longrightarrow> lookup0 (want_reserved tags) tag = v \<and> v \<noteq> []"
  using want_nonempty [of tag v tags] distinct_want [of tags]
  by (auto simp: lookup0_def reserving_value_def ComplianceTaintValue_def ReservedTaintValue_def)

lemma apply_taints_facts:
  "taints_agree (fst (apply_taints ts d)) d"
  "\<not> snd (apply_taints ts d) \<Longrightarrow> mset (fst (apply_taints ts d)) = mset ts"
  "filter_mset (\<lambda>t. taint_tag t = None) (mset (fst (apply_taints ts d))) = filter_mset (\<lambda>t. taint_tag t = None) (mset ts)"
proof -
  define want where "want = want_reserved (np_tags d)"
  obtain kept h c where k: "keep_taints want ts [] False = (kept, h, c)" by (metis prod_cases3)
  have ok: "kept_ok want ts [] False (kept, h, c)"
    using kept_ok_keep_taints [of want ts "[]" False] by (simp add: k)
  define missing where "missing = filter (\<lambda>(tag, v). tag \<notin> set h) want"
  define new where "new = map (\<lambda>(tag, v). \<lparr>t_key = TagKey tag, t_value = v, t_effect = TaintEffectNoSchedule\<rparr>) missing"
  have res: "apply_taints ts d = (sort_cmp taint_order (kept @ new), c \<or> missing \<noteq> [])"
    by (simp add: apply_taints_def k want_def [symmetric] missing_def new_def Let_def)
  have tags: "set (tags_of_taints kept) = set h" "distinct (tags_of_taints kept)"
    using ok by (auto simp: kept_ok_def)
  have h_want: "set h \<subseteq> fst ` set want"
  proof
    fix tag assume "tag \<in> set h"
    then obtain t where "t \<in> set kept" "taint_tag t = Some tag"
      using tags by (auto simp: set_tags_of_taints)
    then have "lookup0 want tag \<noteq> []"
      using ok by (auto simp: kept_ok_def list_all_iff wanted_taint_def)
    then show "tag \<in> fst ` set want"
      by (auto simp: lookup0_def split: option.splits dest!: map_of_SomeD intro: rev_image_eqI)
  qed
  have "list_all (wanted_taint want) new"
    using wanted_lookup [of _ _ "np_tags d"]
    by (auto simp: new_def missing_def list_all_iff wanted_taint_def taint_tag_def want_def)
  moreover have "tags_of_taints new = map fst missing"
    by (simp add: new_def tags_of_new_taints)
  moreover have "distinct (map fst missing)"
    unfolding missing_def want_def by (rule distinct_map_filter [OF distinct_want])
  ultimately have "taints_agree (kept @ new) d"
    using ok tags h_want by (auto simp: taints_agree_def kept_ok_def want_def [symmetric] missing_def image_iff)
  then show "taints_agree (fst (apply_taints ts d)) d"
    using taints_agree_mset [of "kept @ new" "sort_cmp taint_order (kept @ new)" d] by (simp add: res)
  show "\<not> snd (apply_taints ts d) \<Longrightarrow> mset (fst (apply_taints ts d)) = mset ts"
    using ok by (simp add: res kept_ok_def new_def)
  have "filter (\<lambda>t. taint_tag t = None) new = []"
    by (auto simp: new_def taint_tag_def filter_empty_conv simp del: cut_prefix_Some)
  then show "filter_mset (\<lambda>t. taint_tag t = None) (mset (fst (apply_taints ts d))) = filter_mset (\<lambda>t. taint_tag t = None) (mset ts)"
    using ok by (simp add: res kept_ok_def flip: mset_filter)
qed

lemma apply_taints_same: "taints_agree ts d \<Longrightarrow> \<not> snd (apply_taints ts d)"
proof -
  assume agree: "taints_agree ts d"
  then obtain h where k: "keep_taints (want_reserved (np_tags d)) ts [] False = (ts, h, False)"
    using keep_taints_same [of "want_reserved (np_tags d)" ts "[]" False] by (auto simp: taints_agree_def)
  then have "set h = set (tags_of_taints ts)"
    using kept_ok_keep_taints [of "want_reserved (np_tags d)" ts "[]" False] by (simp add: kept_ok_def)
  then have "filter (\<lambda>(tag, v). tag \<notin> set h) (want_reserved (np_tags d)) = []"
    using agree by (force simp: filter_empty_conv taints_agree_def)
  then show ?thesis
    by (simp add: apply_taints_def k Let_def)
qed

subsection \<open>Reading a placement back\<close>

lemma sort_cmp_key: "sort_cmp (\<lambda>a b. cmp_compare (f a) (f b)) xs = sort_key f xs"
proof -
  have "insort_cmp (\<lambda>a b. cmp_compare (f a) (f b)) x ys = insort_key f x ys" for x ys
    by (induction ys) (auto simp: cmp_compare_def)
  then show ?thesis by (induction xs) simp_all
qed

lemma sort_tags: "sort_cmp tag_order = sort_key tag_name" "sort_cmp taint_order = sort_key t_key"
proof -
  have o: "tag_order = (\<lambda>a b. cmp_compare (tag_name a) (tag_name b))" "taint_order = (\<lambda>a b. cmp_compare (t_key a) (t_key b))"
    by (simp_all add: fun_eq_iff tag_order_def taint_order_def)
  show "sort_cmp tag_order = sort_key tag_name" "sort_cmp taint_order = sort_key t_key"
    unfolding o by (rule ext, rule sort_cmp_key)+
qed

lemma sort_key_names:
  assumes "\<And>y. y \<in> set ys \<Longrightarrow> g (f y) = y"
  shows "sort_key f ys = map g (sort (map f ys))"
proof -
  have ins: "insort_key f y (map g zs) = map g (insort (f y) zs)"
    if "g (f y) = y" "\<And>z. z \<in> set zs \<Longrightarrow> f (g z) = z" for y zs
    using that by (induction zs) auto
  show ?thesis using assms
  proof (induction ys)
    case (Cons y ys)
    then have "f (g z) = z" if "z \<in> set (sort (map f ys))" for z
      using that by auto
    with Cons.prems have "insort_key f y (map g (sort (map f ys))) = map g (insort (f y) (sort (map f ys)))"
      by (intro ins) auto
    with Cons show ?case by simp
  qed simp
qed

lemma map_of_reserved_go:
  "list_all (wanted_taint want) ts \<Longrightarrow>
   map_of (foldl (\<lambda>m t. case cut_prefix TagKeyPrefix (t_key t) of
       None \<Rightarrow> m
     | Some tag \<Rightarrow> if t_effect t = TaintEffectNoSchedule
         then AList.update tag (t_value t = ComplianceTaintValue) m else m) m ts) tag =
   (if tag \<in> set (tags_of_taints ts) then Some (lookup0 want tag = ComplianceTaintValue) else map_of m tag)"
proof (induction ts arbitrary: m)
  case (Cons t ts)
  show ?case
  proof (cases "taint_tag t")
    case None
    with Cons show ?thesis by (simp add: taint_tag_def)
  next
    case (Some tag')
    with Cons show ?thesis by (simp add: taint_tag_def wanted_taint_def update_conv' del: cut_prefix_Some)
  qed
qed simp

lemma map_of_reserved_tags:
  "taints_agree ts d \<Longrightarrow> map_of (reserved_tags ts) tag =
     map_option (\<lambda>v. v = ComplianceTaintValue) (map_of (want_reserved (np_tags d)) tag)"
  by (auto simp: reserved_tags_def taints_agree_def map_of_reserved_go lookup0_def map_of_eq_None_iff
      split: option.splits)

lemma distinct_reserved_tags: "distinct (map fst (reserved_tags ts))"
proof -
  have "distinct (map fst m) \<Longrightarrow> distinct (map fst (foldl (\<lambda>m t. case cut_prefix TagKeyPrefix (t_key t) of
       None \<Rightarrow> m
     | Some tag \<Rightarrow> if t_effect t = TaintEffectNoSchedule
         then AList.update tag (t_value t = ComplianceTaintValue) m else m) m ts))" for m
    by (induction ts arbitrary: m) (simp_all add: distinct_update del: cut_prefix_Some split: option.splits)
  then show ?thesis by (simp add: reserved_tags_def)
qed

lemma set_label_tags: "set (label_tags ls) = {tag. map_of ls (TagKey tag) \<noteq> None}"
  by (induction ls) (auto simp: label_tags_def List.map_filter_def TagKey_def split: if_splits)

lemma distinct_label_tags: "distinct (map fst ls) \<Longrightarrow> distinct (label_tags ls)"
  by (induction ls) (auto simp: label_tags_def List.map_filter_def image_iff TagKey_def)

text \<open>What the placement of a node reads as, from its labels and its taints alone.\<close>

lemma NodePlacementOf_alt:
  assumes "distinct (map fst (n_labels node))"
  shows "NodePlacementOf node = \<lparr>np_region = lookup0 (n_labels node) LabelRegion,
     np_zone = lookup0 (n_labels node) LabelZone,
     np_tags = map (node_tag_of (reserved_tags (n_taints node)))
       (sorted_list_of_set ({tag. map_of (n_labels node) (TagKey tag) \<noteq> None} \<union>
          fst ` set (reserved_tags (n_taints node))))\<rparr>"
proof -
  define res where "res = reserved_tags (n_taints node)"
  define tags where "tags = label_tags (n_labels node)"
  define all where "all = tags @ filter (\<lambda>tag. tag \<notin> set tags) (map fst res)"
  have d: "distinct all"
    using distinct_label_tags [OF assms] distinct_reserved_tags [of "n_taints node"]
    by (auto simp: all_def tags_def res_def)
  have s: "set all = {tag. map_of (n_labels node) (TagKey tag) \<noteq> None} \<union> fst ` set res"
    by (auto simp: all_def tags_def set_label_tags)
  have "sort_key tag_name (map (node_tag_of res) all) = map (node_tag_of res) (sort all)"
    by (subst sort_key_names [where g = "node_tag_of res"]) (auto simp: node_tag_of_def comp_def)
  also have "sort all = sorted_list_of_set (set all)"
    using d by (simp add: sorted_list_of_set_sort_remdups distinct_remdups_id)
  also note s
  finally show ?thesis
    by (simp only: NodePlacementOf_def Let_def sort_tags all_def res_def tags_def)
qed

subsection \<open>A node with its placement applied\<close>

lemma ApplyNodePlacement_node:
  "n_labels (fst (ApplyNodePlacement node d)) = fst (apply_labels (n_labels node) d)"
  "taints_agree (n_taints (fst (ApplyNodePlacement node d))) d"
  "filter_mset (\<lambda>t. taint_tag t = None) (mset (n_taints (fst (ApplyNodePlacement node d)))) =
     filter_mset (\<lambda>t. taint_tag t = None) (mset (n_taints node))"
  using apply_taints_facts [of "n_taints node" d]
    taints_agree_mset [of "fst (apply_taints (n_taints node) d)" "n_taints node" d]
  by (auto simp: ApplyNodePlacement_def Let_def split: prod.splits)

definition implied_reserved :: "node_tag \<Rightarrow> node_tag" where
  "implied_reserved t = t\<lparr>tag_reserved := tag_reserved t \<or> tag_compliance t\<rparr>"

lemma find_name: "distinct (map tag_name tags) \<Longrightarrow> t \<in> set tags \<Longrightarrow> find (\<lambda>u. tag_name u = tag_name t) tags = Some t"
  by (induction tags) (auto simp: image_iff)

lemma taint_values_differ [simp]: "ReservedTaintValue \<noteq> ComplianceTaintValue"
  by (simp add: ReservedTaintValue_def ComplianceTaintValue_def)

lemma node_tag_of_reserved:
  assumes "distinct (map tag_name (np_tags d))" "taints_agree ts d" "t \<in> set (np_tags d)"
  shows "node_tag_of (reserved_tags ts) (tag_name t) = implied_reserved t"
  using map_of_reserved_tags [OF assms(2), of "tag_name t"] map_of_want [OF assms(1), of "tag_name t"]
    find_name [OF assms(1,3)]
  by (simp add: node_tag_of_def implied_reserved_def has_key_def tag_want_def)

lemma reserved_names:
  assumes "distinct (map tag_name (np_tags d))" "taints_agree ts d"
  shows "fst ` set (reserved_tags ts) \<subseteq> set (tag_names d)"
proof
  fix tag assume "tag \<in> fst ` set (reserved_tags ts)"
  then have "map_of (reserved_tags ts) tag \<noteq> None"
    by (simp add: map_of_eq_None_iff)
  then have "find (\<lambda>t. tag_name t = tag) (np_tags d) \<noteq> None"
    by (auto simp: map_of_reserved_tags [OF assms(2)] map_of_want [OF assms(1)] split: option.splits)
  then show "tag \<in> set (tag_names d)"
    by (auto simp: find_None_iff tag_names_def)
qed

text \<open>
  C9. The placement written onto a server is the one read back from it. Whatever labels and taints
  the node had, after \<open>ApplyNodePlacement\<close> with a placement whose tags have different names,
  \<open>NodePlacementOf\<close> returns its region, its zone and exactly its tags, sorted by name, a compliance
  tag showing as reserved too.
\<close>

theorem node_placement_roundtrip:
  assumes "distinct (map fst (n_labels node))" "distinct (map tag_name (np_tags d))"
  shows "NodePlacementOf (fst (ApplyNodePlacement node d)) =
    \<lparr>np_region = np_region d, np_zone = np_zone d,
     np_tags = sort_cmp tag_order (map implied_reserved (np_tags d))\<rparr>"
proof -
  let ?n = "fst (ApplyNodePlacement node d)"
  have ls: "map_of (n_labels ?n) k = placed_label (n_labels node) d k" for k
    by (simp add: ApplyNodePlacement_node map_of_apply_labels)
  have dist: "distinct (map fst (n_labels ?n))"
    using assms(1) by (simp add: ApplyNodePlacement_node distinct_apply_labels)
  have keys: "fst ` set (reserved_tags (n_taints ?n)) \<subseteq> set (tag_names d)"
    by (rule reserved_names [OF assms(2) ApplyNodePlacement_node(2)])
  have "{tag. map_of (n_labels ?n) (TagKey tag) \<noteq> None} = set (tag_names d)"
    by (auto simp: ls placed_label_def split: if_splits)
  moreover have "sorted_list_of_set (set (tag_names d)) = sort (tag_names d)"
    using assms(2) by (simp add: sorted_list_of_set_sort_remdups distinct_remdups_id tag_names_def del: set_map)
  ultimately have "np_tags (NodePlacementOf ?n) =
      map (node_tag_of (reserved_tags (n_taints ?n))) (sort (tag_names d))"
    using keys by (simp add: NodePlacementOf_alt [OF dist] Un_absorb2)
  also have "\<dots> = sort_key tag_name (map implied_reserved (np_tags d))"
    by (subst sort_key_names [where g = "node_tag_of (reserved_tags (n_taints ?n))"])
      (auto simp: node_tag_of_reserved [OF assms(2) ApplyNodePlacement_node(2)] implied_reserved_def tag_names_def comp_def)
  finally show ?thesis
    by (simp add: NodePlacementOf_alt [OF dist] sort_tags lookup0_def ls placed_label_def opt_label_def)
qed

theorem node_placement_roundtrip_witness:
  "NodePlacementOf (fst (ApplyNodePlacement
      ((empty_node ''a'')\<lparr>n_labels := [(''tag.geass.dev/old'', ''true''), (''kubernetes.io/os'', ''linux'')],
        n_taints := [\<lparr>t_key = ''tag.geass.dev/db'', t_value = ''reserved'', t_effect = ''NoExecute''\<rparr>]\<rparr>)
      \<lparr>np_region = ''eu'', np_zone = [], np_tags = [\<lparr>tag_name = ''gpu'', tag_reserved = False, tag_compliance = True\<rparr>,
         \<lparr>tag_name = ''db'', tag_reserved = True, tag_compliance = False\<rparr>]\<rparr>)) =
   \<lparr>np_region = ''eu'', np_zone = [], np_tags = [\<lparr>tag_name = ''db'', tag_reserved = True, tag_compliance = False\<rparr>,
      \<lparr>tag_name = ''gpu'', tag_reserved = True, tag_compliance = True\<rparr>]\<rparr>"
  by (subst node_placement_roundtrip)
    (simp_all add: empty_node_def sort_tags implied_reserved_def less_list_code less_eq_list_code)

text \<open>
  Applying a placement again changes nothing and reports that it changed nothing, and what is not
  Geass's is left alone: after an application each label is the one \<open>placed_label\<close> names, which for
  a label that is neither region nor zone nor tag is the label the node had, and the taints that are
  not tags' are the same ones.
\<close>

theorem ApplyNodePlacement_idempotent:
  "ApplyNodePlacement (fst (ApplyNodePlacement node d)) d = (fst (ApplyNodePlacement node d), False) \<and>
   map_of (n_labels (fst (ApplyNodePlacement node d))) = placed_label (n_labels node) d \<and>
   filter_mset (\<lambda>t. taint_tag t = None) (mset (n_taints (fst (ApplyNodePlacement node d)))) =
     filter_mset (\<lambda>t. taint_tag t = None) (mset (n_taints node))"
proof -
  let ?n = "fst (ApplyNodePlacement node d)"
  have ls: "map_of (n_labels ?n) = placed_label (n_labels node) d"
    by (simp add: ApplyNodePlacement_node map_of_apply_labels fun_eq_iff)
  have "map_of (n_labels ?n) k = placed_label (n_labels ?n) d k" for k
    using ls by (auto simp: placed_label_def simp del: cut_prefix_Some split: option.splits)
  then have "apply_labels (n_labels ?n) d = (n_labels ?n, False)"
    by (rule apply_labels_same)
  moreover have "\<not> snd (apply_taints (n_taints ?n) d)"
    by (rule apply_taints_same [OF ApplyNodePlacement_node(2)])
  ultimately have "ApplyNodePlacement ?n d = (?n, False)"
    by (cases "apply_taints (n_taints ?n) d") (simp add: ApplyNodePlacement_def [of ?n])
  with ls show ?thesis
    by (simp add: ApplyNodePlacement_node(3))
qed

subsection \<open>Which workloads a placed node takes\<close>

definition reserving_names :: "node_placement \<Rightarrow> string set" where
  "reserving_names d = tag_name ` {t \<in> set (np_tags d). tag_reserved t \<or> tag_compliance t}"

lemma keys_want: "fst ` set (want_reserved (np_tags d)) = reserving_names d"
proof -
  have "fst ` set (foldl (\<lambda>m t.
     if tag_compliance t then AList.update (tag_name t) ComplianceTaintValue m
     else if tag_reserved t then AList.update (tag_name t) ReservedTaintValue m else m) m tags) =
     fst ` set m \<union> tag_name ` {t \<in> set tags. tag_reserved t \<or> tag_compliance t}" for m tags
    by (induction tags arbitrary: m) (auto simp: dom_update)
  from this [of "[]" "np_tags d"] show ?thesis by (simp add: want_reserved_def reserving_names_def)
qed

lemma AllTags_zero: "IsZero p \<Longrightarrow> AllTags p = []"
  by (simp add: IsZero_def AllTags_def)

lemma Matches_iff: "Matches p node \<longleftrightarrow>
    (Region p = [] \<or> lookup0 (n_labels node) LabelRegion = Region p) \<and>
    (\<forall>tag \<in> set (AllTags p). lookup0 (n_labels node) (TagKey tag) = tagLabelValue)"
proof (cases "IsZero p")
  case True
  then show ?thesis by (simp add: Matches_def NodeSelector_def AllTags_zero) (simp add: IsZero_def)
next
  case False
  then show ?thesis
    by (cases "Region p = []") (auto simp: Matches_def NodeSelector_def list.pred_map list_all_iff)
qed

lemma tagLabelValue_nonempty [simp]: "tagLabelValue \<noteq> []" "[] \<noteq> tagLabelValue"
  by (simp_all add: tagLabelValue_def)

lemma Matches_placed:
  "Matches p (fst (ApplyNodePlacement node d)) \<longleftrightarrow>
     (Region p = [] \<or> np_region d = Region p) \<and> set (AllTags p) \<subseteq> set (tag_names d)"
  by (auto simp: Matches_iff lookup0_def ApplyNodePlacement_node map_of_apply_labels placed_label_def opt_label_def
      split: if_splits)

lemma Tolerates_tag:
  "taint_tag t = Some tag \<Longrightarrow> t_effect t = TaintEffectNoSchedule \<Longrightarrow> Tolerates p t \<longleftrightarrow> tag \<in> set (AllTags p)"
  by (auto simp: taint_tag_def Tolerates_def list_ex_iff TagKey_def TaintEphemeral_def TagKeyPrefix_def)

lemma tolerates_placed:
  assumes "taints_agree ts d"
  shows "list_all (Tolerates p) ts \<longleftrightarrow>
    reserving_names d \<subseteq> set (AllTags p) \<and> list_all (Tolerates p) (filter (\<lambda>t. taint_tag t = None) ts)"
proof -
  have eff: "t_effect t = TaintEffectNoSchedule" if "t \<in> set ts" "taint_tag t = Some tag" for t tag
    using assms that by (auto simp: taints_agree_def list_all_iff wanted_taint_def)
  have "reserving_names d = {tag. \<exists>t \<in> set ts. taint_tag t = Some tag}"
    using assms by (simp add: taints_agree_def keys_want set_tags_of_taints)
  then have "reserving_names d \<subseteq> set (AllTags p) \<longleftrightarrow> (\<forall>t \<in> set ts. taint_tag t \<noteq> None \<longrightarrow> Tolerates p t)"
    using Tolerates_tag [OF _ eff] by (auto simp del: not_None_eq)
  then show ?thesis
    by (auto simp only: list_all_iff set_filter mem_Collect_eq)
qed

text \<open>
  Exactly who may run on a server with a placement. A workload is eligible for the node if and
  only if the node is open and not unready, the workload asks for no region or for the server's, it
  asks only for tags the server has and for every tag the server reserves or keeps for compliance,
  and it tolerates the taints that are not tags'. No workload that does not ask for a reserved tag
  gets onto the node, and a project's required tags are never lost.
\<close>

theorem eligible_on_placed_node:
  "Eligible p (fst (ApplyNodePlacement node d)) \<longleftrightarrow>
     \<not> n_unschedulable node \<and>
     \<not> list_ex (\<lambda>c. cond_type c = NodeReady \<and> cond_status c \<noteq> ConditionTrue) (n_conditions node) \<and>
     (Region p = [] \<or> Region p = np_region d) \<and>
     set (AllTags p) \<subseteq> set (tag_names d) \<and>
     reserving_names d \<subseteq> set (AllTags p) \<and>
     list_all (Tolerates p) (filter (\<lambda>t. taint_tag t = None) (n_taints node))"
proof -
  let ?n = "fst (ApplyNodePlacement node d)"
  have same: "n_unschedulable ?n = n_unschedulable node" "n_conditions ?n = n_conditions node"
    by (simp_all add: ApplyNodePlacement_def Let_def split: prod.splits)
  have "set (filter (\<lambda>t. taint_tag t = None) (n_taints ?n)) = set (filter (\<lambda>t. taint_tag t = None) (n_taints node))"
    using ApplyNodePlacement_node(3) [of node d] by (metis mset_filter set_mset_mset)
  then have "list_all (Tolerates p) (filter (\<lambda>t. taint_tag t = None) (n_taints ?n)) \<longleftrightarrow>
      list_all (Tolerates p) (filter (\<lambda>t. taint_tag t = None) (n_taints node))"
    by (simp only: list_all_iff)
  then show ?thesis
    using tolerates_placed [OF ApplyNodePlacement_node(2), of p node d] Matches_placed [of p node d]
    by (auto simp: Eligible_def same)
qed

subsection \<open>A pod with its placement\<close>

lemma update_same: "map_of m k = Some v \<Longrightarrow> AList.update k v m = m"
  by (induction m) (auto split: if_splits)

lemma NodeSelector_functional: "(k, v) \<in> set (NodeSelector p) \<Longrightarrow> (k, w) \<in> set (NodeSelector p) \<Longrightarrow> v = w"
  by (auto simp: NodeSelector_def split: if_splits)

definition put_all :: "labels \<Rightarrow> labels \<Rightarrow> labels" where
  "put_all sel kvs = foldl (\<lambda>sel (k, v). AList.update k v sel) sel kvs"

lemma map_of_put_all:
  assumes "\<And>k v w. (k, v) \<in> set kvs \<Longrightarrow> (k, w) \<in> set kvs \<Longrightarrow> v = w"
  shows "map_of (put_all sel kvs) k = (case map_of kvs k of None \<Rightarrow> map_of sel k | Some v \<Rightarrow> Some v)"
  using assms
proof (induction kvs arbitrary: sel)
  case (Cons kv kvs)
  obtain a b where kv: "kv = (a, b)" by force
  have "map_of kvs a = None \<or> map_of kvs a = Some b"
    using Cons.prems [of a b] kv by (cases "map_of kvs a") (auto dest: map_of_SomeD)
  moreover have "map_of (put_all (AList.update a b sel) kvs) k =
      (case map_of kvs k of None \<Rightarrow> map_of (AList.update a b sel) k | Some v \<Rightarrow> Some v)"
    by (rule Cons.IH) (use Cons.prems in auto)
  ultimately show ?case
    by (auto simp: put_all_def kv update_conv' split: option.splits)
qed (simp add: put_all_def)

lemma put_all_same: "(\<And>k v. (k, v) \<in> set kvs \<Longrightarrow> map_of sel k = Some v) \<Longrightarrow> put_all sel kvs = sel"
  by (induction kvs) (auto simp: put_all_def update_same)

definition tol_covered :: "toleration list \<Rightarrow> toleration \<Rightarrow> bool" where
  "tol_covered ts t \<longleftrightarrow> (\<exists>e \<in> set ts. tol_key e = tol_key t \<and> tol_effect e = tol_effect t)"

lemma add_tolerations:
  "tol_covered ts t \<Longrightarrow> tol_covered (foldl add_toleration ts us) t"
  "t \<in> set us \<Longrightarrow> tol_covered (foldl add_toleration ts us) t"
  "set ts \<subseteq> set (foldl add_toleration ts us) \<and> set (foldl add_toleration ts us) \<subseteq> set ts \<union> set us"
  "(\<And>u. u \<in> set us \<Longrightarrow> tol_covered ts u) \<Longrightarrow> foldl add_toleration ts us = ts"
proof -
  have one: "tol_covered ts t \<Longrightarrow> tol_covered (add_toleration ts u) t" "tol_covered (add_toleration ts t) t"
    "set ts \<subseteq> set (add_toleration ts u) \<and> set (add_toleration ts u) \<subseteq> insert u (set ts)"
    "tol_covered ts t \<Longrightarrow> add_toleration ts t = ts" for ts t u
    by (auto simp: tol_covered_def add_toleration_def list_ex_iff)
  show keep: "tol_covered ts t \<Longrightarrow> tol_covered (foldl add_toleration ts us) t" for ts
    by (induction us arbitrary: ts) (auto intro: one)
  show "t \<in> set us \<Longrightarrow> tol_covered (foldl add_toleration ts us) t"
  proof (induction us arbitrary: ts)
    case (Cons u us)
    have "tol_covered (foldl add_toleration (add_toleration ts u) us) u" for ts us
      using one(2) [of ts u] by (induction us arbitrary: ts) (auto simp: one(1), metis one(1,2,4))
    with Cons show ?case by auto
  qed simp
  show "set ts \<subseteq> set (foldl add_toleration ts us) \<and> set (foldl add_toleration ts us) \<subseteq> set ts \<union> set us"
    using one(3) by (induction us arbitrary: ts) (simp, fastforce)
  show "(\<And>u. u \<in> set us \<Longrightarrow> tol_covered ts u) \<Longrightarrow> foldl add_toleration ts us = ts"
    by (induction us) (auto simp: one(4))
qed

lemma ApplyToPodSpec_alt:
  "ApplyToPodSpec p pod = pod\<lparr>p_node_selector := put_all (p_node_selector pod) (NodeSelector p),
     p_tolerations := foldl add_toleration (p_tolerations pod) (Tolerations p)\<rparr>"
  by (simp add: ApplyToPodSpec_def put_all_def)

lemma map_of_selector:
  "map_of (p_node_selector (ApplyToPodSpec p pod)) k =
     (case map_of (NodeSelector p) k of None \<Rightarrow> map_of (p_node_selector pod) k | Some v \<Rightarrow> Some v)"
  by (simp add: ApplyToPodSpec_alt map_of_put_all [OF NodeSelector_functional])

lemma map_of_functional:
  assumes "\<And>k v w. (k, v) \<in> set kvs \<Longrightarrow> (k, w) \<in> set kvs \<Longrightarrow> v = w" "(k, v) \<in> set kvs"
  shows "map_of kvs k = Some v"
  using assms by (cases "map_of kvs k") (auto simp: map_of_eq_None_iff image_iff dest: map_of_SomeD)

text \<open>
  Adding a placement to a pod is safe to do again: a second application changes nothing, the pod
  keeps every toleration it had, gains none that the placement does not give, and every key of its
  node selector that the placement does not set keeps its value.
\<close>

theorem ApplyToPodSpec_idempotent:
  "ApplyToPodSpec p (ApplyToPodSpec p pod) = ApplyToPodSpec p pod \<and>
   set (p_tolerations pod) \<subseteq> set (p_tolerations (ApplyToPodSpec p pod)) \<and>
   set (p_tolerations (ApplyToPodSpec p pod)) \<subseteq> set (p_tolerations pod) \<union> set (Tolerations p) \<and>
   map_of (p_node_selector (ApplyToPodSpec p pod)) = map_of (p_node_selector pod) ++ map_of (NodeSelector p)"
proof -
  let ?q = "ApplyToPodSpec p pod"
  have "put_all (p_node_selector ?q) (NodeSelector p) = p_node_selector ?q"
    by (rule put_all_same) (simp add: map_of_selector map_of_functional [OF NodeSelector_functional])
  moreover have "foldl add_toleration (p_tolerations ?q) (Tolerations p) = p_tolerations ?q"
    by (rule add_tolerations(4)) (simp add: ApplyToPodSpec_alt add_tolerations(2))
  ultimately have "ApplyToPodSpec p ?q = ?q"
    by (simp add: ApplyToPodSpec_alt [of p ?q])
  moreover have "set (p_tolerations pod) \<subseteq> set (p_tolerations ?q)"
    "set (p_tolerations ?q) \<subseteq> set (p_tolerations pod) \<union> set (Tolerations p)"
    using add_tolerations(3) [of "p_tolerations pod" "Tolerations p"] by (simp_all add: ApplyToPodSpec_alt)
  moreover have "map_of (p_node_selector ?q) = map_of (p_node_selector pod) ++ map_of (NodeSelector p)"
    by (simp add: fun_eq_iff map_of_selector map_add_def)
  ultimately show ?thesis by simp
qed

end
