(* ===== verification/Capacity.thy ===== *)
theory Capacity
  imports Placement
begin

section \<open>What a workload asks for, and the refusals (pkg/platform/capacity.go)\<close>

text \<open>
  The catalogue of workloads, the estimate made of a workload before it is created, and the messages
  that refuse one. How a quantity is printed is code of \<open>k8s.io/apimachinery\<close>: a \<open>quantity_format\<close>,
  the pair of what \<open>NewMilliQuantity(n, DecimalSI).String()\<close> and \<open>NewQuantity(n, BinarySI).String()\<close>
  return, is a parameter of what prints one, and no property depends on it.
\<close>

type_synonym quantity_format = "(int \<Rightarrow> string) \<times> (int \<Rightarrow> string)"

abbreviation WorkloadService :: string where "WorkloadService \<equiv> ''service''"
abbreviation WorkloadPostgres :: string where "WorkloadPostgres \<equiv> ''postgres''"
abbreviation WorkloadMySQL :: string where "WorkloadMySQL \<equiv> ''mysql''"
abbreviation WorkloadMariaDB :: string where "WorkloadMariaDB \<equiv> ''mariadb''"
abbreviation WorkloadSQLite :: string where "WorkloadSQLite \<equiv> ''sqlite''"
abbreviation WorkloadRedis :: string where "WorkloadRedis \<equiv> ''redis''"
abbreviation WorkloadObjectStore :: string where "WorkloadObjectStore \<equiv> ''objectstore''"
abbreviation WorkloadBucket :: string where "WorkloadBucket \<equiv> ''bucket''"
abbreviation WorkloadLogical :: string where "WorkloadLogical \<equiv> ''logical''"
abbreviation WorkloadExternal :: string where "WorkloadExternal \<equiv> ''external''"

record workload_estimate =
  e_kind :: string
  e_label :: string
  e_cpu :: string
  e_memory :: string
  e_cpu_millis :: int
  e_memory_bytes :: int
  e_replicas :: int
  e_approximate :: bool
  e_per_cpu :: string
  e_per_memory :: string
  e_per_cpu_millis :: int
  e_per_mem_bytes :: int

record workload_defaults =
  wd_label :: string
  wd_cpu_milli :: int
  wd_mem_bytes :: int
  wd_ha_count :: int
  wd_ha_mem_bytes :: int

definition workloadCatalog :: "(string \<times> workload_defaults) list" where
  "workloadCatalog =
    [(WorkloadService, \<lparr>wd_label = ''service'', wd_cpu_milli = 100, wd_mem_bytes = 128 * 1024 * 1024,
        wd_ha_count = 1, wd_ha_mem_bytes = 0\<rparr>),
     (WorkloadPostgres, \<lparr>wd_label = ''PostgreSQL database'', wd_cpu_milli = 250, wd_mem_bytes = 512 * 1024 * 1024,
        wd_ha_count = 3, wd_ha_mem_bytes = 0\<rparr>),
     (WorkloadMySQL, \<lparr>wd_label = ''MySQL database'', wd_cpu_milli = 250, wd_mem_bytes = 512 * 1024 * 1024,
        wd_ha_count = 3, wd_ha_mem_bytes = 1024 * 1024 * 1024\<rparr>),
     (WorkloadMariaDB, \<lparr>wd_label = ''MariaDB database'', wd_cpu_milli = 250, wd_mem_bytes = 512 * 1024 * 1024,
        wd_ha_count = 3, wd_ha_mem_bytes = 0\<rparr>),
     (WorkloadSQLite, \<lparr>wd_label = ''SQLite database'', wd_cpu_milli = 100, wd_mem_bytes = 128 * 1024 * 1024,
        wd_ha_count = 1, wd_ha_mem_bytes = 0\<rparr>),
     (WorkloadRedis, \<lparr>wd_label = ''Redis database'', wd_cpu_milli = 100, wd_mem_bytes = 128 * 1024 * 1024,
        wd_ha_count = 3, wd_ha_mem_bytes = 0\<rparr>),
     (WorkloadObjectStore, \<lparr>wd_label = ''object storage server'', wd_cpu_milli = 250, wd_mem_bytes = 512 * 1024 * 1024,
        wd_ha_count = 1, wd_ha_mem_bytes = 0\<rparr>),
     (WorkloadBucket, \<lparr>wd_label = ''bucket'', wd_cpu_milli = 0, wd_mem_bytes = 0, wd_ha_count = 1, wd_ha_mem_bytes = 0\<rparr>),
     (WorkloadLogical, \<lparr>wd_label = ''logical database'', wd_cpu_milli = 0, wd_mem_bytes = 0, wd_ha_count = 1, wd_ha_mem_bytes = 0\<rparr>),
     (WorkloadExternal, \<lparr>wd_label = ''external resource'', wd_cpu_milli = 0, wd_mem_bytes = 0, wd_ha_count = 1, wd_ha_mem_bytes = 0\<rparr>)]"

definition service_defaults :: workload_defaults where
  "service_defaults = (case map_of workloadCatalog WorkloadService of Some d \<Rightarrow> d
     | None \<Rightarrow> \<lparr>wd_label = [], wd_cpu_milli = 0, wd_mem_bytes = 0, wd_ha_count = 0, wd_ha_mem_bytes = 0\<rparr>)"

definition FormatCPUMillis :: "quantity_format \<Rightarrow> int \<Rightarrow> string" where
  "FormatCPUMillis q millis = (if millis \<le> 0 then ''0'' else fst q millis)"

definition FormatMemoryBytes :: "quantity_format \<Rightarrow> int \<Rightarrow> string" where
  "FormatMemoryBytes q bytes = (if bytes \<le> 0 then ''0'' else snd q bytes)"

definition QuantityMillis :: "quantity \<Rightarrow> int" where
  "QuantityMillis q = MilliValue q"

definition QuantityBytes :: "quantity \<Rightarrow> int" where
  "QuantityBytes q = QValue q"

definition EstimateWorkload :: "quantity_format \<Rightarrow> string \<Rightarrow> bool \<Rightarrow> int \<Rightarrow> workload_estimate" where
  "EstimateWorkload q kind ha replicas =
     (let (defaults, kind) = (case map_of workloadCatalog kind of
            Some d \<Rightarrow> (d, kind) | None \<Rightarrow> (service_defaults, WorkloadService));
          count = (if replicas > 0 then replicas
                   else if ha \<and> wd_ha_count defaults > 1 then wd_ha_count defaults else 1);
          perMem = (if count > 1 \<and> wd_ha_mem_bytes defaults > 0 then wd_ha_mem_bytes defaults
                    else wd_mem_bytes defaults);
          totalCPU = wrap64 (wd_cpu_milli defaults * count);
          totalMem = wrap64 (perMem * count)
      in \<lparr>e_kind = kind, e_label = wd_label defaults, e_cpu = FormatCPUMillis q totalCPU,
          e_memory = FormatMemoryBytes q totalMem, e_cpu_millis = totalCPU, e_memory_bytes = totalMem,
          e_replicas = count, e_approximate = True, e_per_cpu = FormatCPUMillis q (wd_cpu_milli defaults),
          e_per_memory = FormatMemoryBytes q perMem, e_per_cpu_millis = wd_cpu_milli defaults,
          e_per_mem_bytes = perMem\<rparr>)"

definition WorkloadEstimates :: "quantity_format \<Rightarrow> (string \<times> workload_estimate) list" where
  "WorkloadEstimates q =
     map (\<lambda>(kind, d). (kind, EstimateWorkload q kind False 1)) workloadCatalog @
     map (\<lambda>kind. (kind @ ''-ha'', EstimateWorkload q kind True 0))
       [WorkloadPostgres, WorkloadMySQL, WorkloadMariaDB, WorkloadRedis]"

subsection \<open>Messages\<close>

definition InsufficientCapacityMessage :: "workload_estimate \<Rightarrow> string \<Rightarrow> string \<Rightarrow> string" where
  "InsufficientCapacityMessage est availableCPU availableMemory =
     ''This '' @ e_label est @ '' needs about '' @ e_cpu est @ '' CPU and '' @ e_memory est @
     '' memory. The cluster currently has '' @ availableCPU @ '' CPU and '' @ availableMemory @
     '' memory available. Scale up the cluster before creating it''"

definition UnknownCapacityMessage :: "workload_estimate \<Rightarrow> string" where
  "UnknownCapacityMessage est = ''Cluster capacity is unknown, so this '' @ e_label est @
     '' cannot be scheduled yet. Scale up until schedulable nodes report CPU and memory''"

definition NodeTooSmallMessage :: "workload_estimate \<Rightarrow> string" where
  "NodeTooSmallMessage est = ''This '' @ e_label est @ '' needs about '' @ e_per_cpu est @ '' CPU and '' @
     e_per_memory est @ '' memory per instance, but no schedulable node has enough allocatable capacity. Scale up with larger nodes''"

definition NoNodesInPlacementMessage :: "workload_estimate \<Rightarrow> string \<Rightarrow> string" where
  "NoNodesInPlacementMessage est place = ''There is no ready node in '' @ place @ '' to run this '' @ e_label est @
     ''. Add a node there, or choose another region''"

definition plural :: "int \<Rightarrow> string \<Rightarrow> string \<Rightarrow> string" where
  "plural n one many = (if n = 1 then one else many)"

definition ReservedNodesMessage :: "workload_estimate \<Rightarrow> string \<Rightarrow> int \<Rightarrow> string" where
  "ReservedNodesMessage est place reserved =
     ''The '' @ (if reserved = 1 then ''node in'' else ''nodes in'') @ '' '' @
     (if place \<noteq> [] then place else ''the cluster'') @ '' '' @ plural reserved ''is'' ''are'' @
     '' reserved for other work, so this '' @ e_label est @
     '' has nowhere to run. Add a node, or release a node from its reservation''"

definition NodeTooSmallInPlacementMessage :: "workload_estimate \<Rightarrow> string \<Rightarrow> string" where
  "NodeTooSmallInPlacementMessage est place = ''This '' @ e_label est @ '' needs about '' @ e_per_cpu est @ '' CPU and '' @
     e_per_memory est @ '' memory per instance, but no node in '' @ place @
     '' has enough allocatable capacity. Add larger nodes there''"

definition to_upper_char :: "char \<Rightarrow> char" where
  "to_upper_char c = (if 97 \<le> (of_char c :: nat) \<and> of_char c \<le> (122::nat)
     then char_of ((of_char c :: nat) - 32) else c)"

definition upperFirst :: "string \<Rightarrow> string" where
  "upperFirst s = (case s of [] \<Rightarrow> [] | c # cs \<Rightarrow> to_upper_char c # cs)"

definition InsufficientCapacityInPlacementMessage :: "workload_estimate \<Rightarrow> string \<Rightarrow> string \<Rightarrow> string \<Rightarrow> string" where
  "InsufficientCapacityInPlacementMessage est place availableCPU availableMemory =
     ''This '' @ e_label est @ '' needs about '' @ e_cpu est @ '' CPU and '' @ e_memory est @ '' memory. '' @
     upperFirst place @ '' currently has '' @ availableCPU @ '' CPU and '' @ availableMemory @
     '' memory available. Add nodes there before creating it''"

section \<open>Lemmas\<close>

text \<open>What every entry of the catalogue keeps to.\<close>

definition sane_defaults :: "workload_defaults \<Rightarrow> bool" where
  "sane_defaults d \<longleftrightarrow> 0 \<le> wd_cpu_milli d \<and> wd_cpu_milli d \<le> 250 \<and> 0 \<le> wd_mem_bytes d \<and>
     wd_mem_bytes d \<le> 2 ^ 29 \<and> 1 \<le> wd_ha_count d \<and> wd_ha_count d \<le> 3 \<and>
     0 \<le> wd_ha_mem_bytes d \<and> wd_ha_mem_bytes d \<le> 2 ^ 30"

lemma catalog_sane: "list_all (\<lambda>(k, d). sane_defaults d) workloadCatalog"
  by (simp add: workloadCatalog_def sane_defaults_def)

lemma catalog_lookup_sane: "map_of workloadCatalog kind = Some d \<Longrightarrow> sane_defaults d"
  using catalog_sane by (auto simp: list_all_iff dest!: map_of_SomeD)

lemma service_sane: "sane_defaults service_defaults"
  by (simp add: service_defaults_def workloadCatalog_def sane_defaults_def)

lemma product_in64:
  fixes a b :: int
  assumes "0 \<le> a" "a \<le> 2 ^ 30" "1 \<le> b" "b \<le> max_int32"
  shows "in64 (a * b)"
proof -
  have "a * b \<le> 2 ^ 30 * (2 ^ 31 - 1)"
    using assms by (intro mult_mono) (auto simp: max_int32_def)
  moreover have "0 \<le> a * b"
    using assms by simp
  ultimately show ?thesis
    by (simp add: in64_def max_int64_def min_int64_def)
qed

text \<open>
  An estimate never overflows and is exactly its instances. For every kind, known or not, and any
  32-bit number of replicas, the estimate is for at least one instance, its totals are the amounts per
  instance times the instances, computed without leaving the range of an \<open>int64\<close>, and none is negative.
\<close>

theorem estimate_is_per_instance:
  assumes "in32 replicas" and est: "est = EstimateWorkload q kind ha replicas"
  shows "1 \<le> e_replicas est \<and> in32 (e_replicas est) \<and>
    e_cpu_millis est = e_per_cpu_millis est * e_replicas est \<and>
    e_memory_bytes est = e_per_mem_bytes est * e_replicas est \<and>
    0 \<le> e_per_cpu_millis est \<and> 0 \<le> e_per_mem_bytes est \<and>
    in64 (e_cpu_millis est) \<and> in64 (e_memory_bytes est)"
proof -
  obtain d k where dk: "(case map_of workloadCatalog kind of
      Some d \<Rightarrow> (d, kind) | None \<Rightarrow> (service_defaults, WorkloadService)) = (d, k)"
    by fastforce
  then have sane: "sane_defaults d"
    using service_sane by (auto intro: catalog_lookup_sane split: option.splits)
  define count where "count = (if replicas > 0 then replicas else if ha \<and> wd_ha_count d > 1 then wd_ha_count d else 1)"
  define perMem where "perMem = (if count > 1 \<and> wd_ha_mem_bytes d > 0 then wd_ha_mem_bytes d else wd_mem_bytes d)"
  have c: "1 \<le> count" "count \<le> max_int32"
    using sane assms(1) by (auto simp: count_def sane_defaults_def in32_def max_int32_def)
  have "in64 (wd_cpu_milli d * count)" "in64 (perMem * count)"
    by (rule product_in64; use sane c in \<open>simp add: sane_defaults_def perMem_def\<close>)+
  moreover have "0 \<le> wd_cpu_milli d" "0 \<le> perMem"
    using sane by (auto simp: sane_defaults_def perMem_def)
  moreover have "est = EstimateWorkload q kind ha replicas \<Longrightarrow> e_replicas est = count \<and> e_per_cpu_millis est = wd_cpu_milli d \<and>
      e_per_mem_bytes est = perMem \<and> e_cpu_millis est = wrap64 (wd_cpu_milli d * count) \<and>
      e_memory_bytes est = wrap64 (perMem * count)"
    by (simp add: EstimateWorkload_def dk Let_def count_def perMem_def)
  ultimately show ?thesis
    using est c by (simp add: in32_def max_int32_def)
qed

definition plain_format :: quantity_format where
  "plain_format = (\<lambda>n. ''cpu'', \<lambda>n. ''memory'')"

theorem estimate_is_per_instance_witness:
  "e_memory_bytes (EstimateWorkload plain_format ''mysql'' True 0) = 3 * 1024 * 1024 * 1024 \<and>
   in64 (e_memory_bytes (EstimateWorkload plain_format ''mysql'' True max_int32))"
  using estimate_is_per_instance [of max_int32 "EstimateWorkload plain_format ''mysql'' True max_int32" plain_format "''mysql''" True]
    estimate_is_per_instance [of 0 "EstimateWorkload plain_format ''mysql'' True 0" plain_format "''mysql''" True]
  by (simp add: EstimateWorkload_def workloadCatalog_def in32_def max_int32_def in64_def min_int64_def max_int64_def Let_def)

end
