(* ===== verification/Scheduling.thy ===== *)
theory Scheduling
  imports Capacity
begin

section \<open>What the pods use and what the nodes have free\<close>

text \<open>
  \<open>pkg/platform/clustersnapshot.go\<close>, \<open>podusage.go\<close>, \<open>nodeselector.go\<close>, and the part of
  \<open>autoscale.go\<close> that says which nodes a pod may run on.
  \<^item> \<open>UsageOfPods\<close> adds up what a list of pods asks for; \<open>pod_usage_index\<close> with \<open>idx_Set\<close> and
    \<open>idx_Remove\<close> keeps the same totals from one event at a time. The interface of the index is the
    locale \<open>pod_index\<close>; its interpretation shows that the index holds the usage of the pods that exist
    after any events.
  \<^item> \<open>ComputeClusterSnapshotFromUsage\<close> and \<open>Fits\<close> are the capacity check.
  \<^item> A Go map is an association list; a read of a missing key gives the zero value (\<open>req0\<close>). The
    mutex of the index makes each of its methods one step. Amounts are unbounded integers: the totals
    of a cluster stay far below the range of an \<open>int64\<close>.
\<close>

subsection \<open>Requests of pods (clustersnapshot.go)\<close>

record requests =
  CPUMillis :: int
  MemoryBytes :: int

definition zero_requests :: requests where
  "zero_requests = \<lparr>CPUMillis = 0, MemoryBytes = 0\<rparr>"

definition containerRequestedCPU :: "container list \<Rightarrow> int" where
  "containerRequestedCPU cs = sum_list (map (\<lambda>c. QuantityMillis (rl_get (c_requests c) ResourceCPU)) cs)"

definition containerRequestedMemory :: "container list \<Rightarrow> int" where
  "containerRequestedMemory cs = sum_list (map (\<lambda>c. QuantityBytes (rl_get (c_requests c) ResourceMemory)) cs)"

definition PodRequests :: "pod \<Rightarrow> int \<times> int" where
  "PodRequests pod =
     (containerRequestedCPU (p_init_containers pod) + containerRequestedCPU (p_containers pod) +
        QuantityMillis (rl_get (p_overhead pod) ResourceCPU),
      containerRequestedMemory (p_init_containers pod) + containerRequestedMemory (p_containers pod) +
        QuantityBytes (rl_get (p_overhead pod) ResourceMemory))"

subsection \<open>The usage of pods (podusage.go)\<close>

record pod_usage =
  PerNode :: "(string \<times> requests) list"
  Unplaced :: "pod list"

definition podCounts :: "pod \<Rightarrow> bool" where
  "podCounts pod \<longleftrightarrow> \<not> p_deleting pod \<and> p_phase pod \<noteq> PodSucceeded \<and> p_phase pod \<noteq> PodFailed"

definition req0 :: "(string \<times> requests) list \<Rightarrow> string \<Rightarrow> requests" where
  "req0 m k = (case map_of m k of None \<Rightarrow> zero_requests | Some r \<Rightarrow> r)"

definition add_requests :: "(string \<times> requests) list \<Rightarrow> string \<Rightarrow> int \<Rightarrow> int \<Rightarrow> (string \<times> requests) list" where
  "add_requests m k cpu memory = (let total = req0 m k in
     AList.update k \<lparr>CPUMillis = CPUMillis total + cpu, MemoryBytes = MemoryBytes total + memory\<rparr> m)"

definition use_pod :: "pod_usage \<Rightarrow> pod \<Rightarrow> pod_usage" where
  "use_pod usage pod =
     (if \<not> podCounts pod then usage
      else if p_node_name pod = [] then usage\<lparr>Unplaced := Unplaced usage @ [pod]\<rparr>
      else let (cpu, memory) = PodRequests pod
           in usage\<lparr>PerNode := add_requests (PerNode usage) (p_node_name pod) cpu memory\<rparr>)"

definition UsageOfPods :: "pod list \<Rightarrow> pod_usage" where
  "UsageOfPods pods = foldl use_pod \<lparr>PerNode = [], Unplaced = []\<rparr> pods"

record pod_contribution =
  pc_node :: string
  pc_request :: requests

record pod_usage_index =
  idx_counted :: "(string \<times> pod_contribution) list"
  idx_perNode :: "(string \<times> requests) list"
  idx_unplaced :: "(string \<times> pod) list"
  idx_ready :: bool

definition NewPodUsageIndex :: pod_usage_index where
  "NewPodUsageIndex = \<lparr>idx_counted = [], idx_perNode = [], idx_unplaced = [], idx_ready = False\<rparr>"

text \<open>The receiver may be nil: an index that is \<open>None\<close> is not ready.\<close>

definition idx_Ready :: "pod_usage_index option \<Rightarrow> bool" where
  "idx_Ready x = (case x of None \<Rightarrow> False | Some i \<Rightarrow> idx_ready i)"

definition idx_SetReady :: "pod_usage_index \<Rightarrow> pod_usage_index" where
  "idx_SetReady x = x\<lparr>idx_ready := True\<rparr>"

definition removeLocked :: "string \<Rightarrow> pod_usage_index \<Rightarrow> pod_usage_index" where
  "removeLocked uid x =
     (let x = x\<lparr>idx_unplaced := AList.delete uid (idx_unplaced x)\<rparr> in
      case map_of (idx_counted x) uid of
        None \<Rightarrow> x
      | Some c \<Rightarrow>
          (let x = x\<lparr>idx_counted := AList.delete uid (idx_counted x)\<rparr>;
               total = req0 (idx_perNode x) (pc_node c);
               total = \<lparr>CPUMillis = CPUMillis total - CPUMillis (pc_request c),
                        MemoryBytes = MemoryBytes total - MemoryBytes (pc_request c)\<rparr>
           in if total = zero_requests then x\<lparr>idx_perNode := AList.delete (pc_node c) (idx_perNode x)\<rparr>
              else x\<lparr>idx_perNode := AList.update (pc_node c) total (idx_perNode x)\<rparr>))"

definition idx_Set :: "pod \<Rightarrow> pod_usage_index \<Rightarrow> pod_usage_index" where
  "idx_Set pod x =
     (let x = removeLocked (p_uid pod) x in
      if \<not> podCounts pod then x
      else if p_node_name pod = [] then x\<lparr>idx_unplaced := AList.update (p_uid pod) pod (idx_unplaced x)\<rparr>
      else let (cpu, memory) = PodRequests pod in
        x\<lparr>idx_counted := AList.update (p_uid pod)
             \<lparr>pc_node = p_node_name pod, pc_request = \<lparr>CPUMillis = cpu, MemoryBytes = memory\<rparr>\<rparr> (idx_counted x),
          idx_perNode := add_requests (idx_perNode x) (p_node_name pod) cpu memory\<rparr>)"

definition idx_Remove :: "pod \<Rightarrow> pod_usage_index \<Rightarrow> pod_usage_index" where
  "idx_Remove pod x = removeLocked (p_uid pod) x"

definition idx_Usage :: "pod_usage_index \<Rightarrow> pod_usage" where
  "idx_Usage x = \<lparr>PerNode = idx_perNode x, Unplaced = map snd (idx_unplaced x)\<rparr>"

definition UnplacedPods :: "pod_usage_index \<Rightarrow> pod list" where
  "UnplacedPods x = map snd (idx_unplaced x)"

subsection \<open>Which nodes a pod may run on\<close>

definition selectorMatches :: "labels \<Rightarrow> labels \<Rightarrow> bool" where
  "selectorMatches selector ls = list_all (\<lambda>(k, v). lookup0 ls k = v) selector"

definition tolerationMatches :: "toleration \<Rightarrow> taint \<Rightarrow> bool" where
  "tolerationMatches tol t =
     (if tol_effect tol \<noteq> [] \<and> tol_effect tol \<noteq> t_effect t then False
      else if tol_key tol \<noteq> [] \<and> tol_key tol \<noteq> t_key t then False
      else if tol_operator tol = TolerationOpExists then True
      else tol_value tol = t_value t)"

definition podToleratesTaints :: "pod \<Rightarrow> taint list \<Rightarrow> bool" where
  "podToleratesTaints pod taints = list_all (\<lambda>t.
     (if t_effect t \<noteq> TaintEffectNoSchedule \<and> t_effect t \<noteq> TaintEffectNoExecute then True
      else list_ex (\<lambda>tol. tolerationMatches tol t) (p_tolerations pod))) taints"

definition podCouldRunOnAny :: "pod \<Rightarrow> node list \<Rightarrow> bool" where
  "podCouldRunOnAny pod nodes = list_ex (\<lambda>node.
     selectorMatches (p_node_selector pod) (n_labels node) \<and> podToleratesTaints pod (n_taints node)) nodes"

abbreviation NodeSelectorOpIn :: string where "NodeSelectorOpIn \<equiv> ''In''"
abbreviation NodeSelectorOpNotIn :: string where "NodeSelectorOpNotIn \<equiv> ''NotIn''"
abbreviation NodeSelectorOpExists :: string where "NodeSelectorOpExists \<equiv> ''Exists''"
abbreviation NodeSelectorOpDoesNotExist :: string where "NodeSelectorOpDoesNotExist \<equiv> ''DoesNotExist''"
abbreviation NodeSelectorOpGt :: string where "NodeSelectorOpGt \<equiv> ''Gt''"
abbreviation NodeSelectorOpLt :: string where "NodeSelectorOpLt \<equiv> ''Lt''"

text \<open>\<open>expressionMatches\<close> of autoscale.go: the labels are a map, read with a second result.\<close>

definition expressionMatches :: "node_selector_requirement \<Rightarrow> labels \<Rightarrow> bool" where
  "expressionMatches e ls =
     (let val = lookup0 ls (nsr_key e); has = has_key ls (nsr_key e); opr = nsr_operator e in
      if opr = NodeSelectorOpIn then has \<and> val \<in> set (nsr_values e)
      else if opr = NodeSelectorOpNotIn then \<not> has \<or> val \<notin> set (nsr_values e)
      else if opr = NodeSelectorOpExists then has
      else if opr = NodeSelectorOpDoesNotExist then \<not> has
      else if opr = NodeSelectorOpGt \<or> opr = NodeSelectorOpLt then
        (case nsr_values e of
           [w] \<Rightarrow> has \<and> (case (parse_int64 val, parse_int64 w) of
               (Some h, Some w) \<Rightarrow> if opr = NodeSelectorOpGt then h > w else h < w
             | _ \<Rightarrow> False)
         | _ \<Rightarrow> False)
      else False)"

definition termMatches :: "node_selector_term \<Rightarrow> node \<Rightarrow> bool" where
  "termMatches t node \<longleftrightarrow>
     list_all (\<lambda>e. expressionMatches e (n_labels node)) (MatchExpressions t) \<and>
     list_all (\<lambda>e. if nsr_key e \<noteq> ''metadata.name'' then True
       else expressionMatches \<lparr>nsr_key = ''name'', nsr_operator = nsr_operator e, nsr_values = nsr_values e\<rparr>
              [(''name'', n_name node)]) (MatchFields t)"

definition affinityMatches :: "pod \<Rightarrow> node \<Rightarrow> bool" where
  "affinityMatches pod node = (case p_affinity pod of
      None \<Rightarrow> True
    | Some terms \<Rightarrow> if terms = [] then True else list_ex (\<lambda>t. termMatches t node) terms)"

definition PodCouldRunOn :: "pod \<Rightarrow> node \<Rightarrow> bool" where
  "PodCouldRunOn pod node =
     (if \<not> selectorMatches (p_node_selector pod) (n_labels node) then False
      else if \<not> affinityMatches pod node then False
      else podToleratesTaints pod (n_taints node))"

subsection \<open>Node selectors (nodeselector.go)\<close>

definition requirementHolds :: "node_selector_requirement \<Rightarrow> string \<Rightarrow> bool \<Rightarrow> bool" where
  "requirementHolds r val present =
     (if nsr_operator r = NodeSelectorOpIn then present \<and> val \<in> set (nsr_values r)
      else if nsr_operator r = NodeSelectorOpNotIn then \<not> present \<or> val \<notin> set (nsr_values r)
      else if nsr_operator r = NodeSelectorOpExists then present
      else if nsr_operator r = NodeSelectorOpDoesNotExist then \<not> present
      else if nsr_operator r = NodeSelectorOpGt \<or> nsr_operator r = NodeSelectorOpLt then
        (if \<not> present \<or> length (nsr_values r) \<noteq> 1 then False
         else case parse_int64 val of
           None \<Rightarrow> False
         | Some h \<Rightarrow> (case parse_int64 (hd (nsr_values r)) of
             None \<Rightarrow> False
           | Some w \<Rightarrow> if nsr_operator r = NodeSelectorOpGt then h > w else h < w))
      else False)"

definition nodeSelectorTermMatches :: "node_selector_term \<Rightarrow> node \<Rightarrow> bool" where
  "nodeSelectorTermMatches t node =
     (if MatchExpressions t = [] \<and> MatchFields t = [] then False
      else list_all (\<lambda>r. requirementHolds r (lookup0 (n_labels node) (nsr_key r)) (has_key (n_labels node) (nsr_key r)))
             (MatchExpressions t) \<and>
           list_all (\<lambda>r. if nsr_key r \<noteq> ''metadata.name'' then False else requirementHolds r (n_name node) True)
             (MatchFields t))"

definition NodeSelectorMatches :: "node_selector_term list option \<Rightarrow> node \<Rightarrow> bool" where
  "NodeSelectorMatches selector node = (case selector of
      None \<Rightarrow> True | Some terms \<Rightarrow> list_ex (\<lambda>t. nodeSelectorTermMatches t node) terms)"

text \<open>A volume is its required node affinity, \<open>None\<close> where it or what leads to it is nil.\<close>

definition VolumeNodeSelector :: "node_selector_term list option \<Rightarrow> node_selector_term list option \<times> bool" where
  "VolumeNodeSelector pv = (case pv of
      None \<Rightarrow> (None, False)
    | Some terms \<Rightarrow> if terms = [] then (None, False) else (Some terms, True))"

definition VolumeReachableFrom :: "node_selector_term list option \<Rightarrow> node list \<Rightarrow> bool" where
  "VolumeReachableFrom pv nodes = (let (selector, bound) = VolumeNodeSelector pv in
     if \<not> bound then True else list_ex (NodeSelectorMatches selector) nodes)"

subsection \<open>The capacity of the cluster (clustersnapshot.go)\<close>

record cluster_snapshot =
  Known :: bool
  CPUAllocatableMillis :: int
  CPURequestedMillis :: int
  CPUAvailableMillis :: int
  MemoryAllocatableBytes :: int
  MemoryRequestedBytes :: int
  MemoryAvailableBytes :: int
  LargestNodeCPUMillis :: int
  LargestNodeMemoryBytes :: int
  SchedulableNodes :: int
  ReservedNodes :: int
  CPUAvailable :: string
  MemoryAvailable :: string
  Where :: string

definition empty_snapshot :: "string \<Rightarrow> cluster_snapshot" where
  "empty_snapshot place = \<lparr>Known = False, CPUAllocatableMillis = 0, CPURequestedMillis = 0, CPUAvailableMillis = 0,
     MemoryAllocatableBytes = 0, MemoryRequestedBytes = 0, MemoryAvailableBytes = 0, LargestNodeCPUMillis = 0,
     LargestNodeMemoryBytes = 0, SchedulableNodes = 0, ReservedNodes = 0, CPUAvailable = [], MemoryAvailable = [],
     Where = place\<rparr>"

definition node_cpu :: "node \<Rightarrow> int" where
  "node_cpu node = QuantityMillis (rl_get (n_allocatable node) ResourceCPU)"

definition node_memory :: "node \<Rightarrow> int" where
  "node_memory node = QuantityBytes (rl_get (n_allocatable node) ResourceMemory)"

text \<open>The body of the first loop: one node, and the list of eligible nodes so far.\<close>

definition count_node :: "placement \<Rightarrow> cluster_snapshot \<times> node list \<Rightarrow> node \<Rightarrow> cluster_snapshot \<times> node list" where
  "count_node placement st node = (case st of (snapshot, eligible) \<Rightarrow>
     if \<not> Eligible placement node then
       (if ReservedAgainst placement node then snapshot\<lparr>ReservedNodes := ReservedNodes snapshot + 1\<rparr> else snapshot, eligible)
     else if node_cpu node = 0 \<and> node_memory node = 0 then (snapshot, eligible)
     else (snapshot\<lparr>SchedulableNodes := SchedulableNodes snapshot + 1,
             CPUAllocatableMillis := CPUAllocatableMillis snapshot + node_cpu node,
             MemoryAllocatableBytes := MemoryAllocatableBytes snapshot + node_memory node,
             LargestNodeCPUMillis := (if node_cpu node > LargestNodeCPUMillis snapshot then node_cpu node
                                      else LargestNodeCPUMillis snapshot),
             LargestNodeMemoryBytes := (if node_memory node > LargestNodeMemoryBytes snapshot then node_memory node
                                        else LargestNodeMemoryBytes snapshot)\<rparr>,
           eligible @ [node]))"

definition requested_of :: "pod_usage \<Rightarrow> node list \<Rightarrow> int \<times> int" where
  "requested_of usage eligible =
     (let onNodes = foldl (\<lambda>(cpu, mem) node. let requested = req0 (PerNode usage) (n_name node) in
            (cpu + CPUMillis requested, mem + MemoryBytes requested)) (0, 0) eligible
      in foldl (\<lambda>(cpu, mem) pod. if podCouldRunOnAny pod eligible
           then (cpu + fst (PodRequests pod), mem + snd (PodRequests pod)) else (cpu, mem)) onNodes (Unplaced usage))"

definition ComputeClusterSnapshotFromUsage ::
  "quantity_format \<Rightarrow> node list \<Rightarrow> pod_usage \<Rightarrow> placement \<Rightarrow> cluster_snapshot" where
  "ComputeClusterSnapshotFromUsage q nodes usage placement =
     (let (snapshot, eligible) = foldl (count_node placement) (empty_snapshot (Describe placement), []) nodes;
          (requestedCPU, requestedMem) = requested_of usage eligible;
          cpuAvailable = max (CPUAllocatableMillis snapshot - requestedCPU) 0;
          memAvailable = max (MemoryAllocatableBytes snapshot - requestedMem) 0
      in snapshot\<lparr>CPURequestedMillis := requestedCPU, MemoryRequestedBytes := requestedMem,
           CPUAvailableMillis := cpuAvailable, MemoryAvailableBytes := memAvailable,
           CPUAvailable := FormatCPUMillis q cpuAvailable, MemoryAvailable := FormatMemoryBytes q memAvailable,
           Known := SchedulableNodes snapshot > 0\<rparr>)"

definition ComputeClusterSnapshotFor ::
  "quantity_format \<Rightarrow> node list \<Rightarrow> pod list \<Rightarrow> placement \<Rightarrow> cluster_snapshot" where
  "ComputeClusterSnapshotFor q nodes pods placement =
     ComputeClusterSnapshotFromUsage q nodes (UsageOfPods pods) placement"

definition ComputeClusterSnapshot :: "quantity_format \<Rightarrow> node list \<Rightarrow> pod list \<Rightarrow> cluster_snapshot" where
  "ComputeClusterSnapshot q nodes pods = ComputeClusterSnapshotFor q nodes pods anywhere"

definition Fits :: "cluster_snapshot \<Rightarrow> workload_estimate \<Rightarrow> bool \<times> string" where
  "Fits c est =
     (if e_cpu_millis est = 0 \<and> e_memory_bytes est = 0 then (True, [])
      else if \<not> Known c then
        (if ReservedNodes c > 0 then (False, ReservedNodesMessage est (Where c) (ReservedNodes c))
         else if Where c \<noteq> [] then (False, NoNodesInPlacementMessage est (Where c))
         else (False, UnknownCapacityMessage est))
      else if e_per_cpu_millis est > LargestNodeCPUMillis c \<or> e_per_mem_bytes est > LargestNodeMemoryBytes c then
        (if Where c \<noteq> [] then (False, NodeTooSmallInPlacementMessage est (Where c))
         else (False, NodeTooSmallMessage est))
      else if e_cpu_millis est > CPUAvailableMillis c \<or> e_memory_bytes est > MemoryAvailableBytes c then
        (if Where c \<noteq> [] then (False, InsufficientCapacityInPlacementMessage est (Where c) (CPUAvailable c) (MemoryAvailable c))
         else (False, InsufficientCapacityMessage est (CPUAvailable c) (MemoryAvailable c)))
      else (True, []))"

definition MemoryCeilingOfPods :: "pod list \<Rightarrow> int" where
  "MemoryCeilingOfPods pods = sum_list (map (\<lambda>pod.
     if \<not> podCounts pod \<or> p_node_name pod = [] then 0
     else sum_list (map (\<lambda>c. let limit = QuantityBytes (rl_get (c_limits c) ResourceMemory) in
            if limit = 0 then QuantityBytes (rl_get (c_requests c) ResourceMemory) else limit) (p_containers pod))) pods)"

section \<open>Lemmas\<close>

subsection \<open>The index keeps the usage of the pods that exist\<close>

text \<open>A pod that holds resources on a node, and one that holds them without a node yet.\<close>

definition placed :: "pod \<Rightarrow> bool" where
  "placed p \<longleftrightarrow> podCounts p \<and> p_node_name p \<noteq> []"

definition waiting :: "pod \<Rightarrow> bool" where
  "waiting p \<longleftrightarrow> podCounts p \<and> p_node_name p = []"

definition total_cpu :: "string \<Rightarrow> pod list \<Rightarrow> int" where
  "total_cpu n ps = sum_list (map (\<lambda>p. fst (PodRequests p)) (filter (\<lambda>p. placed p \<and> p_node_name p = n) ps))"

definition total_memory :: "string \<Rightarrow> pod list \<Rightarrow> int" where
  "total_memory n ps = sum_list (map (\<lambda>p. snd (PodRequests p)) (filter (\<lambda>p. placed p \<and> p_node_name p = n) ps))"

definition usage_on :: "string \<Rightarrow> pod list \<Rightarrow> requests" where
  "usage_on n ps = \<lparr>CPUMillis = total_cpu n ps, MemoryBytes = total_memory n ps\<rparr>"

lemmas usage_defs = usage_on_def total_cpu_def total_memory_def

lemma req0_update [simp]: "req0 (AList.update k v m) n = (if n = k then v else req0 m n)"
  by (simp add: req0_def update_conv')

lemma req0_delete [simp]: "req0 (AList.delete k m) n = (if n = k then zero_requests else req0 m n)"
  by (simp add: req0_def delete_conv')

lemma req0_Nil [simp]: "req0 [] n = zero_requests"
  by (simp add: req0_def)

lemma UsageOfPods_go:
  "Unplaced (foldl use_pod u ps) = Unplaced u @ filter waiting ps \<and>
   req0 (PerNode (foldl use_pod u ps)) n =
     \<lparr>CPUMillis = CPUMillis (req0 (PerNode u) n) + total_cpu n ps,
      MemoryBytes = MemoryBytes (req0 (PerNode u) n) + total_memory n ps\<rparr>"
  by (induction ps arbitrary: u)
    (auto simp: use_pod_def placed_def waiting_def total_cpu_def total_memory_def add_requests_def Let_def
      split: prod.splits)

lemma UsageOfPods_spec:
  "Unplaced (UsageOfPods ps) = filter waiting ps" "req0 (PerNode (UsageOfPods ps)) n = usage_on n ps"
  using UsageOfPods_go [of "\<lparr>PerNode = [], Unplaced = []\<rparr>" ps n]
  by (simp_all add: UsageOfPods_def usage_on_def zero_requests_def)

text \<open>The interface of an index of pods: what it shows after each event.\<close>

definition without :: "string \<Rightarrow> pod list \<Rightarrow> pod list" where
  "without uid ps = filter (\<lambda>p. p_uid p \<noteq> uid) ps"

datatype pod_event = PodSet pod | PodGone pod

fun pods_after :: "pod_event list \<Rightarrow> pod list" where
  "pods_after [] = []"
| "pods_after (PodSet p # evs) = p # without (p_uid p) (pods_after evs)"
| "pods_after (PodGone p # evs) = without (p_uid p) (pods_after evs)"

text \<open>The events are listed latest first.\<close>

locale pod_index =
  fixes initial :: 's and set_pod :: "pod \<Rightarrow> 's \<Rightarrow> 's" and remove_pod :: "pod \<Rightarrow> 's \<Rightarrow> 's"
    and holds :: "'s \<Rightarrow> pod list \<Rightarrow> bool"
  assumes holds_initial: "holds initial []"
    and holds_set: "holds s ps \<Longrightarrow> holds (set_pod p s) (p # without (p_uid p) ps)"
    and holds_remove: "holds s ps \<Longrightarrow> holds (remove_pod p s) (without (p_uid p) ps)"
begin

lemma holds_after:
  "holds (foldr (\<lambda>e. case e of PodSet p \<Rightarrow> set_pod p | PodGone p \<Rightarrow> remove_pod p) evs initial) (pods_after evs)"
  by (induction evs rule: pods_after.induct) (simp_all add: holds_initial holds_set holds_remove)

end

definition contribution_of :: "pod \<Rightarrow> pod_contribution" where
  "contribution_of p = \<lparr>pc_node = p_node_name p,
     pc_request = \<lparr>CPUMillis = fst (PodRequests p), MemoryBytes = snd (PodRequests p)\<rparr>\<rparr>"

definition index_holds :: "pod_usage_index \<Rightarrow> pod list \<Rightarrow> bool" where
  "index_holds x ps \<longleftrightarrow> distinct (map p_uid ps) \<and>
     mset (idx_unplaced x) = mset (map (\<lambda>p. (p_uid p, p)) (filter waiting ps)) \<and>
     mset (idx_counted x) = mset (map (\<lambda>p. (p_uid p, contribution_of p)) (filter placed ps)) \<and>
     (\<forall>n. req0 (idx_perNode x) n = usage_on n ps)"

lemma mset_delete: "mset (AList.delete k m) = filter_mset (\<lambda>kv. fst kv \<noteq> k) (mset m)"
  by (simp add: AList.delete_eq mset_filter case_prod_beta eq_commute)

lemma delete_keyed:
  assumes "mset m = mset (map (\<lambda>p. (p_uid p, f p)) (filter P ps))"
  shows "mset (AList.delete uid m) = mset (map (\<lambda>p. (p_uid p, f p)) (filter P (without uid ps)))"
proof -
  have "filter (\<lambda>kv. fst kv \<noteq> uid) (map (\<lambda>p. (p_uid p, f p)) (filter P ps)) =
      map (\<lambda>p. (p_uid p, f p)) (filter P (without uid ps))"
    by (induction ps) (auto simp: without_def)
  then show ?thesis by (simp only: mset_delete assms flip: mset_filter)
qed

lemma update_keyed:
  assumes "mset m = mset (map (\<lambda>p. (p_uid p, f p)) (filter P (without (p_uid p) ps)))"
  shows "mset (AList.update (p_uid p) v m) = add_mset (p_uid p, v) (mset m)"
proof -
  have "set m = set (map (\<lambda>p. (p_uid p, f p)) (filter P (without (p_uid p) ps)))"
    by (metis assms mset_eq_setD)
  then have "p_uid p \<notin> fst ` set m" by (auto simp: without_def)
  then show ?thesis by (simp add: update_new)
qed

lemma sum_without:
  fixes f :: "pod \<Rightarrow> int"
  assumes "distinct (map p_uid ps)" "p \<in> set ps"
  shows "sum_list (map f (filter Q (without (p_uid p) ps))) = sum_list (map f (filter Q ps)) - (if Q p then f p else 0)"
  using assms
proof (induction ps)
  case (Cons a ps)
  show ?case
  proof (cases "a = p")
    case True
    then have "without (p_uid p) (a # ps) = ps"
      using Cons.prems by (auto simp: without_def filter_id_conv image_iff)
    with True show ?thesis by simp
  next
    case False
    with Cons show ?thesis by (auto simp: without_def image_iff)
  qed
qed simp

lemma without_absent: "\<forall>p \<in> set ps. Q p \<longrightarrow> p_uid p \<noteq> uid \<Longrightarrow> filter Q (without uid ps) = filter Q ps"
  by (auto simp: without_def intro: filter_cong)

lemma index_holds_lookup:
  assumes "index_holds x ps"
  shows "map_of (idx_counted x) uid = Some c \<longleftrightarrow> (\<exists>p \<in> set ps. placed p \<and> p_uid p = uid \<and> c = contribution_of p)"
proof -
  have eq: "mset (idx_counted x) = mset (map (\<lambda>p. (p_uid p, contribution_of p)) (filter placed ps))"
    using assms by (simp add: index_holds_def)
  have "distinct (map p_uid (filter placed ps))"
    using assms by (simp add: index_holds_def distinct_map_filter)
  then have "distinct (map fst (map (\<lambda>p. (p_uid p, contribution_of p)) (filter placed ps)))"
    by (simp add: comp_def)
  then have "distinct (map fst (idx_counted x))"
    by (metis eq mset_eq_imp_distinct_iff mset_map)
  then have "map_of (idx_counted x) uid = Some c \<longleftrightarrow> (uid, c) \<in> set (idx_counted x)"
    by simp
  also have "set (idx_counted x) = (\<lambda>p. (p_uid p, contribution_of p)) ` {p \<in> set ps. placed p}"
    using mset_eq_setD [OF eq] by simp
  finally show ?thesis by auto
qed

lemma usage_without:
  assumes "distinct (map p_uid ps)" "p \<in> set ps" "placed p"
  shows "usage_on n (without (p_uid p) ps) = (if n = p_node_name p
    then \<lparr>CPUMillis = CPUMillis (usage_on n ps) - fst (PodRequests p),
          MemoryBytes = MemoryBytes (usage_on n ps) - snd (PodRequests p)\<rparr>
    else usage_on n ps)"
  using assms by (simp add: usage_defs sum_without)

lemma usage_without_absent: "\<forall>p \<in> set ps. placed p \<longrightarrow> p_uid p \<noteq> uid \<Longrightarrow> usage_on n (without uid ps) = usage_on n ps"
proof -
  assume "\<forall>p \<in> set ps. placed p \<longrightarrow> p_uid p \<noteq> uid"
  then have "filter (\<lambda>p. placed p \<and> p_node_name p = n) (without uid ps) = filter (\<lambda>p. placed p \<and> p_node_name p = n) ps"
    by (intro without_absent) simp
  then show ?thesis by (simp add: usage_defs)
qed

lemma index_holds_removeLocked:
  assumes h: "index_holds x ps"
  shows "index_holds (removeLocked uid x) (without uid ps)"
proof -
  have d: "distinct (map p_uid ps)" and d': "distinct (map p_uid (without uid ps))"
    using h by (simp_all add: index_holds_def without_def distinct_map_filter)
  have un: "mset (AList.delete uid (idx_unplaced x)) = mset (map (\<lambda>p. (p_uid p, p)) (filter waiting (without uid ps)))"
    using h by (intro delete_keyed) (simp add: index_holds_def)
  have co: "mset (AList.delete uid (idx_counted x)) =
      mset (map (\<lambda>p. (p_uid p, contribution_of p)) (filter placed (without uid ps)))"
    using h by (intro delete_keyed) (simp add: index_holds_def)
  show ?thesis
  proof (cases "map_of (idx_counted x) uid")
    case None
    then have none: "\<forall>p \<in> set ps. placed p \<longrightarrow> p_uid p \<noteq> uid"
      using index_holds_lookup [OF h, of uid] by fastforce
    then have "filter placed (without uid ps) = filter placed ps"
      by (rule without_absent)
    then show ?thesis
      using h d' un None usage_without_absent [OF none] by (simp add: index_holds_def removeLocked_def Let_def)
  next
    case (Some c)
    then obtain p where p: "p \<in> set ps" "placed p" "p_uid p = uid" "c = contribution_of p"
      using index_holds_lookup [OF h, of uid c] by auto
    have u: "usage_on n (without uid ps) = (if n = p_node_name p
      then \<lparr>CPUMillis = CPUMillis (usage_on n ps) - fst (PodRequests p),
            MemoryBytes = MemoryBytes (usage_on n ps) - snd (PodRequests p)\<rparr>
      else usage_on n ps)" for n
      using usage_without [OF d p(1,2), of n] p(3) by simp
    have r: "req0 (idx_perNode x) n = usage_on n ps" for n
      using h by (simp add: index_holds_def)
    show ?thesis
      using d' un co Some by (simp add: index_holds_def removeLocked_def Let_def u r p(4) contribution_of_def)
  qed
qed

lemma index_holds_Set:
  assumes "index_holds x ps"
  shows "index_holds (idx_Set p x) (p # without (p_uid p) ps)"
proof -
  define y where "y = removeLocked (p_uid p) x"
  have h: "index_holds y (without (p_uid p) ps)"
    unfolding y_def by (rule index_holds_removeLocked [OF assms])
  then have d: "distinct (map p_uid (p # without (p_uid p) ps))"
    by (auto simp: index_holds_def without_def)
  have un: "mset (AList.update (p_uid p) p (idx_unplaced y)) = add_mset (p_uid p, p) (mset (idx_unplaced y))"
    using h by (intro update_keyed [where f = id and P = waiting and ps = ps]) (simp add: index_holds_def)
  have co: "mset (AList.update (p_uid p) c (idx_counted y)) = add_mset (p_uid p, c) (mset (idx_counted y))" for c
    using h by (intro update_keyed [where f = contribution_of and P = placed and ps = ps]) (simp add: index_holds_def)
  show ?thesis
    using h d un co
    by (auto simp: idx_Set_def y_def [symmetric] Let_def index_holds_def placed_def waiting_def add_requests_def
        contribution_of_def usage_defs split: prod.splits)
qed

interpretation usage_index: pod_index NewPodUsageIndex idx_Set idx_Remove index_holds
proof
  show "index_holds NewPodUsageIndex []"
    by (simp add: index_holds_def NewPodUsageIndex_def usage_defs zero_requests_def)
qed (simp_all add: index_holds_Set idx_Remove_def index_holds_removeLocked)

text \<open>The index after events, the latest first, as an informer delivers them.\<close>

definition index_after :: "pod_event list \<Rightarrow> pod_usage_index" where
  "index_after evs = foldr (\<lambda>e. case e of PodSet p \<Rightarrow> idx_Set p | PodGone p \<Rightarrow> idx_Remove p) evs NewPodUsageIndex"

lemma index_after_holds: "index_holds (index_after evs) (pods_after evs)"
  unfolding index_after_def by (rule usage_index.holds_after)

subsection \<open>What a snapshot says\<close>

definition usable :: "placement \<Rightarrow> node \<Rightarrow> bool" where
  "usable p node \<longleftrightarrow> Eligible p node \<and> \<not> (node_cpu node = 0 \<and> node_memory node = 0)"

definition requested_cpu :: "pod_usage \<Rightarrow> node list \<Rightarrow> int" where
  "requested_cpu usage ns = sum_list (map (\<lambda>n. CPUMillis (req0 (PerNode usage) (n_name n))) ns) +
     sum_list (map (\<lambda>p. fst (PodRequests p)) (filter (\<lambda>p. podCouldRunOnAny p ns) (Unplaced usage)))"

definition requested_memory :: "pod_usage \<Rightarrow> node list \<Rightarrow> int" where
  "requested_memory usage ns = sum_list (map (\<lambda>n. MemoryBytes (req0 (PerNode usage) (n_name n))) ns) +
     sum_list (map (\<lambda>p. snd (PodRequests p)) (filter (\<lambda>p. podCouldRunOnAny p ns) (Unplaced usage)))"

lemma requested_of_eq: "requested_of usage ns = (requested_cpu usage ns, requested_memory usage ns)"
proof -
  have nodes: "foldl (\<lambda>(cpu, mem) node. let requested = req0 (PerNode usage) (n_name node) in
       (cpu + CPUMillis requested, mem + MemoryBytes requested)) (c, m) xs =
     (c + sum_list (map (\<lambda>n. CPUMillis (req0 (PerNode usage) (n_name n))) xs),
      m + sum_list (map (\<lambda>n. MemoryBytes (req0 (PerNode usage) (n_name n))) xs))" for c m xs
    by (induction xs arbitrary: c m) (simp_all add: Let_def)
  have pods: "foldl (\<lambda>(cpu, mem) pod. if podCouldRunOnAny pod ns
       then (cpu + fst (PodRequests pod), mem + snd (PodRequests pod)) else (cpu, mem)) (c, m) xs =
     (c + sum_list (map (\<lambda>p. fst (PodRequests p)) (filter (\<lambda>p. podCouldRunOnAny p ns) xs)),
      m + sum_list (map (\<lambda>p. snd (PodRequests p)) (filter (\<lambda>p. podCouldRunOnAny p ns) xs)))" for c m xs
    by (induction xs arbitrary: c m) simp_all
  show ?thesis
    unfolding requested_of_def Let_def nodes [unfolded Let_def] pods
    by (simp add: requested_cpu_def requested_memory_def)
qed

lemma sum_list_mset_cong:
  fixes f :: "'a \<Rightarrow> int"
  assumes "mset xs = mset ys"
  shows "sum_list (map f (filter P xs)) = sum_list (map f (filter P ys))"
  by (metis assms mset_filter mset_map sum_mset_sum_list)

lemma snapshot_cong:
  assumes "\<And>n. req0 (PerNode u) n = req0 (PerNode v) n" "mset (Unplaced u) = mset (Unplaced v)"
  shows "ComputeClusterSnapshotFromUsage q nodes u p = ComputeClusterSnapshotFromUsage q nodes v p"
  by (simp add: ComputeClusterSnapshotFromUsage_def requested_of_eq requested_cpu_def requested_memory_def assms(1)
      sum_list_mset_cong [OF assms(2)])

lemma snapshot_nodes:
  "foldl (count_node p) (s, es) nodes = (s', es') \<Longrightarrow>
     es' = es @ filter (usable p) nodes \<and>
     CPUAllocatableMillis s' = CPUAllocatableMillis s + sum_list (map node_cpu (filter (usable p) nodes)) \<and>
     MemoryAllocatableBytes s' = MemoryAllocatableBytes s + sum_list (map node_memory (filter (usable p) nodes)) \<and>
     SchedulableNodes s' = SchedulableNodes s + int (length (filter (usable p) nodes)) \<and>
     LargestNodeCPUMillis s' = foldl max (LargestNodeCPUMillis s) (map node_cpu (filter (usable p) nodes)) \<and>
     LargestNodeMemoryBytes s' = foldl max (LargestNodeMemoryBytes s) (map node_memory (filter (usable p) nodes))"
proof (induction nodes arbitrary: s es)
  case (Cons n nodes)
  obtain s1 es1 where st: "count_node p (s, es) n = (s1, es1)" by fastforce
  with Cons.prems have "foldl (count_node p) (s1, es1) nodes = (s', es')" by simp
  from Cons.IH [OF this] st show ?case
    by (auto simp: count_node_def usable_def max_def split: if_splits)
qed simp

lemma empty_snapshot_simps [simp]:
  "CPUAllocatableMillis (empty_snapshot w) = 0" "MemoryAllocatableBytes (empty_snapshot w) = 0"
  "LargestNodeCPUMillis (empty_snapshot w) = 0" "LargestNodeMemoryBytes (empty_snapshot w) = 0"
  "SchedulableNodes (empty_snapshot w) = 0"
  by (simp_all add: empty_snapshot_def)

lemma snapshot_fields:
  fixes q nodes usage p
  defines "c \<equiv> ComputeClusterSnapshotFromUsage q nodes usage p" and "ns \<equiv> filter (usable p) nodes"
  shows "CPUAllocatableMillis c = sum_list (map node_cpu ns)" "MemoryAllocatableBytes c = sum_list (map node_memory ns)"
    "CPURequestedMillis c = requested_cpu usage ns" "MemoryRequestedBytes c = requested_memory usage ns"
    "CPUAvailableMillis c = max (sum_list (map node_cpu ns) - requested_cpu usage ns) 0"
    "MemoryAvailableBytes c = max (sum_list (map node_memory ns) - requested_memory usage ns) 0"
    "Known c \<longleftrightarrow> ns \<noteq> []" "LargestNodeCPUMillis c = foldl max 0 (map node_cpu ns)"
    "LargestNodeMemoryBytes c = foldl max 0 (map node_memory ns)"
proof -
  obtain s es where f: "foldl (count_node p) (empty_snapshot (Describe p), []) nodes = (s, es)" by fastforce
  note n = snapshot_nodes [OF f]
  show "CPUAllocatableMillis c = sum_list (map node_cpu ns)" "MemoryAllocatableBytes c = sum_list (map node_memory ns)"
    "CPURequestedMillis c = requested_cpu usage ns" "MemoryRequestedBytes c = requested_memory usage ns"
    "CPUAvailableMillis c = max (sum_list (map node_cpu ns) - requested_cpu usage ns) 0"
    "MemoryAvailableBytes c = max (sum_list (map node_memory ns) - requested_memory usage ns) 0"
    "Known c \<longleftrightarrow> ns \<noteq> []" "LargestNodeCPUMillis c = foldl max 0 (map node_cpu ns)"
    "LargestNodeMemoryBytes c = foldl max 0 (map node_memory ns)"
    using n by (simp_all add: c_def ns_def ComputeClusterSnapshotFromUsage_def f requested_of_eq Let_def)
qed

text \<open>
  C14. The index of pod usage refines the reading of every pod. After any events (pods set, changed,
  finished, deleted and gone, in any order), a snapshot taken from the index is the snapshot computed
  from the pods that exist, for every set of nodes and every placement, and the pods without a node
  that it lists are exactly those that exist and hold resources.
\<close>

theorem usage_index_refines_pods:
  "ComputeClusterSnapshotFromUsage q nodes (idx_Usage (index_after evs)) p =
     ComputeClusterSnapshotFor q nodes (pods_after evs) p \<and>
   mset (UnplacedPods (index_after evs)) = mset (filter waiting (pods_after evs))"
proof -
  have un: "mset (map snd (idx_unplaced (index_after evs))) = mset (filter waiting (pods_after evs))"
  proof -
    have "mset (idx_unplaced (index_after evs)) = mset (map (\<lambda>p. (p_uid p, p)) (filter waiting (pods_after evs)))"
      using index_after_holds [of evs] by (simp add: index_holds_def)
    then have "image_mset snd (mset (idx_unplaced (index_after evs))) =
        image_mset snd (mset (map (\<lambda>p. (p_uid p, p)) (filter waiting (pods_after evs))))"
      by (rule arg_cong)
    then show ?thesis by (simp add: multiset.map_comp comp_def)
  qed
  have "req0 (idx_perNode (index_after evs)) n = usage_on n (pods_after evs)" for n
    using index_after_holds [of evs] by (simp add: index_holds_def)
  then have "ComputeClusterSnapshotFromUsage q nodes (idx_Usage (index_after evs)) p =
      ComputeClusterSnapshotFor q nodes (pods_after evs) p"
    unfolding ComputeClusterSnapshotFor_def
    by (intro snapshot_cong) (simp_all add: idx_Usage_def UsageOfPods_spec un [simplified])
  then show ?thesis
    using un by (simp add: UnplacedPods_def)
qed

subsection \<open>Admission\<close>

lemma sum_once:
  fixes x :: int
  assumes "distinct (map n_name ns)" "0 \<le> x"
  shows "sum_list (map (\<lambda>n. if n_name n = m then x else 0) ns) \<le> x"
proof -
  have z: "m \<notin> n_name ` set ns \<Longrightarrow> sum_list (map (\<lambda>n. if n_name n = m then x else 0) ns) = 0" for ns m
    by (induction ns) auto
  from assms show ?thesis by (induction ns) (auto simp: z)
qed

lemma sum_on_nodes:
  fixes f :: "pod \<Rightarrow> int"
  assumes "distinct (map n_name ns)" "\<forall>p \<in> set ps. 0 \<le> f p"
  shows "sum_list (map (\<lambda>n. sum_list (map f (filter (\<lambda>p. placed p \<and> p_node_name p = n_name n) ps))) ns)
    \<le> sum_list (map f (filter placed ps))"
  using assms(2)
proof (induction ps)
  case (Cons a ps)
  let ?S = "\<lambda>n. sum_list (map f (filter (\<lambda>p. placed p \<and> p_node_name p = n_name n) ps))"
  have split: "sum_list (map f (filter (\<lambda>p. placed p \<and> p_node_name p = n_name n) (a # ps))) =
      (if n_name n = p_node_name a then if placed a then f a else 0 else 0) + ?S n" for n
    by auto
  have "sum_list (map (\<lambda>n. if n_name n = p_node_name a then if placed a then f a else 0 else 0) ns) \<le>
      (if placed a then f a else 0)"
    using assms(1) Cons.prems by (intro sum_once) auto
  with Cons show ?case
    by (simp only: split sum_list_addf) (simp split: if_splits)
qed (simp add: sum_list_0)

lemma sum_filter_parts:
  fixes f :: "pod \<Rightarrow> int"
  assumes "\<forall>p \<in> set ps. 0 \<le> f p"
  shows "sum_list (map f (filter placed ps)) + sum_list (map f (filter Q (filter waiting ps))) \<le> sum_list (map f ps)"
  using assms by (induction ps) (auto simp: placed_def waiting_def)

lemma requested_grows:
  assumes "distinct (map n_name ns)" "\<forall>p \<in> set new. 0 \<le> fst (PodRequests p) \<and> 0 \<le> snd (PodRequests p)"
  shows "requested_cpu (UsageOfPods (pods @ new)) ns \<le>
      requested_cpu (UsageOfPods pods) ns + sum_list (map (\<lambda>p. fst (PodRequests p)) new)"
    "requested_memory (UsageOfPods (pods @ new)) ns \<le>
      requested_memory (UsageOfPods pods) ns + sum_list (map (\<lambda>p. snd (PodRequests p)) new)"
  using sum_on_nodes [OF assms(1), of new "\<lambda>p. fst (PodRequests p)"] sum_on_nodes [OF assms(1), of new "\<lambda>p. snd (PodRequests p)"]
    sum_filter_parts [of new "\<lambda>p. fst (PodRequests p)" "\<lambda>p. podCouldRunOnAny p ns"]
    sum_filter_parts [of new "\<lambda>p. snd (PodRequests p)" "\<lambda>p. podCouldRunOnAny p ns"] assms(2)
  by (simp_all add: requested_cpu_def requested_memory_def UsageOfPods_spec usage_defs sum_list_addf)

lemma Fits_iff: "fst (Fits c est) \<longleftrightarrow> (e_cpu_millis est = 0 \<and> e_memory_bytes est = 0) \<or>
    (Known c \<and> e_per_cpu_millis est \<le> LargestNodeCPUMillis c \<and> e_per_mem_bytes est \<le> LargestNodeMemoryBytes c \<and>
     e_cpu_millis est \<le> CPUAvailableMillis c \<and> e_memory_bytes est \<le> MemoryAvailableBytes c)"
  by (auto simp: Fits_def)


definition small_node :: "string \<Rightarrow> int \<Rightarrow> int \<Rightarrow> node" where
  "small_node name cpu mem = (empty_node name)\<lparr>n_allocatable :=
     [(ResourceCPU, \<lparr>MilliValue = cpu, QValue = 0\<rparr>), (ResourceMemory, \<lparr>MilliValue = 0, QValue = mem\<rparr>)],
     n_conditions := [\<lparr>cond_type = NodeReady, cond_status = ConditionTrue, cond_reason = [], cond_message = [], cond_transition = 0\<rparr>]\<rparr>"

lemmas snapshot_eval = ComputeClusterSnapshotFor_def ComputeClusterSnapshotFromUsage_def count_node_def requested_of_def
  Eligible_def Matches_def NodeSelector_def IsZero_def anywhere_def small_node_def empty_node_def node_cpu_def node_memory_def
  QuantityMillis_def QuantityBytes_def rl_get_def UsageOfPods_def use_pod_def podCounts_def add_requests_def
  PodRequests_def containerRequestedCPU_def containerRequestedMemory_def plain_pod_def podCouldRunOnAny_def
  selectorMatches_def podToleratesTaints_def req0_def zero_requests_def


subsection \<open>Placed pods and eligible nodes\<close>

lemma selectorMatches_iff: "selectorMatches sel ls \<longleftrightarrow> (\<forall>(k, v) \<in> set sel. lookup0 ls k = v)"
  by (simp add: selectorMatches_def list_all_iff)

text \<open>A taint with a key the platform writes (a tag's, or the one of nodes without data) that does
  not evict, as the platform writes them.\<close>

definition written_by_platform :: "taint \<Rightarrow> bool" where
  "written_by_platform t \<longleftrightarrow> \<not> ((taint_tag t \<noteq> None \<or> t_key t = TaintEphemeral) \<and> t_effect t = TaintEffectNoExecute)"

definition bare_pod :: "pod \<Rightarrow> bool" where
  "bare_pod pod \<longleftrightarrow> p_node_selector pod = [] \<and> p_tolerations pod = [] \<and> p_affinity pod = None"

lemma TagKey_TaintEphemeral [simp]: "TagKey tag \<noteq> TaintEphemeral" "TaintEphemeral \<noteq> TagKey tag"
  by (auto simp: TagKey_def TagKeyPrefix_def TaintEphemeral_def)

lemma key_nonempty [simp]: "TagKey tag \<noteq> []" "TaintEphemeral \<noteq> []"
  by (simp_all add: TagKey_def TagKeyPrefix_def TaintEphemeral_def)

lemma set_added_tolerations: "set (foldl add_toleration [] (Tolerations p)) = set (Tolerations p)"
proof (rule antisym)
  show "set (foldl add_toleration [] (Tolerations p)) \<subseteq> set (Tolerations p)"
    using add_tolerations(3) [of "[]" "Tolerations p"] by simp
  show "set (Tolerations p) \<subseteq> set (foldl add_toleration [] (Tolerations p))"
  proof
    fix t assume t: "t \<in> set (Tolerations p)"
    then obtain e where e: "e \<in> set (foldl add_toleration [] (Tolerations p))" "tol_key e = tol_key t"
      using add_tolerations(2) [OF t, of "[]"] by (auto simp: tol_covered_def)
    moreover have "e \<in> set (Tolerations p)"
      using e(1) add_tolerations(3) [of "[]" "Tolerations p"] by auto
    ultimately show "t \<in> set (foldl add_toleration [] (Tolerations p))"
      using t by (auto simp: Tolerations_def EphemeralToleration_def split: if_splits)
  qed
qed

lemma placement_tolerates:
  "(\<exists>tol \<in> set (Tolerations p). tolerationMatches tol t) \<longleftrightarrow> t_effect t = TaintEffectNoSchedule \<and>
     ((Ephemeral p \<and> t_key t = TaintEphemeral) \<or> (\<exists>tag \<in> set (AllTags p). t_key t = TagKey tag))"
proof -
  have tag: "tolerationMatches \<lparr>tol_key = k, tol_operator = TolerationOpExists, tol_value = [], tol_effect = TaintEffectNoSchedule\<rparr> t
      \<longleftrightarrow> t_effect t = TaintEffectNoSchedule \<and> t_key t = k" if "k \<noteq> []" for k
    using that by (auto simp: tolerationMatches_def)
  have "set (Tolerations p) = (if Ephemeral p then {EphemeralToleration} else {}) \<union>
      (\<lambda>tag. \<lparr>tol_key = TagKey tag, tol_operator = TolerationOpExists, tol_value = [], tol_effect = TaintEffectNoSchedule\<rparr>) ` set (AllTags p)"
    by (simp add: Tolerations_def)
  then show ?thesis
    by (simp add: bex_Un tag EphemeralToleration_def) blast
qed

lemma bare_tolerates:
  assumes "bare_pod pod" "written_by_platform t"
  shows "podToleratesTaints (ApplyToPodSpec p pod) [t] \<longleftrightarrow> Tolerates p t"
proof -
  have tols: "(\<exists>tol \<in> set (p_tolerations (ApplyToPodSpec p pod)). tolerationMatches tol t) \<longleftrightarrow>
      (\<exists>tol \<in> set (Tolerations p). tolerationMatches tol t)"
    using assms(1) by (simp add: ApplyToPodSpec_alt bare_pod_def set_added_tolerations)
  have "t_effect t = TaintEffectNoExecute \<Longrightarrow> t_key t \<noteq> TaintEphemeral \<and> (\<forall>tag. t_key t \<noteq> TagKey tag)"
    using assms(2) by (auto simp: written_by_platform_def taint_tag_def simp del: cut_prefix_Some)
  then show ?thesis
    by (auto simp: podToleratesTaints_def tols placement_tolerates Tolerates_def list_ex_iff)
qed

lemma podToleratesTaints_all: "podToleratesTaints pod ts \<longleftrightarrow> list_all (\<lambda>t. podToleratesTaints pod [t]) ts"
  by (simp add: podToleratesTaints_def)

lemma distinct_put_all: "distinct (map fst sel) \<Longrightarrow> distinct (map fst (put_all sel kvs))"
  by (induction kvs arbitrary: sel) (auto simp: put_all_def distinct_update split: prod.splits)

lemma selectorMatches_map:
  assumes "distinct (map fst sel)"
  shows "selectorMatches sel ls \<longleftrightarrow> (\<forall>k v. map_of sel k = Some v \<longrightarrow> lookup0 ls k = v)"
  using assms by (auto simp: selectorMatches_iff)

lemma bare_selector:
  assumes "bare_pod pod"
  shows "selectorMatches (p_node_selector (ApplyToPodSpec p pod)) (n_labels node) \<longleftrightarrow> Matches p node"
proof -
  have "distinct (map fst (p_node_selector (ApplyToPodSpec p pod)))"
    using assms by (simp add: ApplyToPodSpec_alt bare_pod_def distinct_put_all)
  moreover have "map_of (p_node_selector (ApplyToPodSpec p pod)) k = map_of (NodeSelector p) k" for k
    using assms by (simp add: map_of_selector bare_pod_def split: option.splits)
  moreover have "Matches p node \<longleftrightarrow> (\<forall>k v. map_of (NodeSelector p) k = Some v \<longrightarrow> lookup0 (n_labels node) k = v)"
    unfolding Matches_def list_all_iff
    using map_of_functional [OF NodeSelector_functional [of _ _ p]] by (fastforce dest: map_of_SomeD)
  ultimately show ?thesis by (simp add: selectorMatches_map)
qed



text \<open>
  Without that hypothesis they differ: a tag taint with the effect \<open>NoExecute\<close>, which the platform
  does not write but an administrator may, is tolerated by \<open>Tolerates\<close> and by no toleration that
  \<open>Tolerations\<close> gives the pod.
\<close>

lemma tolerates_noexecute_differs:
  "\<exists>node. Eligible (NewPlacement [] [''gpu'']) node \<and>
     \<not> PodCouldRunOn (ApplyToPodSpec (NewPlacement [] [''gpu'']) (plain_pod ''x'' 100 100)) node"
proof
  let ?node = "(small_node ''a'' 1000 1000)\<lparr>n_labels := [(TagKey ''gpu'', ''true'')],
    n_taints := [\<lparr>t_key = TagKey ''gpu'', t_value = ''reserved'', t_effect = TaintEffectNoExecute\<rparr>]\<rparr>"
  have tags: "AllTags (NewPlacement [] [''gpu'']) = [''gpu'']"
    by (simp add: clean_tags_def trim_space_def is_space_def AllTags_def NewPlacement_def)
  then have "Eligible (NewPlacement [] [''gpu'']) ?node"
    by (simp add: Eligible_def Matches_iff Tolerates_def tagLabelValue_def lookup0_def small_node_def empty_node_def)
      (simp add: NewPlacement_def trim_space_def)
  moreover have "Tolerations (NewPlacement [] [''gpu'']) =
      [\<lparr>tol_key = TagKey ''gpu'', tol_operator = TolerationOpExists, tol_value = [], tol_effect = TaintEffectNoSchedule\<rparr>]"
    by (simp add: Tolerations_def tags) (simp add: NewPlacement_def)
  then have "\<not> PodCouldRunOn (ApplyToPodSpec (NewPlacement [] [''gpu'']) (plain_pod ''x'' 100 100)) ?node"
    by (simp add: PodCouldRunOn_def podToleratesTaints_def ApplyToPodSpec_alt plain_pod_def
        add_toleration_def tolerationMatches_def)
  ultimately show "Eligible (NewPlacement [] [''gpu'']) ?node \<and>
     \<not> PodCouldRunOn (ApplyToPodSpec (NewPlacement [] [''gpu'']) (plain_pod ''x'' 100 100)) ?node" by simp
qed

subsection \<open>The two readings of a node selector\<close>

lemma requirement_expression: "requirementHolds r (lookup0 ls (nsr_key r)) (has_key ls (nsr_key r)) = expressionMatches r ls"
  by (auto simp: requirementHolds_def expressionMatches_def Let_def length_Suc_conv split: list.splits option.splits)

definition well_formed_term :: "node_selector_term \<Rightarrow> bool" where
  "well_formed_term t \<longleftrightarrow> \<not> (MatchExpressions t = [] \<and> MatchFields t = []) \<and>
     list_all (\<lambda>r. nsr_key r = ''metadata.name'') (MatchFields t)"

lemma field_expression:
  "expressionMatches \<lparr>nsr_key = ''name'', nsr_operator = nsr_operator r, nsr_values = nsr_values r\<rparr> [(''name'', n)] =
     requirementHolds r n True"
proof -
  let ?r = "\<lparr>nsr_key = ''name'', nsr_operator = nsr_operator r, nsr_values = nsr_values r\<rparr>"
  have "lookup0 [(''name'', n)] (nsr_key ?r) = n" "has_key [(''name'', n)] (nsr_key ?r)"
    by (simp_all add: lookup0_def has_key_def)
  moreover have "requirementHolds ?r n True = requirementHolds r n True"
    by (simp add: requirementHolds_def split: option.splits)
  ultimately show ?thesis
    using requirement_expression [of ?r "[(''name'', n)]"] by simp
qed

lemma term_same: "well_formed_term t \<Longrightarrow> nodeSelectorTermMatches t node = termMatches t node"
  by (auto simp: nodeSelectorTermMatches_def termMatches_def well_formed_term_def requirement_expression field_expression
      list_all_iff)

text \<open>
  The autoscaler's reading of a required node affinity is the rule that \<open>NodeSelectorMatches\<close>
  applies to volumes, for every affinity that has a term, whose terms are not empty and name no field but
  the node's name, whatever operators and values they use.
\<close>

theorem affinity_is_node_selector:
  assumes "p_affinity pod = Some terms" "terms \<noteq> []" "list_all well_formed_term terms"
  shows "affinityMatches pod node = NodeSelectorMatches (Some terms) node"
  using assms by (auto simp: affinityMatches_def NodeSelectorMatches_def list_ex_iff list_all_iff term_same)

theorem affinity_is_node_selector_witness:
  "affinityMatches ((plain_pod ''x'' 1 1)\<lparr>p_affinity := Some [\<lparr>MatchExpressions = [\<lparr>nsr_key = ''cores'', nsr_operator = ''Gt'', nsr_values = [''4'']\<rparr>], MatchFields = []\<rparr>]\<rparr>)
     ((empty_node ''a'')\<lparr>n_labels := [(''cores'', ''16'')]\<rparr>)"
proof -
  let ?t = "\<lparr>MatchExpressions = [\<lparr>nsr_key = ''cores'', nsr_operator = ''Gt'', nsr_values = [''4'']\<rparr>], MatchFields = []\<rparr>"
  have "list_all well_formed_term [?t]" by (simp add: well_formed_term_def)
  from affinity_is_node_selector [OF _ _ this, of "(plain_pod ''x'' 1 1)\<lparr>p_affinity := Some [?t]\<rparr>" "(empty_node ''a'')\<lparr>n_labels := [(''cores'', ''16'')]\<rparr>"]
  show ?thesis
    by (simp add: NodeSelectorMatches_def nodeSelectorTermMatches_def requirementHolds_def lookup0_def has_key_def
        parse_int64_def digit_of_def in64_def max_int64_def min_int64_def)
qed

text \<open>They differ on a term with nothing in it, which Kubernetes lets match no node.\<close>

lemma empty_term_differs:
  "affinityMatches ((plain_pod ''x'' 1 1)\<lparr>p_affinity := Some [\<lparr>MatchExpressions = [], MatchFields = []\<rparr>]\<rparr>) node \<and>
   \<not> NodeSelectorMatches (Some [\<lparr>MatchExpressions = [], MatchFields = []\<rparr>]) node"
  by (simp add: affinityMatches_def termMatches_def NodeSelectorMatches_def nodeSelectorTermMatches_def)

text \<open>The largest CPU and the largest memory of a node are kept apart, so a check can pass although no
  node has both: an instance that needs 4 CPUs and 8 GiB, a node with 8 CPUs and 1 GiB and one with 1
  CPU and 32 GiB.\<close>

lemma largest_node_is_no_node:
  "\<exists>nodes est. fst (Fits (ComputeClusterSnapshotFor plain_format nodes [] anywhere) est) \<and>
     list_all (\<lambda>n. node_cpu n < e_per_cpu_millis est \<or> node_memory n < e_per_mem_bytes est) nodes"
proof (intro exI conjI)
  let ?nodes = "[small_node ''a'' 8000 (2 ^ 30), small_node ''b'' 1000 (2 ^ 35)]"
  let ?est = "(EstimateWorkload plain_format ''service'' False 1)\<lparr>e_cpu_millis := 4000, e_memory_bytes := 2 ^ 33,
    e_per_cpu_millis := 4000, e_per_mem_bytes := 2 ^ 33\<rparr>"
  show "fst (Fits (ComputeClusterSnapshotFor plain_format ?nodes [] anywhere) ?est)"
    by (simp add: Fits_iff) (simp add: snapshot_eval)
  show "list_all (\<lambda>n. node_cpu n < e_per_cpu_millis ?est \<or> node_memory n < e_per_mem_bytes ?est) ?nodes"
    by (simp add: snapshot_eval)
qed

end
