(* ===== verification/Autoscale.thy ===== *)
theory Autoscale
  imports Scheduling Complex_Main
begin

section \<open>The decisions of the node autoscaler (pkg/platform/autoscale.go)\<close>

text \<open>
  The pure functions behind a pool's growth and shrinking: which pending pods a new node would help
  (\<open>DemandOn\<close>), how many nodes to buy for them (\<open>NodesNeeded\<close>), how used a node is (\<open>Utilization\<close>),
  whether a pod may be moved (\<open>Movable\<close>, \<open>RemovalBlocker\<close>) and whether all of a node's pods fit on
  others (\<open>FitsElsewhere\<close>). Both placement loops are first fit (\<open>place\<close>, \<open>pack\<close>): the locale
  \<open>first_fit\<close> is the contract of their bins, and its interpretations for \<open>Room\<close> and \<open>NodeCapacity\<close>
  give that what they report is a real assignment of pods to nodes. A \<open>float64\<close> share is the exact
  rational it approximates.
\<close>

subsection \<open>Constants\<close>

definition NodeSystemCPUMillis :: int where "NodeSystemCPUMillis = 250"
definition NodeSystemMemoryBytes :: int where "NodeSystemMemoryBytes = 700 * 2 ^ 20"
definition DefaultScaleUpDelay :: duration where "DefaultScaleUpDelay = 30 * Second"
definition DefaultMaxScaleUp :: int where "DefaultMaxScaleUp = 5"
definition DefaultScaleDownUtilization :: int where "DefaultScaleDownUtilization = 50"
definition DefaultScaleDownAfter :: duration where "DefaultScaleDownAfter = 10 * Minute"
definition DefaultScaleDownDelayAfterAdd :: duration where "DefaultScaleDownDelayAfterAdd = 10 * Minute"
definition ScaleDownBackoff :: duration where "ScaleDownBackoff = 3 * Minute"
definition ScaleDownDrainTimeout :: duration where "ScaleDownDrainTimeout = 10 * Minute"
definition MaxEmptyNodesRemoved :: int where "MaxEmptyNodesRemoved = 10"
definition FailuresBeforePause :: int where "FailuresBeforePause = 3"
definition FailurePause :: duration where "FailurePause = 30 * Minute"
definition AnnotationSafeToEvict :: string where "AnnotationSafeToEvict = ''geass.dev/safe-to-evict''"
definition MirrorPodAnnotationKey :: string where "MirrorPodAnnotationKey = ''kubernetes.io/config.mirror''"

subsection \<open>A new node of a pool\<close>

record node_template =
  nt_labels :: labels
  nt_taints :: "taint list"
  nt_cpu :: int
  nt_memory :: int

definition template_Node :: "node_template \<Rightarrow> string \<Rightarrow> node" where
  "template_Node t name = \<lparr>n_name = name, n_labels = nt_labels t, n_annotations = [], n_unschedulable = False,
     n_taints = nt_taints t,
     n_allocatable = [(ResourceCPU, \<lparr>MilliValue = nt_cpu t, QValue = - ((- nt_cpu t) div 1000)\<rparr>),
       (ResourceMemory, \<lparr>MilliValue = nt_memory t * 1000, QValue = nt_memory t\<rparr>)],
     n_conditions = [\<lparr>cond_type = NodeReady, cond_status = ConditionTrue, cond_reason = [], cond_message = [],
       cond_transition = 0\<rparr>]\<rparr>"

definition TemplateFor :: "labels \<Rightarrow> taint list \<Rightarrow> resource_list option \<Rightarrow> int \<Rightarrow> int \<Rightarrow> node_template" where
  "TemplateFor ls taints allocatable vcpus memoryMiB =
     (let (cpu, memory) = (case allocatable of
            None \<Rightarrow> (0, 0)
          | Some rl \<Rightarrow> (QuantityMillis (rl_get rl ResourceCPU), QuantityBytes (rl_get rl ResourceMemory)));
          (cpu, memory) = (if cpu = 0 \<or> memory = 0
            then (max (vcpus * 1000 - NodeSystemCPUMillis) 0, max (memoryMiB * 2 ^ 20 - NodeSystemMemoryBytes) 0)
            else (cpu, memory))
      in \<lparr>nt_labels = ls, nt_taints = taints, nt_cpu = cpu, nt_memory = memory\<rparr>)"

subsection \<open>Pods that cannot start\<close>

definition Unschedulable :: "pod \<Rightarrow> time option" where
  "Unschedulable pod =
     (if p_node_name pod \<noteq> [] \<or> p_deleting pod \<or> p_phase pod \<noteq> PodPending then None
      else case find (\<lambda>c. cond_type c = ''PodScheduled'' \<and> cond_status c = ConditionFalse \<and>
                          cond_reason c = ''Unschedulable'') (p_conditions pod) of
        None \<Rightarrow> None | Some c \<Rightarrow> Some (cond_transition c))"

definition unfixableByANode :: "string list" where
  "unfixableByANode = [''volume node affinity conflict'', ''unbound immediate PersistentVolumeClaims'',
     ''persistentvolumeclaim'']"

definition newNodeCannotHelp :: "pod \<Rightarrow> bool" where
  "newNodeCannotHelp pod = list_ex (\<lambda>c.
     (if cond_type c \<noteq> ''PodScheduled'' \<or> cond_status c \<noteq> ConditionFalse then False
      else list_ex (\<lambda>reason. string_contains (to_lower (cond_message c)) (to_lower reason)) unfixableByANode))
     (p_conditions pod)"

record pending_demand =
  Fit :: "pod list"
  TooBig :: "pod list"
  Waiting :: int

definition largestFirst :: "pod \<Rightarrow> pod \<Rightarrow> int" where
  "largestFirst a b = cmp_or (cmp_compare (fst (PodRequests b)) (fst (PodRequests a)))
                             (cmp_compare (snd (PodRequests b)) (snd (PodRequests a)))"

definition demand_pod :: "node_template \<Rightarrow> time \<Rightarrow> duration \<Rightarrow> pending_demand \<Rightarrow> pod \<Rightarrow> pending_demand" where
  "demand_pod template now delay demand pod = (case Unschedulable pod of
      None \<Rightarrow> demand
    | Some since \<Rightarrow>
        if \<not> PodCouldRunOn pod (template_Node template ''template'') \<or> newNodeCannotHelp pod then demand
        else let (cpu, memory) = PodRequests pod in
          if cpu > nt_cpu template \<or> memory > nt_memory template then demand\<lparr>TooBig := TooBig demand @ [pod]\<rparr>
          else if tsub now since < delay then demand\<lparr>Waiting := Waiting demand + 1\<rparr>
          else demand\<lparr>Fit := Fit demand @ [pod]\<rparr>)"

definition DemandOn :: "pod list \<Rightarrow> node_template \<Rightarrow> time \<Rightarrow> duration \<Rightarrow> pending_demand" where
  "DemandOn pods template now delay =
     (let demand = foldl (demand_pod template now delay) \<lparr>Fit = [], TooBig = [], Waiting = 0\<rparr> pods
      in demand\<lparr>Fit := sort_cmp largestFirst (Fit demand)\<rparr>)"

definition DescribeDemand :: "quantity_format \<Rightarrow> pending_demand \<Rightarrow> node_template \<Rightarrow> string \<Rightarrow> string" where
  "DescribeDemand q demand template poolName = strings_join ''; ''
     (if TooBig demand \<noteq> [] then
        [itoa (int (length (TooBig demand))) @ '' pods need more than a node of pool '' @ poolName @ '' offers ('' @
         FormatCPUMillis q (nt_cpu template) @ '' CPU, '' @ FormatMemoryBytes q (nt_memory template) @ '')'']
      else [])"

subsection \<open>First fit\<close>

text \<open>The inner loop of both placements: the first bin that fits takes the item, \<open>None\<close> if none does.\<close>

fun place :: "('a \<Rightarrow> 'b \<Rightarrow> bool) \<Rightarrow> ('a \<Rightarrow> 'b \<Rightarrow> 'b) \<Rightarrow> 'a \<Rightarrow> 'b list \<Rightarrow> 'b list option" where
  "place fits put x [] = None"
| "place fits put x (b # bs) = (if fits x b then Some (put x b # bs)
     else case place fits put x bs of None \<Rightarrow> None | Some bs' \<Rightarrow> Some (b # bs'))"

record room =
  r_cpu :: int
  r_memory :: int

definition room_fits :: "pod \<Rightarrow> room \<Rightarrow> bool" where
  "room_fits pod r \<longleftrightarrow> r_cpu r \<ge> fst (PodRequests pod) \<and> r_memory r \<ge> snd (PodRequests pod)"

definition room_take :: "pod \<Rightarrow> room \<Rightarrow> room" where
  "room_take pod r = \<lparr>r_cpu = r_cpu r - fst (PodRequests pod), r_memory = r_memory r - snd (PodRequests pod)\<rparr>"

definition full_room :: "node_template \<Rightarrow> room" where
  "full_room template = \<lparr>r_cpu = nt_cpu template, r_memory = nt_memory template\<rparr>"

fun needed_go :: "node_template \<Rightarrow> pod list \<Rightarrow> room list \<Rightarrow> nat" where
  "needed_go template [] rooms = 0"
| "needed_go template (pod # pods) rooms = (case place room_fits room_take pod rooms of
     Some rooms' \<Rightarrow> needed_go template pods rooms'
   | None \<Rightarrow> Suc (needed_go template pods (rooms @ [room_take pod (full_room template)])))"

definition NodesNeeded :: "pod list \<Rightarrow> node_template \<Rightarrow> nat \<Rightarrow> room list \<Rightarrow> nat" where
  "NodesNeeded pods template comingUp existing =
     needed_go template pods (existing @ replicate comingUp (full_room template))"

subsection \<open>Removing a node\<close>

definition Utilization :: "int \<Rightarrow> int \<Rightarrow> int \<Rightarrow> int \<Rightarrow> rat" where
  "Utilization cpuRequested memoryRequested cpuAllocatable memoryAllocatable =
     max (if cpuAllocatable > 0 then of_int cpuRequested / of_int cpuAllocatable else 0)
         (if memoryAllocatable > 0 then of_int memoryRequested / of_int memoryAllocatable else 0)"

definition Movable :: "pod \<Rightarrow> bool" where
  "Movable pod =
     (if p_phase pod = PodSucceeded \<or> p_phase pod = PodFailed then False
      else if has_key (p_annotations pod) MirrorPodAnnotationKey then False
      else if p_controller pod = Some ''DaemonSet'' then False
      else True)"

definition pod_title :: "pod \<Rightarrow> string" where
  "pod_title pod = ''pod '' @ p_namespace pod @ ''/'' @ p_name pod"

fun volume_blocker :: "pod \<Rightarrow> volume list \<Rightarrow> string" where
  "volume_blocker pod [] = []"
| "volume_blocker pod (v # vs) =
     (case v_claim v of
        Some claim \<Rightarrow> pod_title pod @ '' uses the volume claim '' @ claim @ '', which may be stored on the node''
      | None \<Rightarrow>
          if v_host_path v then pod_title pod @ '' uses a host path''
          else case v_empty_dir v of
            Some medium \<Rightarrow> if medium \<noteq> ''Memory'' then pod_title pod @ '' keeps files in an emptyDir that would be lost''
                           else volume_blocker pod vs
          | None \<Rightarrow> volume_blocker pod vs)"

definition RemovalBlocker :: "pod \<Rightarrow> string" where
  "RemovalBlocker pod =
     (let safe = lookup0 (p_annotations pod) AnnotationSafeToEvict in
      if safe = ''false'' then pod_title pod @ '' is marked '' @ AnnotationSafeToEvict @ ''=false''
      else if safe = ''true'' then []
      else if p_controller pod = None then pod_title pod @ '' has no controller, so nothing would recreate it''
      else if volume_blocker pod (p_volumes pod) \<noteq> [] then volume_blocker pod (p_volumes pod)
      else if p_namespace pod = ''kube-system'' then pod_title pod @ '' is a system pod''
      else [])"

record node_capacity =
  nc_node :: node
  nc_cpu_free :: int
  nc_memory_free :: int
  nc_schedulable :: bool

definition capacity_fits :: "pod \<Rightarrow> node_capacity \<Rightarrow> bool" where
  "capacity_fits pod c =
     (if \<not> nc_schedulable c \<or> nc_cpu_free c < fst (PodRequests pod) \<or> nc_memory_free c < snd (PodRequests pod) then False
      else PodCouldRunOn pod (nc_node c))"

definition capacity_take :: "pod \<Rightarrow> node_capacity \<Rightarrow> node_capacity" where
  "capacity_take pod c = c\<lparr>nc_cpu_free := nc_cpu_free c - fst (PodRequests pod),
     nc_memory_free := nc_memory_free c - snd (PodRequests pod)\<rparr>"

fun pack :: "('a \<Rightarrow> 'b \<Rightarrow> bool) \<Rightarrow> ('a \<Rightarrow> 'b \<Rightarrow> 'b) \<Rightarrow> 'a list \<Rightarrow> 'b list \<Rightarrow> 'b list option" where
  "pack fits put [] bins = Some bins"
| "pack fits put (x # xs) bins = (case place fits put x bins of
     None \<Rightarrow> None | Some bins' \<Rightarrow> pack fits put xs bins')"

definition FitsElsewhere :: "pod list \<Rightarrow> node_capacity list \<Rightarrow> bool" where
  "FitsElsewhere pods others =
     (pack capacity_fits capacity_take (sort_cmp largestFirst pods) others \<noteq> None)"

definition PodsRequests :: "pod list \<Rightarrow> int \<times> int" where
  "PodsRequests pods = foldl (\<lambda>(cpu, memory) pod. (cpu + fst (PodRequests pod), memory + snd (PodRequests pod))) (0, 0) pods"

section \<open>Lemmas\<close>

subsection \<open>The contract of bins\<close>

text \<open>
  An assignment gives each item a bin. \<open>load\<close> is what the items of a bin ask for together.
\<close>

definition load :: "('a \<Rightarrow> int) \<Rightarrow> 'a list \<Rightarrow> nat list \<Rightarrow> nat \<Rightarrow> int" where
  "load need xs asg j = sum_list (map (\<lambda>(x, i). if i = j then need x else 0) (zip xs asg))"

definition good_assignment ::
  "('a \<Rightarrow> 'b \<Rightarrow> bool) \<Rightarrow> ('a \<Rightarrow> int) \<Rightarrow> ('a \<Rightarrow> int) \<Rightarrow> ('b \<Rightarrow> int) \<Rightarrow> ('b \<Rightarrow> int) \<Rightarrow> 'a list \<Rightarrow> 'b list \<Rightarrow> nat list \<Rightarrow> bool" where
  "good_assignment ok cpu mem cpu_free mem_free xs bins asg \<longleftrightarrow>
     list_all2 (\<lambda>x i. i < length bins \<and> ok x (bins ! i)) xs asg \<and>
     (\<forall>j < length bins. load cpu xs asg j \<le> max 0 (cpu_free (bins ! j)) \<and>
                        load mem xs asg j \<le> max 0 (mem_free (bins ! j)))"

lemma place_Some:
  "place fits put x bins = Some bins' \<Longrightarrow> \<exists>j < length bins. fits x (bins ! j) \<and> bins' = bins[j := put x (bins ! j)]"
proof (induction bins arbitrary: bins')
  case (Cons b bins)
  show ?case
  proof (cases "fits x b")
    case True
    with Cons.prems show ?thesis by (intro exI [of _ 0]) simp
  next
    case False
    with Cons.prems obtain bs' where "place fits put x bins = Some bs'" "bins' = b # bs'"
      by (auto split: option.splits)
    with Cons.IH [of bs'] obtain j where "j < length bins" "fits x (bins ! j)" "bs' = bins[j := put x (bins ! j)]" by blast
    with \<open>bins' = b # bs'\<close> show ?thesis by (intro exI [of _ "Suc j"]) simp
  qed
qed simp

lemma place_append:
  "place fits put x (bins @ cs) = (case place fits put x bins of
     Some bins' \<Rightarrow> Some (bins' @ cs)
   | None \<Rightarrow> (case place fits put x cs of None \<Rightarrow> None | Some cs' \<Rightarrow> Some (bins @ cs')))"
  by (induction bins) (auto split: option.splits)

locale first_fit =
  fixes fits :: "'a \<Rightarrow> 'b \<Rightarrow> bool" and put :: "'a \<Rightarrow> 'b \<Rightarrow> 'b" and ok :: "'a \<Rightarrow> 'b \<Rightarrow> bool"
    and cpu mem :: "'a \<Rightarrow> int" and cpu_free mem_free :: "'b \<Rightarrow> int"
  assumes fits_ok: "fits x b \<Longrightarrow> ok x b \<and> cpu x \<le> cpu_free b \<and> mem x \<le> mem_free b"
    and put_free: "cpu_free (put x b) = cpu_free b - cpu x" "mem_free (put x b) = mem_free b - mem x"
    and put_ok: "ok y (put x b) = ok y b"
begin

lemma pack_assigns:
  "pack fits put xs bins = Some bins' \<Longrightarrow> \<exists>asg. good_assignment ok cpu mem cpu_free mem_free xs bins asg"
proof (induction xs arbitrary: bins)
  case Nil
  then show ?case by (intro exI [of _ "[]"]) (simp add: good_assignment_def load_def)
next
  case (Cons x xs)
  then obtain bs where bs: "place fits put x bins = Some bs" "pack fits put xs bs = Some bins'"
    by (auto split: option.splits)
  obtain i where i: "i < length bins" "fits x (bins ! i)" "bs = bins[i := put x (bins ! i)]"
    using place_Some [OF bs(1)] by blast
  obtain asg where asg: "good_assignment ok cpu mem cpu_free mem_free xs bs asg"
    using Cons.IH [OF bs(2)] by blast
  have same: "ok y (bs ! j) = ok y (bins ! j)" for y j
    using i by (cases "j = i") (simp_all add: put_ok)
  have step: "load need (x # xs) (i # asg) j = (if i = j then need x else 0) + load need xs asg j" for need j
    by (simp add: load_def)
  have "load cpu (x # xs) (i # asg) j \<le> max 0 (cpu_free (bins ! j)) \<and>
      load mem (x # xs) (i # asg) j \<le> max 0 (mem_free (bins ! j))" if "j < length bins" for j
  proof (cases "j = i")
    case True
    then show ?thesis
      using asg i that fits_ok [OF i(2)] by (auto simp: good_assignment_def step put_free dest!: spec [of _ j])
  next
    case False
    then show ?thesis
      using asg i that by (auto simp: good_assignment_def step)
  qed
  moreover have "length bs = length bins"
    by (simp add: i(3))
  then have "list_all2 (\<lambda>x i. i < length bins \<and> ok x (bins ! i)) (x # xs) (i # asg)"
    using asg i(1) fits_ok [OF i(2)] by (simp add: good_assignment_def same)
  ultimately show ?case
    by (intro exI [of _ "i # asg"]) (simp only: good_assignment_def, blast)
qed

end

interpretation rooms: first_fit room_fits room_take "\<lambda>_ _. True" "\<lambda>p. fst (PodRequests p)" "\<lambda>p. snd (PodRequests p)" r_cpu r_memory
  by unfold_locales (auto simp: room_fits_def room_take_def)

interpretation capacities: first_fit capacity_fits capacity_take "\<lambda>p c. nc_schedulable c \<and> PodCouldRunOn p (nc_node c)"
  "\<lambda>p. fst (PodRequests p)" "\<lambda>p. snd (PodRequests p)" nc_cpu_free nc_memory_free
  by unfold_locales (auto simp: capacity_fits_def capacity_take_def split: if_splits)

interpretation largest_first: weak_order largestFirst
  unfolding largestFirst_def
  by (intro weak_order_lex weak_order_flip [of "\<lambda>a b. cmp_compare (f a) (f b)" for f] weak_order_compare)

subsection \<open>The demand on a pool\<close>

text \<open>A pod that cannot start and that a new node of the template would be allowed to take.\<close>

definition candidate :: "node_template \<Rightarrow> pod \<Rightarrow> bool" where
  "candidate template pod \<longleftrightarrow> Unschedulable pod \<noteq> None \<and> PodCouldRunOn pod (template_Node template ''template'') \<and>
     \<not> newNodeCannotHelp pod"

definition right_size :: "node_template \<Rightarrow> pod \<Rightarrow> bool" where
  "right_size template pod \<longleftrightarrow> fst (PodRequests pod) \<le> nt_cpu template \<and> snd (PodRequests pod) \<le> nt_memory template"

definition waited :: "time \<Rightarrow> duration \<Rightarrow> pod \<Rightarrow> bool" where
  "waited now delay pod \<longleftrightarrow> \<not> tsub now (the (Unschedulable pod)) < delay"

lemma demand_foldl:
  "foldl (demand_pod template now delay) d pods =
     \<lparr>Fit = Fit d @ filter (\<lambda>p. candidate template p \<and> right_size template p \<and> waited now delay p) pods,
      TooBig = TooBig d @ filter (\<lambda>p. candidate template p \<and> \<not> right_size template p) pods,
      Waiting = Waiting d + int (length (filter (\<lambda>p. candidate template p \<and> right_size template p \<and> \<not> waited now delay p) pods))\<rparr>"
  by (induction pods arbitrary: d)
    (auto simp: demand_pod_def candidate_def right_size_def waited_def not_le split: option.splits prod.splits)

lemma DemandOn_eq:
  "DemandOn pods template now delay =
     \<lparr>Fit = sort_cmp largestFirst (filter (\<lambda>p. candidate template p \<and> right_size template p \<and> waited now delay p) pods),
      TooBig = filter (\<lambda>p. candidate template p \<and> \<not> right_size template p) pods,
      Waiting = int (length (filter (\<lambda>p. candidate template p \<and> right_size template p \<and> \<not> waited now delay p) pods))\<rparr>"
  by (simp add: DemandOn_def demand_foldl)

text \<open>
  The pods that ask a pool for room. \<open>DemandOn\<close> loses none and counts none twice: the pods a new
  node would be allowed to take are exactly those in \<open>Fit\<close>, in \<open>TooBig\<close> and counted by
  \<open>Waiting\<close>; \<open>Fit\<close> is in decreasing order of what the pods ask for, each of its pods fits an empty
  node of the template by its size, and each has been unschedulable for the delay.
\<close>

theorem DemandOn_partitions:
  "mset (Fit (DemandOn pods template now delay)) + mset (TooBig (DemandOn pods template now delay)) +
     mset (filter (\<lambda>p. candidate template p \<and> right_size template p \<and> \<not> waited now delay p) pods) =
     mset (filter (candidate template) pods) \<and>
   Waiting (DemandOn pods template now delay) =
     int (length (filter (\<lambda>p. candidate template p \<and> right_size template p \<and> \<not> waited now delay p) pods)) \<and>
   sorted_wrt (\<lambda>a b. largestFirst a b \<le> 0) (Fit (DemandOn pods template now delay)) \<and>
   list_all (\<lambda>p. candidate template p \<and> right_size template p \<and> waited now delay p) (Fit (DemandOn pods template now delay)) \<and>
   list_all (\<lambda>p. candidate template p \<and> \<not> right_size template p) (TooBig (DemandOn pods template now delay))"
proof -
  have "mset (filter (\<lambda>p. candidate template p \<and> right_size template p \<and> waited now delay p) pods) +
      mset (filter (\<lambda>p. candidate template p \<and> \<not> right_size template p) pods) +
      mset (filter (\<lambda>p. candidate template p \<and> right_size template p \<and> \<not> waited now delay p) pods) =
      mset (filter (candidate template) pods)"
    by (induction pods) auto
  then show ?thesis
    by (simp add: DemandOn_eq largest_first.sorted_sort_cmp list_all_iff)
qed

subsection \<open>How many nodes to buy\<close>

lemma needed_go_exact:
  assumes "list_all (\<lambda>p. room_fits p (full_room template)) pods"
  shows "pack room_fits room_take pods (rooms @ replicate j (full_room template)) \<noteq> None \<longleftrightarrow>
    needed_go template pods rooms \<le> j"
  using assms
proof (induction pods arbitrary: rooms j)
  case (Cons p pods)
  have fit: "room_fits p (full_room template)" using Cons.prems by simp
  show ?case
  proof (cases "place room_fits room_take p rooms")
    case (Some rooms')
    then show ?thesis using Cons by (simp add: place_append)
  next
    case None
    show ?thesis
    proof (cases j)
      case 0
      then show ?thesis by (simp add: None)
    next
      case (Suc i)
      have "place room_fits room_take p (rooms @ replicate j (full_room template)) =
          Some ((rooms @ [room_take p (full_room template)]) @ replicate i (full_room template))"
        using fit by (simp add: place_append None Suc)
      then show ?thesis
        using Cons.IH [of "rooms @ [room_take p (full_room template)]" i] Cons.prems None Suc by simp
    qed
  qed
qed simp

lemma needed_go_bound: "needed_go template pods rooms \<le> length pods"
  by (induction pods arbitrary: rooms) (auto split: option.splits intro: le_SucI)

text \<open>
  C19. \<open>NodesNeeded\<close> buys exactly what first fit needs, and what it buys is enough. For the demand on a
  pool, with \<open>comingUp\<close> nodes already on their way and the free room of others: the first-fit placement
  of the pods succeeds with \<open>j\<close> more nodes if and only if \<open>j\<close> is at least \<open>NodesNeeded\<close>; it is never
  more than one node a pod; and with that many there is an assignment of every pod to a node in which
  no node is asked for more CPU or memory than it has free.
\<close>

theorem NodesNeeded_exact:
  fixes pods template now delay comingUp existing
  defines "fit \<equiv> Fit (DemandOn pods template now delay)"
    and "n \<equiv> NodesNeeded (Fit (DemandOn pods template now delay)) template comingUp existing"
  shows "(pack room_fits room_take fit (existing @ replicate (comingUp + j) (full_room template)) \<noteq> None \<longleftrightarrow> n \<le> j) \<and>
    n \<le> length fit \<and>
    (\<exists>asg. good_assignment (\<lambda>_ _. True) (\<lambda>p. fst (PodRequests p)) (\<lambda>p. snd (PodRequests p)) r_cpu r_memory
       fit (existing @ replicate (comingUp + n) (full_room template)) asg)"
proof -
  have fit: "list_all (\<lambda>p. room_fits p (full_room template)) fit"
    by (auto simp: fit_def DemandOn_eq list_all_iff right_size_def room_fits_def full_room_def)
  have exact: "pack room_fits room_take fit (existing @ replicate (comingUp + j) (full_room template)) \<noteq> None \<longleftrightarrow> n \<le> j" for j
    using needed_go_exact [OF fit, of "existing @ replicate comingUp (full_room template)" j]
    by (simp add: n_def fit_def NodesNeeded_def replicate_add)
  then obtain bins where "pack room_fits room_take fit (existing @ replicate (comingUp + n) (full_room template)) = Some bins"
    by blast
  then show ?thesis
    using exact needed_go_bound rooms.pack_assigns by (simp add: n_def fit_def NodesNeeded_def)
qed

subsection \<open>When a node may go\<close>

text \<open>
  C20. \<open>FitsElsewhere\<close> is only true when it is so: there is an assignment of every pod to one of the
  other nodes in which each pod's node takes it (it is open for scheduling, and the pod's node selector,
  affinity and tolerations allow it) and no node is given more than it has free.
\<close>

theorem FitsElsewhere_sound:
  assumes "FitsElsewhere pods others"
  shows "\<exists>ordered asg. mset ordered = mset pods \<and>
    good_assignment (\<lambda>p c. nc_schedulable c \<and> PodCouldRunOn p (nc_node c))
      (\<lambda>p. fst (PodRequests p)) (\<lambda>p. snd (PodRequests p)) nc_cpu_free nc_memory_free ordered others asg"
proof -
  obtain bins where "pack capacity_fits capacity_take (sort_cmp largestFirst pods) others = Some bins"
    using assms by (auto simp: FitsElsewhere_def)
  then show ?thesis
    using capacities.pack_assigns mset_sort_cmp by blast
qed

theorem FitsElsewhere_sound_witness:
  "\<exists>ordered asg. mset ordered = {#plain_pod ''x'' 500 1000#} \<and>
    good_assignment (\<lambda>p c. nc_schedulable c \<and> PodCouldRunOn p (nc_node c))
      (\<lambda>p. fst (PodRequests p)) (\<lambda>p. snd (PodRequests p)) nc_cpu_free nc_memory_free ordered
      [\<lparr>nc_node = empty_node ''a'', nc_cpu_free = 600, nc_memory_free = 2000, nc_schedulable = True\<rparr>] asg"
proof -
  have "FitsElsewhere [plain_pod ''x'' 500 1000]
      [\<lparr>nc_node = empty_node ''a'', nc_cpu_free = 600, nc_memory_free = 2000, nc_schedulable = True\<rparr>]"
    by (simp add: FitsElsewhere_def capacity_fits_def PodRequests_def containerRequestedCPU_def containerRequestedMemory_def
        plain_pod_def rl_get_def QuantityMillis_def QuantityBytes_def PodCouldRunOn_def selectorMatches_def affinityMatches_def
        podToleratesTaints_def empty_node_def)
  from FitsElsewhere_sound [OF this] show ?thesis by simp
qed

text \<open>A pod that keeps nothing on its node: the volumes that moving it would lose are absent.\<close>

definition keeps_data :: "volume \<Rightarrow> bool" where
  "keeps_data v \<longleftrightarrow> v_claim v \<noteq> None \<or> v_host_path v \<or> (\<exists>m. v_empty_dir v = Some m \<and> m \<noteq> ''Memory'')"

lemma volume_blocker_empty: "volume_blocker pod vs = [] \<longleftrightarrow> \<not> list_ex keeps_data vs"
  by (induction vs) (auto simp: keeps_data_def pod_title_def split: option.splits)

text \<open>
  What blocks the removal of a node. A pod does not block it exactly when its owner marked it safe to
  evict, or did not mark it unsafe and the pod has a controller to recreate it, no volume claim, host
  path or disk-backed \<open>emptyDir\<close>, and is not a system pod.
\<close>

theorem RemovalBlocker_iff:
  "RemovalBlocker pod = [] \<longleftrightarrow>
     lookup0 (p_annotations pod) AnnotationSafeToEvict = ''true'' \<or>
     (lookup0 (p_annotations pod) AnnotationSafeToEvict \<noteq> ''false'' \<and> p_controller pod \<noteq> None \<and>
      \<not> list_ex keeps_data (p_volumes pod) \<and> p_namespace pod \<noteq> ''kube-system'')"
  using volume_blocker_empty [of pod "p_volumes pod"] by (auto simp: RemovalBlocker_def Let_def pod_title_def)

end
