(* ===== verification/Pool_Types.thy ===== *)
theory Pool_Types
  imports Autoscale
begin

section \<open>Node pools: the API types and their rules\<close>

text \<open>
  \<open>api/v1alpha1/geassnodepool_types.go\<close>, \<open>geassnode_types.go\<close> and \<open>pkg/platform/nodepool.go\<close>: a
  pool (\<open>geass_node_pool\<close>), its specification and status, the nodes it owns (\<open>geass_node\<close>), the
  methods of the pool, the labels and taints its nodes register with, and \<open>ValidateNodePool\<close>. The
  enumerations are strings, as in the API. A pointer that may be nil is an \<open>option\<close>; a map is an
  association list.
\<close>

subsection \<open>Constants (nodepool.go)\<close>

definition SystemNamespace :: string where "SystemNamespace = ''geass-system''"
definition LabelPool :: string where "LabelPool = ''geass.dev/pool''"
definition LabelAutoscaled :: string where "LabelAutoscaled = ''geass.dev/autoscaled''"
definition LabelNodeStorage :: string where "LabelNodeStorage = ''geass.dev/storage''"
definition AnnotationPoolCordon :: string where "AnnotationPoolCordon = ''geass.dev/pool-cordon''"
definition AnnotationPoolCordonAt :: string where "AnnotationPoolCordonAt = ''geass.dev/pool-cordon-at''"
definition AnnotationScaleDownDisabled :: string where "AnnotationScaleDownDisabled = ''geass.dev/scale-down-disabled''"
definition AnnotationResumePool :: string where "AnnotationResumePool = ''geass.dev/resume''"
definition MaxNodePoolNameLength :: nat where "MaxNodePoolNameLength = 48"

abbreviation valueTrue :: string where "valueTrue \<equiv> ''true''"
abbreviation NodeStorageNone :: string where "NodeStorageNone \<equiv> ''None''"
abbreviation NodeStorageAllow :: string where "NodeStorageAllow \<equiv> ''Allow''"
abbreviation OrphanReport :: string where "OrphanReport \<equiv> ''Report''"
abbreviation OrphanDelete :: string where "OrphanDelete \<equiv> ''Delete''"
abbreviation NodePoolReady :: string where "NodePoolReady \<equiv> ''Ready''"
abbreviation NodePoolScaling :: string where "NodePoolScaling \<equiv> ''Scaling''"
abbreviation NodePoolDegraded :: string where "NodePoolDegraded \<equiv> ''Degraded''"
abbreviation NodePoolPaused :: string where "NodePoolPaused \<equiv> ''Paused''"
abbreviation NodePoolSuspended :: string where "NodePoolSuspended \<equiv> ''Suspended''"
abbreviation NodePoolPending :: string where "NodePoolPending \<equiv> ''Pending''"
abbreviation NodePhaseReady :: string where "NodePhaseReady \<equiv> ''Ready''"
abbreviation NodePhaseFailed :: string where "NodePhaseFailed \<equiv> ''Failed''"

subsection \<open>Pools (geassnodepool_types.go)\<close>

record pool_autoscaling =
  pa_enabled :: bool
  pa_scale_up_delay_seconds :: int
  pa_max_scale_up :: int
  pa_scale_down_utilization_percent :: int
  pa_scale_down_after_minutes :: int
  pa_scale_down_delay_after_add_minutes :: int
  pa_min_node_lifetime_minutes :: int
  pa_spare_nodes :: int

record inventory_host =
  ih_name :: string
  ih_address :: string
  ih_ssh_port :: int
  ih_ssh_user :: string
  ih_ssh_key_secret :: string

record pool_spec =
  ps_cluster :: string
  ps_connection_ref :: string
  ps_inventory :: "inventory_host list option"
  ps_region :: string
  ps_size :: string
  ps_fallback_sizes :: "string list"
  ps_fallback_regions :: "string list"
  ps_image :: string
  ps_spot :: bool
  ps_address_type :: string
  ps_settings :: labels
  ps_placement :: "node_placement option"
  ps_storage :: string
  ps_min_nodes :: int
  ps_max_nodes :: int
  ps_autoscaling :: "pool_autoscaling option"
  ps_orphan_policy :: string
  ps_suspend :: bool

record pool_size =
  pz_name :: string
  pz_vcpus :: int
  pz_memory_mib :: int
  pz_hourly_price :: string
  pz_currency :: string

record pool_status =
  st_conditions :: "condition list"
  st_phase :: string
  st_message :: string
  st_observed_generation :: int
  st_desired_nodes :: int
  st_nodes :: int
  st_ready_nodes :: int
  st_pending_pods :: int
  st_size :: "pool_size option"
  st_node_allocatable :: "resource_list option"
  st_estimated_hourly_cost :: string
  st_consecutive_failures :: int
  st_counted_failures :: "string list"
  st_paused_until :: "time option"
  st_last_scale_up :: "time option"
  st_last_scale_down :: "time option"
  st_scale_down_backoff_until :: "time option"
  st_last_failure :: string
  st_last_failure_at :: "time option"
  st_fallback_step :: int
  st_fallback_since :: "time option"
  st_unneeded_since :: "(string \<times> time) list"
  st_orphans :: "string list"

record geass_node_pool =
  gp_name :: string
  gp_namespace :: string
  gp_annotations :: labels
  gp_deleting :: bool
  gp_generation :: int
  gp_spec :: pool_spec
  gp_status :: pool_status

definition AutoscalingEnabled :: "geass_node_pool \<Rightarrow> bool" where
  "AutoscalingEnabled p = (case ps_autoscaling (gp_spec p) of None \<Rightarrow> False | Some a \<Rightarrow> pa_enabled a)"

definition IsInventory :: "geass_node_pool \<Rightarrow> bool" where
  "IsInventory p = (ps_inventory (gp_spec p) \<noteq> None)"

definition EffectiveStorage :: "geass_node_pool \<Rightarrow> string" where
  "EffectiveStorage p = (if ps_storage (gp_spec p) = [] then NodeStorageNone else ps_storage (gp_spec p))"

subsection \<open>Nodes of a pool (geassnode_types.go)\<close>

record node_cloud =
  nc_connection_ref :: string
  nc_region :: string
  nc_size :: string
  nc_image :: string
  nc_spot :: bool
  nc_address_type :: string
  nc_settings :: labels

text \<open>Of the status of a node's machine, what the pool reads.\<close>

record node_cloud_status =
  cl_instance_id :: string
  cl_problem :: string

record geass_node =
  gn_name :: string
  gn_labels :: labels
  gn_deleting :: bool
  gn_created :: time
  gn_role :: string
  gn_cluster :: string
  gn_pool :: string
  gn_storage :: string
  gn_placement :: "node_placement option"
  gn_eip :: string
  gn_ssh_port :: int
  gn_ssh_user :: string
  gn_ssh_key_secret :: "string option"
  gn_cloud :: "node_cloud option"
  gn_phase :: string
  gn_message :: string
  gn_node_name :: string
  gn_cloud_status :: "node_cloud_status option"

subsection \<open>Labels, taints and validity (nodepool.go)\<close>

definition PoolNodeLabels :: "string \<Rightarrow> bool \<Rightarrow> string \<Rightarrow> labels" where
  "PoolNodeLabels pool autoscaled storage =
     [(LabelPool, pool)] @ (if autoscaled then [(LabelAutoscaled, valueTrue)] else []) @
     (if storage = NodeStorageNone then [(LabelNodeStorage, ''none'')] else [])"

definition EphemeralTaint :: taint where
  "EphemeralTaint = \<lparr>t_key = TaintEphemeral, t_value = ''true'', t_effect = TaintEffectNoSchedule\<rparr>"

definition TolerateEphemeralNodes :: "pod \<Rightarrow> pod" where
  "TolerateEphemeralNodes pod = pod\<lparr>p_tolerations := add_toleration (p_tolerations pod) EphemeralToleration\<rparr>"

definition IsPoolNode :: "node \<Rightarrow> bool" where
  "IsPoolNode node \<longleftrightarrow> lookup0 (n_labels node) LabelPool \<noteq> []"

text \<open>\<open>strings.EqualFold(x, "none")\<close>; only ASCII letters fold to those of \<open>none\<close>.\<close>

definition IsEphemeralNode :: "node \<Rightarrow> bool" where
  "IsEphemeralNode node \<longleftrightarrow> to_lower (lookup0 (n_labels node) LabelNodeStorage) = ''none''"

definition IsAutoscaledNode :: "node \<Rightarrow> bool" where
  "IsAutoscaledNode node \<longleftrightarrow> lookup0 (n_labels node) LabelAutoscaled = valueTrue"

definition StableNodes :: "node list \<Rightarrow> node list" where
  "StableNodes nodes = filter (\<lambda>n. \<not> IsPoolNode n \<and> \<not> IsEphemeralNode n) nodes"

definition PoolNodeIdentity :: "geass_node_pool \<Rightarrow> labels \<times> taint list" where
  "PoolNodeIdentity pool =
     (let synthetic = (case ps_placement (gp_spec pool) of
            None \<Rightarrow> empty_node [] | Some pl \<Rightarrow> fst (ApplyNodePlacement (empty_node []) pl));
          ls = foldl (\<lambda>m (k, v). AList.update k v m) (n_labels synthetic)
                 (PoolNodeLabels (gp_name pool) (AutoscalingEnabled pool) (EffectiveStorage pool))
      in (ls, n_taints synthetic @ (if EffectiveStorage pool = NodeStorageNone then [EphemeralTaint] else [])))"

fun repeated_host :: "string list \<Rightarrow> inventory_host list \<Rightarrow> string option" where
  "repeated_host seen [] = None"
| "repeated_host seen (h # hs) = (if ih_name h \<in> set seen then Some (ih_name h) else repeated_host (ih_name h # seen) hs)"

text \<open>\<open>%q\<close> of a host's name, which the CRD holds to letters, digits and hyphens, is the name in quotes.\<close>

definition ValidateNodePool :: "geass_node_pool \<Rightarrow> string" where
  "ValidateNodePool pool =
     (let spec = gp_spec pool in
      if length (gp_name pool) > MaxNodePoolNameLength then
        ''the pool's name is longer than '' @ itoa (int MaxNodePoolNameLength) @ '' characters, and each node's name is made from it''
      else if ps_max_nodes spec < ps_min_nodes spec then ''maxNodes must not be below minNodes''
      else if (ps_connection_ref spec \<noteq> []) = (ps_inventory spec \<noteq> None) then
        ''a pool uses either a cloud connection or an inventory of servers, not both and not neither''
      else case ps_inventory spec of
        None \<Rightarrow> if ps_size spec = [] then ''a pool that creates machines needs a size'' else []
      | Some hosts \<Rightarrow>
          if ps_max_nodes spec > int (length hosts) then
            ''maxNodes is '' @ itoa (ps_max_nodes spec) @ '' but the inventory lists only '' @ itoa (int (length hosts)) @ '' servers''
          else case repeated_host [] hosts of
            Some name \<Rightarrow> ''the inventory names \"'' @ name @ ''\" twice''
          | None \<Rightarrow> [])"

section \<open>Lemmas\<close>

lemma repeated_host_None:
  "repeated_host seen hosts = None \<longleftrightarrow> distinct (map ih_name hosts) \<and> set (map ih_name hosts) \<inter> set seen = {}"
  by (induction seen hosts rule: repeated_host.induct) auto

text \<open>
  A pool passes \<open>ValidateNodePool\<close> exactly when its name leaves room for a node's suffix, its bounds are
  in order, and it has one source of machines: a cloud connection with a size, or an inventory whose
  servers have different names and are at least as many as the pool may have nodes.
\<close>

theorem ValidateNodePool_iff:
  "ValidateNodePool pool = [] \<longleftrightarrow>
     length (gp_name pool) \<le> MaxNodePoolNameLength \<and>
     ps_min_nodes (gp_spec pool) \<le> ps_max_nodes (gp_spec pool) \<and>
     (case ps_inventory (gp_spec pool) of
        None \<Rightarrow> ps_connection_ref (gp_spec pool) \<noteq> [] \<and> ps_size (gp_spec pool) \<noteq> []
      | Some hosts \<Rightarrow> ps_connection_ref (gp_spec pool) = [] \<and> ps_max_nodes (gp_spec pool) \<le> int (length hosts) \<and>
          distinct (map ih_name hosts))"
proof -
  have d: "distinct (map ih_name hosts) \<longleftrightarrow> repeated_host [] hosts = None" for hosts
    by (simp add: repeated_host_None)
  show ?thesis
    by (auto simp: ValidateNodePool_def Let_def not_less d split: option.splits)
qed

subsection \<open>Nodes without data take only what may lose its node\<close>

lemma pool_keys [simp]: "cut_prefix TagKeyPrefix LabelPool = None" "cut_prefix TagKeyPrefix LabelAutoscaled = None"
  "cut_prefix TagKeyPrefix LabelNodeStorage = None" "LabelPool \<noteq> LabelRegion" "LabelPool \<noteq> LabelZone"
  "LabelAutoscaled \<noteq> LabelRegion" "LabelAutoscaled \<noteq> LabelZone" "LabelNodeStorage \<noteq> LabelRegion" "LabelNodeStorage \<noteq> LabelZone"
  by (simp_all add: LabelPool_def LabelAutoscaled_def LabelNodeStorage_def TagKeyPrefix_def LabelRegion_def LabelZone_def
      cut_prefix_def has_prefix_def)

text \<open>A workload's tags as the rest of the platform sees them on a new node of a pool.\<close>

definition pool_template :: "geass_node_pool \<Rightarrow> resource_list option \<Rightarrow> node_template" where
  "pool_template pool alloc = TemplateFor (fst (PoolNodeIdentity pool)) (snd (PoolNodeIdentity pool)) alloc 0 0"

lemma template_taints: "n_taints (template_Node (pool_template pool alloc) name) = snd (PoolNodeIdentity pool)"
  by (simp add: pool_template_def TemplateFor_def template_Node_def Let_def split: option.splits)

text \<open>
  C23. What keeps data is kept off a pool whose nodes must not hold it. A new node of a pool with
  storage \<open>None\<close> (the default) is not eligible for any placement that is not marked \<open>Ephemeral\<close>, and
  no pod may run on it unless one of its tolerations tolerates the pool's taint.
\<close>

theorem ephemeral_pool_keeps_data_off:
  assumes "EffectiveStorage pool = NodeStorageNone"
  shows "(Eligible p (template_Node (pool_template pool alloc) name) \<longrightarrow> Ephemeral p) \<and>
    (PodCouldRunOn pod (template_Node (pool_template pool alloc) name) \<longrightarrow>
       list_ex (\<lambda>tol. tolerationMatches tol EphemeralTaint) (p_tolerations pod))"
proof -
  have t: "EphemeralTaint \<in> set (n_taints (template_Node (pool_template pool alloc) name))"
    using assms by (simp add: template_taints PoolNodeIdentity_def Let_def)
  have "Tolerates p EphemeralTaint \<longrightarrow> Ephemeral p"
    by (simp add: Tolerates_def EphemeralTaint_def)
  with t show ?thesis
    by (auto simp: Eligible_def PodCouldRunOn_def podToleratesTaints_def list_all_iff EphemeralTaint_def split: if_splits)
qed

definition empty_pool_spec :: pool_spec where
  "empty_pool_spec = \<lparr>ps_cluster = ''default'', ps_connection_ref = ''cloud'', ps_inventory = None, ps_region = ''eu'',
     ps_size = ''cx23'', ps_fallback_sizes = [], ps_fallback_regions = [], ps_image = [], ps_spot = False,
     ps_address_type = ''Public'', ps_settings = [], ps_placement = None, ps_storage = [], ps_min_nodes = 0,
     ps_max_nodes = 3, ps_autoscaling = None, ps_orphan_policy = OrphanReport, ps_suspend = False\<rparr>"

definition empty_pool_status :: pool_status where
  "empty_pool_status = \<lparr>st_conditions = [], st_phase = [], st_message = [], st_observed_generation = 0,
     st_desired_nodes = 0, st_nodes = 0, st_ready_nodes = 0, st_pending_pods = 0, st_size = None,
     st_node_allocatable = None, st_estimated_hourly_cost = [], st_consecutive_failures = 0,
     st_counted_failures = [], st_paused_until = None, st_last_scale_up = None, st_last_scale_down = None,
     st_scale_down_backoff_until = None, st_last_failure = [], st_last_failure_at = None, st_fallback_step = 0,
     st_fallback_since = None, st_unneeded_since = [], st_orphans = []\<rparr>"

definition small_pool :: geass_node_pool where
  "small_pool = \<lparr>gp_name = ''workers'', gp_namespace = SystemNamespace, gp_annotations = [], gp_deleting = False,
     gp_generation = 1, gp_spec = empty_pool_spec, gp_status = empty_pool_status\<rparr>"

theorem ephemeral_pool_keeps_data_off_witness:
  "\<not> PodCouldRunOn (plain_pod ''db'' 100 100) (template_Node (pool_template small_pool None) ''n'')"
proof -
  have "EffectiveStorage small_pool = NodeStorageNone"
    by (simp add: EffectiveStorage_def small_pool_def empty_pool_spec_def)
  from ephemeral_pool_keeps_data_off [OF this, of _ None "''n''" "plain_pod ''db'' 100 100"] show ?thesis
    by (simp add: plain_pod_def)
qed

end
