(* ===== verification/Pool_World.thy ===== *)
theory Pool_World
  imports Pool_Types
begin

section \<open>The API server as the pool controller sees it, and draining (nodedrain.go)\<close>

text \<open>
  The controller reads and writes objects through the Kubernetes API. The \<open>world\<close> is the state behind it:
  the pools, the clusters, the pools' nodes (\<open>w_geass\<close>), the Kubernetes nodes and the pods, where Longhorn keeps replicas, the
  machines at the provider, and two supplies that are not under the controller's control: what goes
  wrong (\<open>w_faults\<close>: each call takes the next entry and fails with it, if it is one) and the random
  suffixes it draws. \<open>w_unlisted\<close> names the nodes that the controller's cache does not list yet;
  \<open>w_recent\<close>, \<open>w_orphan_seen\<close>, \<open>w_last_sweep\<close> and \<open>w_sizes\<close> are what the reconciler itself remembers between
  passes. A theorem about every world is one about every sequence of failures. A call is an
  operation \<open>'a op\<close>: it returns an error or a result, and the world after it. A \<open>GeassNode\<close> has a
  finalizer, so deleting it marks it; evicting a pod marks it too.
\<close>

datatype api_error = NotFound | AlreadyExists | Conflict | TooManyRequests | NoMatch | OtherError

record machine =
  i_id :: string
  i_name :: string
  i_region :: string
  i_state :: string
  i_labels :: labels
  i_created :: "time option"

text \<open>A size a provider offers; the price is printed, and empty when it is not known.\<close>

record provider_size =
  pz_id :: string
  pz_cpus :: int
  pz_mib :: int
  pz_price :: string
  pz_curr :: string

text \<open>Of the cluster, its name and UID, and the phase of its K3s upgrade, if it has one.\<close>

record geass_cluster =
  gc_name :: string
  gc_uid :: string
  gc_upgrade :: "string option"

record world =
  w_pools :: "geass_node_pool list"
  w_clusters :: "geass_cluster list"
  w_geass :: "geass_node list"
  w_nodes :: "node list"
  w_pods :: "pod list"
  w_replicas :: "string list"
  w_machines :: "machine list"
  w_faults :: "api_error option list"
  w_suffixes :: "string list"
  w_unlisted :: "string list"
  w_recent :: "(string \<times> (string \<times> time) list) list"
  w_orphan_seen :: "(string \<times> time) list"
  w_last_sweep :: "(string \<times> time) list"
  w_sizes :: "(string \<times> provider_size list \<times> time) list"

type_synonym 'a op = "world \<Rightarrow> (api_error + 'a) \<times> world"

definition fails :: "world \<Rightarrow> api_error option" where
  "fails w = (case w_faults w of [] \<Rightarrow> None | f # fs \<Rightarrow> f)"

definition spend :: "world \<Rightarrow> world" where
  "spend w = w\<lparr>w_faults := tl (w_faults w)\<rparr>"

subsection \<open>Calls\<close>

definition Get_node :: "string \<Rightarrow> node op" where
  "Get_node name w = (case fails w of
      Some e \<Rightarrow> (Inl e, spend w)
    | None \<Rightarrow> (case find (\<lambda>n. n_name n = name) (w_nodes w) of None \<Rightarrow> Inl NotFound | Some n \<Rightarrow> Inr n, spend w))"

definition Patch_node :: "node \<Rightarrow> unit op" where
  "Patch_node node w = (case fails w of
      Some e \<Rightarrow> (Inl e, spend w)
    | None \<Rightarrow> if list_ex (\<lambda>n. n_name n = n_name node) (w_nodes w)
        then (Inr (), (spend w)\<lparr>w_nodes := map (\<lambda>n. if n_name n = n_name node then node else n) (w_nodes w)\<rparr>)
        else (Inl NotFound, spend w))"

definition List_nodes :: "node list op" where
  "List_nodes w = (case fails w of Some e \<Rightarrow> (Inl e, spend w) | None \<Rightarrow> (Inr (w_nodes w), spend w))"

definition List_pods :: "pod list op" where
  "List_pods w = (case fails w of Some e \<Rightarrow> (Inl e, spend w) | None \<Rightarrow> (Inr (w_pods w), spend w))"

definition List_replicas :: "string list op" where
  "List_replicas w = (case fails w of Some e \<Rightarrow> (Inl e, spend w) | None \<Rightarrow> (Inr (w_replicas w), spend w))"

definition List_geass :: "string \<Rightarrow> geass_node list op" where
  "List_geass pool w = (case fails w of Some e \<Rightarrow> (Inl e, spend w)
     | None \<Rightarrow> (Inr (filter (\<lambda>n. lookup0 (gn_labels n) LabelPool = pool \<and> gn_name n \<notin> set (w_unlisted w)) (w_geass w)), spend w))"

text \<open>The server sets the time of creation and returns the object; the cache lists it later.\<close>

definition Create_geass :: "time \<Rightarrow> geass_node \<Rightarrow> geass_node op" where
  "Create_geass now node w = (case fails w of
      Some e \<Rightarrow> (Inl e, spend w)
    | None \<Rightarrow> if list_ex (\<lambda>n. gn_name n = gn_name node) (w_geass w) then (Inl AlreadyExists, spend w)
        else (Inr (node\<lparr>gn_created := now\<rparr>), (spend w)\<lparr>w_geass := w_geass w @ [node\<lparr>gn_created := now\<rparr>],
          w_unlisted := gn_name node # w_unlisted w\<rparr>))"

definition Delete_geass :: "string \<Rightarrow> unit op" where
  "Delete_geass name w = (case fails w of
      Some e \<Rightarrow> (Inl e, spend w)
    | None \<Rightarrow> if list_ex (\<lambda>n. gn_name n = name) (w_geass w)
        then (Inr (), (spend w)\<lparr>w_geass := map (\<lambda>n. if gn_name n = name then n\<lparr>gn_deleting := True\<rparr> else n) (w_geass w)\<rparr>)
        else (Inl NotFound, spend w))"

definition Evict :: "pod \<Rightarrow> unit op" where
  "Evict pod w = (case fails w of
      Some e \<Rightarrow> (Inl e, spend w)
    | None \<Rightarrow> if pod \<in> set (w_pods w)
        then (Inr (), (spend w)\<lparr>w_pods := map (\<lambda>p. if p = pod then p\<lparr>p_deleting := True\<rparr> else p) (w_pods w)\<rparr>)
        else (Inl NotFound, spend w))"

text \<open>\<open>client.IgnoreNotFound\<close>.\<close>

definition IgnoreNotFound :: "api_error + unit \<Rightarrow> api_error + unit" where
  "IgnoreNotFound r = (case r of Inl NotFound \<Rightarrow> Inr () | _ \<Rightarrow> r)"

subsection \<open>Cordoning and emptying a node (nodedrain.go)\<close>

text \<open>How a time is written in an annotation and read again: RFC 3339.\<close>

record time_format =
  format_time :: "time \<Rightarrow> string"
  parse_time :: "string \<Rightarrow> time option"

definition cordonNode :: "time_format \<Rightarrow> string \<Rightarrow> time \<Rightarrow> unit op" where
  "cordonNode tf name now w = (case Get_node name w of
      (Inl e, w) \<Rightarrow> (IgnoreNotFound (Inl e), w)
    | (Inr node, w) \<Rightarrow>
        if n_unschedulable node then (Inr (), w)
        else (case Patch_node (node\<lparr>n_unschedulable := True,
                n_annotations := AList.update AnnotationPoolCordonAt (format_time tf now)
                  (AList.update AnnotationPoolCordon valueTrue (n_annotations node))\<rparr>) w of
                (r, w) \<Rightarrow> (IgnoreNotFound r, w)))"

definition uncordonNode :: "string \<Rightarrow> unit op" where
  "uncordonNode name w = (case Get_node name w of
      (Inl e, w) \<Rightarrow> (IgnoreNotFound (Inl e), w)
    | (Inr node, w) \<Rightarrow>
        if lookup0 (n_annotations node) AnnotationPoolCordon \<noteq> valueTrue then (Inr (), w)
        else (case Patch_node (node\<lparr>n_unschedulable := False,
                n_annotations := AList.delete AnnotationPoolCordonAt
                  (AList.delete AnnotationPoolCordon (n_annotations node))\<rparr>) w of
                (r, w) \<Rightarrow> (IgnoreNotFound r, w)))"

definition podsOnNode :: "string \<Rightarrow> pod list op" where
  "podsOnNode node w = (case List_pods w of
      (Inl e, w) \<Rightarrow> (Inl e, w)
    | (Inr pods, w) \<Rightarrow> (Inr (filter (\<lambda>p. p_node_name p = node) pods), w))"

record drain_progress =
  Remaining :: int
  Blocked :: int

definition Done :: "drain_progress \<Rightarrow> bool" where
  "Done p \<longleftrightarrow> Remaining p = 0"

fun evict_loop :: "pod list \<Rightarrow> drain_progress \<Rightarrow> drain_progress op" where
  "evict_loop [] progress w = (Inr progress, w)"
| "evict_loop (pod # pods) progress w =
     (if \<not> Movable pod then evict_loop pods progress w
      else let progress = progress\<lparr>Remaining := Remaining progress + 1\<rparr> in
        if p_deleting pod then evict_loop pods progress w
        else case Evict pod w of
          (Inr _, w) \<Rightarrow> evict_loop pods progress w
        | (Inl NotFound, w) \<Rightarrow> evict_loop pods progress w
        | (Inl TooManyRequests, w) \<Rightarrow> evict_loop pods (progress\<lparr>Blocked := Blocked progress + 1\<rparr>) w
        | (Inl e, w) \<Rightarrow> (Inl e, w))"

definition evictFrom :: "string \<Rightarrow> drain_progress op" where
  "evictFrom node w = (case podsOnNode node w of
      (Inl e, w) \<Rightarrow> (Inl e, w)
    | (Inr pods, w) \<Rightarrow> evict_loop pods \<lparr>Remaining = 0, Blocked = 0\<rparr> w)"

section \<open>What an operation may change\<close>

text \<open>
  The contract every operation of the controller keeps. \<open>keeps k w w'\<close> says that from \<open>w\<close> to \<open>w'\<close>
  no \<open>GeassNode\<close> was lost or changed but by being marked for deletion, at most \<open>k\<close> were created, a
  Kubernetes node that someone else cordoned is as it was and every other differs at most in whether
  it is cordoned and in its annotations, and a pod was at most asked to leave, and only a movable one.
\<close>

definition foreign_cordon :: "node \<Rightarrow> bool" where
  "foreign_cordon n \<longleftrightarrow> n_unschedulable n \<and> lookup0 (n_annotations n) AnnotationPoolCordon \<noteq> valueTrue"

definition node_kept :: "node \<Rightarrow> node \<Rightarrow> bool" where
  "node_kept n n' \<longleftrightarrow> (\<exists>u ann. n' = n\<lparr>n_unschedulable := u, n_annotations := ann\<rparr>) \<and> (foreign_cordon n \<longrightarrow> n' = n)"

definition geass_kept :: "geass_node \<Rightarrow> geass_node \<Rightarrow> bool" where
  "geass_kept g g' \<longleftrightarrow> g' = g \<or> g' = g\<lparr>gn_deleting := True\<rparr>"

definition pod_kept :: "pod \<Rightarrow> pod \<Rightarrow> bool" where
  "pod_kept p p' \<longleftrightarrow> p' = p \<or> (Movable p \<and> p' = p\<lparr>p_deleting := True\<rparr>)"

definition keeps :: "nat \<Rightarrow> world \<Rightarrow> world \<Rightarrow> bool" where
  "keeps k w w' \<longleftrightarrow>
     (\<exists>olds created. w_geass w' = olds @ created \<and> list_all2 geass_kept (w_geass w) olds \<and> length created \<le> k) \<and>
     list_all2 node_kept (w_nodes w) (w_nodes w') \<and>
     list_all2 pod_kept (w_pods w) (w_pods w')"

lemma node_kept_refl [simp]: "node_kept n n"
  unfolding node_kept_def by (intro conjI exI [of _ "n_unschedulable n"] exI [of _ "n_annotations n"]) simp_all

lemma node_kept_trans: "node_kept a b \<Longrightarrow> node_kept b c \<Longrightarrow> node_kept a c"
proof -
  assume ab: "node_kept a b" and bc: "node_kept b c"
  obtain u ann where b: "b = a\<lparr>n_unschedulable := u, n_annotations := ann\<rparr>"
    using ab unfolding node_kept_def by blast
  obtain u' ann' where "c = b\<lparr>n_unschedulable := u', n_annotations := ann'\<rparr>"
    using bc unfolding node_kept_def by blast
  with b have "c = a\<lparr>n_unschedulable := u', n_annotations := ann'\<rparr>" by simp
  with ab bc show "node_kept a c" unfolding node_kept_def by metis
qed

lemma geass_kept_trans: "geass_kept a b \<Longrightarrow> geass_kept b c \<Longrightarrow> geass_kept a c"
  by (auto simp: geass_kept_def)

lemma Movable_deleting [simp]: "Movable (p\<lparr>p_deleting := d\<rparr>) = Movable p"
  by (simp add: Movable_def)

lemma pod_kept_trans: "pod_kept a b \<Longrightarrow> pod_kept b c \<Longrightarrow> pod_kept a c"
  by (auto simp: pod_kept_def)

lemma all_kept_refl [simp]: "list_all2 geass_kept gs gs" "list_all2 node_kept ns ns" "list_all2 pod_kept ps ps"
  by (simp_all add: list_all2_same geass_kept_def pod_kept_def)

lemma keepsI:
  assumes "w_geass w' = olds @ created" "list_all2 geass_kept (w_geass w) olds" "length created \<le> k"
    "list_all2 node_kept (w_nodes w) (w_nodes w')" "list_all2 pod_kept (w_pods w) (w_pods w')"
  shows "keeps k w w'"
  using assms unfolding keeps_def by blast

lemma keeps_refl [simp]: "keeps k w w"
  by (rule keepsI [where olds = "w_geass w" and created = "[]"]) simp_all

lemma list_all2_compose:
  assumes "\<And>a b c. R a b \<Longrightarrow> R b c \<Longrightarrow> R a c" "list_all2 R xs ys" "list_all2 R ys zs"
  shows "list_all2 R xs zs"
  using assms(2,3) assms(1) [of "xs ! i" "ys ! i" "zs ! i" for i] by (auto simp: list_all2_conv_all_nth)

lemma keepsD: "keeps k w w' \<Longrightarrow> list_all2 node_kept (w_nodes w) (w_nodes w')" "keeps k w w' \<Longrightarrow> list_all2 pod_kept (w_pods w) (w_pods w')"
  by (simp_all add: keeps_def)

lemma keeps_trans:
  assumes "keeps j w1 w2" "keeps k w2 w3"
  shows "keeps (j + k) w1 w3"
proof -
  obtain o1 c1 where 1: "w_geass w2 = o1 @ c1" "list_all2 geass_kept (w_geass w1) o1" "length c1 \<le> j"
    using assms(1) by (auto simp: keeps_def)
  obtain o2 c2 where 2: "w_geass w3 = o2 @ c2" "list_all2 geass_kept (w_geass w2) o2" "length c2 \<le> k"
    using assms(2) by (auto simp: keeps_def)
  obtain a b where ab: "o2 = a @ b" "list_all2 geass_kept o1 a" "list_all2 geass_kept c1 b"
    using 2(2) 1(1) by (auto simp: list_all2_append1)
  have "list_all2 geass_kept (w_geass w1) a"
    by (rule list_all2_compose [OF geass_kept_trans 1(2) ab(2)])
  moreover have "length (b @ c2) \<le> j + k"
    using 1(3) 2(3) ab(3) by (simp add: list_all2_lengthD)
  moreover have "w_geass w3 = a @ b @ c2"
    using 2(1) ab(1) by simp
  moreover have "list_all2 node_kept (w_nodes w1) (w_nodes w3)"
    by (rule list_all2_compose [OF node_kept_trans keepsD(1) [OF assms(1)] keepsD(1) [OF assms(2)]])
  moreover have "list_all2 pod_kept (w_pods w1) (w_pods w3)"
    by (rule list_all2_compose [OF pod_kept_trans keepsD(2) [OF assms(1)] keepsD(2) [OF assms(2)]])
  ultimately show ?thesis
    using keepsI [of w3 a "b @ c2" w1 "j + k"] by simp
qed

lemma keeps_mono: "keeps j w w' \<Longrightarrow> j \<le> k \<Longrightarrow> keeps k w w'"
  unfolding keeps_def by (meson le_trans)

lemma keeps_trans0 [trans]: "keeps 0 w1 w2 \<Longrightarrow> keeps k w2 w3 \<Longrightarrow> keeps k w1 w3"
  using keeps_trans [of 0 w1 w2 k w3] by simp

named_theorems op_keeps "operations keep the contract"

subsection \<open>Calls that only read\<close>

lemma spend_simps [simp]:
  "w_pools (spend w) = w_pools w" "w_clusters (spend w) = w_clusters w" "w_geass (spend w) = w_geass w" "w_nodes (spend w) = w_nodes w" "w_pods (spend w) = w_pods w"
  "w_replicas (spend w) = w_replicas w" "w_machines (spend w) = w_machines w" "w_suffixes (spend w) = w_suffixes w"
  "w_unlisted (spend w) = w_unlisted w" "w_recent (spend w) = w_recent w" "w_orphan_seen (spend w) = w_orphan_seen w"
  "w_last_sweep (spend w) = w_last_sweep w" "w_sizes (spend w) = w_sizes w"
  by (simp_all add: spend_def)

locale api_read =
  fixes call :: "'a op"
  assumes only_reads: "snd (call w) = spend w"
begin

lemma read_keeps: "keeps 0 w (snd (call w))"
  by (rule keepsI [where olds = "w_geass w" and created = "[]"]) (simp_all add: only_reads)

lemma read_result: "call w = (r, w') \<Longrightarrow> keeps 0 w w' \<and> w_geass w' = w_geass w \<and> w_nodes w' = w_nodes w \<and> w_pods w' = w_pods w"
  using read_keeps [of w] only_reads [of w] by simp

end

interpretation get_node: api_read "Get_node name" for name
  by unfold_locales (simp add: Get_node_def split: option.splits)

interpretation list_nodes: api_read List_nodes
  by unfold_locales (simp add: List_nodes_def split: option.splits)

interpretation list_pods: api_read List_pods
  by unfold_locales (simp add: List_pods_def split: option.splits)

interpretation list_replicas: api_read List_replicas
  by unfold_locales (simp add: List_replicas_def split: option.splits)

interpretation list_geass: api_read "List_geass pool" for pool
  by unfold_locales (simp add: List_geass_def split: option.splits)

lemmas read_keeps = get_node.read_keeps list_nodes.read_keeps list_pods.read_keeps list_replicas.read_keeps
  list_geass.read_keeps

lemmas read_results = get_node.read_result list_nodes.read_result list_pods.read_result list_replicas.read_result
  list_geass.read_result

declare read_keeps [op_keeps]

lemma Get_node_Inr: "Get_node name w = (Inr n, w') \<Longrightarrow> n \<in> set (w_nodes w) \<and> n_name n = name \<and> w' = spend w"
  by (auto simp: Get_node_def find_Some_iff split: option.splits)

subsection \<open>Calls that write\<close>

lemma keeps_same_geass:
  assumes "w_geass w' = w_geass w" "list_all2 node_kept (w_nodes w) (w_nodes w')" "list_all2 pod_kept (w_pods w) (w_pods w')"
  shows "keeps k w w'"
  using assms by (intro keepsI [where olds = "w_geass w" and created = "[]"]) simp_all

lemma Delete_geass_keeps [op_keeps]: "keeps 0 w (snd (Delete_geass name w))"
proof -
  have "list_all2 geass_kept gs (map (\<lambda>n. if gn_name n = name then n\<lparr>gn_deleting := True\<rparr> else n) gs)" for gs
    by (induction gs) (auto simp: geass_kept_def)
  then show ?thesis
    by (intro keepsI [where olds = "w_geass (snd (Delete_geass name w))" and created = "[]"])
      (auto simp: Delete_geass_def split: option.splits)
qed

lemma Create_geass_keeps: "keeps (if isl (fst (Create_geass now g w)) then 0 else 1) w (snd (Create_geass now g w))"
  by (intro keepsI [where olds = "w_geass w" and created = "if isl (fst (Create_geass now g w)) then [] else [g\<lparr>gn_created := now\<rparr>]"])
    (auto simp: Create_geass_def split: option.splits)

lemma Evict_keeps [op_keeps]: "Movable pod \<Longrightarrow> keeps 0 w (snd (Evict pod w))"
proof -
  assume m: "Movable pod"
  have "list_all2 pod_kept ps (map (\<lambda>p. if p = pod then p\<lparr>p_deleting := True\<rparr> else p) ps)" for ps
    using m by (induction ps) (auto simp: pod_kept_def)
  then show ?thesis
    by (auto simp: Evict_def intro!: keeps_same_geass split: option.splits)
qed

text \<open>Patching a node that is not cordoned by someone else, in its cordon and its annotations alone.\<close>

lemma Patch_node_keeps:
  assumes "n \<in> set (w_nodes w)" "\<not> foreign_cordon n" "distinct (map n_name (w_nodes w))"
  shows "keeps 0 w (snd (Patch_node (n\<lparr>n_unschedulable := u, n_annotations := ann\<rparr>) w))"
proof -
  have same: "m = n" if "m \<in> set (w_nodes w)" "n_name m = n_name n" for m
    using assms(1,3) that by (auto simp: distinct_map inj_on_def)
  have "node_kept n (n\<lparr>n_unschedulable := u, n_annotations := ann\<rparr>)"
    using assms(2) by (auto simp: node_kept_def)
  then have "list_all2 node_kept (w_nodes w)
      (map (\<lambda>m. if n_name m = n_name n then n\<lparr>n_unschedulable := u, n_annotations := ann\<rparr> else m) (w_nodes w))"
    using same by (auto simp: list_all2_map2 list_all2_same)
  then show ?thesis
    by (auto simp: Patch_node_def intro!: keeps_same_geass split: option.splits)
qed

lemma keeps_names: "keeps k w w' \<Longrightarrow> map n_name (w_nodes w') = map n_name (w_nodes w)"
proof -
  have "list_all2 node_kept ns ns' \<Longrightarrow> map n_name ns' = map n_name ns" for ns ns'
    by (induction rule: list_all2_induct) (auto simp: node_kept_def)
  then show "keeps k w w' \<Longrightarrow> ?thesis" by (simp add: keeps_def)
qed

lemma keeps_pair: "keeps k w (snd p) \<Longrightarrow> p = (r, w') \<Longrightarrow> keeps k w w'"
  by simp

lemma keeps_distinct: "keeps k w w' \<Longrightarrow> distinct (map n_name (w_nodes w)) \<Longrightarrow> distinct (map n_name (w_nodes w'))"
  by (simp add: keeps_names)

text \<open>A sequence of calls: the contract of the first, and of what follows in either case.\<close>

lemma keeps_bind:
  assumes "keeps 0 w (snd p)"
    and "\<And>e w'. p = (Inl e, w') \<Longrightarrow> keeps 0 w w' \<Longrightarrow> keeps k w' (snd (f e w'))"
    and "\<And>x w'. p = (Inr x, w') \<Longrightarrow> keeps 0 w w' \<Longrightarrow> keeps k w' (snd (g x w'))"
  shows "keeps k w (snd (case p of (Inl e, w') \<Rightarrow> f e w' | (Inr x, w') \<Rightarrow> g x w'))"
proof (cases p)
  case (Pair r w')
  with assms(1) have 1: "keeps 0 w w'" by simp
  with Pair show ?thesis using assms(2,3) by (cases r) (auto intro: keeps_trans0)
qed

lemma keeps_let_pair:
  assumes "keeps 0 w (snd p)" "\<And>x w'. p = (x, w') \<Longrightarrow> keeps 0 w w' \<Longrightarrow> keeps k w' (snd (g x w'))"
  shows "keeps k w (snd (case p of (x, w') \<Rightarrow> g x w'))"
  using assms by (cases p) (auto intro: keeps_trans0)

subsection \<open>Cordoning and draining keep the contract\<close>

lemma cordonNode_keeps [op_keeps]:
  assumes "distinct (map n_name (w_nodes w))"
  shows "keeps 0 w (snd (cordonNode tf name now w))"
proof (cases "Get_node name w")
  case (Pair r w')
  show ?thesis
  proof (cases r)
    case (Inl e)
    with Pair show ?thesis using get_node.read_keeps [of w name] by (simp add: cordonNode_def)
  next
    case (Inr n)
    have n: "n \<in> set (w_nodes w)" "w' = spend w" using Get_node_Inr [of name w n w'] Pair Inr by simp_all
    have "keeps 0 w w'" using get_node.read_keeps [of w name] Pair by simp
    moreover have "\<not> n_unschedulable n \<Longrightarrow> keeps 0 w' (snd (Patch_node (n\<lparr>n_unschedulable := u, n_annotations := ann\<rparr>) w'))" for u ann
      using n assms by (intro Patch_node_keeps) (auto simp: foreign_cordon_def)
    ultimately show ?thesis
      using Pair Inr by (auto simp: cordonNode_def split: prod.splits) (metis keeps_trans0 snd_conv)
  qed
qed

lemma uncordonNode_keeps [op_keeps]:
  assumes "distinct (map n_name (w_nodes w))"
  shows "keeps 0 w (snd (uncordonNode name w))"
proof (cases "Get_node name w")
  case (Pair r w')
  show ?thesis
  proof (cases r)
    case (Inl e)
    with Pair show ?thesis using get_node.read_keeps [of w name] by (simp add: uncordonNode_def)
  next
    case (Inr n)
    have n: "n \<in> set (w_nodes w)" "w' = spend w" using Get_node_Inr [of name w n w'] Pair Inr by simp_all
    have "keeps 0 w w'" using get_node.read_keeps [of w name] Pair by simp
    moreover have "lookup0 (n_annotations n) AnnotationPoolCordon = valueTrue \<Longrightarrow>
        keeps 0 w' (snd (Patch_node (n\<lparr>n_unschedulable := u, n_annotations := ann\<rparr>) w'))" for u ann
      using n assms by (intro Patch_node_keeps) (auto simp: foreign_cordon_def)
    ultimately show ?thesis
      using Pair Inr by (auto simp: uncordonNode_def split: prod.splits) (metis keeps_trans0 snd_conv)
  qed
qed

lemma evict_loop_keeps: "keeps 0 w (snd (evict_loop pods progress w))"
proof (induction pods arbitrary: progress w)
  case (Cons pod pods)
  show ?case
  proof (cases "Movable pod \<and> \<not> p_deleting pod")
    case True
    obtain r w' where e: "Evict pod w = (r, w')" by fastforce
    have "keeps 0 w w'" using Evict_keeps [of pod w] True e by simp
    moreover have "keeps 0 w' (snd (evict_loop (pod # pods) progress w))"
    proof (cases r)
      case (Inl err)
      with True e Cons.IH show ?thesis by (cases err) (simp_all add: Let_def)
    next
      case (Inr u)
      with True e Cons.IH show ?thesis by (simp add: Let_def)
    qed
    ultimately show ?thesis by (rule keeps_trans0)
  next
    case False
    then show ?thesis using Cons.IH by (auto simp: Let_def)
  qed
qed simp

lemma evictFrom_keeps [op_keeps]: "keeps 0 w (snd (evictFrom node w))"
proof -
  obtain r w' where l: "List_pods w = (r, w')" by fastforce
  then have "keeps 0 w w'" using list_pods.read_keeps [of w] by simp
  with l show ?thesis
    by (cases r) (auto simp: evictFrom_def podsOnNode_def intro: keeps_trans0 evict_loop_keeps)
qed

lemma evict_loop_remaining:
  "evict_loop pods progress w = (Inr p, w') \<Longrightarrow> Remaining p = Remaining progress + int (length (filter Movable pods))"
proof (induction pods progress w rule: evict_loop.induct)
  case (2 pod pods progress w)
  then show ?case
    by (cases "Evict pod w"; cases "fst (Evict pod w)")
      (auto simp: Let_def split: if_splits api_error.splits)
qed simp

end
