(* ===== verification/Pool_Nodes.thy ===== *)
theory Pool_Nodes
  imports Pool_World
begin

section \<open>The nodes of a pool (nodepool_nodes.go, and listNodes of geassnodepool_controller.go)\<close>

text \<open>
  Listing and sorting a pool's nodes, making and removing them, and the fallback sizes and regions.
  The clock is read once: \<open>now\<close> is the time of the pass. The provider's size (\<open>sizeOf\<close>, a cached call
  to the provider) and the connection (\<open>resolveProvider\<close>) are results the pass is given.
  \<open>SetControllerReference\<close> cannot fail for an object that was just built and is left out.
\<close>

subsection \<open>Listing (geassnodepool_controller.go)\<close>

record pool_nodes =
  pn_all :: "geass_node list"
  pn_live :: "geass_node list"
  pn_ready :: "geass_node list"
  pn_comingUp :: "geass_node list"
  pn_failed :: "geass_node list"
  pn_machines :: int
  pn_justCreated :: int

definition has_machine :: "geass_node \<Rightarrow> bool" where
  "has_machine g = (case gn_cloud_status g of None \<Rightarrow> False | Some c \<Rightarrow> cl_instance_id c \<noteq> [])"

definition sort_node :: "pool_nodes \<Rightarrow> geass_node \<Rightarrow> pool_nodes" where
  "sort_node pn node =
     (if gn_deleting node then pn\<lparr>pn_machines := pn_machines pn + 1\<rparr>
      else if gn_phase node = NodePhaseFailed then
        pn\<lparr>pn_failed := pn_failed pn @ [node], pn_machines := pn_machines pn + (if has_machine node then 1 else 0)\<rparr>
      else (let pn = pn\<lparr>pn_live := pn_live pn @ [node], pn_machines := pn_machines pn + 1\<rparr> in
        if gn_phase node = NodePhaseReady then pn\<lparr>pn_ready := pn_ready pn @ [node]\<rparr>
        else pn\<lparr>pn_comingUp := pn_comingUp pn @ [node]\<rparr>))"

definition recent_of :: "world \<Rightarrow> string \<Rightarrow> (string \<times> time) list" where
  "recent_of w pool = (case map_of (w_recent w) pool of None \<Rightarrow> [] | Some m \<Rightarrow> m)"

definition listNodes :: "geass_node_pool \<Rightarrow> time \<Rightarrow> pool_nodes op" where
  "listNodes pool now w = (case List_geass (gp_name pool) w of
      (Inl e, w) \<Rightarrow> (Inl e, w)
    | (Inr items, w) \<Rightarrow>
        (let pn = foldl sort_node \<lparr>pn_all = items, pn_live = [], pn_ready = [], pn_comingUp = [], pn_failed = [],
                    pn_machines = 0, pn_justCreated = 0\<rparr> items;
             still = filter (\<lambda>(name, made_at). \<not> (name \<in> gn_name ` set items \<or> tsub now made_at > 30 * Second))
                       (recent_of w (gp_name pool));
             n = int (length still)
         in (Inr (pn\<lparr>pn_justCreated := n, pn_machines := pn_machines pn + n\<rparr>),
             (if has_key (w_recent w) (gp_name pool)
              then w\<lparr>w_recent := AList.update (gp_name pool) still (w_recent w)\<rparr> else w))))"

definition rememberCreated :: "string \<Rightarrow> string \<Rightarrow> time \<Rightarrow> world \<Rightarrow> world" where
  "rememberCreated pool node now w =
     w\<lparr>w_recent := AList.update pool (AList.update node now (recent_of w pool)) (w_recent w)\<rparr>"

subsection \<open>Sizes and regions\<close>

record choice =
  ch_size :: string
  ch_region :: string

definition choices :: "geass_node_pool \<Rightarrow> choice list" where
  "choices pool = concat (map (\<lambda>region. map (\<lambda>sz. \<lparr>ch_size = sz, ch_region = region\<rparr>)
       (ps_size (gp_spec pool) # ps_fallback_sizes (gp_spec pool)))
     (ps_region (gp_spec pool) # ps_fallback_regions (gp_spec pool)))"

definition activeChoice :: "geass_node_pool \<Rightarrow> choice" where
  "activeChoice pool =
     (let all = choices pool;
          step = max (st_fallback_step (gp_status pool)) 0;
          step = (if step \<ge> int (length all) then int (length all) - 1 else step)
      in all ! nat step)"

subsection \<open>What a new node offers\<close>

definition nodeNameOf :: "geass_node \<Rightarrow> string" where
  "nodeNameOf node = (if gn_node_name node \<noteq> [] then gn_node_name node else gn_name node)"

text \<open>An empty map of allocatable resources is nil.\<close>

fun smallest_allocatable :: "geass_node list \<Rightarrow> resource_list option \<Rightarrow> resource_list option op" where
  "smallest_allocatable [] alloc w = (Inr alloc, w)"
| "smallest_allocatable (g # gs) alloc w = (case Get_node (nodeNameOf g) w of
      (Inl NotFound, w) \<Rightarrow> smallest_allocatable gs alloc w
    | (Inl e, w) \<Rightarrow> (Inl e, w)
    | (Inr n, w) \<Rightarrow>
        (let take_it = (case alloc of None \<Rightarrow> True
               | Some rl \<Rightarrow> QuantityMillis (rl_get (n_allocatable n) ResourceCPU) < QuantityMillis (rl_get rl ResourceCPU))
         in smallest_allocatable gs (if take_it then (if n_allocatable n = [] then None else Some (n_allocatable n)) else alloc) w))"

definition nodeTemplate :: "geass_node_pool \<Rightarrow> pool_nodes \<Rightarrow> provider_size option \<Rightarrow> node_template op" where
  "nodeTemplate pool nodes psize w =
     (let (ls, taints) = PoolNodeIdentity pool in
      case smallest_allocatable (pn_ready nodes) None w of
        (Inl e, w) \<Rightarrow> (Inl e, w)
      | (Inr alloc, w) \<Rightarrow>
          (let (vcpus, mib) = (case psize of None \<Rightarrow> (0, 0) | Some z \<Rightarrow> (pz_cpus z, pz_mib z))
           in (Inr (TemplateFor ls taints alloc vcpus mib), w)))"

definition allocatableOf :: "node_template \<Rightarrow> resource_list option" where
  "allocatableOf template = (if nt_cpu template = 0 \<and> nt_memory template = 0 then None
     else Some (n_allocatable (template_Node template ''template'')))"

subsection \<open>Making nodes\<close>

definition newNode :: "geass_node_pool \<Rightarrow> string \<Rightarrow> inventory_host option \<Rightarrow> choice \<Rightarrow> geass_node" where
  "newNode pool name host at_choice =
     (let node = \<lparr>gn_name = name,
            gn_labels = [(LabelPool, gp_name pool)] @ (if AutoscalingEnabled pool then [(LabelAutoscaled, valueTrue)] else []),
            gn_deleting = False, gn_created = 0, gn_role = ''Worker'', gn_cluster = ps_cluster (gp_spec pool),
            gn_pool = gp_name pool, gn_storage = EffectiveStorage pool, gn_placement = ps_placement (gp_spec pool),
            gn_eip = [], gn_ssh_port = 0, gn_ssh_user = [], gn_ssh_key_secret = None, gn_cloud = None,
            gn_phase = [], gn_message = [], gn_node_name = [], gn_cloud_status = None\<rparr>
      in case host of
           Some h \<Rightarrow> node\<lparr>gn_eip := ih_address h, gn_ssh_port := ih_ssh_port h, gn_ssh_user := ih_ssh_user h,
                        gn_ssh_key_secret := Some (ih_ssh_key_secret h)\<rparr>
         | None \<Rightarrow> node\<lparr>gn_cloud := Some \<lparr>nc_connection_ref = ps_connection_ref (gp_spec pool),
                        nc_region = ch_region at_choice, nc_size = ch_size at_choice, nc_image = ps_image (gp_spec pool),
                        nc_spot = ps_spot (gp_spec pool), nc_address_type = ps_address_type (gp_spec pool),
                        nc_settings = ps_settings (gp_spec pool)\<rparr>\<rparr>)"

definition freeHost :: "geass_node_pool \<Rightarrow> pool_nodes \<Rightarrow> inventory_host option" where
  "freeHost pool nodes = (case ps_inventory (gp_spec pool) of
      None \<Rightarrow> None
    | Some hosts \<Rightarrow> find (\<lambda>h. ih_name h \<notin> gn_name ` set (pn_all nodes)) hosts)"

text \<open>\<open>randomSuffix\<close>: the next of the suffixes that will be drawn.\<close>

definition randomSuffix :: "world \<Rightarrow> string \<times> world" where
  "randomSuffix w = (case w_suffixes w of [] \<Rightarrow> (''bcdfg'', w) | s # ss \<Rightarrow> (s, w\<lparr>w_suffixes := ss\<rparr>))"

fun create_loop :: "geass_node_pool \<Rightarrow> choice \<Rightarrow> time \<Rightarrow> nat \<Rightarrow> nat \<Rightarrow> pool_nodes \<Rightarrow> (nat \<times> string \<times> pool_nodes) op" where
  "create_loop pool active now 0 made nodes w = (Inr (made, [], nodes), w)"
| "create_loop pool active now (Suc n) made nodes w =
     (case randomSuffix w of (suffix, w) \<Rightarrow>
      let host = (if IsInventory pool then freeHost pool nodes else None) in
      if IsInventory pool \<and> host = None then (Inr (made, ''every server in the inventory is in use'', nodes), w)
      else let name = (case host of Some h \<Rightarrow> ih_name h | None \<Rightarrow> gp_name pool @ ''-'' @ suffix) in
        case Create_geass now (newNode pool name host active) w of
          (Inl e, w) \<Rightarrow> (case host of
              Some h \<Rightarrow> if e = AlreadyExists
                then (Inr (made, ''the server '' @ ih_name h @ '' is still being released'', nodes), w) else (Inl e, w)
            | None \<Rightarrow> (Inl e, w))
        | (Inr node, w) \<Rightarrow> create_loop pool active now n (made + 1)
            (nodes\<lparr>pn_all := pn_all nodes @ [node], pn_machines := pn_machines nodes + 1\<rparr>)
            (rememberCreated (gp_name pool) (gn_name node) now w))"

definition step_limit :: "geass_node_pool \<Rightarrow> int" where
  "step_limit pool = (case ps_autoscaling (gp_spec pool) of
      None \<Rightarrow> DefaultMaxScaleUp
    | Some a \<Rightarrow> if pa_max_scale_up a > 0 then pa_max_scale_up a else DefaultMaxScaleUp)"

definition createNodes :: "geass_node_pool \<Rightarrow> pool_nodes \<Rightarrow> time \<Rightarrow> int \<Rightarrow> (nat \<times> string \<times> pool_nodes) op" where
  "createNodes pool nodes now n w =
     (let room = ps_max_nodes (gp_spec pool) - pn_machines nodes in
      if room \<le> 0 then
        (Inr (0, ''the pool is at its maximum of '' @ itoa (ps_max_nodes (gp_spec pool)) @ '' nodes'', nodes), w)
      else create_loop pool (activeChoice pool) now (nat (min n (min room (step_limit pool)))) 0 nodes w)"

subsection \<open>Removing nodes\<close>

definition removal_order :: "geass_node \<Rightarrow> geass_node \<Rightarrow> int" where
  "removal_order a b =
     (let readyA = (gn_phase a = NodePhaseReady); readyB = (gn_phase b = NodePhaseReady) in
      if readyA \<noteq> readyB then (if readyA then 1 else -1) else cmp_compare (gn_created b) (gn_created a))"

text \<open>The first \<open>count\<close> of the candidates; a node that is gone already counts as removed.\<close>

fun remove_loop :: "geass_node list \<Rightarrow> nat \<Rightarrow> nat \<Rightarrow> nat op" where
  "remove_loop [] n removed w = (Inr removed, w)"
| "remove_loop (g # gs) n removed w =
     (if removed \<ge> n then (Inr removed, w)
      else case Delete_geass (gn_name g) w of
        (Inr _, w) \<Rightarrow> remove_loop gs n (removed + 1) w
      | (Inl NotFound, w) \<Rightarrow> remove_loop gs n (removed + 1) w
      | (Inl e, w) \<Rightarrow> (Inl e, w))"

definition removeNodes :: "pool_nodes \<Rightarrow> int \<Rightarrow> nat op" where
  "removeNodes nodes n w = remove_loop (sort_cmp removal_order (pn_live nodes)) (nat n) 0 w"

definition failedNodeKeep :: duration where "failedNodeKeep = 30 * Minute"
definition capacityStall :: duration where "capacityStall = 3 * Minute"
definition fallbackReset :: duration where "fallbackReset = Hour"

fun clear_failed :: "geass_node list \<Rightarrow> time \<Rightarrow> unit op" where
  "clear_failed [] now w = (Inr (), w)"
| "clear_failed (g # gs) now w =
     (if tsub now (gn_created g) < failedNodeKeep then clear_failed gs now w
      else if has_machine g then clear_failed gs now w
      else case Delete_geass (gn_name g) w of
        (Inr _, w) \<Rightarrow> clear_failed gs now w
      | (Inl NotFound, w) \<Rightarrow> clear_failed gs now w
      | (Inl e, w) \<Rightarrow> (Inl e, w))"

definition clearFailedNodes :: "pool_nodes \<Rightarrow> time \<Rightarrow> unit op" where
  "clearFailedNodes nodes now w = clear_failed (pn_failed nodes) now w"

text \<open>The first node coming up that has waited for room at the provider for long enough.\<close>

definition stalled :: "time \<Rightarrow> geass_node \<Rightarrow> bool" where
  "stalled now g = (case gn_cloud_status g of
      None \<Rightarrow> False
    | Some c \<Rightarrow> \<not> (cl_problem c = [] \<or> cl_instance_id c \<noteq> []) \<and> \<not> tsub now (gn_created g) < capacityStall)"

definition advanceFallback :: "geass_node_pool \<Rightarrow> pool_nodes \<Rightarrow> time \<Rightarrow> geass_node_pool op" where
  "advanceFallback pool nodes now w =
     (let st = gp_status pool in
      if st_fallback_step st > 0 \<and> (case st_fallback_since st of None \<Rightarrow> False | Some since \<Rightarrow> tsub now since > fallbackReset)
      then (Inr (pool\<lparr>gp_status := st\<lparr>st_fallback_step := 0, st_fallback_since := None\<rparr>\<rparr>), w)
      else if st_fallback_step st + 1 \<ge> int (length (choices pool)) then (Inr pool, w)
      else case find (stalled now) (pn_comingUp nodes) of
        None \<Rightarrow> (Inr pool, w)
      | Some g \<Rightarrow>
          (let pool = pool\<lparr>gp_status := st\<lparr>st_fallback_step := st_fallback_step st + 1, st_fallback_since := Some now\<rparr>\<rparr> in
           case Delete_geass (gn_name g) w of
             (Inr _, w) \<Rightarrow> (Inr pool, w)
           | (Inl NotFound, w) \<Rightarrow> (Inr pool, w)
           | (Inl e, w) \<Rightarrow> (Inl e, w)))"

section \<open>Lemmas\<close>

subsection \<open>Listing\<close>

definition is_live :: "geass_node \<Rightarrow> bool" where
  "is_live g \<longleftrightarrow> \<not> gn_deleting g \<and> gn_phase g \<noteq> NodePhaseFailed"

definition is_failed :: "geass_node \<Rightarrow> bool" where
  "is_failed g \<longleftrightarrow> \<not> gn_deleting g \<and> gn_phase g = NodePhaseFailed"

text \<open>A node that may have a machine that costs money.\<close>

definition may_cost :: "geass_node \<Rightarrow> bool" where
  "may_cost g \<longleftrightarrow> \<not> (is_failed g \<and> \<not> has_machine g)"

lemma sort_nodes:
  "foldl sort_node pn items =
     pn\<lparr>pn_live := pn_live pn @ filter is_live items,
        pn_ready := pn_ready pn @ filter (\<lambda>g. is_live g \<and> gn_phase g = NodePhaseReady) items,
        pn_comingUp := pn_comingUp pn @ filter (\<lambda>g. is_live g \<and> gn_phase g \<noteq> NodePhaseReady) items,
        pn_failed := pn_failed pn @ filter is_failed items,
        pn_machines := pn_machines pn + int (length (filter may_cost items))\<rparr>"
  by (induction items arbitrary: pn)
    (auto simp: sort_node_def is_live_def is_failed_def may_cost_def Let_def)

definition still_recent :: "time \<Rightarrow> geass_node list \<Rightarrow> (string \<times> time) list \<Rightarrow> (string \<times> time) list" where
  "still_recent now items recent = filter (\<lambda>(name, made_at). \<not> (name \<in> gn_name ` set items \<or> tsub now made_at > 30 * Second)) recent"

lemma listNodes_Inr:
  assumes "listNodes pool now w = (Inr pn, w')"
  shows "\<exists>items. items = filter (\<lambda>n. lookup0 (gn_labels n) LabelPool = gp_name pool \<and> gn_name n \<notin> set (w_unlisted w)) (w_geass w) \<and>
    pn = \<lparr>pn_all = items, pn_live = filter is_live items,
      pn_ready = filter (\<lambda>g. is_live g \<and> gn_phase g = NodePhaseReady) items,
      pn_comingUp = filter (\<lambda>g. is_live g \<and> gn_phase g \<noteq> NodePhaseReady) items, pn_failed = filter is_failed items,
      pn_machines = int (length (filter may_cost items)) + int (length (still_recent now items (recent_of w (gp_name pool)))),
      pn_justCreated = int (length (still_recent now items (recent_of w (gp_name pool))))\<rparr> \<and>
    w_geass w' = w_geass w \<and> w_nodes w' = w_nodes w \<and> w_pods w' = w_pods w \<and> w_unlisted w' = w_unlisted w"
  using assms
  by (auto simp: listNodes_def List_geass_def sort_nodes still_recent_def recent_of_def Let_def spend_def
      split: option.splits prod.splits)

subsection \<open>Choices\<close>

lemma choices_nonempty [simp]: "choices pool \<noteq> []"
  by (simp add: choices_def)

subsection \<open>Making nodes\<close>

lemma randomSuffix_world: "randomSuffix w = (s, w') \<Longrightarrow>
    w_geass w' = w_geass w \<and> w_nodes w' = w_nodes w \<and> w_pods w' = w_pods w"
  by (auto simp: randomSuffix_def split: list.splits)

lemma rememberCreated_world [simp]:
  "w_geass (rememberCreated p n now w) = w_geass w" "w_nodes (rememberCreated p n now w) = w_nodes w"
  "w_pods (rememberCreated p n now w) = w_pods w"
  by (simp_all add: rememberCreated_def)

lemma Create_geass_cases:
  assumes "Create_geass now g w = (r, w')"
  shows "(\<exists>e. r = Inl e \<and> w_geass w' = w_geass w) \<or>
    (r = Inr (g\<lparr>gn_created := now\<rparr>) \<and> w_geass w' = w_geass w @ [g\<lparr>gn_created := now\<rparr>] \<and> gn_name g \<notin> gn_name ` set (w_geass w))"
    "w_nodes w' = w_nodes w" "w_pods w' = w_pods w"
  using assms by (auto simp: Create_geass_def list_ex_iff split: option.splits if_splits)

text \<open>What a node made for a pool is: the pool's, new, and named after the pool or after one of its servers.\<close>

definition made_for :: "geass_node_pool \<Rightarrow> geass_node \<Rightarrow> bool" where
  "made_for pool g \<longleftrightarrow> lookup0 (gn_labels g) LabelPool = gp_name pool \<and> is_live g \<and>
     (case ps_inventory (gp_spec pool) of
        None \<Rightarrow> (\<exists>suffix. gn_name g = gp_name pool @ ''-'' @ suffix) \<and>
          (\<exists>c. gn_cloud g = Some c \<and> \<lparr>ch_size = nc_size c, ch_region = nc_region c\<rparr> \<in> set (choices pool))
      | Some hosts \<Rightarrow> gn_name g \<in> ih_name ` set hosts)"

lemma newNode_made_for:
  assumes "c \<in> set (choices pool)"
    "case ps_inventory (gp_spec pool) of None \<Rightarrow> host = None \<and> (\<exists>suffix. name = gp_name pool @ ''-'' @ suffix)
       | Some hosts \<Rightarrow> (\<exists>h \<in> set hosts. host = Some h \<and> name = ih_name h)"
  shows "made_for pool ((newNode pool name host c)\<lparr>gn_created := now\<rparr>)"
proof -
  have "\<lparr>ch_size = ch_size c, ch_region = ch_region c\<rparr> = c"
    by (rule choice.equality) simp_all
  with assms(1) have "\<lparr>ch_size = ch_size c, ch_region = ch_region c\<rparr> \<in> set (choices pool)"
    by (simp only:)
  with assms(2) show ?thesis
    by (auto simp: made_for_def newNode_def is_live_def lookup0_def Let_def split: option.splits)
qed

lemma activeChoice_in: "activeChoice pool \<in> set (choices pool)"
proof -
  have "length (choices pool) \<noteq> 0" by simp
  then have "0 < int (length (choices pool))" by linarith
  then show ?thesis
    unfolding activeChoice_def Let_def by (intro nth_mem) (auto simp: nat_less_iff)
qed

text \<open>What a run of the loop does to the world.\<close>

definition creates :: "geass_node_pool \<Rightarrow> world \<Rightarrow> world \<Rightarrow> geass_node list \<Rightarrow> bool" where
  "creates pool w w' created \<longleftrightarrow> w_geass w' = w_geass w @ created \<and> list_all (made_for pool) created \<and>
    distinct (map gn_name created) \<and> gn_name ` set created \<inter> gn_name ` set (w_geass w) = {} \<and>
    w_nodes w' = w_nodes w \<and> w_pods w' = w_pods w"

lemma creates_Nil: "w_geass w' = w_geass w \<Longrightarrow> w_nodes w' = w_nodes w \<Longrightarrow> w_pods w' = w_pods w \<Longrightarrow> creates pool w w' []"
  by (simp add: creates_def)

lemma creates_Cons:
  assumes "w_geass w2 = w_geass w @ [g]" "made_for pool g" "gn_name g \<notin> gn_name ` set (w_geass w)"
    "w_nodes w2 = w_nodes w" "w_pods w2 = w_pods w" "creates pool w2 w' created"
  shows "creates pool w w' (g # created)"
  using assms by (auto simp: creates_def)

lemma create_loop_spec:
  assumes "create_loop pool active now n made nodes w = (r, w')" "active \<in> set (choices pool)"
  shows "\<exists>created. creates pool w w' created \<and> length created \<le> n \<and>
    (\<forall>k limit nodes'. r = Inr (k, limit, nodes') \<longrightarrow> k = made + length created)"
  using assms(1)
proof (induction n arbitrary: made nodes w)
  case 0
  then show ?case by (intro exI [of _ "[]"]) (auto simp: creates_def)
next
  case (Suc n)
  obtain s w1 where s: "randomSuffix w = (s, w1)" by fastforce
  note sw = randomSuffix_world [OF s]
  define host where "host = (if IsInventory pool then freeHost pool nodes else None)"
  show ?case
  proof (cases "IsInventory pool \<and> host = None")
    case True
    with Suc.prems s sw show ?thesis
      by (intro exI [of _ "[]"]) (auto simp: host_def Let_def intro: creates_Nil)
  next
    case False
    define name where "name = (case host of Some h \<Rightarrow> ih_name h | None \<Rightarrow> gp_name pool @ ''-'' @ s)"
    obtain cr w2 where c: "Create_geass now (newNode pool name host active) w1 = (cr, w2)" by fastforce
    note cc = Create_geass_cases [OF c]
    define g where "g = (newNode pool name host active)\<lparr>gn_created := now\<rparr>"
    have step: "create_loop pool active now (Suc n) made nodes w = (case (cr, w2) of
          (Inl e, w) \<Rightarrow> (case host of
              Some h \<Rightarrow> if e = AlreadyExists
                then (Inr (made, ''the server '' @ ih_name h @ '' is still being released'', nodes), w) else (Inl e, w)
            | None \<Rightarrow> (Inl e, w))
        | (Inr node, w) \<Rightarrow> create_loop pool active now n (made + 1)
            (nodes\<lparr>pn_all := pn_all nodes @ [node], pn_machines := pn_machines nodes + 1\<rparr>)
            (rememberCreated (gp_name pool) (gn_name node) now w))"
      using False by (auto simp: s host_def [symmetric] name_def [symmetric] c)
    have mf: "made_for pool g"
      unfolding g_def by (rule newNode_made_for [OF assms(2)])
        (use False in \<open>auto simp: host_def name_def IsInventory_def freeHost_def find_Some_iff split: option.splits\<close>)
    show ?thesis
    proof (cases cr)
      case (Inl e)
      with cc sw have "creates pool w w2 []" by (intro creates_Nil) auto
      with Inl Suc.prems [unfolded step] show ?thesis
        by (intro exI [of _ "[]"]) (auto split: option.splits if_splits)
    next
      case (Inr node)
      with cc have node: "node = g" "w_geass w2 = w_geass w @ [g]" "gn_name g \<notin> gn_name ` set (w_geass w)"
        using sw by (auto simp: g_def)
      let ?w3 = "rememberCreated (gp_name pool) (gn_name node) now w2"
      have rest: "create_loop pool active now n (made + 1)
          (nodes\<lparr>pn_all := pn_all nodes @ [node], pn_machines := pn_machines nodes + 1\<rparr>) ?w3 = (r, w')"
        using Suc.prems [unfolded step] Inr by simp
      from Suc.IH [OF rest] obtain created where cs: "creates pool ?w3 w' created" "length created \<le> n"
        "\<forall>k limit nodes'. r = Inr (k, limit, nodes') \<longrightarrow> k = made + 1 + length created"
        by blast
      have "creates pool w w' (g # created)"
        by (rule creates_Cons [OF _ mf node(3) _ _ cs(1)]) (use node cc sw in simp_all)
      with cs(2,3) show ?thesis
        by (intro exI [of _ "g # created"]) simp
    qed
  qed
qed

text \<open>
  C24. Making nodes never exceeds the pool's bounds, whatever calls fail. However \<open>createNodes\<close> ends, it only
  adds nodes, at most as many as were asked for, as the pool's maximum leaves room for, and as one
  step allows; each carries the pool's label, has a name no other node has (of one of the pool's own
  servers, in a pool with an inventory) and one of the pool's sizes and regions. When it succeeds, the
  number it reports is the number it made.
\<close>

theorem createNodes_bounded:
  assumes "createNodes pool nodes now n w = (r, w')"
  shows "\<exists>created. creates pool w w' created \<and>
    int (length created) \<le> max 0 (min n (min (ps_max_nodes (gp_spec pool) - pn_machines nodes) (step_limit pool))) \<and>
    (\<forall>k limit nodes'. r = Inr (k, limit, nodes') \<longrightarrow> k = length created)"
proof (cases "ps_max_nodes (gp_spec pool) - pn_machines nodes \<le> 0")
  case True
  with assms show ?thesis by (intro exI [of _ "[]"]) (auto simp: createNodes_def creates_def)
next
  case False
  let ?n = "nat (min n (min (ps_max_nodes (gp_spec pool) - pn_machines nodes) (step_limit pool)))"
  have "create_loop pool (activeChoice pool) now ?n 0 nodes w = (r, w')"
    using assms False by (simp add: createNodes_def)
  from create_loop_spec [OF this activeChoice_in] obtain created where
    c: "creates pool w w' created" "length created \<le> ?n"
      "\<forall>k limit nodes'. r = Inr (k, limit, nodes') \<longrightarrow> k = 0 + length created"
    by blast
  from c(2) have "int (length created) \<le> max 0 (min n (min (ps_max_nodes (gp_spec pool) - pn_machines nodes) (step_limit pool)))"
    by linarith
  with c(1,3) show ?thesis
    by (intro exI [of _ created]) simp
qed

definition quiet_world :: world where
  "quiet_world = \<lparr>w_pools = [], w_clusters = [], w_geass = [], w_nodes = [], w_pods = [], w_replicas = [], w_machines = [], w_faults = [],
     w_suffixes = [''bcdfg'', ''hjklm'', ''npqrs'', ''tvwxz''], w_unlisted = [], w_recent = [], w_orphan_seen = [], w_last_sweep = [], w_sizes = []\<rparr>"

definition no_nodes :: pool_nodes where
  "no_nodes = \<lparr>pn_all = [], pn_live = [], pn_ready = [], pn_comingUp = [], pn_failed = [], pn_machines = 0, pn_justCreated = 0\<rparr>"

theorem createNodes_bounded_witness:
  "\<exists>created. creates small_pool quiet_world (snd (createNodes small_pool no_nodes 0 5 quiet_world)) created \<and>
     int (length created) \<le> 3"
  using createNodes_bounded [of small_pool no_nodes 0 5 quiet_world "fst (createNodes small_pool no_nodes 0 5 quiet_world)"
      "snd (createNodes small_pool no_nodes 0 5 quiet_world)"]
  by (auto simp: small_pool_def empty_pool_spec_def no_nodes_def step_limit_def DefaultMaxScaleUp_def)

subsection \<open>The operations keep the contract\<close>

lemma creates_keeps: "creates pool w w' created \<Longrightarrow> length created \<le> k \<Longrightarrow> keeps k w w'"
  by (rule keepsI [where olds = "w_geass w" and created = created]) (simp_all add: creates_def)

lemma create_loop_keeps: "create_loop pool active now n made nodes w = (r, w') \<Longrightarrow> active \<in> set (choices pool) \<Longrightarrow> keeps n w w'"
  using create_loop_spec creates_keeps by blast

lemma createNodes_keeps [op_keeps]:
  "keeps (nat (min n (ps_max_nodes (gp_spec pool) - pn_machines nodes))) w (snd (createNodes pool nodes now n w))"
proof (cases "ps_max_nodes (gp_spec pool) - pn_machines nodes \<le> 0")
  case False
  let ?n = "nat (min n (min (ps_max_nodes (gp_spec pool) - pn_machines nodes) (step_limit pool)))"
  obtain r w' where c: "create_loop pool (activeChoice pool) now ?n 0 nodes w = (r, w')" by fastforce
  have "keeps ?n w w'" by (rule create_loop_keeps [OF c activeChoice_in])
  then show ?thesis
    using False c by (auto simp: createNodes_def Let_def intro: keeps_mono)
qed (simp add: createNodes_def)

lemma remove_loop_keeps: "keeps 0 w (snd (remove_loop gs n removed w))"
proof (induction gs arbitrary: removed w)
  case (Cons g gs)
  obtain r w' where d: "Delete_geass (gn_name g) w = (r, w')" by fastforce
  then have "keeps 0 w w'" using Delete_geass_keeps [of w "gn_name g"] by simp
  then show ?case
    using Cons.IH d by (cases r) (auto intro: keeps_trans0 split: api_error.splits)
qed simp

lemma removeNodes_keeps [op_keeps]: "keeps 0 w (snd (removeNodes nodes n w))"
  by (simp add: removeNodes_def remove_loop_keeps)

lemma clear_failed_keeps: "keeps 0 w (snd (clear_failed gs now w))"
proof (induction gs arbitrary: w)
  case (Cons g gs)
  obtain r w' where d: "Delete_geass (gn_name g) w = (r, w')" by fastforce
  then have "keeps 0 w w'" using Delete_geass_keeps [of w "gn_name g"] by simp
  then show ?case
    using Cons.IH d by (cases r) (auto intro: keeps_trans0 split: api_error.splits)
qed simp

lemma clearFailedNodes_keeps [op_keeps]: "keeps 0 w (snd (clearFailedNodes nodes now w))"
  by (simp add: clearFailedNodes_def clear_failed_keeps)

lemma advanceFallback_keeps [op_keeps]: "keeps 0 w (snd (advanceFallback pool nodes now w))"
proof (cases "find (stalled now) (pn_comingUp nodes)")
  case (Some g)
  obtain r w' where d: "Delete_geass (gn_name g) w = (r, w')" by fastforce
  then have "keeps 0 w w'" using Delete_geass_keeps [of w "gn_name g"] by simp
  then show ?thesis
    using Some d by (cases r) (auto simp: advanceFallback_def Let_def split: api_error.splits)
qed (auto simp: advanceFallback_def Let_def)

lemma smallest_allocatable_keeps: "keeps 0 w (snd (smallest_allocatable gs alloc w))"
proof (induction gs arbitrary: alloc w)
  case (Cons g gs)
  obtain r w' where d: "Get_node (nodeNameOf g) w = (r, w')" by fastforce
  then have "keeps 0 w w'" using get_node.read_keeps [of w "nodeNameOf g"] by simp
  then show ?case
    using Cons.IH d by (cases r) (auto simp: Let_def intro: keeps_trans0 split: api_error.splits)
qed simp

lemma nodeTemplate_keeps [op_keeps]: "keeps 0 w (snd (nodeTemplate pool nodes psize w))"
  using smallest_allocatable_keeps [of w "pn_ready nodes" None]
  by (auto simp: nodeTemplate_def Let_def split: prod.splits sum.splits)

subsection \<open>Fallbacks\<close>

text \<open>
  Falling back is a step at a time and never leaves the pool's list. The size and region new nodes are
  made with is always one of the pool's combinations; a pass moves to the next combination at most, and
  only when a node that is coming up without a machine has had a problem at the provider for
  \<open>capacityStall\<close>, which is then the one node it deletes; otherwise it stays where it is or goes back to
  the first.
\<close>

theorem advanceFallback_step:
  assumes "advanceFallback pool nodes now w = (Inr pool', w')" "0 \<le> st_fallback_step (gp_status pool)"
  shows "activeChoice pool' \<in> set (choices pool) \<and> choices pool' = choices pool \<and>
    (st_fallback_step (gp_status pool') \<in> {0, st_fallback_step (gp_status pool)} \<and> w' = w \<or>
     (st_fallback_step (gp_status pool') = st_fallback_step (gp_status pool) + 1 \<and>
      st_fallback_step (gp_status pool') < int (length (choices pool)) \<and>
      (\<exists>g \<in> set (pn_comingUp nodes). stalled now g \<and> \<not> has_machine g \<and> w' = snd (Delete_geass (gn_name g) w))))"
proof -
  have ch: "choices pool' = choices pool"
    using assms(1) by (auto simp: advanceFallback_def Let_def choices_def split: if_splits option.splits prod.splits sum.splits api_error.splits)
  have "activeChoice pool' \<in> set (choices pool)"
    using activeChoice_in [of pool'] ch by simp
  moreover have "stalled now g \<Longrightarrow> \<not> has_machine g" for g
    by (auto simp: stalled_def has_machine_def split: option.splits)
  ultimately show ?thesis
    using assms(1) ch
    by (auto simp: advanceFallback_def Let_def find_Some_iff split: if_splits option.splits prod.splits sum.splits api_error.splits)
qed

definition fallback_pool :: geass_node_pool where
  "fallback_pool = small_pool\<lparr>gp_spec := empty_pool_spec\<lparr>ps_fallback_sizes := [''cx33'']\<rparr>\<rparr>"

definition waiting_node :: geass_node where
  "waiting_node = (newNode fallback_pool ''workers-bcdfg'' None (activeChoice fallback_pool))
     \<lparr>gn_cloud_status := Some \<lparr>cl_instance_id = [], cl_problem = ''Capacity''\<rparr>\<rparr>"

lemma waiting_node_simps [simp]: "gn_name waiting_node = ''workers-bcdfg''" "gn_created waiting_node = 0"
  "gn_cloud_status waiting_node = Some \<lparr>cl_instance_id = [], cl_problem = ''Capacity''\<rparr>"
  by (simp_all add: waiting_node_def newNode_def Let_def)

theorem advanceFallback_step_witness:
  "\<exists>pool' w'. advanceFallback fallback_pool (no_nodes\<lparr>pn_comingUp := [waiting_node]\<rparr>) capacityStall
       (quiet_world\<lparr>w_geass := [waiting_node]\<rparr>) = (Inr pool', w') \<and> st_fallback_step (gp_status pool') = 1 \<and>
     activeChoice pool' \<in> set (choices fallback_pool)"
proof -
  let ?nodes = "no_nodes\<lparr>pn_comingUp := [waiting_node]\<rparr>" and ?w = "quiet_world\<lparr>w_geass := [waiting_node]\<rparr>"
  have st: "stalled capacityStall waiting_node"
    by (simp add: stalled_def capacityStall_def duration_defs tsub_def min_int64_def max_int64_def)
  obtain pool' w' where r: "advanceFallback fallback_pool ?nodes capacityStall ?w = (Inr pool', w')"
    "st_fallback_step (gp_status pool') = 1"
    using st by (simp add: advanceFallback_def fallback_pool_def small_pool_def empty_pool_spec_def empty_pool_status_def
        choices_def Delete_geass_def fails_def quiet_world_def Let_def)
  have "0 \<le> st_fallback_step (gp_status fallback_pool)"
    by (simp add: fallback_pool_def small_pool_def empty_pool_status_def)
  from advanceFallback_step [OF r(1) this] r show ?thesis by blast
qed

end
