(* ===== verification/Pool_Scale.thy ===== *)
theory Pool_Scale
  imports Pool_Nodes
begin

section \<open>Growing and shrinking a pool (nodepool_scale.go)\<close>

text \<open>
  \<open>manage\<close>, which brings a pool's nodes to where they should be, and everything it calls: releasing
  the nodes it was emptying, adding nodes for pods that cannot start and for spare room, and taking
  away nodes that are not needed (\<open>scaleDown\<close>, \<open>continueDrains\<close>). What a pass is given is a \<open>pass_env\<close>: how
  quantities, times and amounts of money are printed, the index of pod usage, if there is one, and the time. Log lines
  are left out, and the reasons a node stays, which are only logged, are a datatype.
\<close>

subsection \<open>Settings\<close>

record pass_env =
  pe_q :: quantity_format
  pe_tf :: time_format
  pe_index :: "pod_usage_index option"
  pe_now :: time
  pe_cost :: "string \<Rightarrow> int \<Rightarrow> string option"

record autoscaling =
  as_scale_up_delay :: duration
  as_max_scale_up :: int
  as_utilization :: rat
  as_scale_down_after :: duration
  as_delay_after_add :: duration
  as_min_lifetime :: duration
  as_spare_nodes :: int

definition autoscalingOf :: "geass_node_pool \<Rightarrow> autoscaling" where
  "autoscalingOf pool =
     (let a = \<lparr>as_scale_up_delay = DefaultScaleUpDelay, as_max_scale_up = DefaultMaxScaleUp,
            as_utilization = of_int DefaultScaleDownUtilization / 100, as_scale_down_after = DefaultScaleDownAfter,
            as_delay_after_add = DefaultScaleDownDelayAfterAdd, as_min_lifetime = 0, as_spare_nodes = 0\<rparr>
      in case ps_autoscaling (gp_spec pool) of
           None \<Rightarrow> a
         | Some s \<Rightarrow> \<lparr>
             as_scale_up_delay = (if pa_scale_up_delay_seconds s > 0 then pa_scale_up_delay_seconds s * Second
                                  else as_scale_up_delay a),
             as_max_scale_up = (if pa_max_scale_up s > 0 then pa_max_scale_up s else as_max_scale_up a),
             as_utilization = (if pa_scale_down_utilization_percent s > 0
                               then of_int (pa_scale_down_utilization_percent s) / 100 else as_utilization a),
             as_scale_down_after = (if pa_scale_down_after_minutes s > 0 then pa_scale_down_after_minutes s * Minute
                                    else as_scale_down_after a),
             as_delay_after_add = (if pa_scale_down_delay_after_add_minutes s > 0
                                   then pa_scale_down_delay_after_add_minutes s * Minute else as_delay_after_add a),
             as_min_lifetime = pa_min_node_lifetime_minutes s * Minute,
             as_spare_nodes = pa_spare_nodes s\<rparr>)"

record pool_report =
  rp_phase :: string
  rp_message :: string
  rp_size :: "pool_size option"
  rp_allocatable :: "resource_list option"
  rp_pending :: int
  rp_desired :: int
  rp_orphans :: "string list"
  rp_requeue :: duration

definition autoscaleInterval :: duration where "autoscaleInterval = 10 * Second"
definition steadyInterval :: duration where "steadyInterval = 2 * Minute"
definition recentNodeWindow :: duration where "recentNodeWindow = 3 * Minute"

definition minInt :: "int \<Rightarrow> int list \<Rightarrow> int" where
  "minInt first rest = foldl (\<lambda>m v. if v < m then v else m) first rest"

definition noteScaleUp :: "pass_env \<Rightarrow> geass_node_pool \<Rightarrow> nat \<Rightarrow> string \<Rightarrow> pool_report \<Rightarrow> geass_node_pool \<times> pool_report" where
  "noteScaleUp env pool made limit report =
     (let (pool, report) = (if made > 0
            then (pool\<lparr>gp_status := (gp_status pool)\<lparr>st_last_scale_up := Some (pe_now env)\<rparr>\<rparr>,
                  report\<lparr>rp_phase := NodePoolScaling, rp_message := ''adding '' @ itoa (int made) @ '' nodes''\<rparr>)
            else (pool, report))
      in (pool, if limit \<noteq> [] \<and> made = 0 then report\<lparr>rp_message := limit\<rparr> else report))"

definition noteScaleDown :: "pass_env \<Rightarrow> geass_node_pool \<Rightarrow> nat \<Rightarrow> geass_node_pool" where
  "noteScaleDown env pool removed =
     (if removed > 0 then pool\<lparr>gp_status := (gp_status pool)\<lparr>st_last_scale_down := Some (pe_now env)\<rparr>\<rparr> else pool)"

definition forget_unneeded :: "geass_node_pool \<Rightarrow> geass_node_pool" where
  "forget_unneeded pool = pool\<lparr>gp_status := (gp_status pool)\<lparr>st_unneeded_since := []\<rparr>\<rparr>"

subsection \<open>What the pods use, and the room there is\<close>

definition usage_of_cluster :: "pass_env \<Rightarrow> pod_usage op" where
  "usage_of_cluster env w = (case pe_index env of
      Some i \<Rightarrow> if idx_Ready (Some i) then (Inr (idx_Usage i), w)
        else (case List_pods w of (Inl e, w) \<Rightarrow> (Inl e, w) | (Inr pods, w) \<Rightarrow> (Inr (UsageOfPods pods), w))
    | None \<Rightarrow> (case List_pods w of (Inl e, w) \<Rightarrow> (Inl e, w) | (Inr pods, w) \<Rightarrow> (Inr (UsageOfPods pods), w)))"

definition movable_on :: "pod list \<Rightarrow> string \<Rightarrow> nat" where
  "movable_on pods name = length (filter (\<lambda>p. Movable p \<and> p_node_name p = name) pods)"

definition spareDeficit :: "pool_nodes \<Rightarrow> autoscaling \<Rightarrow> int \<Rightarrow> world \<Rightarrow> int \<times> world" where
  "spareDeficit nodes as needed w =
     (if as_spare_nodes as = 0 then (0, w)
      else case List_pods w of
        (Inl e, w) \<Rightarrow> (0, w)
      | (Inr pods, w) \<Rightarrow>
          (let empty = int (length (pn_comingUp nodes)) + pn_justCreated nodes +
                 int (length (filter (\<lambda>g. movable_on pods (nodeNameOf g) = 0) (pn_ready nodes))) - needed
           in (max (as_spare_nodes as - empty) 0, w)))"

definition is_recent :: "time \<Rightarrow> node \<Rightarrow> bool" where
  "is_recent now node = foldl (\<lambda>r c. if cond_type c = NodeReady \<and> cond_status c = ConditionTrue
      then tsub now (cond_transition c) < recentNodeWindow else r) False (n_conditions node)"

fun recentRooms :: "time \<Rightarrow> pod_usage \<Rightarrow> geass_node list \<Rightarrow> world \<Rightarrow> room list \<times> world" where
  "recentRooms now usage [] w = ([], w)"
| "recentRooms now usage (g # gs) w = (case Get_node (nodeNameOf g) w of
      (Inl e, w) \<Rightarrow> recentRooms now usage gs w
    | (Inr node, w) \<Rightarrow>
        if \<not> is_recent now node then recentRooms now usage gs w
        else (let used = req0 (PerNode usage) (n_name node);
                  cpu = node_cpu node - CPUMillis used;
                  memory = node_memory node - MemoryBytes used
              in case recentRooms now usage gs w of (rooms, w) \<Rightarrow>
                (if cpu > 0 \<and> memory > 0 then (\<lparr>r_cpu = cpu, r_memory = memory\<rparr> # rooms, w) else (rooms, w))))"

subsection \<open>Releasing nodes\<close>

fun release_loop :: "geass_node list \<Rightarrow> unit op" where
  "release_loop [] w = (Inr (), w)"
| "release_loop (g # gs) w = (case Get_node (nodeNameOf g) w of
      (Inl NotFound, w) \<Rightarrow> release_loop gs w
    | (Inl e, w) \<Rightarrow> (Inl e, w)
    | (Inr node, w) \<Rightarrow>
        if lookup0 (n_annotations node) AnnotationPoolCordon \<noteq> valueTrue then release_loop gs w
        else (case uncordonNode (nodeNameOf g) w of
            (Inl e, w) \<Rightarrow> (Inl e, w)
          | (Inr _, w) \<Rightarrow> release_loop gs w))"

definition releaseDrains :: "geass_node_pool \<Rightarrow> pool_nodes \<Rightarrow> geass_node_pool op" where
  "releaseDrains pool nodes w = (case release_loop (pn_live nodes) w of
      (Inl e, w) \<Rightarrow> (Inl e, w)
    | (Inr _, w) \<Rightarrow> (Inr (forget_unneeded pool), w))"

subsection \<open>Which nodes may go\<close>

record node_view =
  nv_geass :: geass_node
  nv_k8s :: node
  nv_movable :: "pod list"
  nv_utilization :: rat

datatype stay_reason = ScaleDownDisabled | CordonedBySomeoneElse | TooYoung | BlockedByPod string
  | HoldsReplicas | ReplicasUnknown api_error | TooUsed | WouldNotFit

definition holdsVolumeReplicas :: "string \<Rightarrow> bool op" where
  "holdsVolumeReplicas node w = (case List_replicas w of
      (Inl NoMatch, w) \<Rightarrow> (Inr False, w)
    | (Inl NotFound, w) \<Rightarrow> (Inr False, w)
    | (Inl e, w) \<Rightarrow> (Inl e, w)
    | (Inr ids, w) \<Rightarrow> (Inr (node \<in> set ids), w))"

text \<open>The movable pods so far, or the first blocker.\<close>

fun movable_pods :: "pod list \<Rightarrow> pod list \<Rightarrow> string \<times> pod list" where
  "movable_pods [] acc = ([], acc)"
| "movable_pods (p # ps) acc =
     (if \<not> Movable p then movable_pods ps acc
      else if RemovalBlocker p \<noteq> [] then (RemovalBlocker p, acc)
      else movable_pods ps (acc @ [p]))"

definition removalBlocker :: "geass_node_pool \<Rightarrow> autoscaling \<Rightarrow> time \<Rightarrow> node_view \<Rightarrow> pod list \<Rightarrow> world \<Rightarrow>
    (stay_reason option \<times> node_view) \<times> world" where
  "removalBlocker pool as now view pods w =
     (let node = nv_k8s view in
      if lookup0 (n_annotations node) AnnotationScaleDownDisabled = valueTrue then ((Some ScaleDownDisabled, view), w)
      else if n_unschedulable node \<and> lookup0 (n_annotations node) AnnotationPoolCordon \<noteq> valueTrue
        then ((Some CordonedBySomeoneElse, view), w)
      else if as_min_lifetime as > 0 \<and> tsub now (gn_created (nv_geass view)) < as_min_lifetime as
        then ((Some TooYoung, view), w)
      else case movable_pods pods (nv_movable view) of (blocker, movable) \<Rightarrow>
        let view = view\<lparr>nv_movable := movable\<rparr> in
        if blocker \<noteq> [] then ((Some (BlockedByPod blocker), view), w)
        else if EffectiveStorage pool = NodeStorageAllow then
          (case holdsVolumeReplicas (n_name node) w of
             (Inl e, w) \<Rightarrow> ((Some (ReplicasUnknown e), view), w)
           | (Inr holds, w) \<Rightarrow> ((if holds then Some HoldsReplicas else None, view), w))
        else ((None, view), w))"

definition other_capacities :: "string \<Rightarrow> pod_usage \<Rightarrow> node list \<Rightarrow> node_capacity list" where
  "other_capacities name usage nodes = map (\<lambda>other. let requested = req0 (PerNode usage) (n_name other) in
     \<lparr>nc_node = other, nc_cpu_free = node_cpu other - CPUMillis requested,
      nc_memory_free = node_memory other - MemoryBytes requested,
      nc_schedulable = (\<not> n_unschedulable other \<and> nodeIsReady other)\<rparr>) (filter (\<lambda>n. n_name n \<noteq> name) nodes)"

definition notNeeded :: "node_view \<Rightarrow> autoscaling \<Rightarrow> pod_usage \<Rightarrow> node list \<Rightarrow> stay_reason option \<times> node_view" where
  "notNeeded view as usage nodes =
     (let (cpu, memory) = PodsRequests (nv_movable view);
          view = view\<lparr>nv_utilization := Utilization cpu memory (node_cpu (nv_k8s view)) (node_memory (nv_k8s view))\<rparr>
      in if nv_movable view \<noteq> [] \<and> nv_utilization view \<ge> as_utilization as then (Some TooUsed, view)
         else if \<not> FitsElsewhere (nv_movable view) (other_capacities (n_name (nv_k8s view)) usage nodes)
           then (Some WouldNotFit, view)
         else (None, view))"

text \<open>The loop over the ready nodes: who is not needed and since when, and who has been so for long enough.\<close>

fun view_loop :: "geass_node_pool \<Rightarrow> autoscaling \<Rightarrow> time \<Rightarrow> pod_usage \<Rightarrow> node list \<Rightarrow> pod list \<Rightarrow> geass_node list \<Rightarrow>
    (string \<times> time) list \<times> node_view list \<Rightarrow> world \<Rightarrow> ((string \<times> time) list \<times> node_view list) \<times> world" where
  "view_loop pool as now usage nodes pods [] acc w = (acc, w)"
| "view_loop pool as now usage nodes pods (g # gs) acc w =
     (case map_of (map (\<lambda>n. (n_name n, n)) (rev nodes)) (nodeNameOf g) of
        None \<Rightarrow> view_loop pool as now usage nodes pods gs acc w
      | Some k8s \<Rightarrow>
          (case removalBlocker pool as now \<lparr>nv_geass = g, nv_k8s = k8s, nv_movable = [], nv_utilization = 0\<rparr>
                  (filter (\<lambda>p. p_node_name p = n_name k8s) pods) w of
             ((Some reason, view), w) \<Rightarrow> view_loop pool as now usage nodes pods gs acc w
           | ((None, view), w) \<Rightarrow>
               (case notNeeded view as usage nodes of
                  (Some reason, view) \<Rightarrow> view_loop pool as now usage nodes pods gs acc w
                | (None, view) \<Rightarrow>
                    (let since = (case map_of (st_unneeded_since (gp_status pool)) (nodeNameOf g) of
                           None \<Rightarrow> now | Some prior \<Rightarrow> prior);
                         unneeded = AList.update (nodeNameOf g) since (fst acc);
                         eligible = (if tsub now since \<ge> as_scale_down_after as then snd acc @ [view] else snd acc)
                     in view_loop pool as now usage nodes pods gs (unneeded, eligible) w))))"

definition view_order :: "node_view \<Rightarrow> node_view \<Rightarrow> int" where
  "view_order a b = cmp_or (cmp_compare (nv_utilization a) (nv_utilization b))
                           (cmp_compare (gn_created (nv_geass b)) (gn_created (nv_geass a)))"

fun choose_loop :: "int \<Rightarrow> int \<Rightarrow> int \<Rightarrow> node_view list \<Rightarrow> node_view list \<Rightarrow> node_view list" where
  "choose_loop removable empties keepEmpty [] chosen = chosen"
| "choose_loop removable empties keepEmpty (v # vs) chosen =
     (if int (length chosen) \<ge> removable then chosen
      else if nv_movable v = [] then
        choose_loop removable empties keepEmpty vs
          (if int (length chosen) < MaxEmptyNodesRemoved \<and> empties - int (length chosen) > keepEmpty
           then chosen @ [v] else chosen)
      else if chosen = [] then [v] else chosen)"

definition choose_views :: "int \<Rightarrow> int \<Rightarrow> node_view list \<Rightarrow> node_view list" where
  "choose_views removable keepEmpty eligible =
     choose_loop removable (int (length (filter (\<lambda>v. nv_movable v = []) eligible))) keepEmpty
       (sort_cmp view_order eligible) []"

fun cordon_loop :: "pass_env \<Rightarrow> node_view list \<Rightarrow> unit op" where
  "cordon_loop env [] w = (Inr (), w)"
| "cordon_loop env (v # vs) w = (case cordonNode (pe_tf env) (n_name (nv_k8s v)) (pe_now env) w of
      (Inl e, w) \<Rightarrow> (Inl e, w)
    | (Inr _, w) \<Rightarrow> cordon_loop env vs w)"

subsection \<open>Emptying nodes\<close>

fun drain_loop :: "pass_env \<Rightarrow> geass_node list \<Rightarrow> geass_node_pool \<Rightarrow> nat \<Rightarrow> (geass_node_pool \<times> nat) op" where
  "drain_loop env [] pool draining w = (Inr (pool, draining), w)"
| "drain_loop env (g # gs) pool draining w = (case Get_node (nodeNameOf g) w of
      (Inl NotFound, w) \<Rightarrow> drain_loop env gs pool draining w
    | (Inl e, w) \<Rightarrow> (Inl e, w)
    | (Inr node, w) \<Rightarrow>
        if lookup0 (n_annotations node) AnnotationPoolCordon \<noteq> valueTrue then drain_loop env gs pool draining w
        else (case evictFrom (nodeNameOf g) w of
            (Inl e, w) \<Rightarrow> (Inl e, w)
          | (Inr progress, w) \<Rightarrow>
              if Done progress then
                (case Delete_geass (gn_name g) w of
                   (Inr _, w) \<Rightarrow> drain_loop env gs (noteScaleDown env pool 1) draining w
                 | (Inl NotFound, w) \<Rightarrow> drain_loop env gs (noteScaleDown env pool 1) draining w
                 | (Inl e, w) \<Rightarrow> (Inl e, w))
              else
                (let since = (case map_of (n_annotations node) AnnotationPoolCordonAt of
                       None \<Rightarrow> pe_now env
                     | Some raw \<Rightarrow> (case parse_time (pe_tf env) raw of None \<Rightarrow> pe_now env | Some t \<Rightarrow> t))
                 in if tsub (pe_now env) since > ScaleDownDrainTimeout then
                      (case uncordonNode (nodeNameOf g) w of
                         (Inl e, w) \<Rightarrow> (Inl e, w)
                       | (Inr _, w) \<Rightarrow> drain_loop env gs (pool\<lparr>gp_status := (gp_status pool)\<lparr>
                             st_scale_down_backoff_until := Some (pe_now env + ScaleDownBackoff),
                             st_unneeded_since := []\<rparr>\<rparr>) draining w)
                    else drain_loop env gs pool (draining + 1) w)))"

definition continueDrains :: "pass_env \<Rightarrow> geass_node_pool \<Rightarrow> pool_nodes \<Rightarrow> (geass_node_pool \<times> nat) op" where
  "continueDrains env pool nodes w = drain_loop env (pn_live nodes) pool 0 w"

subsection \<open>Taking nodes away\<close>

abbreviation K3sUpgradeWaiting :: string where "K3sUpgradeWaiting \<equiv> ''Waiting''"
abbreviation K3sUpgradeUpgrading :: string where "K3sUpgradeUpgrading \<equiv> ''Upgrading''"

text \<open>The second half of \<open>scaleDown\<close>: look at every ready node, and cordon those that are chosen.\<close>

definition pick_nodes :: "pass_env \<Rightarrow> geass_node_pool \<Rightarrow> pool_nodes \<Rightarrow> autoscaling \<Rightarrow> pool_report \<Rightarrow>
    (geass_node_pool \<times> pool_report) op" where
  "pick_nodes env pool nodes as report w = (case usage_of_cluster env w of
       (Inl e, w) \<Rightarrow> (Inl e, w)
     | (Inr usage, w) \<Rightarrow>
   (case List_nodes w of
       (Inl e, w) \<Rightarrow> (Inl e, w)
     | (Inr all, w) \<Rightarrow>
   (case List_pods w of
       (Inl e, w) \<Rightarrow> (Inl e, w)
     | (Inr pods, w) \<Rightarrow>
   (case view_loop pool as (pe_now env) usage all pods (pn_ready nodes) ([], []) w of ((unneeded, eligible), w) \<Rightarrow>
      let pool = pool\<lparr>gp_status := (gp_status pool)\<lparr>st_unneeded_since := unneeded\<rparr>\<rparr>;
          chosen = choose_views (int (length (pn_ready nodes)) - ps_min_nodes (gp_spec pool)) (as_spare_nodes as) eligible in
      if eligible = [] then (Inr (pool, report), w)
      else case cordon_loop env chosen w of
          (Inl e, w) \<Rightarrow> (Inl e, w)
        | (Inr _, w) \<Rightarrow> (Inr (pool, if chosen \<noteq> []
            then report\<lparr>rp_message := ''removing '' @ itoa (int (length chosen)) @ '' nodes''\<rparr> else report), w)))))"

definition scaleDown :: "pass_env \<Rightarrow> geass_cluster \<Rightarrow> geass_node_pool \<Rightarrow> pool_nodes \<Rightarrow> autoscaling \<Rightarrow> pool_report \<Rightarrow>
    (geass_node_pool \<times> pool_report) op" where
  "scaleDown env cluster pool nodes as report w = (let now = pe_now env in
     case continueDrains env pool nodes w of
       (Inl e, w) \<Rightarrow> (Inl e, w)
     | (Inr (pool, draining), w) \<Rightarrow>
         let st = gp_status pool; removable = int (length (pn_ready nodes)) - ps_min_nodes (gp_spec pool) in
         if draining > 0 then (Inr (pool, report\<lparr>rp_message := ''removing '' @ itoa (int draining) @ '' nodes''\<rparr>), w)
         else if (case st_scale_down_backoff_until st of None \<Rightarrow> False | Some t \<Rightarrow> t > now) then (Inr (pool, report), w)
         else if (case st_last_scale_up st of None \<Rightarrow> False | Some t \<Rightarrow> tsub now t < as_delay_after_add as)
           then (Inr (pool, report), w)
         else if gc_upgrade cluster = Some K3sUpgradeUpgrading \<or> gc_upgrade cluster = Some K3sUpgradeWaiting
           then (Inr (pool, report\<lparr>rp_message := ''not removing nodes while K3s is being upgraded''\<rparr>), w)
         else if pn_comingUp nodes \<noteq> [] \<or> pn_justCreated nodes > 0 then (Inr (pool, report), w)
         else if removable \<le> 0 then (Inr (forget_unneeded pool, report), w)
         else pick_nodes env pool nodes as report w)"

subsection \<open>Managing a pool\<close>

type_synonym managed = "geass_node_pool \<times> pool_nodes \<times> pool_report"

text \<open>A pool that does not autoscale has exactly its minimum.\<close>

definition manage_fixed :: "pass_env \<Rightarrow> geass_node_pool \<Rightarrow> pool_nodes \<Rightarrow> pool_report \<Rightarrow> int \<Rightarrow> managed op" where
  "manage_fixed env pool nodes report liveCount w =
     (let lo = ps_min_nodes (gp_spec pool); report = report\<lparr>rp_desired := lo\<rparr> in
      case releaseDrains pool nodes w of
        (Inl e, w) \<Rightarrow> (Inl e, w)
      | (Inr pool, w) \<Rightarrow>
          if liveCount < lo then
            (case createNodes pool nodes (pe_now env) (lo - liveCount) w of
               (Inl e, w) \<Rightarrow> (Inl e, w)
             | (Inr (made, limit, nodes), w) \<Rightarrow>
                 (case noteScaleUp env pool made limit report of (pool, report) \<Rightarrow> (Inr (pool, nodes, report), w)))
          else if liveCount > lo then
            (case removeNodes nodes (liveCount - lo) w of
               (Inl e, w) \<Rightarrow> (Inl e, w)
             | (Inr removed, w) \<Rightarrow> (Inr (noteScaleDown env pool removed, nodes, report), w))
          else (Inr (pool, nodes, report), w))"

text \<open>How many nodes the pods that fit need.\<close>

definition nodes_needed :: "pass_env \<Rightarrow> pending_demand \<Rightarrow> node_template \<Rightarrow> pool_nodes \<Rightarrow> pod_usage \<Rightarrow> world \<Rightarrow> int \<times> world" where
  "nodes_needed env demand template nodes usage w =
     (let comingUp = int (length (pn_comingUp nodes)) + pn_justCreated nodes in
      if Fit demand = [] then (0, w)
      else if nt_cpu template = 0 \<and> nt_memory template = 0 then (if comingUp = 0 then 1 else 0, w)
      else case recentRooms (pe_now env) usage (pn_ready nodes) w of
        (rooms, w) \<Rightarrow> (int (NodesNeeded (Fit demand) template (nat comingUp) rooms), w))"

definition manage_autoscaled :: "pass_env \<Rightarrow> geass_cluster \<Rightarrow> geass_node_pool \<Rightarrow> pool_nodes \<Rightarrow> node_template \<Rightarrow>
    pool_report \<Rightarrow> int \<Rightarrow> managed op" where
  "manage_autoscaled env cluster pool nodes template report liveCount w =
     (let as = autoscalingOf pool; lo = ps_min_nodes (gp_spec pool); hi = ps_max_nodes (gp_spec pool) in
      case usage_of_cluster env w of
        (Inl e, w) \<Rightarrow> (Inl e, w)
      | (Inr usage, w) \<Rightarrow>
      let demand = DemandOn (Unplaced usage) template (pe_now env) (as_scale_up_delay as);
          note_text = DescribeDemand (pe_q env) demand template (gp_name pool);
          report = report\<lparr>rp_pending := int (length (Fit demand)) + int (length (TooBig demand)) + Waiting demand,
            rp_message := (if note_text \<noteq> [] then note_text else rp_message report),
            rp_requeue := autoscaleInterval\<rparr>;
          busy = int (length (Fit demand)) + Waiting demand > 0 in
      case (if busy then releaseDrains pool nodes w else (Inr pool, w)) of
        (Inl e, w) \<Rightarrow> (Inl e, w)
      | (Inr pool, w) \<Rightarrow>
      (case nodes_needed env demand template nodes usage w of (needed, w) \<Rightarrow>
      (case spareDeficit nodes as needed w of (spare, w) \<Rightarrow>
      let want = needed + spare;
          want = (if liveCount + want < lo then lo - liveCount else want);
          want = minInt want [hi - pn_machines nodes, as_max_scale_up as];
          want = (if want < 0 then 0 else want);
          report = report\<lparr>rp_desired := minInt hi [liveCount + want]\<rparr> in
      if want > 0 then
        (case createNodes pool nodes (pe_now env) want w of
           (Inl e, w) \<Rightarrow> (Inl e, w)
         | (Inr (made, limit, nodes), w) \<Rightarrow>
             (case noteScaleUp env pool made limit report of (pool, report) \<Rightarrow> (Inr (pool, nodes, report), w)))
      else if needed > 0 \<and> pn_machines nodes \<ge> hi then
        (Inr (pool, nodes, report\<lparr>rp_message := itoa (int (length (Fit demand))) @
           '' pods cannot start and the pool is at its maximum of '' @ itoa hi @ '' nodes''\<rparr>), w)
      else if busy then (Inr (forget_unneeded pool, nodes, report), w)
      else (case scaleDown env cluster pool nodes as report w of
              (Inl e, w) \<Rightarrow> (Inl e, w)
            | (Inr (pool, report), w) \<Rightarrow> (Inr (pool, nodes, report), w)))))"

definition manage :: "pass_env \<Rightarrow> geass_cluster \<Rightarrow> geass_node_pool \<Rightarrow> pool_nodes \<Rightarrow> bool \<Rightarrow> node_template \<Rightarrow>
    pool_report \<Rightarrow> bool \<Rightarrow> managed op" where
  "manage env cluster pool nodes provider template report mayScale w =
     (let liveCount = int (length (pn_live nodes)) + pn_justCreated nodes;
          report = report\<lparr>rp_desired := liveCount\<rparr> in
      case clearFailedNodes nodes (pe_now env) w of
        (Inl e, w) \<Rightarrow> (Inl e, w)
      | (Inr _, w) \<Rightarrow>
      (case (if \<not> IsInventory pool \<and> provider then advanceFallback pool nodes (pe_now env) w else (Inr pool, w)) of
        (Inl e, w) \<Rightarrow> (Inl e, w)
      | (Inr pool, w) \<Rightarrow>
          if \<not> mayScale then (Inr (pool, nodes, report), w)
          else if \<not> AutoscalingEnabled pool then manage_fixed env pool nodes report liveCount w
          else manage_autoscaled env cluster pool nodes template report liveCount w))"

section \<open>Every part keeps the contract\<close>

lemma usage_keeps [op_keeps]: "keeps 0 w (snd (usage_of_cluster env w))"
  using list_pods.read_keeps [of w]
  by (auto simp: usage_of_cluster_def split: option.splits prod.splits sum.splits)

lemma spareDeficit_keeps [op_keeps]: "keeps 0 w (snd (spareDeficit nodes as needed w))"
  using list_pods.read_keeps [of w]
  by (auto simp: spareDeficit_def Let_def split: prod.splits sum.splits)

lemma recentRooms_keeps [op_keeps]: "keeps 0 w (snd (recentRooms now usage gs w))"
proof (induction gs arbitrary: w)
  case (Cons g gs)
  obtain r w1 where g: "Get_node (nodeNameOf g) w = (r, w1)" by fastforce
  have "keeps 0 w w1" by (rule keeps_pair [OF get_node.read_keeps g])
  moreover have "snd (recentRooms now usage (g # gs) w) = snd (recentRooms now usage gs w1)"
    by (cases r) (auto simp: g Let_def split: prod.splits)
  ultimately show ?case using Cons.IH [of w1] by (metis keeps_trans0)
qed simp

lemma nodes_needed_keeps [op_keeps]: "keeps 0 w (snd (nodes_needed env demand template nodes usage w))"
  using recentRooms_keeps [of w "pe_now env" usage "pn_ready nodes"]
  by (auto simp: nodes_needed_def Let_def split: prod.splits)

lemma release_loop_keeps:
  "distinct (map n_name (w_nodes w)) \<Longrightarrow> keeps 0 w (snd (release_loop gs w))"
proof (induction gs arbitrary: w)
  case (Cons g gs)
  obtain r w1 where g: "Get_node (nodeNameOf g) w = (r, w1)" by fastforce
  obtain r2 w2 where u: "uncordonNode (nodeNameOf g) w1 = (r2, w2)" by fastforce
  have 1: "keeps 0 w w1" by (rule keeps_pair [OF get_node.read_keeps g])
  have d1: "distinct (map n_name (w_nodes w1))" by (rule keeps_distinct [OF 1 Cons.prems])
  have 2: "keeps 0 w1 w2" by (rule keeps_pair [OF uncordonNode_keeps [OF d1] u])
  have d2: "distinct (map n_name (w_nodes w2))" by (rule keeps_distinct [OF 2 d1])
  have "keeps 0 w (snd (release_loop gs w1))" "keeps 0 w (snd (release_loop gs w2))" "keeps 0 w w2"
    using keeps_trans0 [OF 1 Cons.IH [OF d1]] keeps_trans0 [OF keeps_trans0 [OF 1 2] Cons.IH [OF d2]] keeps_trans0 [OF 1 2] by simp_all
  then show ?case
    using 1 g u by (cases r; cases r2) (auto split: api_error.splits)
qed simp

lemma releaseDrains_keeps [op_keeps]:
  "distinct (map n_name (w_nodes w)) \<Longrightarrow> keeps 0 w (snd (releaseDrains pool nodes w))"
  using release_loop_keeps [of w "pn_live nodes"] by (auto simp: releaseDrains_def split: prod.splits sum.splits)

lemma removalBlocker_keeps: "keeps 0 w (snd (removalBlocker pool as now view pods w))"
  using list_replicas.read_keeps [of w]
  by (auto simp: removalBlocker_def holdsVolumeReplicas_def Let_def split: prod.splits sum.splits api_error.splits)

lemma view_loop_keeps: "keeps 0 w (snd (view_loop pool as now usage nodes pods gs acc w))"
proof (induction gs arbitrary: acc w)
  case (Cons g gs)
  show ?case
  proof (cases "map_of (map (\<lambda>n. (n_name n, n)) (rev nodes)) (nodeNameOf g)")
    case None
    with Cons show ?thesis by simp
  next
    case (Some k8s)
    obtain reason view w1 where r: "removalBlocker pool as now \<lparr>nv_geass = g, nv_k8s = k8s, nv_movable = [], nv_utilization = 0\<rparr>
        (filter (\<lambda>p. p_node_name p = n_name k8s) pods) w = ((reason, view), w1)" by (metis prod.collapse)
    have "keeps 0 w w1" by (rule keeps_pair [OF removalBlocker_keeps r])
    then have rest: "keeps 0 w (snd (view_loop pool as now usage nodes pods gs acc' w1))" for acc'
      by (rule keeps_trans0 [OF _ Cons.IH])
    show ?thesis
      by (cases reason; cases "notNeeded view as usage nodes"; cases "fst (notNeeded view as usage nodes)")
        (simp_all add: Some r Let_def rest)
  qed
qed simp

lemma cordon_loop_keeps:
  "distinct (map n_name (w_nodes w)) \<Longrightarrow> keeps 0 w (snd (cordon_loop env vs w))"
proof (induction vs arbitrary: w)
  case (Cons v vs)
  obtain r w1 where c: "cordonNode (pe_tf env) (n_name (nv_k8s v)) (pe_now env) w = (r, w1)" by fastforce
  have 1: "keeps 0 w w1" by (rule keeps_pair [OF cordonNode_keeps [OF Cons.prems] c])
  show ?case
    using 1 keeps_trans0 [OF 1 Cons.IH [OF keeps_distinct [OF 1 Cons.prems]]] c by (cases r) simp_all
qed simp

lemma drain_loop_keeps:
  "distinct (map n_name (w_nodes w)) \<Longrightarrow> keeps 0 w (snd (drain_loop env gs pool draining w))"
proof (induction gs arbitrary: pool draining w)
  case (Cons g gs)
  obtain r w1 where g: "Get_node (nodeNameOf g) w = (r, w1)" by fastforce
  obtain r2 w2 where ev: "evictFrom (nodeNameOf g) w1 = (r2, w2)" by fastforce
  obtain r3 w3 where de: "Delete_geass (gn_name g) w2 = (r3, w3)" by fastforce
  obtain r4 w4 where un: "uncordonNode (nodeNameOf g) w2 = (r4, w4)" by fastforce
  have 1: "keeps 0 w w1" by (rule keeps_pair [OF get_node.read_keeps g])
  have 2: "keeps 0 w w2" by (rule keeps_trans0 [OF 1 keeps_pair [OF evictFrom_keeps ev]])
  have 3: "keeps 0 w w3" by (rule keeps_trans0 [OF 2 keeps_pair [OF Delete_geass_keeps de]])
  have 4: "keeps 0 w w4" by (rule keeps_trans0 [OF 2 keeps_pair [OF uncordonNode_keeps [OF keeps_distinct [OF 2 Cons.prems]] un]])
  have rest: "keeps 0 w (snd (drain_loop env gs p d w'))" if "keeps 0 w w'" for p d w'
    by (rule keeps_trans0 [OF that Cons.IH [OF keeps_distinct [OF that Cons.prems]]])
  show ?case
  proof (cases r)
    case (Inl e)
    with g 1 rest show ?thesis by (cases e) simp_all
  next
    case (Inr node)
    show ?thesis
    proof (cases r2)
      case (Inl e)
      with Inr g ev 1 2 rest show ?thesis by simp
    next
      case (Inr progress)
      note r2 = this
      show ?thesis
      proof (cases "Done progress")
        case True
        with \<open>r = Inr node\<close> r2 g ev de 1 3 rest show ?thesis by (cases r3) (auto split: api_error.splits)
      next
        case False
        with \<open>r = Inr node\<close> r2 g ev un 1 2 4 rest show ?thesis by (cases r4) (auto simp: Let_def)
      qed
    qed
  qed
qed simp

lemma continueDrains_keeps:
  "distinct (map n_name (w_nodes w)) \<Longrightarrow> keeps 0 w (snd (continueDrains env pool nodes w))"
  by (simp add: continueDrains_def drain_loop_keeps)

lemma pick_nodes_keeps:
  assumes "distinct (map n_name (w_nodes w))"
  shows "keeps 0 w (snd (pick_nodes env pool nodes as report w))"
  unfolding pick_nodes_def Let_def
proof (rule keeps_bind [OF usage_keeps], goal_cases)
  case (2 usage w2)
  show ?case
  proof (rule keeps_bind [OF list_nodes.read_keeps], goal_cases)
    case (2 all w3)
    show ?case
    proof (rule keeps_bind [OF list_pods.read_keeps], goal_cases)
      case (2 pods w4)
      show ?case
      proof (rule keeps_let_pair [OF view_loop_keeps], goal_cases)
        case (1 v w5)
        have "keeps 0 w w5"
          using \<open>keeps 0 w w2\<close> \<open>keeps 0 w2 w3\<close> \<open>keeps 0 w3 w4\<close> 1(2) by (blast intro: keeps_trans0)
        then have "distinct (map n_name (w_nodes w5))" by (rule keeps_distinct [OF _ assms])
        then show ?case
          by (cases v) (auto intro!: keeps_bind [OF cordon_loop_keeps])
      qed
    qed simp
  qed simp
qed simp

lemma scaleDown_keeps:
  assumes "distinct (map n_name (w_nodes w))"
  shows "keeps 0 w (snd (scaleDown env cluster pool nodes as report w))"
  unfolding scaleDown_def Let_def
proof (rule keeps_bind [OF continueDrains_keeps [OF assms]], goal_cases)
  case (2 x w1)
  then show ?case
    by (cases x) (simp add: pick_nodes_keeps keeps_distinct [OF _ assms])
qed simp

text \<open>How many nodes the pool's maximum leaves room for.\<close>

definition pool_room :: "geass_node_pool \<Rightarrow> pool_nodes \<Rightarrow> nat" where
  "pool_room pool nodes = nat (ps_max_nodes (gp_spec pool) - pn_machines nodes)"

lemma createNodes_room: "keeps (pool_room pool nodes) w (snd (createNodes pool nodes now n w))"
  by (rule keeps_mono [OF createNodes_keeps]) (simp add: pool_room_def)

lemma created_then:
  "gp_spec pool' = gp_spec pool \<Longrightarrow> keeps (pool_room pool nodes) w
     (snd (case createNodes pool' nodes now n w of (Inl e, w') \<Rightarrow> (Inl e, w')
       | (Inr (made, limit, nodes'), w') \<Rightarrow>
           (case noteScaleUp env pool' made limit report of (p, r) \<Rightarrow> (Inr (p, nodes', r), w'))))"
  using createNodes_room [of pool' nodes w now n]
  by (auto simp: pool_room_def split: prod.splits sum.splits)

lemma releaseDrains_pool: "releaseDrains pool nodes w = (Inr pool', w') \<Longrightarrow> gp_spec pool' = gp_spec pool \<and> gp_name pool' = gp_name pool"
  by (auto simp: releaseDrains_def forget_unneeded_def split: prod.splits sum.splits)

lemma manage_fixed_keeps:
  assumes "distinct (map n_name (w_nodes w))"
  shows "keeps (pool_room pool nodes) w (snd (manage_fixed env pool nodes report liveCount w))"
  unfolding manage_fixed_def Let_def
proof (rule keeps_bind [OF releaseDrains_keeps [OF assms]], goal_cases)
  case (2 pool' w1)
  have spec: "gp_spec pool' = gp_spec pool" using releaseDrains_pool [OF 2(1)] by simp
  show ?case
    by (auto simp: created_then [OF spec] intro!: keeps_bind [OF removeNodes_keeps])
qed simp

lemma release_if_keeps: "distinct (map n_name (w_nodes w)) \<Longrightarrow>
    keeps 0 w (snd (if busy then releaseDrains pool nodes w else (Inr pool, w)))"
  by (simp add: releaseDrains_keeps)

lemma manage_autoscaled_keeps:
  assumes "distinct (map n_name (w_nodes w))"
  shows "keeps (pool_room pool nodes) w (snd (manage_autoscaled env cluster pool nodes template report liveCount w))"
  unfolding manage_autoscaled_def Let_def
proof (rule keeps_bind [OF usage_keeps], goal_cases)
  case (2 usage w1)
  note d1 = keeps_distinct [OF 2(2) assms]
  show ?case
  proof (rule keeps_bind [OF release_if_keeps [OF d1]], goal_cases)
    case (2 pool' w2)
    have spec: "gp_spec pool' = gp_spec pool" using 2(1) releaseDrains_pool by (auto split: if_splits)
    note d2 = keeps_distinct [OF 2(2) d1]
    show ?case
    proof (rule keeps_let_pair [OF nodes_needed_keeps], rule keeps_let_pair [OF spareDeficit_keeps], goal_cases)
      case (1 needed w3 spare w4)
      note d4 = keeps_distinct [OF 1(4) keeps_distinct [OF 1(2) d2]]
      have down: "keeps (pool_room pool nodes) w4 (snd (case scaleDown env cluster pool' nodes as rep w4 of
          (Inl e, w) \<Rightarrow> (Inl e, w) | (Inr (p, r), w) \<Rightarrow> (Inr (p, nodes, r), w)))" for as rep
        by (rule keeps_bind [OF scaleDown_keeps [OF d4]]) (auto split: prod.splits)
      show ?case
        by (simp add: created_then [OF spec] down)
    qed
  qed simp
qed simp

lemma advance_if_keeps: "keeps 0 w (snd (if b then advanceFallback pool nodes now w else (Inr pool, w)))"
  by (simp add: advanceFallback_keeps)

lemma advanceFallback_pool: "advanceFallback pool nodes now w = (Inr pool', w') \<Longrightarrow> gp_spec pool' = gp_spec pool \<and> gp_name pool' = gp_name pool"
  by (auto simp: advanceFallback_def Let_def split: if_splits option.splits prod.splits sum.splits api_error.splits)

lemma manage_keeps [op_keeps]:
  assumes "distinct (map n_name (w_nodes w))"
  shows "keeps (if mayScale then pool_room pool nodes else 0) w
    (snd (manage env cluster pool nodes provider template report mayScale w))"
  unfolding manage_def Let_def
proof (rule keeps_bind [OF clearFailedNodes_keeps], goal_cases)
  case (2 x w1)
  note d1 = keeps_distinct [OF 2(2) assms]
  show ?case
  proof (rule keeps_bind [OF advance_if_keeps], goal_cases)
    case (2 pool' w2)
    have "gp_spec pool' = gp_spec pool" using 2(1) advanceFallback_pool by (auto split: if_splits)
    then have "pool_room pool nodes = pool_room pool' nodes" by (simp add: pool_room_def)
    with keeps_distinct [OF 2(2) d1] show ?case
      by (simp add: manage_fixed_keeps manage_autoscaled_keeps)
  qed simp
qed simp

section \<open>Which nodes are taken away\<close>

subsection \<open>Who is cordoned\<close>

definition cordoned :: "world \<Rightarrow> string set" where
  "cordoned w = n_name ` {n \<in> set (w_nodes w). n_unschedulable n}"

lemma cordoned_same: "w_nodes w' = w_nodes w \<Longrightarrow> cordoned w' = cordoned w"
  by (simp add: cordoned_def)

lemma Patch_node_cordoned:
  "cordoned (snd (Patch_node n w)) \<subseteq> cordoned w \<union> (if n_unschedulable n then {n_name n} else {})"
  by (auto simp: Patch_node_def cordoned_def split: option.splits if_splits)

lemma Get_node_nodes: "Get_node name w = (r, w') \<Longrightarrow> w_nodes w' = w_nodes w"
  using get_node.read_result by blast

lemma cordonNode_cordoned: "cordoned (snd (cordonNode tf name now w)) \<subseteq> insert name (cordoned w)"
proof (cases "Get_node name w")
  case (Pair r w')
  note same = cordoned_same [OF Get_node_nodes [OF Pair]]
  show ?thesis
  proof (cases r)
    case (Inr n)
    then have name: "n_name n = name" using Get_node_Inr [of name w n w'] Pair by simp
    have "cordoned (snd (Patch_node (n\<lparr>n_unschedulable := True, n_annotations := ann\<rparr>) w')) \<subseteq> insert name (cordoned w)" for ann
      by (rule subset_trans [OF Patch_node_cordoned]) (simp add: same name subset_insertI)
    then show ?thesis
      using Inr Pair same by (simp add: cordonNode_def case_prod_beta subset_insertI)
  qed (use Pair same in \<open>auto simp: cordonNode_def\<close>)
qed

lemma uncordonNode_cordoned: "cordoned (snd (uncordonNode name w)) \<subseteq> cordoned w"
proof (cases "Get_node name w")
  case (Pair r w')
  note same = cordoned_same [OF Get_node_nodes [OF Pair]]
  show ?thesis
  proof (cases r)
    case (Inr n)
    have "cordoned (snd (Patch_node (n\<lparr>n_unschedulable := False, n_annotations := ann\<rparr>) w')) \<subseteq> cordoned w" for ann
      by (rule subset_trans [OF Patch_node_cordoned]) (simp add: same)
    then show ?thesis
      using Inr Pair same by (simp add: uncordonNode_def case_prod_beta)
  qed (use Pair same in \<open>auto simp: uncordonNode_def\<close>)
qed

lemma cordon_loop_cordoned:
  "cordoned (snd (cordon_loop env vs w)) \<subseteq> cordoned w \<union> (\<lambda>v. n_name (nv_k8s v)) ` set vs"
proof (induction vs arbitrary: w)
  case (Cons v vs)
  obtain r w1 where c: "cordonNode (pe_tf env) (n_name (nv_k8s v)) (pe_now env) w = (r, w1)" by fastforce
  have "cordoned w1 \<subseteq> insert (n_name (nv_k8s v)) (cordoned w)"
    using cordonNode_cordoned [of "pe_tf env" "n_name (nv_k8s v)" "pe_now env" w] c by simp
  then show ?case
    using Cons.IH [of w1] c by (cases r) auto
qed simp

lemma Evict_nodes: "w_nodes (snd (Evict p w)) = w_nodes w"
  by (auto simp: Evict_def split: option.splits)

lemma evict_loop_nodes: "w_nodes (snd (evict_loop pods progress w)) = w_nodes w"
proof (induction pods arbitrary: progress w)
  case (Cons p pods)
  obtain r w1 where e: "Evict p w = (r, w1)" by fastforce
  with Evict_nodes [of p w] have "w_nodes w1 = w_nodes w" by simp
  with Cons e show ?case by (cases r) (auto simp: Let_def split: api_error.splits)
qed simp

lemma evictFrom_nodes: "evictFrom name w = (r, w') \<Longrightarrow> w_nodes w' = w_nodes w"
  using list_pods.read_result [of w] evict_loop_nodes
  by (auto simp: evictFrom_def podsOnNode_def split: prod.splits sum.splits) (metis snd_conv)+

lemma Delete_geass_nodes: "Delete_geass name w = (r, w') \<Longrightarrow> w_nodes w' = w_nodes w"
  by (auto simp: Delete_geass_def split: option.splits if_splits)

lemma drain_loop_cordoned: "cordoned (snd (drain_loop env gs pool draining w)) \<subseteq> cordoned w"
proof (induction gs arbitrary: pool draining w)
  case (Cons g gs)
  obtain r w1 where g: "Get_node (nodeNameOf g) w = (r, w1)" by fastforce
  obtain r2 w2 where ev: "evictFrom (nodeNameOf g) w1 = (r2, w2)" by fastforce
  obtain r3 w3 where de: "Delete_geass (gn_name g) w2 = (r3, w3)" by fastforce
  obtain r4 w4 where un: "uncordonNode (nodeNameOf g) w2 = (r4, w4)" by fastforce
  have 1: "cordoned w1 = cordoned w" by (rule cordoned_same [OF Get_node_nodes [OF g]])
  have 2: "cordoned w2 = cordoned w" using cordoned_same [OF evictFrom_nodes [OF ev]] 1 by simp
  have 3: "cordoned w3 = cordoned w" using cordoned_same [OF Delete_geass_nodes [OF de]] 2 by simp
  have 4: "cordoned w4 \<subseteq> cordoned w" using uncordonNode_cordoned [of "nodeNameOf g" w2] un 2 by simp
  have rest: "cordoned (snd (drain_loop env gs p d w')) \<subseteq> cordoned w" if "cordoned w' \<subseteq> cordoned w" for p d w'
    using Cons.IH [of p d w'] that by blast
  show ?case
  proof (cases r)
    case (Inl e)
    with g 1 rest show ?thesis by (cases e) simp_all
  next
    case (Inr node)
    then show ?thesis
      using g ev de un 1 2 3 4 rest
      by (cases r2; cases r3; cases r4) (simp_all add: Let_def split: api_error.split)
  qed
qed simp

subsection \<open>Who may go\<close>

text \<open>
  A node that may be taken away, in what the controller saw of the nodes and pods: nobody forbade it or
  cordoned it, it is old enough, every movable pod on it can move, it is empty or little used, its pods
  have room elsewhere, and it has been so for long enough.
\<close>

definition safe_view :: "autoscaling \<Rightarrow> time \<Rightarrow> (string \<times> time) list \<Rightarrow> pod_usage \<Rightarrow> node list \<Rightarrow> pod list \<Rightarrow> node_view \<Rightarrow> bool" where
  "safe_view as now since usage nodes pods v \<longleftrightarrow>
     nv_k8s v \<in> set nodes \<and> n_name (nv_k8s v) = nodeNameOf (nv_geass v) \<and>
     lookup0 (n_annotations (nv_k8s v)) AnnotationScaleDownDisabled \<noteq> valueTrue \<and> \<not> foreign_cordon (nv_k8s v) \<and>
     \<not> (as_min_lifetime as > 0 \<and> tsub now (gn_created (nv_geass v)) < as_min_lifetime as) \<and>
     nv_movable v = filter (\<lambda>p. p_node_name p = n_name (nv_k8s v) \<and> Movable p) pods \<and>
     list_all (\<lambda>p. RemovalBlocker p = []) (nv_movable v) \<and>
     (nv_movable v = [] \<or> nv_utilization v < as_utilization as) \<and>
     FitsElsewhere (nv_movable v) (other_capacities (n_name (nv_k8s v)) usage nodes) \<and>
     (\<exists>prior. map_of since (nodeNameOf (nv_geass v)) = Some prior \<and> as_scale_down_after as \<le> tsub now prior)"

lemma movable_pods_open:
  "movable_pods ps acc = ([], out) \<Longrightarrow> out = acc @ filter Movable ps \<and> list_all (\<lambda>p. RemovalBlocker p = []) (filter Movable ps)"
  by (induction ps acc rule: movable_pods.induct) (auto split: if_splits)

lemma removalBlocker_None:
  assumes "removalBlocker pool as now v pods w = ((None, v'), w')" "nv_movable v = []"
  shows "v' = v\<lparr>nv_movable := filter Movable pods\<rparr> \<and> list_all (\<lambda>p. RemovalBlocker p = []) (filter Movable pods) \<and>
    lookup0 (n_annotations (nv_k8s v)) AnnotationScaleDownDisabled \<noteq> valueTrue \<and> \<not> foreign_cordon (nv_k8s v) \<and>
    \<not> (as_min_lifetime as > 0 \<and> tsub now (gn_created (nv_geass v)) < as_min_lifetime as)"
proof -
  obtain b out where m: "movable_pods pods (nv_movable v) = (b, out)" by fastforce
  have "b = []"
    using assms(1) m by (auto simp: removalBlocker_def Let_def split: if_splits)
  with m movable_pods_open [of pods "[]" out] assms(2)
  have o: "out = filter Movable pods" "list_all (\<lambda>p. RemovalBlocker p = []) (filter Movable pods)" by simp_all
  from assms(1) have "v' = v\<lparr>nv_movable := out\<rparr>"
    using m by (auto simp: removalBlocker_def Let_def split: if_splits prod.splits sum.splits)
  with o assms(1) show ?thesis
    by (auto simp: removalBlocker_def foreign_cordon_def Let_def split: if_splits)
qed

lemma notNeeded_None:
  assumes "notNeeded v as usage nodes = (None, v')"
  shows "\<exists>u. v' = v\<lparr>nv_utilization := u\<rparr> \<and> (nv_movable v = [] \<or> u < as_utilization as) \<and>
    FitsElsewhere (nv_movable v) (other_capacities (n_name (nv_k8s v)) usage nodes)"
  using assms by (auto simp: notNeeded_def Let_def not_le split: if_splits prod.splits)

lemma map_of_nodes: "map_of (map (\<lambda>n. (n_name n, n)) (rev nodes)) name = Some k \<Longrightarrow> k \<in> set nodes \<and> n_name k = name"
  using map_of_SomeD by fastforce

lemma tsub_same: "tsub t t = 0"
  by (simp add: tsub_def min_int64_def max_int64_def)

lemma view_loop_safe:
  assumes "view_loop pool as now usage nodes pods gs acc w = ((un, el), w')"
    and "0 < as_scale_down_after as" "\<forall>v \<in> set (snd acc). safe_view as now (st_unneeded_since (gp_status pool)) usage nodes pods v \<and> nv_geass v \<in> R"
    and "set gs \<subseteq> R"
  shows "\<forall>v \<in> set el. safe_view as now (st_unneeded_since (gp_status pool)) usage nodes pods v \<and> nv_geass v \<in> R"
  using assms(1,3,4)
proof (induction gs arbitrary: acc w)
  case Nil
  then show ?case by simp
next
  case (Cons g gs)
  let ?since = "st_unneeded_since (gp_status pool)"
  show ?case
  proof (cases "map_of (map (\<lambda>n. (n_name n, n)) (rev nodes)) (nodeNameOf g)")
    case None
    then have step: "view_loop pool as now usage nodes pods (g # gs) acc w = view_loop pool as now usage nodes pods gs acc w" by simp
    show ?thesis
      by (rule Cons.IH [OF Cons.prems(1) [unfolded step] Cons.prems(2)]) (use Cons.prems(3) in simp)
  next
    case (Some k8s)
    note k = map_of_nodes [OF Some]
    define v0 where "v0 = \<lparr>nv_geass = g, nv_k8s = k8s, nv_movable = [], nv_utilization = 0\<rparr>"
    define on where "on = filter (\<lambda>p. p_node_name p = n_name k8s) pods"
    obtain reason v1 w1 where r: "removalBlocker pool as now v0 on w = ((reason, v1), w1)" by (metis prod.collapse)
    obtain reason2 v2 where nn: "notNeeded v1 as usage nodes = (reason2, v2)" by fastforce
    define since where "since = (case map_of ?since (nodeNameOf g) of None \<Rightarrow> now | Some prior \<Rightarrow> prior)"
    define acc' where "acc' = (AList.update (nodeNameOf g) since (fst acc),
      if tsub now since \<ge> as_scale_down_after as then snd acc @ [v2] else snd acc)"
    have step: "view_loop pool as now usage nodes pods (g # gs) acc w =
        view_loop pool as now usage nodes pods gs (if reason = None \<and> reason2 = None then acc' else acc) w1"
      by (cases reason; cases reason2)
        (simp_all add: Some r [unfolded v0_def on_def] nn acc'_def since_def)
    have safe2: "safe_view as now ?since usage nodes pods v2 \<and> nv_geass v2 = g"
      if n: "reason = None" "reason2 = None" and old: "as_scale_down_after as \<le> tsub now since"
    proof -
      from removalBlocker_None [of pool as now v0 on w v1 w1] r n
      have b: "v1 = v0\<lparr>nv_movable := filter Movable on\<rparr>" "list_all (\<lambda>p. RemovalBlocker p = []) (filter Movable on)"
        "lookup0 (n_annotations k8s) AnnotationScaleDownDisabled \<noteq> valueTrue" "\<not> foreign_cordon k8s"
        "\<not> (as_min_lifetime as > 0 \<and> tsub now (gn_created g) < as_min_lifetime as)"
        by (simp_all add: v0_def)
      from notNeeded_None [of v1 as usage nodes v2] nn n obtain u where
        u: "v2 = v1\<lparr>nv_utilization := u\<rparr>" "nv_movable v1 = [] \<or> u < as_utilization as"
          "FitsElsewhere (nv_movable v1) (other_capacities (n_name (nv_k8s v1)) usage nodes)" by auto
      have "map_of ?since (nodeNameOf g) \<noteq> None"
        using old assms(2) by (cases "map_of ?since (nodeNameOf g)") (simp_all add: since_def tsub_same)
      then have "\<exists>prior. map_of ?since (nodeNameOf g) = Some prior \<and> as_scale_down_after as \<le> tsub now prior"
        using old by (auto simp: since_def)
      with b u k show ?thesis
        by (simp add: safe_view_def v0_def on_def)
    qed
    have "\<forall>v \<in> set (snd (if reason = None \<and> reason2 = None then acc' else acc)).
        safe_view as now ?since usage nodes pods v \<and> nv_geass v \<in> R"
    proof (cases "reason = None \<and> reason2 = None \<and> as_scale_down_after as \<le> tsub now since")
      case True
      then have "snd (if reason = None \<and> reason2 = None then acc' else acc) = snd acc @ [v2]" by (simp add: acc'_def)
      moreover have "safe_view as now ?since usage nodes pods v2 \<and> nv_geass v2 \<in> R"
        using safe2 True Cons.prems(3) by simp
      ultimately show ?thesis using Cons.prems(2) by (simp only: set_append list.set ball_Un ball_simps)
    next
      case False
      then have "snd (if reason = None \<and> reason2 = None then acc' else acc) = snd acc" by (auto simp: acc'_def)
      then show ?thesis using Cons.prems(2) by (simp only:)
    qed
    then show ?thesis
      by (rule Cons.IH [OF Cons.prems(1) [unfolded step]]) (use Cons.prems(3) in simp)
  qed
qed

lemma choose_loop_spec:
  assumes "set chosen \<subseteq> E" "list_all (\<lambda>v. nv_movable v = []) chosen" "int (length chosen) \<le> max 0 removable"
    "int (length chosen) \<le> MaxEmptyNodesRemoved" "chosen \<noteq> [] \<Longrightarrow> keepEmpty \<le> empties - int (length chosen)" "set vs \<subseteq> E"
  defines "out \<equiv> choose_loop removable empties keepEmpty vs chosen"
  shows "set out \<subseteq> E \<and> int (length out) \<le> max 0 removable \<and>
    ((\<exists>v. out = [v] \<and> nv_movable v \<noteq> []) \<or> list_all (\<lambda>v. nv_movable v = []) out \<and> int (length out) \<le> MaxEmptyNodesRemoved \<and>
      (out \<noteq> [] \<longrightarrow> keepEmpty \<le> empties - int (length out)))"
  unfolding out_def using assms(1-6)
proof (induction vs arbitrary: chosen)
  case (Cons v vs)
  let ?take = "int (length chosen) < MaxEmptyNodesRemoved \<and> empties - int (length chosen) > keepEmpty"
  show ?case
  proof (cases "int (length chosen) \<ge> removable \<or> nv_movable v \<noteq> []")
    case True
    with Cons.prems show ?thesis by auto
  next
    case False
    define next_chosen where "next_chosen = (if ?take then chosen @ [v] else chosen)"
    from False have step: "choose_loop removable empties keepEmpty (v # vs) chosen =
        choose_loop removable empties keepEmpty vs next_chosen" by (simp add: next_chosen_def)
    have "keepEmpty \<le> empties - int (length next_chosen)" if "next_chosen \<noteq> []"
      using that Cons.prems(5) by (cases ?take) (simp_all add: next_chosen_def)
    then show ?thesis
      unfolding step using False Cons.prems(1-4,6) by (intro Cons.IH) (auto simp: next_chosen_def)
  qed
qed auto

text \<open>What is chosen: never more than may go, and a node with pods on it only alone.\<close>

lemma choose_views_spec:
  fixes eligible :: "node_view list" and removable keepEmpty :: int
  defines "empties \<equiv> int (length (filter (\<lambda>v. nv_movable v = []) eligible))" and "out \<equiv> choose_views removable keepEmpty eligible"
  shows "set out \<subseteq> set eligible" "int (length out) \<le> max 0 removable"
    "(\<exists>v. out = [v] \<and> nv_movable v \<noteq> []) \<or> list_all (\<lambda>v. nv_movable v = []) out \<and> int (length out) \<le> MaxEmptyNodesRemoved \<and>
      (out \<noteq> [] \<longrightarrow> keepEmpty \<le> empties - int (length out))"
  using choose_loop_spec [of "[]" "set eligible" removable keepEmpty empties "sort_cmp view_order eligible"]
  by (simp_all add: out_def empties_def choose_views_def MaxEmptyNodesRemoved_def)


lemma usage_of_cluster_result:
  assumes "usage_of_cluster env w = (Inr usage, w')"
  shows "w_nodes w' = w_nodes w" "w_pods w' = w_pods w"
    "usage = UsageOfPods (w_pods w) \<or> (\<exists>i. pe_index env = Some i \<and> usage = idx_Usage i)"
  using assms by (auto simp: usage_of_cluster_def List_pods_def split: option.splits if_splits)

lemma usage_of_cluster_error: "usage_of_cluster env w = (Inl e, w') \<Longrightarrow> w_nodes w' = w_nodes w"
  by (auto simp: usage_of_cluster_def List_pods_def split: option.splits if_splits)

lemma drain_loop_since:
  assumes "drain_loop env gs pool draining w = (Inr (pool', d), w')"
  shows "gp_spec pool' = gp_spec pool \<and> (st_unneeded_since (gp_status pool') = st_unneeded_since (gp_status pool) \<or>
    st_unneeded_since (gp_status pool') = [])"
  using assms
proof (induction gs arbitrary: pool draining w)
  case (Cons g gs)
  obtain r w1 where g: "Get_node (nodeNameOf g) w = (r, w1)" by fastforce
  obtain r2 w2 where ev: "evictFrom (nodeNameOf g) w1 = (r2, w2)" by fastforce
  obtain r3 w3 where de: "Delete_geass (gn_name g) w2 = (r3, w3)" by fastforce
  obtain r4 w4 where un: "uncordonNode (nodeNameOf g) w2 = (r4, w4)" by fastforce
  define backed where "backed = pool\<lparr>gp_status := (gp_status pool)\<lparr>
    st_scale_down_backoff_until := Some (pe_now env + ScaleDownBackoff), st_unneeded_since := []\<rparr>\<rparr>"
  have "\<exists>p d1 w5. p \<in> {pool, noteScaleDown env pool 1, backed} \<and> drain_loop env gs p d1 w5 = (Inr (pool', d), w')"
  proof (cases r)
    case (Inl e)
    with Cons.prems g show ?thesis by (cases e) auto
  next
    case (Inr node)
    with Cons.prems g ev de un show ?thesis
      by (auto simp: Let_def backed_def split: if_splits sum.splits api_error.splits option.splits)
  qed
  then obtain p d1 w5 where p: "p \<in> {pool, noteScaleDown env pool 1, backed}" "drain_loop env gs p d1 w5 = (Inr (pool', d), w')"
    by blast
  from p(1) have "gp_spec p = gp_spec pool \<and> st_unneeded_since (gp_status p) \<in> {st_unneeded_since (gp_status pool), []}"
    by (auto simp: noteScaleDown_def backed_def)
  with Cons.IH [OF p(2)] show ?case by auto
qed simp


lemma autoscalingOf_waits: "0 < as_scale_down_after (autoscalingOf pool)"
  by (simp add: autoscalingOf_def Let_def DefaultScaleDownAfter_def duration_defs split: option.splits)

text \<open>A property of the outcome of a call and of what follows it.\<close>

lemma op_bind:
  assumes "\<And>e w'. p = (Inl e, w') \<Longrightarrow> Q (f e w')" "\<And>x w'. p = (Inr x, w') \<Longrightarrow> Q (g x w')"
  shows "Q (case p of (Inl e, w') \<Rightarrow> f e w' | (Inr x, w') \<Rightarrow> g x w')"
  using assms by (cases p; cases "fst p") auto

text \<open>A choice of nodes to take away, in what was seen of the cluster after the drains of the pass.\<close>

definition safe_choice :: "pass_env \<Rightarrow> geass_node_pool \<Rightarrow> pool_nodes \<Rightarrow> world \<Rightarrow> node_view list \<Rightarrow> bool" where
  "safe_choice env pool nodes w chosen \<longleftrightarrow> (\<exists>usage.
     (usage = UsageOfPods (w_pods w) \<or> (\<exists>i. pe_index env = Some i \<and> usage = idx_Usage i)) \<and>
     (\<forall>v \<in> set chosen. nv_geass v \<in> set (pn_ready nodes) \<and>
        safe_view (autoscalingOf pool) (pe_now env) (st_unneeded_since (gp_status pool)) usage (w_nodes w) (w_pods w) v) \<and>
     int (length chosen) \<le> max 0 (int (length (pn_ready nodes)) - ps_min_nodes (gp_spec pool)) \<and>
     ((\<exists>v. chosen = [v] \<and> nv_movable v \<noteq> []) \<or>
      list_all (\<lambda>v. nv_movable v = []) chosen \<and> int (length chosen) \<le> MaxEmptyNodesRemoved))"

lemma safe_choice_Nil: "safe_choice env pool nodes w []"
  by (auto simp: safe_choice_def MaxEmptyNodesRemoved_def)

lemma safe_since_empty: "\<not> safe_view as now [] usage nodes pods v"
  by (simp add: safe_view_def)

lemma view_loop_world: "view_loop pool as now usage nodes pods gs acc w = (x, w') \<Longrightarrow> w_nodes w' = w_nodes w \<and> w_pods w' = w_pods w"
proof (induction gs arbitrary: acc w)
  case (Cons g gs)
  show ?case
  proof (cases "map_of (map (\<lambda>n. (n_name n, n)) (rev nodes)) (nodeNameOf g)")
    case None
    with Cons show ?thesis by simp
  next
    case (Some k8s)
    obtain reason view w1 where r: "removalBlocker pool as now \<lparr>nv_geass = g, nv_k8s = k8s, nv_movable = [], nv_utilization = 0\<rparr>
        (filter (\<lambda>p. p_node_name p = n_name k8s) pods) w = ((reason, view), w1)" by (metis prod.collapse)
    then have "w_nodes w1 = w_nodes w \<and> w_pods w1 = w_pods w"
      using list_replicas.read_result [of w]
      by (auto simp: removalBlocker_def holdsVolumeReplicas_def Let_def split: if_splits prod.splits sum.splits api_error.splits)
    then show ?thesis
      using Cons.prems Cons.IH [of _ w1]
      by (cases reason; cases "notNeeded view as usage nodes"; cases "fst (notNeeded view as usage nodes)")
        (simp_all add: Some r Let_def)
  qed
qed simp

lemma choice_is_safe:
  assumes "view_loop pool1 (autoscalingOf pool) (pe_now env) usage (w_nodes w) (w_pods w) (pn_ready nodes) ([], []) w4 = ((un, el), w5)"
    and "usage = UsageOfPods (w_pods w) \<or> (\<exists>i. pe_index env = Some i \<and> usage = idx_Usage i)"
    and "gp_spec pool1 = gp_spec pool" "st_unneeded_since (gp_status pool1) \<in> {st_unneeded_since (gp_status pool), []}"
  shows "safe_choice env pool nodes w
    (choose_views (int (length (pn_ready nodes)) - ps_min_nodes (gp_spec pool1)) (as_spare_nodes (autoscalingOf pool)) el)"
    (is "safe_choice _ _ _ _ ?chosen")
proof -
  note ch = choose_views_spec [where eligible = el and removable = "int (length (pn_ready nodes)) - ps_min_nodes (gp_spec pool1)"
      and keepEmpty = "as_spare_nodes (autoscalingOf pool)"]
  have "\<forall>v \<in> set el. safe_view (autoscalingOf pool) (pe_now env) (st_unneeded_since (gp_status pool1)) usage (w_nodes w) (w_pods w) v \<and>
      nv_geass v \<in> set (pn_ready nodes)"
    by (rule view_loop_safe [OF assms(1) autoscalingOf_waits]) simp_all
  then have "\<forall>v \<in> set ?chosen. nv_geass v \<in> set (pn_ready nodes) \<and>
      safe_view (autoscalingOf pool) (pe_now env) (st_unneeded_since (gp_status pool)) usage (w_nodes w) (w_pods w) v"
    using ch(1) assms(4) by (auto simp: safe_since_empty)
  then show ?thesis
    using assms(2,3) ch(2,3) unfolding safe_choice_def by (intro exI [of _ usage]) auto
qed

text \<open>Every node that \<open>pick_nodes\<close> newly cordons is one of a safe choice.\<close>

lemma pick_nodes_safe:
  assumes "gp_spec pool1 = gp_spec pool" "st_unneeded_since (gp_status pool1) \<in> {st_unneeded_since (gp_status pool), []}"
  shows "\<exists>chosen. cordoned (snd (pick_nodes env pool1 nodes (autoscalingOf pool) report w)) \<subseteq>
      cordoned w \<union> (\<lambda>v. n_name (nv_k8s v)) ` set chosen \<and> safe_choice env pool nodes w chosen"
proof -
  define Q where "Q = (\<lambda>x :: (api_error + geass_node_pool \<times> pool_report) \<times> world. \<exists>chosen. cordoned (snd x) \<subseteq>
    cordoned w \<union> (\<lambda>v. n_name (nv_k8s v)) ` set chosen \<and> safe_choice env pool nodes w chosen)"
  have none: "Q (x, w')" if "w_nodes w' = w_nodes w" for x w'
    unfolding Q_def using cordoned_same [OF that] safe_choice_Nil by (intro exI [of _ "[]"]) simp
  have "Q (pick_nodes env pool1 nodes (autoscalingOf pool) report w)"
    unfolding pick_nodes_def Let_def
  proof (rule op_bind, goal_cases)
    case (1 e w2)
    then show ?case using usage_of_cluster_error by (intro none) blast
  next
    case (2 usage w2)
    note u = usage_of_cluster_result [OF 2]
    show ?case
    proof (rule op_bind, goal_cases)
      case (1 e w3)
      then show ?case using u list_nodes.read_result [OF 1] by (intro none) simp
    next
      case (2 all w3)
      note l = list_nodes.read_result [OF 2] 
      have all: "all = w_nodes w" using 2 u by (auto simp: List_nodes_def split: option.splits)
      show ?case
      proof (rule op_bind, goal_cases)
        case (1 e w4)
        then show ?case using u l list_pods.read_result [OF 1] by (intro none) simp
      next
        case (2 pods w4)
        note lp = list_pods.read_result [OF 2]
        have pods: "pods = w_pods w" using 2 u l by (auto simp: List_pods_def split: option.splits)
        obtain un el w5 where v: "view_loop pool1 (autoscalingOf pool) (pe_now env) usage all pods (pn_ready nodes) ([], []) w4 = ((un, el), w5)"
          by (metis prod.collapse)
        have w5: "w_nodes w5 = w_nodes w" using view_loop_world [OF v] lp l u by simp
        define chosen where "chosen = choose_views (int (length (pn_ready nodes)) - ps_min_nodes (gp_spec pool1)) (as_spare_nodes (autoscalingOf pool)) el"
        have safe: "safe_choice env pool nodes w chosen"
          unfolding chosen_def by (rule choice_is_safe [OF v [unfolded all pods] u(3) assms])
        obtain cr w6 where c: "cordon_loop env chosen w5 = (cr, w6)" by fastforce
        have "cordoned w6 \<subseteq> cordoned w \<union> (\<lambda>v. n_name (nv_k8s v)) ` set chosen"
          using cordon_loop_cordoned [of env chosen w5] cordoned_same [OF w5] c by simp
        with safe have "Q (y, w6)" for y unfolding Q_def by auto
        then show ?case
          using none [OF w5] c by (cases cr) (simp_all add: v chosen_def [symmetric])
      qed
    qed
  qed
  then show ?thesis by (simp add: Q_def)
qed


end
