(* ===== verification/Conditions.thy ===== *)
theory Conditions
  imports Kube_Types
begin

section \<open>Conditions of a resource (pkg/platform/conditions.go)\<close>

text \<open>
  The conditions in a resource's status and the two operations on them that the controllers share. \<open>metav1.Now()\<close> is an
  argument.
\<close>

fun SetCondition :: "time \<Rightarrow> condition list \<Rightarrow> string \<Rightarrow> string \<Rightarrow> string \<Rightarrow> string \<Rightarrow> condition list" where
  "SetCondition now [] ctype status reason message =
     [\<lparr>cond_type = ctype, cond_status = status, cond_reason = reason, cond_message = message, cond_transition = now\<rparr>]"
| "SetCondition now (c # cs) ctype status reason message =
     (if cond_type c = ctype then
        (if cond_status c = status \<and> cond_reason c = reason \<and> cond_message c = message then c # cs
         else c\<lparr>cond_status := status, cond_reason := reason, cond_message := message, cond_transition := now\<rparr> # cs)
      else c # SetCondition now cs ctype status reason message)"

definition IsConditionTrue :: "condition list \<Rightarrow> string \<Rightarrow> bool" where
  "IsConditionTrue cs ctype = (case find (\<lambda>c. cond_type c = ctype) cs of None \<Rightarrow> False | Some c \<Rightarrow> cond_status c = ConditionTrue)"

text \<open>What is set is found, and the conditions of other types stay.\<close>

lemma find_SetCondition:
  "find (\<lambda>c. cond_type c = t) (SetCondition now cs ctype status reason message) =
     (if t = ctype then Some (case find (\<lambda>c. cond_type c = ctype) cs of
          None \<Rightarrow> \<lparr>cond_type = ctype, cond_status = status, cond_reason = reason, cond_message = message, cond_transition = now\<rparr>
        | Some c \<Rightarrow> if cond_status c = status \<and> cond_reason c = reason \<and> cond_message c = message then c
            else c\<lparr>cond_status := status, cond_reason := reason, cond_message := message, cond_transition := now\<rparr>)
      else find (\<lambda>c. cond_type c = t) cs)"
  by (induction cs) auto

lemma IsConditionTrue_SetCondition:
  "IsConditionTrue (SetCondition now cs ctype status reason message) t = (if t = ctype then status = ConditionTrue else IsConditionTrue cs t)"
  by (auto simp: IsConditionTrue_def find_SetCondition split: option.splits)

lemma SetCondition_twice:
  "SetCondition now' (SetCondition now cs t s r m) t s r m = SetCondition now cs t s r m"
  by (induction cs) auto

end
