(* ===== verification/Pool_Reconcile.thy ===== *)
theory Pool_Reconcile
  imports Pool_Scale Conditions
begin

section \<open>Reconciling a pool (geassnodepool_controller.go, nodepool_housekeeping.go)\<close>

text \<open>
  \<open>Reconcile\<close> and what is left of its parts: the count of failures, the sweep for machines that belong to
  no node, the provider and its sizes (with the cache of them), the status at the end and the way it is
  written (\<open>PatchStatus\<close> of status.go, which tries again on a conflict). What a cloud connection answers
  is a value of \<open>connection\<close>; a provider is what the controller calls of it. The library that keeps
  the wait between tries is left out.
\<close>

subsection \<open>Machines and their owners (compute.go)\<close>

abbreviation StateTerminating :: string where "StateTerminating \<equiv> ''Terminating''"
abbreviation StateGone :: string where "StateGone \<equiv> ''Gone''"

definition Alive :: "machine \<Rightarrow> bool" where
  "Alive i \<longleftrightarrow> i_state i \<noteq> StateGone \<and> i_state i \<noteq> StateTerminating"

definition compute_LabelManaged :: string where "compute_LabelManaged = ''geass-managed''"
definition compute_LabelCluster :: string where "compute_LabelCluster = ''geass-cluster''"
definition compute_LabelPool :: string where "compute_LabelPool = ''geass-pool''"
definition compute_LabelNode :: string where "compute_LabelNode = ''geass-node''"

record owner =
  o_cluster :: string
  o_pool :: string
  o_regions :: "string list"

definition owner_Labels :: "owner \<Rightarrow> string \<Rightarrow> labels" where
  "owner_Labels ow node = [(compute_LabelManaged, ''true''), (compute_LabelCluster, o_cluster ow)] @
     (if o_pool ow \<noteq> [] then [(compute_LabelPool, o_pool ow)] else []) @
     (if node \<noteq> [] then [(compute_LabelNode, node)] else [])"

definition Owns :: "owner \<Rightarrow> labels \<Rightarrow> bool" where
  "Owns ow ls \<longleftrightarrow> (if lookup0 ls compute_LabelManaged \<noteq> ''true'' \<or> lookup0 ls compute_LabelCluster \<noteq> o_cluster ow \<or> o_cluster ow = []
     then False else o_pool ow = [] \<or> lookup0 ls compute_LabelPool = o_pool ow)"

text \<open>\<open>strings.Trim(s, "-")\<close>.\<close>

definition trim_hyphens :: "string \<Rightarrow> string" where
  "trim_hyphens s = rev (dropWhile (\<lambda>c. c = CHR ''-'') (rev (dropWhile (\<lambda>c. c = CHR ''-'') s)))"

definition safe_char :: "char \<Rightarrow> bool" where
  "safe_char c \<longleftrightarrow> (CHR ''a'' \<le> c \<and> c \<le> CHR ''z'') \<or> (CHR ''0'' \<le> c \<and> c \<le> CHR ''9'')"

definition SafeLabelValue :: "string \<Rightarrow> string" where
  "SafeLabelValue s =
     (let out = trim_hyphens (map (\<lambda>c. if safe_char c then c else CHR ''-'') (to_lower s))
      in if length out > 63 then trim_hyphens (take 63 out) else out)"

text \<open>
  A provider: the sizes it lists for a region, if it answers, and which of an owner's machines it sees
  (one whose API answers for a region at a time sees those regions only).
\<close>

record provider =
  pv_sizes :: "string \<Rightarrow> provider_size list option"
  pv_sees :: "owner \<Rightarrow> machine \<Rightarrow> bool"

definition List_machines :: "provider \<Rightarrow> owner \<Rightarrow> machine list op" where
  "List_machines pv ow w = (case fails w of Some e \<Rightarrow> (Inl e, spend w)
     | None \<Rightarrow> (Inr (filter (\<lambda>m. Owns ow (i_labels m) \<and> pv_sees pv ow m) (w_machines w)), spend w))"

definition Delete_machine :: "string \<Rightarrow> unit op" where
  "Delete_machine iid w = (case fails w of Some e \<Rightarrow> (Inl e, spend w)
     | None \<Rightarrow> (Inr (), (spend w)\<lparr>w_machines := filter (\<lambda>m. i_id m \<noteq> iid) (w_machines w)\<rparr>))"

subsection \<open>Connections and sizes (nodepool_nodes.go)\<close>

text \<open>What is known of a kind of provider: its name, the settings it reads and which of those it needs are missing.\<close>

record descriptor =
  de_label :: string
  de_known :: "string \<Rightarrow> bool"
  de_missing :: "labels \<Rightarrow> string list"

datatype connection = NoCompute | ConnectionProblem string | ConnectionFailed string | Connected provider "descriptor option"

definition sizeCacheTTL :: duration where "sizeCacheTTL = 30 * Minute"

type_synonym size_cache = "(string \<times> provider_size list \<times> time) list"

definition sizeOf :: "time \<Rightarrow> geass_node_pool \<Rightarrow> provider \<Rightarrow> choice \<Rightarrow> size_cache \<Rightarrow> provider_size option \<times> size_cache" where
  "sizeOf now pool pv active cache =
     (let key = ps_connection_ref (gp_spec pool) @ ''/'' @ ch_region active;
          pick = (\<lambda>sizes. find (\<lambda>z. pz_id z = ch_size active) sizes) in
      case map_of cache key of
        Some (sizes, at_time) \<Rightarrow>
          if \<not> tsub now at_time > sizeCacheTTL then (pick sizes, cache)
          else (case pv_sizes pv (ch_region active) of
              None \<Rightarrow> (pick sizes, cache)
            | Some fresh \<Rightarrow> (pick fresh, AList.update key (fresh, now) cache))
      | None \<Rightarrow> (case pv_sizes pv (ch_region active) of
              None \<Rightarrow> (None, cache)
            | Some fresh \<Rightarrow> (pick fresh, AList.update key (fresh, now) cache)))"

definition comma_join :: "string list \<Rightarrow> string" where
  "comma_join xs = concat (case xs of [] \<Rightarrow> [] | y # ys \<Rightarrow> y # map (\<lambda>z. '', '' @ z) ys)"

definition settings_problem :: "descriptor \<Rightarrow> labels \<Rightarrow> string" where
  "settings_problem de settings = (case find (\<lambda>(k, v). \<not> de_known de k) settings of
      Some (k, v) \<Rightarrow> de_label de @ '' does not read the setting \"'' @ k @ ''\"''
    | None \<Rightarrow> if de_missing de settings \<noteq> [] then de_label de @ '' needs the settings '' @ comma_join (de_missing de settings) else [])"

text \<open>The settings are a map, whose order Go does not fix: the first unknown one is the first of the list here.\<close>

definition resolveProvider :: "pass_env \<Rightarrow> connection \<Rightarrow> geass_node_pool \<Rightarrow> size_cache \<Rightarrow>
    (provider option \<times> provider_size option \<times> string) \<times> size_cache" where
  "resolveProvider env conn pool cache =
     (if IsInventory pool then ((None, None, []), cache)
      else case conn of
        NoCompute \<Rightarrow> ((None, None, ''this operator has no cloud provider configured''), cache)
      | ConnectionProblem msg \<Rightarrow> ((None, None, msg), cache)
      | ConnectionFailed err \<Rightarrow> ((None, None, ''cloud connection '' @ ps_connection_ref (gp_spec pool) @ '': '' @ err), cache)
      | Connected pv de \<Rightarrow>
          (let problem = (case de of None \<Rightarrow> [] | Some d \<Rightarrow> settings_problem d (ps_settings (gp_spec pool))) in
           if problem \<noteq> [] then ((Some pv, None, problem), cache)
           else (case sizeOf (pe_now env) pool pv (activeChoice pool) cache of (z, cache) \<Rightarrow> ((Some pv, z, []), cache))))"

subsection \<open>Failures (nodepool_housekeeping.go)\<close>

text \<open>Counting the failed nodes that are not counted yet; \<open>counted\<close> is fixed before the loop.\<close>

definition count_failure :: "time \<Rightarrow> string set \<Rightarrow> pool_status \<Rightarrow> geass_node \<Rightarrow> pool_status" where
  "count_failure now counted st node =
     (if gn_name node \<in> counted then st
      else st\<lparr>st_consecutive_failures := st_consecutive_failures st + 1,
             st_counted_failures := st_counted_failures st @ [gn_name node],
             st_last_failure := gn_name node @ '': '' @ gn_message node,
             st_last_failure_at := Some now\<rparr>)"

definition maxCountedFailures :: nat where "maxCountedFailures = 20"

definition accountFailures :: "time \<Rightarrow> pool_nodes \<Rightarrow> pool_status \<Rightarrow> pool_status" where
  "accountFailures now nodes st =
     (let counted = set (st_counted_failures st);
          stillFailed = gn_name ` set (pn_failed nodes);
          st = foldl (count_failure now counted) st (pn_failed nodes);
          st = (case st_last_failure_at st of
                  None \<Rightarrow> st
                | Some t \<Rightarrow> if list_ex (\<lambda>g. gn_created g > t) (pn_ready nodes) then st\<lparr>st_consecutive_failures := 0\<rparr> else st);
          kept = filter (\<lambda>name. name \<in> stillFailed) (st_counted_failures st);
          st = st\<lparr>st_counted_failures := (if length kept > maxCountedFailures
                  then drop (length kept - maxCountedFailures) kept else kept)\<rparr>
      in if st_consecutive_failures st \<ge> FailuresBeforePause \<and> st_paused_until st = None
         then st\<lparr>st_paused_until := Some (now + FailurePause)\<rparr> else st)"

subsection \<open>Machines without a node (nodepool_housekeeping.go)\<close>

definition poolSweepInterval :: duration where "poolSweepInterval = 10 * Minute"
definition orphanGrace :: duration where "orphanGrace = 20 * Minute"
definition maxOrphans :: nat where "maxOrphans = 50"

definition poolRegions :: "geass_node_pool \<Rightarrow> string list" where
  "poolRegions pool = foldl (\<lambda>regions region. if region \<noteq> [] \<and> region \<notin> set regions then regions @ [region] else regions) []
     (ps_region (gp_spec pool) # ps_fallback_regions (gp_spec pool))"

definition clusterIdentity :: "geass_cluster \<Rightarrow> string" where
  "clusterIdentity cluster = (if gc_uid cluster \<noteq> [] then gc_uid cluster else gc_name cluster)"

definition pool_owner :: "geass_cluster \<Rightarrow> geass_node_pool \<Rightarrow> owner" where
  "pool_owner cluster pool = \<lparr>o_cluster = SafeLabelValue (clusterIdentity cluster), o_pool = SafeLabelValue (gp_name pool),
     o_regions = poolRegions pool\<rparr>"

definition owned_names :: "pool_nodes \<Rightarrow> string set" where
  "owned_names nodes = gn_name ` set (pn_all nodes) \<union>
     set (concat (map (\<lambda>g. case gn_cloud_status g of None \<Rightarrow> [] | Some c \<Rightarrow> [cl_instance_id c]) (pn_all nodes)))"

definition claimed :: "string set \<Rightarrow> machine \<Rightarrow> bool" where
  "claimed owned m \<longleftrightarrow> \<not> Alive m \<or> i_id m \<in> owned \<or> lookup0 (i_labels m) compute_LabelNode \<in> owned"

fun sweep_loop :: "time \<Rightarrow> string \<Rightarrow> string set \<Rightarrow> machine list \<Rightarrow> string list \<times> string list \<Rightarrow> world \<Rightarrow>
    (string list \<times> string list) \<times> world" where
  "sweep_loop now policy owned [] acc w = (acc, w)"
| "sweep_loop now policy owned (m # ms) acc w =
     (if claimed owned m then sweep_loop now policy owned ms acc w
      else let (first, w) = (case map_of (w_orphan_seen w) (i_id m) of
                 Some t \<Rightarrow> (t, w)
               | None \<Rightarrow> (now, w\<lparr>w_orphan_seen := AList.update (i_id m) now (w_orphan_seen w)\<rparr>));
               label = (if i_name m = [] then i_id m else i_name m);
               acc = (fst acc @ [label @ '' ('' @ i_id m @ '')''], i_id m # snd acc);
               old = (tsub now first > orphanGrace \<and>
                 (case i_created m of None \<Rightarrow> True | Some c \<Rightarrow> tsub now c > orphanGrace)) in
           if policy = OrphanDelete \<and> old then sweep_loop now policy owned ms acc (snd (Delete_machine (i_id m) w))
           else sweep_loop now policy owned ms acc w)"

definition sweepOrphans :: "time \<Rightarrow> geass_node_pool \<Rightarrow> geass_cluster \<Rightarrow> pool_nodes \<Rightarrow> provider \<Rightarrow> pool_report \<Rightarrow> world \<Rightarrow>
    pool_report \<times> world" where
  "sweepOrphans now pool cluster nodes pv report w =
     (let report = report\<lparr>rp_orphans := st_orphans (gp_status pool)\<rparr>;
          key = gp_namespace pool @ ''/'' @ gp_name pool in
      if (case map_of (w_last_sweep w) key of None \<Rightarrow> False | Some prior \<Rightarrow> tsub now prior < poolSweepInterval) then (report, w)
      else case List_machines pv (pool_owner cluster pool) w of
        (Inl e, w) \<Rightarrow> (report, w)
      | (Inr machines, w) \<Rightarrow>
          (let w = w\<lparr>w_last_sweep := AList.update key now (w_last_sweep w)\<rparr> in
           case sweep_loop now (ps_orphan_policy (gp_spec pool)) (owned_names nodes) machines ([], []) w of
             ((orphans, present), w) \<Rightarrow>
               (report\<lparr>rp_orphans := take maxOrphans orphans\<rparr>,
                w\<lparr>w_orphan_seen := filter (\<lambda>(k, t). k \<in> set present) (w_orphan_seen w)\<rparr>)))"

subsection \<open>Writing the status (status.go, conditions.go)\<close>

definition statusRetrySteps :: nat where "statusRetrySteps = 5"

definition Get_pool :: "string \<Rightarrow> geass_node_pool op" where
  "Get_pool name w = (case fails w of
      Some e \<Rightarrow> (Inl e, spend w)
    | None \<Rightarrow> (case find (\<lambda>p. gp_name p = name) (w_pools w) of None \<Rightarrow> Inl NotFound | Some p \<Rightarrow> Inr p, spend w))"

definition Get_cluster :: "string \<Rightarrow> geass_cluster op" where
  "Get_cluster name w = (case fails w of
      Some e \<Rightarrow> (Inl e, spend w)
    | None \<Rightarrow> (case find (\<lambda>c. gc_name c = name) (w_clusters w) of None \<Rightarrow> Inl NotFound | Some c \<Rightarrow> Inr c, spend w))"

text \<open>
  A patch of a pool's status, made from the copy that was read: the server refuses it with a conflict
  when the pool has moved on, which is one of the ways a call may fail.
\<close>

definition Patch_pool :: "(geass_node_pool \<Rightarrow> geass_node_pool) \<Rightarrow> string \<Rightarrow> unit op" where
  "Patch_pool change name w = (case fails w of
      Some e \<Rightarrow> (Inl e, spend w)
    | None \<Rightarrow> if list_ex (\<lambda>p. gp_name p = name) (w_pools w)
        then (Inr (), (spend w)\<lparr>w_pools := map (\<lambda>p. if gp_name p = name then change p else p) (w_pools w)\<rparr>)
        else (Inl NotFound, spend w))"

text \<open>\<open>PatchStatus\<close>: \<open>mutate\<close> on the copy, a write only if the status changed, and on a conflict a fresh copy and another try.\<close>

fun patch_status :: "nat \<Rightarrow> (pool_status \<Rightarrow> pool_status) \<Rightarrow> geass_node_pool \<Rightarrow> (bool \<times> geass_node_pool) op" where
  "patch_status 0 mutate obj w = (Inl Conflict, w)"
| "patch_status (Suc n) mutate obj w =
     (let obj' = obj\<lparr>gp_status := mutate (gp_status obj)\<rparr> in
      if gp_status obj' = gp_status obj then (Inr (False, obj'), w)
      else case Patch_pool (\<lambda>p. p\<lparr>gp_status := gp_status obj'\<rparr>) (gp_name obj) w of
        (Inr _, w) \<Rightarrow> (Inr (True, obj'), w)
      | (Inl e, w) \<Rightarrow> if e \<noteq> Conflict then (Inl e, w)
          else (case Get_pool (gp_name obj) w of
              (Inl e2, w) \<Rightarrow> if e2 = Conflict then patch_status n mutate obj' w else (Inl e2, w)
            | (Inr fresh, w) \<Rightarrow> patch_status n mutate fresh w))"

definition PatchStatus :: "geass_node_pool \<Rightarrow> (pool_status \<Rightarrow> pool_status) \<Rightarrow> (bool \<times> geass_node_pool) op" where
  "PatchStatus obj mutate w = patch_status statusRetrySteps mutate obj w"

text \<open>\<open>%v\<close> of a list of strings.\<close>

definition show_strings :: "string list \<Rightarrow> string" where
  "show_strings xs = ''['' @ concat (case xs of [] \<Rightarrow> [] | y # ys \<Rightarrow> y # map (\<lambda>z. '' '' @ z) ys) @ '']''"

definition final_message :: "time \<Rightarrow> pool_nodes option \<Rightarrow> pool_report \<Rightarrow> string" where
  "final_message now nodes report =
     (let note_text = itoa (int (length (rp_orphans report))) @
            '' machines at the provider carry the pool's labels and belong to no node: '' @ show_strings (rp_orphans report);
          message = (if rp_orphans report = [] then rp_message report
            else if rp_message report = [] then note_text else rp_message report @ ''; '' @ note_text)
      in case nodes of
           None \<Rightarrow> message
         | Some ns \<Rightarrow> if message \<noteq> [] then message
             else (case find (\<lambda>g. gn_message g \<noteq> [] \<and> tsub now (gn_created g) > capacityStall) (pn_comingUp ns) of
                 None \<Rightarrow> [] | Some g \<Rightarrow> gn_name g @ '': '' @ gn_message g))"

definition final_phase :: "pool_nodes option \<Rightarrow> pool_report \<Rightarrow> string" where
  "final_phase nodes report = (case nodes of
      None \<Rightarrow> rp_phase report
    | Some ns \<Rightarrow> if rp_phase report = NodePoolReady \<and>
          (int (length (pn_live ns)) + pn_justCreated ns \<noteq> int (length (pn_ready ns)) \<or>
           rp_desired report \<noteq> int (length (pn_live ns)) + pn_justCreated ns)
        then NodePoolScaling else rp_phase report)"

definition final_status :: "pass_env \<Rightarrow> geass_node_pool \<Rightarrow> pool_status \<Rightarrow> pool_report \<Rightarrow> pool_nodes option \<Rightarrow> pool_status" where
  "final_status env pool st report nodes =
     (let st = (case nodes of None \<Rightarrow> st
            | Some ns \<Rightarrow> st\<lparr>st_nodes := int (length (pn_all ns)), st_ready_nodes := int (length (pn_ready ns))\<rparr>);
          phase = final_phase nodes report; message = final_message (pe_now env) nodes report;
          cost = (case (nodes, rp_size report) of
              (Some ns, Some z) \<Rightarrow> if pz_hourly_price z = [] then []
                else (case pe_cost env (pz_hourly_price z) (pn_machines ns) of None \<Rightarrow> [] | Some c \<Rightarrow> c @ '' '' @ pz_currency z)
            | _ \<Rightarrow> []);
          ready = (if phase = NodePoolReady then ConditionTrue else ConditionFalse)
      in st\<lparr>st_phase := phase, st_message := message, st_observed_generation := gp_generation pool,
           st_desired_nodes := rp_desired report, st_pending_pods := rp_pending report, st_size := rp_size report,
           st_node_allocatable := rp_allocatable report, st_orphans := rp_orphans report, st_estimated_hourly_cost := cost,
           st_conditions := SetCondition (pe_now env) (st_conditions st) ''Ready'' ready phase message\<rparr>)"

definition finish :: "pass_env \<Rightarrow> geass_node_pool \<Rightarrow> geass_node_pool option \<Rightarrow> pool_report \<Rightarrow> pool_nodes option \<Rightarrow> duration option op" where
  "finish env pool work report nodes w =
     (let st = final_status env pool (gp_status (case work of None \<Rightarrow> pool | Some p \<Rightarrow> p)) report nodes
      in case PatchStatus pool (\<lambda>_. st) w of
           (Inl e, w) \<Rightarrow> (Inl e, w)
         | (Inr _, w) \<Rightarrow> (Inr (Some (rp_requeue report)), w))"

subsection \<open>The pass (geassnodepool_controller.go)\<close>

definition clearResumeRequest :: "geass_node_pool \<Rightarrow> geass_node_pool op" where
  "clearResumeRequest pool w =
     (if \<not> has_key (gp_annotations pool) AnnotationResumePool then (Inr pool, w)
      else case PatchStatus pool (\<lambda>st. st\<lparr>st_paused_until := None, st_consecutive_failures := 0,
               st_counted_failures := [], st_fallback_step := 0\<rparr>) w of
          (Inl e, w) \<Rightarrow> (Inl e, w)
        | (Inr (_, pool), w) \<Rightarrow>
            (let pool = pool\<lparr>gp_annotations := AList.delete AnnotationResumePool (gp_annotations pool)\<rparr> in
             case Patch_pool (\<lambda>p. p\<lparr>gp_annotations := AList.delete AnnotationResumePool (gp_annotations p)\<rparr>) (gp_name pool) w of
               (r, w) \<Rightarrow> (case IgnoreNotFound r of Inl e \<Rightarrow> Inl e | Inr _ \<Rightarrow> Inr pool, w)))"

definition new_report :: pool_report where
  "new_report = \<lparr>rp_phase = NodePoolReady, rp_message = [], rp_size = None, rp_allocatable = None, rp_pending = 0,
     rp_desired = 0, rp_orphans = [], rp_requeue = steadyInterval\<rparr>"

definition report_size :: "provider_size \<Rightarrow> pool_size" where
  "report_size z = \<lparr>pz_name = pz_id z, pz_vcpus = pz_cpus z, pz_memory_mib = pz_mib z, pz_hourly_price = pz_price z,
     pz_currency = (if pz_price z = [] then [] else pz_curr z)\<rparr>"

text \<open>What the pass makes of a suspended or a paused pool, and of a pause that is over.\<close>

definition is_paused :: "time \<Rightarrow> pool_status \<Rightarrow> bool" where
  "is_paused now st = (case st_paused_until st of None \<Rightarrow> False | Some t \<Rightarrow> t > now)"

definition note_pause :: "pass_env \<Rightarrow> bool \<Rightarrow> pool_status \<Rightarrow> pool_report \<Rightarrow> pool_status \<times> pool_report" where
  "note_pause env suspend st report = (case st_paused_until st of
      None \<Rightarrow> (st, if suspend then report\<lparr>rp_phase := NodePoolSuspended,
                  rp_message := ''the pool is suspended: it keeps the nodes it has''\<rparr> else report)
    | Some until_time \<Rightarrow>
        if suspend then (st, report\<lparr>rp_phase := NodePoolSuspended,
            rp_message := ''the pool is suspended: it keeps the nodes it has''\<rparr>)
        else if until_time > pe_now env then
          (st, report\<lparr>rp_phase := NodePoolPaused,
            rp_message := ''paused until '' @ format_time (pe_tf env) until_time @ '' after '' @ itoa (st_consecutive_failures st) @
              '' machines in a row failed to become nodes: '' @ st_last_failure st,
            rp_requeue := min (tsub until_time (pe_now env) + Second) steadyInterval\<rparr>)
        else (st\<lparr>st_paused_until := None, st_consecutive_failures := FailuresBeforePause - 1\<rparr>, report))"

text \<open>The pass once the nodes are listed: \<open>work\<close> is the copy of the pool that what it works out goes into.\<close>

definition after_listing :: "pass_env \<Rightarrow> connection \<Rightarrow> geass_node_pool \<Rightarrow> geass_cluster \<Rightarrow> pool_nodes \<Rightarrow> duration option op" where
  "after_listing env conn pool cluster nodes w =
     (let work = pool\<lparr>gp_status := accountFailures (pe_now env) nodes (gp_status pool)\<rparr>;
          ((pv, psize, problem), cache) = resolveProvider env conn work (w_sizes w);
          w = w\<lparr>w_sizes := cache\<rparr> in
      case nodeTemplate work nodes psize w of
        (Inl e, w) \<Rightarrow> (Inl e, w)
      | (Inr template, w) \<Rightarrow>
      let report = new_report\<lparr>rp_size := map_option report_size psize, rp_allocatable := allocatableOf template\<rparr>;
          report = (if problem \<noteq> [] then report\<lparr>rp_phase := NodePoolDegraded, rp_message := problem, rp_requeue := 30 * Second\<rparr>
                    else report);
          suspend = ps_suspend (gp_spec pool);
          paused = is_paused (pe_now env) (gp_status work);
          (st, report) = note_pause env suspend (gp_status work) report;
          mayScale = (\<not> suspend \<and> \<not> paused \<and> problem = []) in
      case manage env cluster (work\<lparr>gp_status := st\<rparr>) nodes (pv \<noteq> None) template report mayScale w of
        (Inl e, w) \<Rightarrow> (Inl e, w)
      | (Inr (work, nodes, report), w) \<Rightarrow>
          (case (case pv of None \<Rightarrow> (report, w)
                 | Some p \<Rightarrow> sweepOrphans (pe_now env) work cluster nodes p report w) of
             (report, w) \<Rightarrow> finish env pool (Some work) report (Some nodes) w))"

text \<open>The pass over a valid pool of a cluster that exists.\<close>

definition reconcile_pool :: "pass_env \<Rightarrow> connection \<Rightarrow> geass_node_pool \<Rightarrow> geass_cluster \<Rightarrow> duration option op" where
  "reconcile_pool env conn pool cluster w =
     (case listNodes pool (pe_now env) w of
        (Inl e, w) \<Rightarrow> (Inl e, w)
      | (Inr nodes, w) \<Rightarrow> after_listing env conn pool cluster nodes w)"

definition Reconcile :: "pass_env \<Rightarrow> connection \<Rightarrow> string \<Rightarrow> duration option op" where
  "Reconcile env conn name w =
     (case Get_pool name w of
        (Inl e, w) \<Rightarrow> (case e of NotFound \<Rightarrow> Inr None | _ \<Rightarrow> Inl e, w)
      | (Inr pool, w) \<Rightarrow>
      if gp_deleting pool then (Inr None, w)
      else if ValidateNodePool pool \<noteq> [] then
        finish env pool None (new_report\<lparr>rp_phase := NodePoolDegraded, rp_message := ValidateNodePool pool\<rparr>) None w
      else case Get_cluster (ps_cluster (gp_spec pool)) w of
        (Inl e, w) \<Rightarrow> if e \<noteq> NotFound then (Inl e, w)
          else finish env pool None (new_report\<lparr>rp_phase := NodePoolPending,
            rp_message := ''the cluster \"'' @ ps_cluster (gp_spec pool) @ ''\" does not exist'', rp_requeue := 30 * Second\<rparr>) None w
      | (Inr cluster, w) \<Rightarrow>
      (case clearResumeRequest pool w of
         (Inl e, w) \<Rightarrow> (Inl e, w)
       | (Inr pool, w) \<Rightarrow> reconcile_pool env conn pool cluster w))"

section \<open>The contract of a pass\<close>

subsection \<open>Calls that touch nothing but the status of pools\<close>

definition only_status :: "world \<Rightarrow> world \<Rightarrow> bool" where
  "only_status w w' \<longleftrightarrow> (\<exists>f p. w' = w\<lparr>w_faults := f, w_pools := p\<rparr>)"

lemma only_status_refl [simp]: "only_status w w"
  unfolding only_status_def by (intro exI [of _ "w_faults w"] exI [of _ "w_pools w"]) simp

lemma only_status_trans: "only_status w1 w2 \<Longrightarrow> only_status w2 w3 \<Longrightarrow> only_status w1 w3"
  unfolding only_status_def by force

lemma only_status_spend [simp]: "only_status w (spend w)"
  unfolding only_status_def spend_def by (intro exI [of _ "tl (w_faults w)"] exI [of _ "w_pools w"]) simp

lemma only_status_world:
  "only_status w w' \<Longrightarrow> w_geass w' = w_geass w \<and> w_nodes w' = w_nodes w \<and> w_pods w' = w_pods w \<and>
     w_machines w' = w_machines w \<and> w_recent w' = w_recent w \<and> w_unlisted w' = w_unlisted w"
  by (auto simp: only_status_def)

lemma only_status_keeps: "only_status w w' \<Longrightarrow> keeps k w w'"
  by (rule keeps_same_geass) (simp_all add: only_status_world)

interpretation get_pool: api_read "Get_pool name" for name
  by unfold_locales (simp add: Get_pool_def split: option.splits)

interpretation get_cluster: api_read "Get_cluster name" for name
  by unfold_locales (simp add: Get_cluster_def split: option.splits)

interpretation list_machines: api_read "List_machines pv ow" for pv ow
  by unfold_locales (simp add: List_machines_def split: option.splits)

lemma read_only_status: "Get_pool name w = (r, w') \<Longrightarrow> only_status w w'" "Get_cluster cn w = (r2, w') \<Longrightarrow> only_status w w'"
  using get_pool.only_reads [of name w] get_cluster.only_reads [of cn w] by (metis only_status_spend snd_conv)+

lemma only_status_pools [simp]: "only_status w ((spend w)\<lparr>w_pools := p\<rparr>)"
  unfolding only_status_def spend_def by (intro exI [of _ "tl (w_faults w)"] exI [of _ p]) simp

lemma Patch_pool_only_status: "Patch_pool change name w = (r, w') \<Longrightarrow> only_status w w'"
  by (auto simp: Patch_pool_def split: option.splits if_splits)

lemma patch_status_only_status: "patch_status n mutate obj w = (r, w') \<Longrightarrow> only_status w w'"
proof (induction n arbitrary: obj w)
  case (Suc n)
  let ?obj = "obj\<lparr>gp_status := mutate (gp_status obj)\<rparr>"
  obtain r1 w1 where p: "Patch_pool (\<lambda>p. p\<lparr>gp_status := gp_status ?obj\<rparr>) (gp_name obj) w = (r1, w1)" by fastforce
  obtain r2 w2 where g: "Get_pool (gp_name obj) w1 = (r2, w2)" by fastforce
  have 1: "only_status w w1" by (rule Patch_pool_only_status [OF p])
  have 2: "only_status w w2" by (rule only_status_trans [OF 1 read_only_status(1) [OF g]])
  have rest: "patch_status n mutate ob w2 = (r, w') \<Longrightarrow> only_status w w'" for ob
    using Suc.IH only_status_trans [OF 2] by blast
  show ?case
    using Suc.prems p g 1 2 rest by (cases r1; cases r2) (auto simp: Let_def split: if_splits)
qed simp

lemma PatchStatus_only_status: "PatchStatus obj mutate w = (r, w') \<Longrightarrow> only_status w w'"
  by (simp add: PatchStatus_def patch_status_only_status)

lemma finish_only_status: "only_status w (snd (finish env pool work report nodes w))"
  using PatchStatus_only_status
  by (auto simp: finish_def Let_def split: prod.splits sum.splits)

lemma clearResumeRequest_only_status: "clearResumeRequest pool w = (r, w') \<Longrightarrow> only_status w w'"
proof -
  assume c: "clearResumeRequest pool w = (r, w')"
  let ?m = "\<lambda>st. st\<lparr>st_paused_until := None, st_consecutive_failures := 0, st_counted_failures := [], st_fallback_step := 0\<rparr>"
  obtain r1 w1 where p: "PatchStatus pool ?m w = (r1, w1)" by fastforce
  have 1: "only_status w w1" by (rule PatchStatus_only_status [OF p])
  show ?thesis
  proof (cases "has_key (gp_annotations pool) AnnotationResumePool")
    case True
    show ?thesis
    proof (cases r1)
      case (Inr x)
      obtain b pool1 where x: "x = (b, pool1)" by fastforce
      obtain r2 w2 where q: "Patch_pool (\<lambda>p. p\<lparr>gp_annotations := AList.delete AnnotationResumePool (gp_annotations p)\<rparr>)
          (gp_name pool1) w1 = (r2, w2)" by fastforce
      have "only_status w w2" by (rule only_status_trans [OF 1 Patch_pool_only_status [OF q]])
      with True Inr x p q c show ?thesis by (simp add: clearResumeRequest_def)
    qed (use True 1 p c in \<open>simp add: clearResumeRequest_def\<close>)
  qed (use c in \<open>simp add: clearResumeRequest_def\<close>)
qed

text \<open>The pool keeps its name and specification.\<close>

definition same_spec :: "geass_node_pool \<Rightarrow> geass_node_pool \<Rightarrow> bool" where
  "same_spec p q \<longleftrightarrow> gp_name q = gp_name p \<and> gp_namespace q = gp_namespace p \<and> gp_spec q = gp_spec p"

definition stored :: "world \<Rightarrow> geass_node_pool \<Rightarrow> bool" where
  "stored w pool \<longleftrightarrow> (\<exists>p. find (\<lambda>p. gp_name p = gp_name pool) (w_pools w) = Some p \<and> same_spec pool p)"

lemma same_spec_sym: "same_spec p q \<Longrightarrow> same_spec q p"
  by (simp add: same_spec_def)

lemma same_spec_trans: "same_spec p q \<Longrightarrow> same_spec q r \<Longrightarrow> same_spec p r"
  by (simp add: same_spec_def)

lemma stored_same: "stored w p \<Longrightarrow> same_spec p q \<Longrightarrow> stored w q"
  by (simp add: stored_def same_spec_def)

lemma stored_change:
  assumes "stored w pool" "\<And>p. same_spec p (change p)"
  shows "stored (w\<lparr>w_pools := map (\<lambda>p. if gp_name p = name then change p else p) (w_pools w)\<rparr>) pool"
proof -
  have "find (\<lambda>p. gp_name p = n) (map (\<lambda>p. if gp_name p = name then change p else p) ps) =
      map_option (\<lambda>p. if gp_name p = name then change p else p) (find (\<lambda>p. gp_name p = n) ps)" for n ps
    using assms(2) by (induction ps) (auto simp: same_spec_def)
  moreover obtain p where "find (\<lambda>p. gp_name p = gp_name pool) (w_pools w) = Some p" "same_spec pool p"
    using assms(1) by (auto simp: stored_def)
  ultimately show ?thesis
    using assms(2) [of p] by (auto simp: stored_def same_spec_def)
qed

lemma stored_spend [simp]: "stored (spend w) pool = stored w pool"
  by (simp add: stored_def)

lemma Patch_pool_stored:
  assumes "Patch_pool change name w = (r, w')" "stored w pool" "\<And>p. same_spec p (change p)"
  shows "stored w' pool"
  using assms stored_change [of "spend w" pool change name]
  by (auto simp: Patch_pool_def split: option.splits if_splits)

lemma Get_pool_stored:
  assumes "Get_pool (gp_name pool) w = (r, w')" "stored w pool"
  shows "stored w' pool \<and> (\<forall>p. r = Inr p \<longrightarrow> same_spec pool p)"
  using assms by (auto simp: Get_pool_def stored_def split: option.splits)

lemma patch_status_stored:
  assumes "patch_status n mutate obj w = (r, w')" "stored w obj"
  shows "stored w' obj \<and> (\<forall>b p. r = Inr (b, p) \<longrightarrow> same_spec obj p)"
  using assms
proof (induction n arbitrary: obj w)
  case (Suc n)
  let ?obj = "obj\<lparr>gp_status := mutate (gp_status obj)\<rparr>"
  obtain r1 w1 where p: "Patch_pool (\<lambda>p. p\<lparr>gp_status := gp_status ?obj\<rparr>) (gp_name obj) w = (r1, w1)" by fastforce
  obtain r2 w2 where g: "Get_pool (gp_name obj) w1 = (r2, w2)" by fastforce
  have same: "same_spec obj ?obj" by (simp add: same_spec_def)
  have 1: "stored w1 obj" by (rule Patch_pool_stored [OF p Suc.prems(2)]) (simp add: same_spec_def)
  have 2: "stored w2 obj" "\<forall>p. r2 = Inr p \<longrightarrow> same_spec obj p" using Get_pool_stored [OF g 1] by blast+
  have rest: "stored w' obj \<and> (\<forall>b p. r = Inr (b, p) \<longrightarrow> same_spec obj p)"
    if "patch_status n mutate ob w2 = (r, w')" "same_spec obj ob" for ob
  proof -
    have "stored w2 ob" by (rule stored_same [OF 2(1) that(2)])
    from Suc.IH [OF that(1) this] have *: "stored w' ob" "\<And>b p. r = Inr (b, p) \<Longrightarrow> same_spec ob p" by simp_all
    have "stored w' obj" by (rule stored_same [OF *(1) same_spec_sym [OF that(2)]])
    moreover have "same_spec obj p" if "r = Inr (b, p)" for b p
      by (rule same_spec_trans [OF \<open>same_spec obj ob\<close> *(2) [OF that]])
    ultimately show ?thesis by simp
  qed
  show ?case
  proof (cases "gp_status ?obj = gp_status obj")
    case True
    with Suc.prems(1) have "r = Inr (False, ?obj) \<and> w' = w" by (simp add: Let_def)
    with Suc.prems(2) same show ?thesis by simp
  next
    case False
    show ?thesis
    proof (cases r1)
      case (Inr u)
      with Suc.prems(1) False p have "r = Inr (True, ?obj) \<and> w' = w1" by (simp add: Let_def)
      with 1 same show ?thesis by simp
    next
      case (Inl e)
      show ?thesis
      proof (cases "e = Conflict")
        case True
        have "patch_status n mutate ?obj w2 = (r, w') \<or> (\<exists>ob. r2 = Inr ob \<and> patch_status n mutate ob w2 = (r, w')) \<or>
            (\<exists>e2. r = Inl e2 \<and> w' = w2)"
          using Suc.prems(1) False p Inl True g by (cases r2) (auto simp: Let_def split: if_splits)
        then show ?thesis using rest [of ?obj] rest same 2 by blast
      next
        case False
        with Suc.prems(1) \<open>gp_status ?obj \<noteq> gp_status obj\<close> p Inl have "r = Inl e \<and> w' = w1" by (simp add: Let_def)
        with 1 show ?thesis by simp
      qed
    qed
  qed
qed auto

lemma clearResumeRequest_spec:
  assumes "clearResumeRequest pool w = (Inr pool', w')" "stored w pool"
  shows "same_spec pool pool'"
proof -
  let ?m = "\<lambda>st. st\<lparr>st_paused_until := None, st_consecutive_failures := 0, st_counted_failures := [], st_fallback_step := 0\<rparr>"
  obtain r1 w1 where p: "PatchStatus pool ?m w = (r1, w1)" by fastforce
  from patch_status_stored [OF p [unfolded PatchStatus_def] assms(2)]
  have "\<forall>b p. r1 = Inr (b, p) \<longrightarrow> same_spec pool p" by simp
  with assms(1) p show ?thesis
    by (auto simp: clearResumeRequest_def same_spec_def split: if_splits prod.splits sum.splits)
qed

subsection \<open>The whole pass\<close>

lemma listNodes_keeps [op_keeps]: "keeps 0 w (snd (listNodes pool now w))"
proof -
  obtain r w1 where l: "List_geass (gp_name pool) w = (r, w1)" by fastforce
  have "keeps 0 w w1" by (rule keeps_pair [OF list_geass.read_keeps l])
  moreover have "keeps 0 w1 (w1\<lparr>w_recent := x\<rparr>)" for x by (rule keeps_same_geass) simp_all
  ultimately show ?thesis
    using l by (cases r) (auto simp: listNodes_def Let_def intro: keeps_trans0)
qed

lemma sweep_loop_world:
  "sweep_loop now policy owned ms acc w = (x, w') \<Longrightarrow>
     w_geass w' = w_geass w \<and> w_nodes w' = w_nodes w \<and> w_pods w' = w_pods w \<and> w_pools w' = w_pools w"
proof (induction ms arbitrary: acc w)
  case (Cons m ms)
  have d: "w_geass (snd (Delete_machine i v)) = w_geass v \<and> w_nodes (snd (Delete_machine i v)) = w_nodes v \<and>
      w_pods (snd (Delete_machine i v)) = w_pods v \<and> w_pools (snd (Delete_machine i v)) = w_pools v" for i v
    by (simp add: Delete_machine_def split: option.splits)
  show ?case
    using Cons.prems Cons.IH d by (auto simp: Let_def split: if_splits option.splits) (metis+)?
qed simp

lemma sweepOrphans_keeps [op_keeps]: "keeps 0 w (snd (sweepOrphans now pool cluster nodes pv report w))"
proof (cases "List_machines pv (pool_owner cluster pool) w")
  case (Pair r w1)
  note same = list_machines.read_result [OF Pair]
  show ?thesis
  proof (cases r)
    case (Inr machines)
    let ?w1 = "w1\<lparr>w_last_sweep := AList.update (gp_namespace pool @ ''/'' @ gp_name pool) now (w_last_sweep w1)\<rparr>"
    obtain orphans present w2 where s: "sweep_loop now (ps_orphan_policy (gp_spec pool)) (owned_names nodes) machines ([], []) ?w1 =
      ((orphans, present), w2)" by (metis prod.collapse)
    have "keeps 0 w (w2\<lparr>w_orphan_seen := x\<rparr>)" for x
      by (rule keeps_same_geass) (use sweep_loop_world [OF s] same in simp_all)
    with Inr Pair s show ?thesis by (simp add: sweepOrphans_def Let_def)
  qed (use Pair same in \<open>simp add: sweepOrphans_def Let_def\<close>)
qed

lemma keeps_bind_end:
  assumes "keeps k w (snd p)" "\<And>e w'. keeps 0 w' (snd (f e w'))" "\<And>x w'. keeps 0 w' (snd (g x w'))"
  shows "keeps k w (snd (case p of (Inl e, w') \<Rightarrow> f e w' | (Inr x, w') \<Rightarrow> g x w'))"
proof (cases p)
  case (Pair r w')
  with assms(1) have 1: "keeps k w w'" by simp
  have "keeps k w (snd (f e w'))" "keeps k w (snd (g x w'))" for e x
    using keeps_trans [OF 1 assms(2) [of w' e]] keeps_trans [OF 1 assms(3) [of w' x]] by simp_all
  with Pair show ?thesis by (cases r) simp_all
qed

lemma sweep_if_keeps:
  "keeps 0 w (snd (case pv of None \<Rightarrow> (report, w) | Some p \<Rightarrow> sweepOrphans now pool cluster nodes p report w))"
  by (simp add: sweepOrphans_keeps split: option.split)

lemma finish_keeps: "keeps k w (snd (finish env pool work report nodes w))"
  by (rule only_status_keeps [OF finish_only_status])

text \<open>Whether the pass over a pool with these nodes may change its size.\<close>

definition may_scale :: "pass_env \<Rightarrow> connection \<Rightarrow> geass_node_pool \<Rightarrow> pool_nodes \<Rightarrow> size_cache \<Rightarrow> bool" where
  "may_scale env conn pool nodes cache \<longleftrightarrow>
     (let work = pool\<lparr>gp_status := accountFailures (pe_now env) nodes (gp_status pool)\<rparr> in
      \<not> ps_suspend (gp_spec pool) \<and> \<not> is_paused (pe_now env) (gp_status work) \<and>
      snd (snd (fst (resolveProvider env conn work cache))) = [])"


lemma after_listing_keeps:
  assumes "distinct (map n_name (w_nodes w))"
  shows "keeps (if may_scale env conn pool nodes (w_sizes w) then pool_room pool nodes else 0) w
    (snd (after_listing env conn pool cluster nodes w))"
proof -
  define work where "work = pool\<lparr>gp_status := accountFailures (pe_now env) nodes (gp_status pool)\<rparr>"
  obtain pv psize problem cache where r: "resolveProvider env conn work (w_sizes w) = ((pv, psize, problem), cache)"
    by (metis prod.collapse)
  let ?may = "\<not> ps_suspend (gp_spec pool) \<and> \<not> is_paused (pe_now env) (gp_status work) \<and> problem = []"
  have may: "may_scale env conn pool nodes (w_sizes w) = ?may"
    using r by (simp add: may_scale_def work_def)
  have w1: "keeps 0 w (w\<lparr>w_sizes := cache\<rparr>)" by (rule keeps_same_geass) simp_all
  note d1 = keeps_distinct [OF w1 assms]
  have "keeps (if ?may then pool_room pool nodes else 0) (w\<lparr>w_sizes := cache\<rparr>)
      (snd (after_listing env conn pool cluster nodes w))"
    unfolding after_listing_def work_def [symmetric] r Let_def prod.case
  proof (rule keeps_bind [OF nodeTemplate_keeps], goal_cases)
    case (2 template w2)
    note d2 = keeps_distinct [OF 2(2) d1]
    obtain st report where n: "note_pause env (ps_suspend (gp_spec pool)) (gp_status work)
        (if problem \<noteq> [] then new_report\<lparr>rp_size := map_option report_size psize, rp_allocatable := allocatableOf template,
           rp_phase := NodePoolDegraded, rp_message := problem, rp_requeue := 30 * Second\<rparr>
         else new_report\<lparr>rp_size := map_option report_size psize, rp_allocatable := allocatableOf template\<rparr>) = (st, report)"
      by fastforce
    have room: "pool_room (work\<lparr>gp_status := st\<rparr>) nodes = pool_room pool nodes"
      by (simp add: pool_room_def work_def)
    let ?m = "manage env cluster (work\<lparr>gp_status := st\<rparr>) nodes (pv \<noteq> None) template report ?may w2"
    let ?rest = "\<lambda>x w. case x of (work, nodes, report) \<Rightarrow>
        (case (case pv of None \<Rightarrow> (report, w) | Some p \<Rightarrow> sweepOrphans (pe_now env) work cluster nodes p report w) of
           (report, w) \<Rightarrow> finish env pool (Some work) report (Some nodes) w)"
    have m: "keeps (if ?may then pool_room pool nodes else 0) w2 (snd ?m)"
      using manage_keeps [OF d2, of ?may "work\<lparr>gp_status := st\<rparr>" nodes env cluster "pv \<noteq> None" template report]
      unfolding room .
    have rest: "keeps 0 w3 (snd (?rest x w3))" for x w3
      by (cases x) (auto intro!: keeps_let_pair [OF sweep_if_keeps] finish_keeps)
    show ?case
      unfolding n prod.case by (rule keeps_bind_end [OF m]) (simp_all add: rest)
  qed simp
  then show ?thesis unfolding may by (rule keeps_trans0 [OF w1])
qed

subsection \<open>A pool never exceeds its maximum\<close>

text \<open>
  A node costs money unless it has failed and has no machine. A deleted node may still have one until
  its finalizer is done, so being deleted makes no difference.
\<close>

definition costs :: "geass_node \<Rightarrow> bool" where
  "costs g \<longleftrightarrow> \<not> (gn_phase g = NodePhaseFailed \<and> \<not> has_machine g)"

definition costs_of :: "string \<Rightarrow> world \<Rightarrow> nat" where
  "costs_of pool w = length (filter (\<lambda>g. lookup0 (gn_labels g) LabelPool = pool \<and> costs g) (w_geass w))"

text \<open>The nodes of the pool that the cache does not list yet were made by this controller less than half a minute ago.\<close>

definition remembered :: "time \<Rightarrow> string \<Rightarrow> world \<Rightarrow> bool" where
  "remembered now pool w \<longleftrightarrow> list_all (\<lambda>g. lookup0 (gn_labels g) LabelPool = pool \<and> gn_name g \<in> set (w_unlisted w) \<longrightarrow>
     list_ex (\<lambda>(name, t). name = gn_name g \<and> tsub now t \<le> 30 * Second) (recent_of w pool)) (w_geass w)"

lemma keeps_costs: "keeps k w w' \<Longrightarrow> costs_of pool w' \<le> costs_of pool w + k"
proof -
  assume "keeps k w w'"
  then obtain olds created where k: "w_geass w' = olds @ created" "list_all2 geass_kept (w_geass w) olds" "length created \<le> k"
    unfolding keeps_def by blast
  let ?P = "\<lambda>g. lookup0 (gn_labels g) LabelPool = pool \<and> costs g"
  have "length (filter ?P ys) = length (filter ?P xs)" if "list_all2 geass_kept xs ys" for xs ys
    using that by (induction rule: list_all2_induct) (auto simp: geass_kept_def costs_def has_machine_def)
  from this [OF k(2)] have "costs_of pool w' = costs_of pool w + length (filter ?P created)"
    by (simp add: costs_of_def k(1))
  with k(3) le_trans [OF length_filter_le [of ?P created] k(3)] show ?thesis by simp
qed

lemma listed_costs:
  assumes "listNodes pool now w = (Inr nodes, w')" "remembered now (gp_name pool) w" "distinct (map gn_name (w_geass w))"
  shows "int (costs_of (gp_name pool) w) \<le> pn_machines nodes"
proof -
  define mine where "mine = filter (\<lambda>g. lookup0 (gn_labels g) LabelPool = gp_name pool) (w_geass w)"
  define items where "items = filter (\<lambda>g. gn_name g \<notin> set (w_unlisted w)) mine"
  define unlisted where "unlisted = filter (\<lambda>g. \<not> gn_name g \<notin> set (w_unlisted w)) mine"
  define still where "still = still_recent now items (recent_of w (gp_name pool))"
  have items: "items = filter (\<lambda>n. lookup0 (gn_labels n) LabelPool = gp_name pool \<and> gn_name n \<notin> set (w_unlisted w)) (w_geass w)"
    by (simp add: items_def mine_def)
  have m: "pn_machines nodes = int (length (filter may_cost items)) + int (length still)"
    using listNodes_Inr [OF assms(1)] unfolding still_def items by auto
  have "costs_of (gp_name pool) w = length (filter costs mine)"
    by (simp add: costs_of_def mine_def)
  also have "\<dots> \<le> length (filter costs items) + length unlisted"
    using sum_length_filter_compl [of "\<lambda>g. gn_name g \<notin> set (w_unlisted w)" "filter costs mine"]
      length_filter_le [of costs unlisted]
    by (simp add: items_def unlisted_def conj_commute)
  also have "length (filter costs items) \<le> length (filter may_cost items)"
    by (induction items) (auto simp: costs_def may_cost_def is_failed_def)
  also have "length unlisted \<le> length still"
  proof -
    have d: "distinct (map gn_name unlisted)"
      using assms(3) by (simp add: unlisted_def mine_def distinct_map_filter)
    have "gn_name ` set unlisted \<subseteq> fst ` set still"
    proof
      fix n assume "n \<in> gn_name ` set unlisted"
      then obtain g where g: "g \<in> set mine" "gn_name g = n" "n \<in> set (w_unlisted w)"
        by (auto simp: unlisted_def)
      then obtain t where "(n, t) \<in> set (recent_of w (gp_name pool))" "tsub now t \<le> 30 * Second"
        using assms(2) by (force simp: remembered_def list_all_iff list_ex_iff mine_def)
      moreover have "n \<notin> gn_name ` set items" using g(3) by (auto simp: items_def)
      ultimately have "(n, t) \<in> set still" by (auto simp: still_def still_recent_def)
      then show "n \<in> fst ` set still" by force
    qed
    then have "card (gn_name ` set unlisted) \<le> card (fst ` set still)" by (intro card_mono) simp_all
    also have "\<dots> \<le> length still" using card_image_le [of "set still" fst] card_length [of still] by simp
    also have "card (gn_name ` set unlisted) = length unlisted" using distinct_card [OF d] by simp
    finally show ?thesis .
  qed
  finally have "costs_of (gp_name pool) w \<le> length (filter may_cost items) + length still" by simp
  then show ?thesis unfolding m by linarith
qed

text \<open>What a pass does: nothing but write a status, or list the nodes and go on.\<close>

lemma Reconcile_cases:
  assumes "Reconcile env conn name w = (r, w')"
  shows "only_status w w' \<or> (\<exists>p pool cluster w1 res w2. find (\<lambda>p. gp_name p = name) (w_pools w) = Some p \<and> same_spec p pool \<and>
    \<not> gp_deleting p \<and> ValidateNodePool p = [] \<and> only_status w w1 \<and> listNodes pool (pe_now env) w1 = (res, w2) \<and>
    w' = (case res of Inl e \<Rightarrow> w2 | Inr nodes \<Rightarrow> snd (after_listing env conn pool cluster nodes w2)))"
proof (cases "Get_pool name w")
  case (Pair r1 w1)
  note s1 = read_only_status(1) [OF Pair]
  show ?thesis
  proof (cases r1)
    case (Inl e)
    with assms Pair s1 show ?thesis by (simp add: Reconcile_def split: api_error.splits)
  next
    case (Inr p)
    from Pair Inr have p: "find (\<lambda>p. gp_name p = name) (w_pools w) = Some p" "w1 = spend w"
      by (auto simp: Get_pool_def split: option.splits)
    then have "gp_name p = name" by (auto simp: find_Some_iff)
    with p have st: "stored w1 p" by (simp add: stored_def same_spec_def)
    obtain r2 w2 where c: "Get_cluster (ps_cluster (gp_spec p)) w1 = (r2, w2)" by fastforce
    have s2: "only_status w w2" by (rule only_status_trans [OF s1 read_only_status(2) [OF c]])
    have fin: "only_status w (snd (finish env p work rep nodes v))" if "only_status w v" for work rep nodes v
      by (rule only_status_trans [OF that finish_only_status])
    have st2: "stored w2 p" using st c by (auto simp: Get_cluster_def split: option.splits)
    obtain r3 w3 where cl: "clearResumeRequest p w2 = (r3, w3)" by fastforce
    have s3: "only_status w w3" by (rule only_status_trans [OF s2 clearResumeRequest_only_status [OF cl]])
    show ?thesis
    proof (cases "gp_deleting p \<or> ValidateNodePool p \<noteq> []")
      case True
      then show ?thesis
        using assms Pair Inr s1 fin [OF s1] by (auto simp: Reconcile_def split: if_splits) (metis snd_conv)+
    next
      case False
      note ok = this
      show ?thesis
      proof (cases r2)
        case (Inl e)
        with ok assms Pair Inr c s2 fin [OF s2] show ?thesis
          by (auto simp: Reconcile_def split: if_splits) (metis snd_conv)+
      next
        case (Inr cluster)
        show ?thesis
        proof (cases r3)
          case (Inl e)
          with ok assms Pair \<open>r1 = Inr p\<close> c \<open>r2 = Inr cluster\<close> cl s3 show ?thesis by (simp add: Reconcile_def)
        next
          case (Inr pool)
          obtain res w4 where l: "listNodes pool (pe_now env) w3 = (res, w4)" by fastforce
          have "same_spec p pool" by (rule clearResumeRequest_spec) (use cl Inr st2 in simp_all)
          moreover have "w' = (case res of Inl e \<Rightarrow> w4 | Inr nodes \<Rightarrow> snd (after_listing env conn pool cluster nodes w4))"
            using ok assms Pair \<open>r1 = Inr p\<close> c \<open>r2 = Inr cluster\<close> cl Inr l
            by (cases res) (simp_all add: Reconcile_def reconcile_pool_def)
          ultimately show ?thesis using p(1) ok s3 l by blast
        qed
      qed
    qed
  qed
qed


text \<open>A pass at time \<open>now\<close>, and a world with one pool, for examples.\<close>

definition plain_env :: "time \<Rightarrow> pass_env" where
  "plain_env now = \<lparr>pe_q = plain_format, pe_tf = \<lparr>format_time = itoa, parse_time = parse_int64\<rparr>, pe_index = None, pe_now = now,
     pe_cost = (\<lambda>price n. None)\<rparr>"

definition pool_world :: world where
  "pool_world = quiet_world\<lparr>w_pools := [small_pool], w_clusters := [\<lparr>gc_name = ''default'', gc_uid = ''u'', gc_upgrade = None\<rparr>]\<rparr>"

lemma pool_world_simps: "w_nodes pool_world = []" "w_geass pool_world = []" "w_pools pool_world = [small_pool]"
  by (simp_all add: pool_world_def quiet_world_def)




end
