(* ===== verification/Pool_Upkeep.thy ===== *)
theory Pool_Upkeep
  imports Pool_Reconcile
begin

section \<open>Orphans, failures, labels and conflicts\<close>

text \<open>
  Properties of the parts that \<open>Reconcile\<close> is made of: which machines the sweep deletes, how failures
  are counted and pause the pool, the values of the labels on machines, and what \<open>PatchStatus\<close> does
  about conflicts.
\<close>

subsection \<open>Orphans\<close>

text \<open>A machine that the sweep may delete: seen without a node, and made, more than \<open>orphanGrace\<close> ago.\<close>

definition old_orphan :: "time \<Rightarrow> world \<Rightarrow> string set \<Rightarrow> machine \<Rightarrow> bool" where
  "old_orphan now w owned m \<longleftrightarrow> \<not> claimed owned m \<and>
     (case map_of (w_orphan_seen w) (i_id m) of None \<Rightarrow> False | Some t \<Rightarrow> tsub now t > orphanGrace) \<and>
     (case i_created m of None \<Rightarrow> True | Some c \<Rightarrow> tsub now c > orphanGrace)"

lemma not_old_now: "\<not> orphanGrace < tsub now now"
  by (simp add: tsub_same orphanGrace_def duration_defs)

lemma Delete_machine_world:
  "w_orphan_seen (snd (Delete_machine i w)) = w_orphan_seen w"
  "m \<in> set (w_machines w) \<Longrightarrow> m \<notin> set (w_machines (snd (Delete_machine i w))) \<Longrightarrow> i_id m = i"
  by (auto simp: Delete_machine_def split: option.splits)

lemma sweep_loop_deletes:
  assumes "sweep_loop now policy owned ms acc w = (x, w')" "m \<in> set (w_machines w)" "m \<notin> set (w_machines w')"
  shows "policy = OrphanDelete \<and> (\<exists>m' \<in> set ms. i_id m' = i_id m \<and> old_orphan now w owned m')"
  using assms
proof (induction ms arbitrary: acc w)
  case (Cons m1 ms)
  show ?case
  proof (cases "claimed owned m1")
    case True
    with Cons show ?thesis by auto
  next
    case False
    define w1 where "w1 = (case map_of (w_orphan_seen w) (i_id m1) of Some t \<Rightarrow> w
      | None \<Rightarrow> w\<lparr>w_orphan_seen := AList.update (i_id m1) now (w_orphan_seen w)\<rparr>)"
    define first where "first = (case map_of (w_orphan_seen w) (i_id m1) of Some t \<Rightarrow> t | None \<Rightarrow> now)"
    define acc1 where "acc1 = (fst acc @ [(if i_name m1 = [] then i_id m1 else i_name m1) @ '' ('' @ i_id m1 @ '')''], i_id m1 # snd acc)"
    define del where "del \<longleftrightarrow> policy = OrphanDelete \<and> tsub now first > orphanGrace \<and>
      (case i_created m1 of None \<Rightarrow> True | Some c \<Rightarrow> tsub now c > orphanGrace)"
    define w2 where "w2 = (if del then snd (Delete_machine (i_id m1) w1) else w1)"
    have step: "sweep_loop now policy owned ms acc1 w2 = (x, w')"
      using Cons.prems(1) False
      by (auto simp: w2_def w1_def first_def acc1_def del_def Let_def split: option.splits)
    have machines: "w_machines w1 = w_machines w" by (simp add: w1_def split: option.splits)
    have seen2: "w_orphan_seen w2 = w_orphan_seen w1" by (simp add: w2_def Delete_machine_world)
    have old: "old_orphan now w owned m'" if "old_orphan now w2 owned m'" for m'
      using that not_old_now [of now] unfolding old_orphan_def seen2
      by (auto simp: w1_def update_conv' split: option.splits if_splits)
    show ?thesis
    proof (cases "m \<in> set (w_machines w2)")
      case True
      from Cons.IH [OF step True Cons.prems(3)] old show ?thesis by auto
    next
      case False
      then have d: del "i_id m = i_id m1"
        using Cons.prems(2) machines Delete_machine_world(2) [of m w1 "i_id m1"] by (auto simp: w2_def split: if_splits)
      then have "old_orphan now w owned m1"
        using \<open>\<not> claimed owned m1\<close> not_old_now [of now]
        by (auto simp: old_orphan_def del_def first_def split: option.splits)
      with d show ?thesis by (auto simp: del_def)
    qed
  qed
qed simp

lemma sweep_loop_present:
  "sweep_loop now policy owned ms acc w = ((orphans, present), w') \<Longrightarrow> set present \<subseteq> set (snd acc) \<union> i_id ` set ms"
proof (induction ms arbitrary: acc w)
  case (Cons m ms)
  obtain acc' w2 where "sweep_loop now policy owned ms acc' w2 = ((orphans, present), w')"
    "set (snd acc') \<subseteq> insert (i_id m) (set (snd acc))"
  proof (cases "claimed owned m")
    case True
    show ?thesis by (rule that [of acc w]) (use Cons.prems True in auto)
  next
    case False
    then show ?thesis using Cons.prems that by (auto simp: Let_def split: if_splits option.splits)
  qed
  with Cons.IH [of acc' w2] show ?case by auto
qed simp

lemma owned_names_name: "g \<in> set (pn_all nodes) \<Longrightarrow> gn_name g \<in> owned_names nodes"
  by (simp add: owned_names_def)

lemma owned_names_id: "g \<in> set (pn_all nodes) \<Longrightarrow> gn_cloud_status g = Some c \<Longrightarrow> cl_instance_id c \<in> owned_names nodes"
  by (force simp: owned_names_def split: option.splits)

text \<open>
  C29. The sweep deletes only what is surely abandoned. Every machine that is gone after a sweep was alive at the
  provider with the labels of this cluster and this pool, under the \<open>Delete\<close> policy; no node of the pool
  has its id or its name; and it was first seen without a node, and created if the provider says when, more
  than twenty minutes before.
\<close>

theorem sweep_only_orphans:
  assumes "sweepOrphans now pool cluster nodes pv report w = (report', w')" "distinct (map i_id (w_machines w))"
    and "m \<in> set (w_machines w)" "m \<notin> set (w_machines w')"
  shows "ps_orphan_policy (gp_spec pool) = OrphanDelete \<and> Owns (pool_owner cluster pool) (i_labels m) \<and> Alive m \<and>
    (\<forall>g \<in> set (pn_all nodes). gn_name g \<noteq> i_id m \<and> gn_name g \<noteq> lookup0 (i_labels m) compute_LabelNode \<and>
       (case gn_cloud_status g of None \<Rightarrow> True | Some c \<Rightarrow> cl_instance_id c \<noteq> i_id m)) \<and>
    old_orphan now w (owned_names nodes) m"
proof -
  obtain r w1 where l: "List_machines pv (pool_owner cluster pool) w = (r, w1)" by fastforce
  have w1: "w1 = spend w" using l by (auto simp: List_machines_def split: option.splits)
  have gone: "w_machines w' \<noteq> w_machines w" using assms(3,4) by auto
  obtain machines where r: "r = Inr machines"
    using assms(1) l w1 gone by (cases r) (auto simp: sweepOrphans_def Let_def split: if_splits)
  then have ms: "machines = filter (\<lambda>m. Owns (pool_owner cluster pool) (i_labels m) \<and> pv_sees pv (pool_owner cluster pool) m) (w_machines w)"
    using l by (auto simp: List_machines_def split: option.splits)
  define w2 where "w2 = w1\<lparr>w_last_sweep := AList.update (gp_namespace pool @ ''/'' @ gp_name pool) now (w_last_sweep w1)\<rparr>"
  obtain x w3 where s: "sweep_loop now (ps_orphan_policy (gp_spec pool)) (owned_names nodes) machines ([], []) w2 = (x, w3)" by fastforce
  have "w_machines w' = w_machines w3"
    using assms(1) l r s gone by (auto simp: sweepOrphans_def w2_def Let_def split: if_splits prod.splits)
  with assms(4) have "m \<notin> set (w_machines w3)" by simp
  moreover have same: "w_machines w2 = w_machines w" "w_orphan_seen w2 = w_orphan_seen w" by (simp_all add: w2_def w1)
  ultimately obtain m' where m': "ps_orphan_policy (gp_spec pool) = OrphanDelete" "m' \<in> set machines" "i_id m' = i_id m"
    "old_orphan now w2 (owned_names nodes) m'"
    using sweep_loop_deletes [OF s] assms(3) by auto
  have "m' \<in> set (w_machines w)" using m'(2) ms by simp
  with assms(2,3) m'(3) have "m' = m" by (auto simp: distinct_map inj_on_def)
  with m' ms same have "old_orphan now w (owned_names nodes) m" "Owns (pool_owner cluster pool) (i_labels m)"
    by (auto simp: old_orphan_def)
  moreover from this(1) have "Alive m" "i_id m \<notin> owned_names nodes" "lookup0 (i_labels m) compute_LabelNode \<notin> owned_names nodes"
    by (auto simp: old_orphan_def claimed_def)
  ultimately show ?thesis
    using m'(1) by (auto split: option.splits dest: owned_names_name owned_names_id)
qed

text \<open>A machine that was forgotten an hour ago, for an example.\<close>

definition lost_machine :: machine where
  "lost_machine = \<lparr>i_id = ''17'', i_name = ''workers-x'', i_region = ''eu'', i_state = ''Running'',
     i_labels = [(compute_LabelManaged, ''true''), (compute_LabelCluster, ''u''), (compute_LabelPool, ''workers''), (compute_LabelNode, ''workers-x'')],
     i_created = Some 0\<rparr>"

definition cloud_world :: world where
  "cloud_world = quiet_world\<lparr>w_machines := [lost_machine], w_orphan_seen := [(''17'', 0)]\<rparr>"

definition deleting_pool :: geass_node_pool where
  "deleting_pool = small_pool\<lparr>gp_spec := empty_pool_spec\<lparr>ps_orphan_policy := OrphanDelete\<rparr>\<rparr>"

definition all_seeing :: provider where
  "all_seeing = \<lparr>pv_sizes = (\<lambda>_. None), pv_sees = (\<lambda>_ _. True)\<rparr>"

theorem sweep_only_orphans_witness:
  "w_machines (snd (sweepOrphans Hour deleting_pool \<lparr>gc_name = ''default'', gc_uid = ''u'', gc_upgrade = None\<rparr> no_nodes all_seeing
     new_report cloud_world)) = [] \<and> old_orphan Hour cloud_world (owned_names no_nodes) lost_machine"
proof -
  let ?cl = "\<lparr>gc_name = ''default'', gc_uid = ''u'', gc_upgrade = None\<rparr>"
  obtain rep w' where s: "sweepOrphans Hour deleting_pool ?cl no_nodes all_seeing new_report cloud_world = (rep, w')" by fastforce
  have gone: "w_machines w' = []"
    using s by (auto simp: sweepOrphans_def cloud_world_def quiet_world_def deleting_pool_def small_pool_def empty_pool_spec_def
        all_seeing_def lost_machine_def no_nodes_def List_machines_def fails_def spend_def Owns_def pool_owner_def clusterIdentity_def
        SafeLabelValue_def trim_hyphens_def safe_char_def to_lower_def to_lower_char_def claimed_def owned_names_def Alive_def
        Delete_machine_def lookup0_def compute_LabelManaged_def compute_LabelCluster_def compute_LabelPool_def compute_LabelNode_def
        orphanGrace_def tsub_def min_int64_def max_int64_def duration_defs Let_def)
  have "distinct (map i_id (w_machines cloud_world))" "lost_machine \<in> set (w_machines cloud_world)"
    by (simp_all add: cloud_world_def)
  from sweep_only_orphans [OF s this] gone s show ?thesis by simp
qed

text \<open>
  The memory of when a machine was first seen is one for all pools, and a sweep forgets every machine that
  is not an orphan of its own pool. With two pools in the cloud each sweep forgets what the other has seen.
\<close>

lemma sweep_forgets_other_pools:
  assumes "sweepOrphans now pool cluster nodes pv report w = (report', w')"
    and "List_machines pv (pool_owner cluster pool) w = (Inr machines, w1)"
    and "map_of (w_last_sweep w) (gp_namespace pool @ ''/'' @ gp_name pool) = None"
    and "iid \<notin> i_id ` set machines"
  shows "map_of (w_orphan_seen w') iid = None"
proof -
  define w2 where "w2 = w1\<lparr>w_last_sweep := AList.update (gp_namespace pool @ ''/'' @ gp_name pool) now (w_last_sweep w1)\<rparr>"
  obtain orphans present w3 where s: "sweep_loop now (ps_orphan_policy (gp_spec pool)) (owned_names nodes) machines ([], []) w2 =
    ((orphans, present), w3)" by (metis prod.collapse)
  have "iid \<notin> set present" using sweep_loop_present [OF s] assms(4) by auto
  moreover have "w_orphan_seen w' = filter (\<lambda>(k, t). k \<in> set present) (w_orphan_seen w3)"
    using assms(1-3) s by (auto simp: sweepOrphans_def w2_def Let_def)
  ultimately show ?thesis by (auto simp: map_of_eq_None_iff)
qed

subsection \<open>Failures\<close>

lemma count_failures:
  "foldl (count_failure now C) st gs = (let news = filter (\<lambda>g. gn_name g \<notin> C) gs in
     if news = [] then st
     else st\<lparr>st_consecutive_failures := st_consecutive_failures st + int (length news),
            st_counted_failures := st_counted_failures st @ map gn_name news,
            st_last_failure := gn_name (last news) @ '': '' @ gn_message (last news), st_last_failure_at := Some now\<rparr>)"
  by (induction gs arbitrary: st) (auto simp: count_failure_def Let_def)

lemma counted_is_known:
  assumes "\<forall>g \<in> set gs. gn_name g \<in> C"
  shows "foldl (count_failure now C) st gs = st"
  using assms by (induction gs arbitrary: st) (auto simp: count_failure_def)

definition forgive :: "pool_nodes \<Rightarrow> pool_status \<Rightarrow> pool_status" where
  "forgive nodes st = (case st_last_failure_at st of None \<Rightarrow> st
     | Some t \<Rightarrow> if list_ex (\<lambda>g. gn_created g > t) (pn_ready nodes) then st\<lparr>st_consecutive_failures := 0\<rparr> else st)"

definition keep_counted :: "pool_nodes \<Rightarrow> string list \<Rightarrow> string list" where
  "keep_counted nodes names = (let kept = filter (\<lambda>name. name \<in> gn_name ` set (pn_failed nodes)) names
     in if length kept > maxCountedFailures then drop (length kept - maxCountedFailures) kept else kept)"

definition pause_if :: "time \<Rightarrow> pool_status \<Rightarrow> pool_status" where
  "pause_if now st = (if st_consecutive_failures st \<ge> FailuresBeforePause \<and> st_paused_until st = None
     then st\<lparr>st_paused_until := Some (now + FailurePause)\<rparr> else st)"

lemma accountFailures_steps:
  "accountFailures now nodes st =
     (let st1 = forgive nodes (foldl (count_failure now (set (st_counted_failures st))) st (pn_failed nodes))
      in pause_if now (st1\<lparr>st_counted_failures := keep_counted nodes (st_counted_failures st1)\<rparr>))"
  by (simp add: accountFailures_def forgive_def keep_counted_def pause_if_def Let_def)

lemma forgive_simps [simp]:
  "st_counted_failures (forgive nodes st) = st_counted_failures st" "st_last_failure_at (forgive nodes st) = st_last_failure_at st"
  "st_paused_until (forgive nodes st) = st_paused_until st" "forgive nodes (forgive nodes st) = forgive nodes st"
  by (simp_all add: forgive_def split: option.splits)

lemma pause_if_simps [simp]:
  "st_counted_failures (pause_if now st) = st_counted_failures st" "st_last_failure_at (pause_if now st) = st_last_failure_at st"
  "st_consecutive_failures (pause_if now st) = st_consecutive_failures st"
  by (simp_all add: pause_if_def)

lemma set_keep_counted: "set (keep_counted nodes names) \<subseteq> gn_name ` set (pn_failed nodes)"
  by (auto simp: keep_counted_def Let_def dest: in_set_dropD)

lemma length_keep_counted: "length (keep_counted nodes names) \<le> maxCountedFailures"
  by (simp add: keep_counted_def Let_def)

text \<open>With no more failed nodes than are remembered, all of them are.\<close>

lemma keep_all:
  assumes "length (pn_failed nodes) \<le> maxCountedFailures" "distinct names" "gn_name ` set (pn_failed nodes) \<subseteq> set names"
  shows "set (keep_counted nodes names) = gn_name ` set (pn_failed nodes)"
    "keep_counted nodes (keep_counted nodes names) = keep_counted nodes names"
proof -
  let ?kept = "filter (\<lambda>name. name \<in> gn_name ` set (pn_failed nodes)) names"
  have s: "set ?kept = gn_name ` set (pn_failed nodes)" using assms(3) by auto
  have "length ?kept = card (set ?kept)" by (rule distinct_card [symmetric]) (simp add: assms(2))
  also have "\<dots> \<le> length (pn_failed nodes)" unfolding s using card_image_le [of "set (pn_failed nodes)" gn_name] card_length [of "pn_failed nodes"] by simp
  finally have l: "length ?kept \<le> maxCountedFailures" using assms(1) by simp
  then have k: "keep_counted nodes names = ?kept" by (simp add: keep_counted_def Let_def)
  show "set (keep_counted nodes names) = gn_name ` set (pn_failed nodes)" using k s by simp
  show "keep_counted nodes (keep_counted nodes names) = keep_counted nodes names"
    unfolding k using l by (simp add: keep_counted_def Let_def)
qed

lemma counted_after:
  "set (st_counted_failures (foldl (count_failure now C) st gs)) = set (st_counted_failures st) \<union> {n \<in> gn_name ` set gs. n \<notin> C}"
  by (auto simp: count_failures Let_def filter_empty_conv)

lemma counted_distinct:
  assumes "distinct (st_counted_failures st)" "distinct (map gn_name gs)"
  shows "distinct (st_counted_failures (foldl (count_failure now (set (st_counted_failures st))) st gs))"
  using assms by (auto simp: count_failures Let_def distinct_map_filter)


lemma accountFailures_counts:
  fixes st :: pool_status
  assumes "pn_ready nodes = []"
  defines "news \<equiv> filter (\<lambda>g. gn_name g \<notin> set (st_counted_failures st)) (pn_failed nodes)"
  shows "st_consecutive_failures (accountFailures now nodes st) = st_consecutive_failures st + int (length news)"
    "st_counted_failures (accountFailures now nodes st) = keep_counted nodes (st_counted_failures st @ map gn_name news)"
  using assms(1) by (auto simp: accountFailures_steps forgive_def count_failures news_def Let_def split: option.splits)

definition failed_node :: "string \<Rightarrow> geass_node" where
  "failed_node name = waiting_node\<lparr>gn_name := name, gn_phase := NodePhaseFailed\<rparr>"


text \<open>With more failed nodes than are remembered, some that were dropped are counted again in every pass.\<close>

lemma failures_recounted:
  assumes "pn_ready nodes = []" "distinct (map gn_name (pn_failed nodes))" "length (pn_failed nodes) > maxCountedFailures"
  shows "st_consecutive_failures (accountFailures later nodes (accountFailures now nodes st)) >
    st_consecutive_failures (accountFailures now nodes st)"
proof -
  let ?C = "set (st_counted_failures (accountFailures now nodes st))"
  have "card ?C \<le> length (st_counted_failures (accountFailures now nodes st))" by (rule card_length)
  also have "\<dots> \<le> maxCountedFailures" unfolding accountFailures_counts(2) [OF assms(1)] by (rule length_keep_counted)
  also have "\<dots> < card (gn_name ` set (pn_failed nodes))" using distinct_card [OF assms(2)] assms(3) by simp
  finally have "\<not> gn_name ` set (pn_failed nodes) \<subseteq> ?C" using card_mono [of ?C] by (metis List.finite_set not_le)
  then have "filter (\<lambda>g. gn_name g \<notin> ?C) (pn_failed nodes) \<noteq> []" by (auto simp: filter_empty_conv)
  then show ?thesis unfolding accountFailures_counts(1) [OF assms(1), of later] by simp
qed

subsection \<open>Labels on machines\<close>

definition label_char :: "char \<Rightarrow> bool" where
  "label_char c \<longleftrightarrow> safe_char c \<or> c = CHR ''-''"

definition label_value :: "string \<Rightarrow> bool" where
  "label_value s \<longleftrightarrow> length s \<le> 63 \<and> list_all label_char s \<and> (s \<noteq> [] \<longrightarrow> safe_char (hd s) \<and> safe_char (last s))"

lemma trim_hyphens_infix: "\<exists>a b. s = a @ trim_hyphens s @ b"
proof -
  define P where "P = (\<lambda>c. c = CHR ''-'')"
  have "s = takeWhile P s @ dropWhile P s" by simp
  moreover have "dropWhile P s = rev (dropWhile P (rev (dropWhile P s))) @ rev (takeWhile P (rev (dropWhile P s)))"
    by (metis rev_append rev_rev_ident takeWhile_dropWhile_id)
  ultimately show ?thesis unfolding trim_hyphens_def P_def [symmetric] by metis
qed

lemma trim_hyphens_ends: "trim_hyphens s \<noteq> [] \<Longrightarrow> hd (trim_hyphens s) \<noteq> CHR ''-'' \<and> last (trim_hyphens s) \<noteq> CHR ''-''"
proof -
  define P where "P = (\<lambda>c. c = CHR ''-'')"
  define t where "t = dropWhile P s"
  define u where "u = dropWhile P (rev t)"
  have s: "trim_hyphens s = rev u" by (simp add: trim_hyphens_def u_def t_def P_def)
  assume "trim_hyphens s \<noteq> []"
  then have u: "u \<noteq> []" by (simp add: s)
  then have t: "t \<noteq> []" by (auto simp: u_def)
  have "rev t = takeWhile P (rev t) @ u" by (simp add: u_def)
  then have "last (rev t) = last u" using u by (metis last_appendR)
  then have "hd (rev u) = hd t" using t u by (simp add: hd_rev last_rev)
  moreover have "\<not> P (hd t)" using hd_dropWhile [of P s] t by (simp add: t_def)
  moreover have "\<not> P (hd u)" using hd_dropWhile [of P "rev t"] u by (simp add: u_def)
  ultimately show ?thesis using u by (simp add: s last_rev P_def)
qed

lemma dropWhile_hd: "s = [] \<or> \<not> P (hd s) \<Longrightarrow> dropWhile P s = s"
  by (cases s) auto

lemma trim_hyphens_id: "s = [] \<or> (hd s \<noteq> CHR ''-'' \<and> last s \<noteq> CHR ''-'') \<Longrightarrow> trim_hyphens s = s"
  unfolding trim_hyphens_def using dropWhile_hd [of s "\<lambda>c. c = CHR ''-''"] dropWhile_hd [of "rev s" "\<lambda>c. c = CHR ''-''"]
  by (cases "s = []") (simp_all add: hd_rev)

lemma trim_hyphens_chars: "list_all label_char s \<Longrightarrow> list_all label_char (trim_hyphens s)"
  using trim_hyphens_infix [of s] by (metis list_all_append)

lemma trim_hyphens_length: "length (trim_hyphens s) \<le> length s"
proof -
  obtain a b where "s = a @ trim_hyphens s @ b" using trim_hyphens_infix by blast
  then have "length s = length a + length (trim_hyphens s) + length b" by (metis add.assoc length_append)
  then show ?thesis by simp
qed

lemma trimmed_label: "list_all label_char s \<Longrightarrow> length s \<le> 63 \<Longrightarrow> label_value (trim_hyphens s)"
proof -
  assume s: "list_all label_char s" "length s \<le> 63"
  have c: "list_all label_char (trim_hyphens s)" by (rule trim_hyphens_chars [OF s(1)])
  have "safe_char (hd (trim_hyphens s)) \<and> safe_char (last (trim_hyphens s))" if "trim_hyphens s \<noteq> []"
    using that trim_hyphens_ends [OF that] c by (auto simp: list_all_iff label_char_def)
  with c s(2) trim_hyphens_length [of s] show ?thesis by (simp add: label_value_def)
qed

lemma to_lower_label: "list_all label_char s \<Longrightarrow> to_lower s = s"
proof -
  have "to_lower_char c = c" if "label_char c" for c
    using that by (auto simp: to_lower_char_def label_char_def safe_char_def less_eq_char_def)
  then show "list_all label_char s \<Longrightarrow> to_lower s = s"
    by (induction s) (simp_all add: to_lower_def)
qed

lemma SafeLabelValue_fixes: "label_value s \<Longrightarrow> SafeLabelValue s = s"
proof -
  assume v: "label_value s"
  have "map (\<lambda>c. if safe_char c then c else CHR ''-'') s = s"
    using v by (intro map_idI) (auto simp: label_value_def label_char_def list_all_iff)
  moreover have "trim_hyphens s = s"
    using v by (intro trim_hyphens_id) (auto simp: label_value_def safe_char_def less_eq_char_def)
  ultimately show ?thesis
    using v by (simp add: SafeLabelValue_def label_value_def to_lower_label)
qed

text \<open>
  C31. Every label that is written on a machine is one every provider accepts: of at most 63 characters, all lower
  case letters, digits and hyphens, a hyphen neither first nor last. A value that is already such is kept as
  it is, so taking a name through \<open>SafeLabelValue\<close> twice is the same as once.
\<close>

theorem SafeLabelValue_safe:
  "label_value (SafeLabelValue s) \<and> (label_value s \<longrightarrow> SafeLabelValue s = s) \<and> SafeLabelValue (SafeLabelValue s) = SafeLabelValue s"
proof -
  let ?m = "map (\<lambda>c. if safe_char c then c else CHR ''-'') (to_lower s)"
  have m: "list_all label_char ?m" by (auto simp: list_all_iff label_char_def)
  have t: "list_all label_char (trim_hyphens ?m)" by (rule trim_hyphens_chars [OF m])
  have "label_value (SafeLabelValue s)"
  proof (cases "length (trim_hyphens ?m) > 63")
    case True
    have "list_all label_char (take 63 (trim_hyphens ?m))" using t by (auto simp: list_all_iff dest: in_set_takeD)
    with True show ?thesis by (simp add: SafeLabelValue_def Let_def trimmed_label)
  next
    case False
    then have "label_value (trim_hyphens (trim_hyphens ?m))" using t by (intro trimmed_label) simp_all
    moreover have "trim_hyphens (trim_hyphens ?m) = trim_hyphens ?m"
      using trim_hyphens_ends [of ?m] by (intro trim_hyphens_id) auto
    ultimately show ?thesis using False by (simp add: SafeLabelValue_def Let_def)
  qed
  then show ?thesis using SafeLabelValue_fixes by blast
qed

theorem SafeLabelValue_safe_witness: "SafeLabelValue ''eu-1'' = ''eu-1''"
proof -
  have "label_value ''eu-1''" by (simp add: label_value_def label_char_def safe_char_def less_eq_char_def)
  with SafeLabelValue_safe [of "''eu-1''"] show ?thesis by blast
qed


subsection \<open>Conflicts\<close>

text \<open>How many of the next \<open>k\<close> calls meet a conflict.\<close>

definition conflicts :: "nat \<Rightarrow> world \<Rightarrow> nat" where
  "conflicts k w = length (filter (\<lambda>f. f = Some Conflict) (take k (w_faults w)))"

definition stored_status :: "world \<Rightarrow> string \<Rightarrow> pool_status option" where
  "stored_status w name = map_option gp_status (find (\<lambda>p. gp_name p = name) (w_pools w))"

text \<open>How a run of \<open>patch_status\<close> ends, with \<open>n\<close> tries, having spent \<open>k\<close> calls.\<close>

definition patch_outcome :: "nat \<Rightarrow> (pool_status \<Rightarrow> pool_status) \<Rightarrow> string \<Rightarrow> world \<Rightarrow> nat \<Rightarrow> (api_error + bool \<times> geass_node_pool) \<times> world \<Rightarrow> bool" where
  "patch_outcome n mutate name w k out \<longleftrightarrow> (case out of (r, w') \<Rightarrow> w_faults w' = drop k (w_faults w) \<and>
     (case r of
        Inl e \<Rightarrow> w_pools w' = w_pools w \<and> (e = Conflict \<longrightarrow> n \<le> conflicts k w) \<and> (e \<noteq> Conflict \<longrightarrow> Some e \<in> set (take k (w_faults w)))
      | Inr (True, obj) \<Rightarrow> stored_status w' name = Some (gp_status obj) \<and> (\<exists>st. gp_status obj = mutate st)
      | Inr (False, obj) \<Rightarrow> w_pools w' = w_pools w \<and> mutate (gp_status obj) = gp_status obj))"

lemma conflicts_step:
  "conflicts (Suc k) w = (if fails w = Some Conflict then 1 else 0) + conflicts k (spend w)"
  by (cases "w_faults w") (simp_all add: conflicts_def fails_def spend_def)

lemma faults_step: "Some e \<in> set (take k (w_faults (spend w))) \<Longrightarrow> Some e \<in> set (take (Suc k) (w_faults w))"
  by (cases "w_faults w") (auto simp: spend_def)

lemma faults_now: "fails w = Some e \<Longrightarrow> Some e \<in> set (take (Suc k) (w_faults w))"
  by (cases "w_faults w") (auto simp: fails_def)

lemma faults_drop: "drop k (w_faults (spend w)) = drop (Suc k) (w_faults w)"
  by (cases "w_faults w") (simp_all add: spend_def)

lemma outcome_step:
  assumes "patch_outcome n mutate name (spend w) k out"
  shows "patch_outcome n mutate name w (Suc k) out"
    "fails w = Some Conflict \<Longrightarrow> patch_outcome (Suc n) mutate name w (Suc k) out"
  using assms
  by (auto simp: patch_outcome_def faults_drop conflicts_step faults_step split: prod.splits sum.splits bool.splits)

lemma outcome_mono: "patch_outcome n mutate name w k out \<Longrightarrow> m \<le> n \<Longrightarrow> patch_outcome m mutate name w k out"
  by (auto simp: patch_outcome_def split: prod.splits sum.splits bool.splits)

lemma Patch_pool_cases:
  assumes "find (\<lambda>p. gp_name p = name) (w_pools w) \<noteq> None"
  shows "Patch_pool change name w = (case fails w of Some e \<Rightarrow> (Inl e, spend w)
    | None \<Rightarrow> (Inr (), (spend w)\<lparr>w_pools := map (\<lambda>p. if gp_name p = name then change p else p) (w_pools w)\<rparr>))"
  using assms by (auto simp: Patch_pool_def list_ex_iff find_None_iff split: option.splits)

lemma find_patched:
  "find (\<lambda>p. gp_name p = name) ps = Some q \<Longrightarrow>
     find (\<lambda>p. gp_name p = name) (map (\<lambda>p. if gp_name p = name then p\<lparr>gp_status := st\<rparr> else p) ps) = Some (q\<lparr>gp_status := st\<rparr>)"
  by (induction ps) (auto split: if_splits)

lemma patch_status_outcome:
  assumes "gp_name obj = name" "find (\<lambda>p. gp_name p = name) (w_pools w) = Some q"
  shows "\<exists>k. patch_outcome n mutate name w k (patch_status n mutate obj w)"
  using assms
proof (induction n arbitrary: obj w q)
  case 0
  then show ?case by (intro exI [of _ 0]) (simp add: patch_outcome_def)
next
  case (Suc n)
  let ?st = "mutate (gp_status obj)"
  show ?case
  proof (cases "?st = gp_status obj")
    case True
    then show ?thesis by (intro exI [of _ 0]) (simp add: patch_outcome_def Let_def)
  next
    case False
    show ?thesis
    proof (cases "fails w")
      case None
      have "patch_outcome (Suc n) mutate name w 1 (patch_status (Suc n) mutate obj w)"
        using False None Suc.prems faults_drop [of 0 w]
        by (auto simp: Patch_pool_cases patch_outcome_def stored_status_def find_patched Let_def)
      then show ?thesis by blast
    next
      case (Some e)
      show ?thesis
      proof (cases "e = Conflict")
        case False
        then have "patch_outcome (Suc n) mutate name w 1 (patch_status (Suc n) mutate obj w)"
          using \<open>?st \<noteq> gp_status obj\<close> Some Suc.prems faults_drop [of 0 w] faults_now [OF Some, of 0]
          by (auto simp: Patch_pool_cases patch_outcome_def Let_def)
        then show ?thesis by blast
      next
        case True
        let ?obj = "obj\<lparr>gp_status := ?st\<rparr>" and ?w2 = "spend (spend w)"
        have prems: "find (\<lambda>p. gp_name p = name) (w_pools ?w2) = Some q" "gp_name ?obj = name" "gp_name q = name"
          using Suc.prems by (auto simp: find_Some_iff)
        have step: "patch_status (Suc n) mutate obj w = (case fails (spend w) of
            None \<Rightarrow> patch_status n mutate q ?w2
          | Some e2 \<Rightarrow> if e2 = Conflict then patch_status n mutate ?obj ?w2 else (Inl e2, ?w2))"
          using \<open>?st \<noteq> gp_status obj\<close> Some True Suc.prems
          by (simp add: Patch_pool_cases Get_pool_def Let_def split: option.split)
        have "\<exists>k. patch_outcome n mutate name (spend w) k (patch_status (Suc n) mutate obj w)"
        proof (cases "fails (spend w)")
          case None
          from Suc.IH [OF prems(3,1)] obtain k where "patch_outcome n mutate name ?w2 k (patch_status n mutate q ?w2)" ..
          from outcome_step(1) [OF this] show ?thesis unfolding step None by auto
        next
          case (Some e2)
          show ?thesis
          proof (cases "e2 = Conflict")
            case True
            from Suc.IH [OF prems(2,1)] obtain k where "patch_outcome n mutate name ?w2 k (patch_status n mutate ?obj ?w2)" ..
            from outcome_step(1) [OF this] show ?thesis unfolding step Some using True by auto
          next
            case False
            then show ?thesis
              unfolding step Some using faults_drop [of 0 "spend w"] faults_now [OF Some, of 0]
              by (intro exI [of _ 1]) (simp add: patch_outcome_def)
          qed
        qed
        then obtain k where "patch_outcome n mutate name (spend w) k (patch_status (Suc n) mutate obj w)" ..
        from outcome_step(2) [OF this] Some True show ?thesis by blast
      qed
    qed
  qed
qed

text \<open>
  Writing a status either works, changes nothing, or says why. For a pool that exists, \<open>PatchStatus\<close> ends in
  one of three ways: it wrote, and the stored status is the one it returns, made by \<open>mutate\<close>; it did not
  write, and \<open>mutate\<close> would not have changed what it read; or it failed, and wrote nothing: with an error a
  call met, or with a conflict only after at least five of them.
\<close>

theorem PatchStatus_outcome:
  assumes "find (\<lambda>p. gp_name p = gp_name obj) (w_pools w) = Some q"
  shows "\<exists>k. patch_outcome statusRetrySteps mutate (gp_name obj) w k (PatchStatus obj mutate w)"
  unfolding PatchStatus_def by (rule patch_status_outcome [OF refl assms])



theorem PatchStatus_outcome_witness:
  "\<exists>k. patch_outcome 5 (\<lambda>st. st\<lparr>st_message := ''x''\<rparr>) ''workers'' (pool_world\<lparr>w_faults := [Some Conflict, None, Some Conflict]\<rparr>) k
     (PatchStatus small_pool (\<lambda>st. st\<lparr>st_message := ''x''\<rparr>) (pool_world\<lparr>w_faults := [Some Conflict, None, Some Conflict]\<rparr>))"
proof -
  have n: "gp_name small_pool = ''workers''" by (simp add: small_pool_def)
  have "find (\<lambda>p. gp_name p = gp_name small_pool) (w_pools (pool_world\<lparr>w_faults := [Some Conflict, None, Some Conflict]\<rparr>)) = Some small_pool"
    by (simp add: pool_world_simps)
  from PatchStatus_outcome [OF this, of "\<lambda>st. st\<lparr>st_message := ''x''\<rparr>"] show ?thesis
    unfolding n by (simp add: statusRetrySteps_def)
qed


end
