(* ===== verification/Go_Numbers.thy ===== *)
theory Go_Numbers
  imports Go_Prelude
begin

section \<open>Decimal numbers read back\<close>

text \<open>
  A number that was printed with \<open>%d\<close> or \<open>strconv.Itoa\<close> is read back by \<open>strconv.ParseInt\<close>, and what its digits are.
\<close>

lemma parse_itoa_nat: "\<exists>k. parse_digits acc (itoa_nat n) = Some (acc * 10 ^ k + int n)"
proof (induction n arbitrary: acc rule: itoa_nat.induct)
  case (1 n)
  show ?case
  proof (cases "n < 10")
    case True
    then show ?thesis by (intro exI [of _ 1]) (simp add: itoa_nat.simps [of n])
  next
    case False
    then obtain k where "parse_digits acc (itoa_nat (n div 10)) = Some (acc * 10 ^ k + int (n div 10))"
      using 1 by blast
    moreover have "10 * int (n div 10) + int (n mod 10) = int n" by presburger
    ultimately show ?thesis using False
      by (intro exI [of _ "Suc k"]) (simp add: itoa_nat.simps [of n] parse_digits_append algebra_simps)
  qed
qed

lemma itoa_nat_first: "\<exists>c cs. itoa_nat n = c # cs \<and> digit_of c \<noteq> None"
proof (induction n rule: itoa_nat.induct)
  case (1 n)
  then show ?case by (cases "n < 10") (auto simp: itoa_nat.simps [of n])
qed

lemma parse_itoa: "0 \<le> v \<Longrightarrow> in64 v \<Longrightarrow> parse_int64 (itoa v) = Some v"
proof -
  assume v: "0 \<le> v" "in64 v"
  obtain c cs where c: "itoa_nat (nat v) = c # cs" "digit_of c \<noteq> None" using itoa_nat_first by blast
  then have "c \<noteq> CHR ''-''" "c \<noteq> CHR ''+''" by (auto simp: digit_of_def Let_def)
  moreover obtain k where "parse_digits 0 (itoa_nat (nat v)) = Some (0 * 10 ^ k + int (nat v))" using parse_itoa_nat by blast
  ultimately show ?thesis using v c by (simp add: parse_int64_def itoa_def Let_def)
qed

lemma itoa_nonempty [simp]: "itoa v \<noteq> []"
proof -
  obtain d ds where "itoa_nat (nat v) = d # ds" using itoa_nat_first by blast
  then show ?thesis by (simp add: itoa_def)
qed

lemma itoa_digits:
  "0 \<le> n \<Longrightarrow> n < 10 \<Longrightarrow> itoa n = [char_of (48 + nat n)]"
  "10 \<le> n \<Longrightarrow> itoa n = itoa (n div 10) @ [char_of (48 + nat n mod 10)]"
  by (auto simp: itoa_def itoa_nat.simps [of "nat n"] nat_div_distrib nat_less_iff)

lemma char_zero: "char_of (48 :: nat) = CHR ''0''"
  by code_simp

lemma digits_only: "set (itoa_nat n) \<subseteq> {c. digit_of c \<noteq> None}"
proof (induction n rule: itoa_nat.induct)
  case (1 n)
  then show ?case by (cases "n < 10") (auto simp: itoa_nat.simps [of n])
qed

lemma itoa_no_mark: "0 \<le> n \<Longrightarrow> c \<in> set (itoa n) \<Longrightarrow> c \<noteq> CHR ''.'' \<and> c \<noteq> CHR '':'' \<and> c \<noteq> CHR ''%'' \<and> c \<noteq> CHR ''/''"
  using digits_only [of "nat n"] by (auto simp: itoa_def digit_of_def Let_def)

end
