(* ===== verification/Migrations.thy ===== *)
theory Migrations
  imports Kube_Types Go_Numbers
begin

section \<open>Data migrations (pkg/migrations)\<close>

text \<open>
  \<open>migrations.go\<close>: the record of the schema level in a ConfigMap, \<open>Run\<close>, which runs the migrations above
  the recorded level and records each, and \<open>Check\<close>. The cluster's data is of any type \<open>'d\<close>, and a migration
  is what it does to it: an error or none, and the data after it. The cluster (\<open>'d cluster\<close>) holds the
  record with its resourceVersion, the data and what happens around the calls (\<open>events\<close>): before a call
  nothing happens, the call is refused with an error, or another operator writes the record and the data
  first. So a theorem about every list of events is one about every interleaving with other writers and every
  sequence of failures. \<open>lease.go\<close>: waiting until no other operator renews the leader election lease.
  The text of the time of the write is a parameter, log lines are left out.
\<close>

subsection \<open>The cluster\<close>

datatype 'd event = Quiet | Refuse kube_error | Moved labels "'d \<Rightarrow> 'd"

record 'd cluster =
  cm :: "(labels \<times> nat) option"
  next_rv :: nat
  stored_data :: 'd
  events :: "'d event list"

definition happens :: "'d cluster \<Rightarrow> kube_error option \<times> 'd cluster" where
  "happens c = (case events c of
      [] \<Rightarrow> (None, c)
    | Quiet # es \<Rightarrow> (None, c\<lparr>events := es\<rparr>)
    | Refuse k # es \<Rightarrow> (Some k, c\<lparr>events := es\<rparr>)
    | Moved d f # es \<Rightarrow> (None, c\<lparr>events := es, cm := Some (d, next_rv c), next_rv := Suc (next_rv c), stored_data := f (stored_data c)\<rparr>))"

definition Get_record :: "'d cluster \<Rightarrow> (kube_error + labels \<times> nat) \<times> 'd cluster" where
  "Get_record c = (case happens c of
      (Some k, c) \<Rightarrow> (Inl k, c)
    | (None, c) \<Rightarrow> (case cm c of None \<Rightarrow> Inl KNotFound | Some r \<Rightarrow> Inr r, c))"

definition Create_record :: "labels \<Rightarrow> 'd cluster \<Rightarrow> (kube_error + labels \<times> nat) \<times> 'd cluster" where
  "Create_record data c = (case happens c of
      (Some k, c) \<Rightarrow> (Inl k, c)
    | (None, c) \<Rightarrow> if cm c \<noteq> None then (Inl KAlreadyExists, c)
        else (Inr (data, next_rv c), c\<lparr>cm := Some (data, next_rv c), next_rv := Suc (next_rv c)\<rparr>))"

text \<open>A write is refused when the record has moved on from the resourceVersion it was read at.\<close>

definition Update_record :: "labels \<Rightarrow> nat \<Rightarrow> 'd cluster \<Rightarrow> (kube_error + labels \<times> nat) \<times> 'd cluster" where
  "Update_record data rv c = (case happens c of
      (Some k, c) \<Rightarrow> (Inl k, c)
    | (None, c) \<Rightarrow> (case cm c of
          None \<Rightarrow> (Inl KNotFound, c)
        | Some (d, r) \<Rightarrow> if r \<noteq> rv then (Inl KConflict, c)
            else (Inr (data, next_rv c), c\<lparr>cm := Some (data, next_rv c), next_rv := Suc (next_rv c)\<rparr>)))"

subsection \<open>Migrations\<close>

definition keySchemaVersion :: string where "keySchemaVersion = ''schemaVersion''"
definition keyRelease :: string where "keyRelease = ''release''"
definition keyUpdatedAt :: string where "keyUpdatedAt = ''updatedAt''"

record 'd migration =
  mg_version :: int
  mg_name :: string
  mg_run :: "('d \<Rightarrow> kube_error option \<times> 'd) option"

definition BaselineLevel :: int where "BaselineLevel = 1"

definition all_migrations :: "'d migration list" where
  "all_migrations = [\<lparr>mg_version = 1, mg_name = ''record the baseline schema'', mg_run = Some (\<lambda>d. (None, d))\<rparr>]"

definition latest :: "'d migration list \<Rightarrow> int" where
  "latest ms = (if ms = [] then 0 else mg_version (last ms))"

datatype run_error =
    BadVersion string int int
  | NothingToRun int string
  | ReadRecord kube_error
  | NoLevel nat
  | UnreadableLevel string
  | SchemaTooNew int int string
  | SchemaBehind int int string
  | NotReady kube_error
  | MigrationFailed int string kube_error
  | RecordMigration int kube_error
  | RecordRelease kube_error
  | KeptChanging run_error

fun validate_from :: "int \<Rightarrow> 'd migration list \<Rightarrow> run_error option" where
  "validate_from i [] = None"
| "validate_from i (m # ms) =
     (if mg_version m \<noteq> i + 1 then Some (BadVersion (mg_name m) (mg_version m) (i + 1))
      else if mg_run m = None then Some (NothingToRun (mg_version m) (mg_name m))
      else validate_from (i + 1) ms)"

definition Validate :: "'d migration list \<Rightarrow> run_error option" where
  "Validate ms = validate_from 0 ms"

definition storedVersion :: "labels \<Rightarrow> run_error + int" where
  "storedVersion data = (case lookup0 data keySchemaVersion of
      [] \<Rightarrow> if data \<noteq> [] then Inl (NoLevel (length data)) else Inr 0
    | raw \<Rightarrow> (case parse_int64 raw of
          None \<Rightarrow> Inl (UnreadableLevel raw)
        | Some v \<Rightarrow> if v < 0 then Inl (UnreadableLevel raw) else Inr v))"

definition saved_data :: "string \<Rightarrow> labels \<Rightarrow> int \<Rightarrow> string \<Rightarrow> labels" where
  "saved_data stamp data version release =
     AList.update keyUpdatedAt stamp (AList.update keyRelease release (AList.update keySchemaVersion (itoa version) data))"

text \<open>The object that is written comes back with its new resourceVersion.\<close>

definition save :: "string \<Rightarrow> labels \<times> nat \<Rightarrow> bool \<Rightarrow> int \<Rightarrow> string \<Rightarrow> 'd cluster \<Rightarrow> (kube_error + labels \<times> nat) \<times> 'd cluster" where
  "save stamp rec exists version release c =
     (let data = saved_data stamp (fst rec) version release
      in if \<not> exists then Create_record data c else Update_record data (snd rec) c)"

record result =
  From :: int
  To :: int
  Applied :: "int list"

definition no_result :: result where "no_result = \<lparr>From = 0, To = 0, Applied = []\<rparr>"

definition run_of :: "'d migration \<Rightarrow> 'd \<Rightarrow> kube_error option \<times> 'd" where
  "run_of m d = (case mg_run m of None \<Rightarrow> (Some (KOther ''nil function''), d) | Some f \<Rightarrow> f d)"

text \<open>What \<open>opts.Before\<close> does is to wait: it looks at the cluster and gives an error or none.\<close>

type_synonym 'd hook = "('d cluster \<Rightarrow> kube_error option) option"

fun mig_loop :: "string \<Rightarrow> string \<Rightarrow> int \<Rightarrow> 'd migration list \<Rightarrow> 'd hook \<Rightarrow> labels \<times> nat \<Rightarrow> bool \<Rightarrow> result \<Rightarrow> 'd cluster \<Rightarrow>
    (run_error option \<times> (labels \<times> nat) \<times> bool \<times> result) \<times> 'd cluster" where
  "mig_loop stamp release stored [] before rec exists res c = ((None, rec, exists, res), c)"
| "mig_loop stamp release stored (m # ms) before rec exists res c =
     (if mg_version m \<le> stored then mig_loop stamp release stored ms before rec exists res c
      else case (case before of None \<Rightarrow> None | Some b \<Rightarrow> b c) of
        Some k \<Rightarrow> ((Some (NotReady k), rec, exists, res), c)
      | None \<Rightarrow>
          (case run_of m (stored_data c) of
             (Some k, d) \<Rightarrow> ((Some (MigrationFailed (mg_version m) (mg_name m) k), rec, exists, res), c\<lparr>stored_data := d\<rparr>)
           | (None, d) \<Rightarrow>
               (case save stamp rec exists (mg_version m) release (c\<lparr>stored_data := d\<rparr>) of
                  (Inl k, c) \<Rightarrow> ((Some (RecordMigration (mg_version m) k), rec, exists, res), c)
                | (Inr rec, c) \<Rightarrow> mig_loop stamp release stored ms None rec True
                    (res\<lparr>To := mg_version m, Applied := Applied res @ [mg_version m]\<rparr>) c)))"

definition run_record :: "string \<Rightarrow> string \<Rightarrow> 'd migration list \<Rightarrow> 'd hook \<Rightarrow> labels \<times> nat \<Rightarrow> bool \<Rightarrow> 'd cluster \<Rightarrow>
    (run_error option \<times> result) \<times> 'd cluster" where
  "run_record stamp release ms before rec exists c = (case storedVersion (fst rec) of
      Inl e \<Rightarrow> ((Some e, no_result), c)
    | Inr stored \<Rightarrow>
        if stored > latest ms then ((Some (SchemaTooNew stored (latest ms) (lookup0 (fst rec) keyRelease)), no_result), c)
        else (case mig_loop stamp release stored ms before rec exists \<lparr>From = stored, To = stored, Applied = []\<rparr> c of
            ((Some e, rec, exists, res), c) \<Rightarrow> ((Some e, res), c)
          | ((None, rec, exists, res), c) \<Rightarrow>
              if lookup0 (fst rec) keyRelease \<noteq> release \<or> \<not> exists then
                (case save stamp rec exists (To res) release c of
                   (Inl k, c) \<Rightarrow> ((Some (RecordRelease k), res), c)
                 | (Inr _, c) \<Rightarrow> ((None, res), c))
              else ((None, res), c)))"

definition run_once :: "string \<Rightarrow> string \<Rightarrow> 'd migration list \<Rightarrow> 'd hook \<Rightarrow> 'd cluster \<Rightarrow> (run_error option \<times> result) \<times> 'd cluster" where
  "run_once stamp release ms before c = (case Get_record c of
      (Inl KNotFound, c) \<Rightarrow> run_record stamp release ms before ([], 0) False c
    | (Inl k, c) \<Rightarrow> ((Some (ReadRecord k), no_result), c)
    | (Inr rec, c) \<Rightarrow> run_record stamp release ms before rec True c)"

text \<open>\<open>apierrors.IsConflict\<close> and \<open>IsAlreadyExists\<close> see through the errors that wrap them.\<close>

fun is_race :: "run_error \<Rightarrow> bool" where
  "is_race (ReadRecord k) = (k = KConflict \<or> k = KAlreadyExists)"
| "is_race (NotReady k) = (k = KConflict \<or> k = KAlreadyExists)"
| "is_race (MigrationFailed v n k) = (k = KConflict \<or> k = KAlreadyExists)"
| "is_race (RecordMigration v k) = (k = KConflict \<or> k = KAlreadyExists)"
| "is_race (RecordRelease k) = (k = KConflict \<or> k = KAlreadyExists)"
| "is_race e = False"

definition maxConflicts :: nat where "maxConflicts = 5"

fun run_tries :: "nat \<Rightarrow> run_error \<Rightarrow> string \<Rightarrow> string \<Rightarrow> 'd migration list \<Rightarrow> 'd hook \<Rightarrow> 'd cluster \<Rightarrow> (run_error option \<times> result) \<times> 'd cluster" where
  "run_tries 0 lastErr stamp release ms before c = ((Some (KeptChanging lastErr), no_result), c)"
| "run_tries (Suc n) lastErr stamp release ms before c = (case run_once stamp release ms before c of
      ((Some e, res), c) \<Rightarrow> if is_race e then run_tries n e stamp release ms before c else ((Some e, res), c)
    | ((None, res), c) \<Rightarrow> ((None, res), c))"

definition Run :: "string \<Rightarrow> string \<Rightarrow> 'd migration list \<Rightarrow> 'd hook \<Rightarrow> 'd cluster \<Rightarrow> (run_error option \<times> result) \<times> 'd cluster" where
  "Run stamp release ms before c = (case Validate ms of
      Some e \<Rightarrow> ((Some e, no_result), c)
    | None \<Rightarrow> run_tries maxConflicts (ReadRecord KConflict) stamp release ms before c)"

definition Check :: "'d migration list \<Rightarrow> 'd cluster \<Rightarrow> run_error option \<times> 'd cluster" where
  "Check ms c = (case Validate ms of
      Some e \<Rightarrow> (Some e, c)
    | None \<Rightarrow> (case Get_record c of
          (r, c) \<Rightarrow> (case (case r of Inl KNotFound \<Rightarrow> Inr [] | Inl k \<Rightarrow> Inl (ReadRecord k) | Inr rec \<Rightarrow> Inr (fst rec)) of
              Inl e \<Rightarrow> (Some e, c)
            | Inr data \<Rightarrow> (case storedVersion data of
                  Inl e \<Rightarrow> (Some e, c)
                | Inr stored \<Rightarrow>
                    if stored > latest ms then (Some (SchemaTooNew stored (latest ms) (lookup0 data keyRelease)), c)
                    else if stored < latest ms then (Some (SchemaBehind stored (latest ms) (lookup0 data keyRelease)), c)
                    else (None, c)))))"

section \<open>The record\<close>

lemma keys_differ [simp]: "keySchemaVersion \<noteq> keyRelease" "keySchemaVersion \<noteq> keyUpdatedAt" "keyRelease \<noteq> keyUpdatedAt"
  "keyRelease \<noteq> keySchemaVersion" "keyUpdatedAt \<noteq> keySchemaVersion" "keyUpdatedAt \<noteq> keyRelease"
  by (simp_all add: keySchemaVersion_def keyRelease_def keyUpdatedAt_def)

lemma saved_level: "0 \<le> v \<Longrightarrow> in64 v \<Longrightarrow> storedVersion (saved_data stamp data v release) = Inr v"
  using parse_itoa [of v] by (cases "itoa v") (auto simp: storedVersion_def saved_data_def lookup0_update)

lemma saved_release [simp]: "lookup0 (saved_data stamp data v release) keyRelease = release"
  by (simp add: saved_data_def lookup0_update)

definition level :: "'d cluster \<Rightarrow> run_error + int" where
  "level c = storedVersion (case cm c of None \<Rightarrow> [] | Some (data, rv) \<Rightarrow> data)"

lemma level_Nil [simp]: "storedVersion [] = Inr 0"
  by (simp add: storedVersion_def)

text \<open>Migrations that \<open>Validate\<close> accepts are numbered from one without gaps.\<close>

lemma validate_versions:
  "validate_from i ms = None \<Longrightarrow> j < length ms \<Longrightarrow> mg_version (ms ! j) = i + 1 + int j \<and> mg_run (ms ! j) \<noteq> None"
  by (induction i ms arbitrary: j rule: validate_from.induct) (auto simp: nth_Cons split: if_splits nat.splits)

lemma Validate_latest: "Validate ms = None \<Longrightarrow> latest ms = int (length ms)"
  using validate_versions [of 0 ms "length ms - 1"] by (cases ms rule: rev_cases) (auto simp: Validate_def latest_def)

lemma Validate_nth: "Validate ms = None \<Longrightarrow> j < length ms \<Longrightarrow> mg_version (ms ! j) = int j + 1"
  using validate_versions [of 0 ms j] by (simp add: Validate_def)

lemma skip_loop:
  "\<forall>m \<in> set xs. mg_version m \<le> stored \<Longrightarrow>
     mig_loop stamp release stored (xs @ ys) before rec ex res c = mig_loop stamp release stored ys before rec ex res c"
  by (induction xs) auto

lemma loop_from_level:
  assumes "Validate ms = None" "k \<le> length ms"
  shows "mig_loop stamp release (int k) ms before rec ex res c = mig_loop stamp release (int k) (drop k ms) before rec ex res c"
proof -
  have "\<forall>m \<in> set (take k ms). mg_version m \<le> int k"
    using Validate_nth [OF assms(1)] assms(2) by (auto simp: in_set_conv_nth)
  from skip_loop [OF this, of _ _ "drop k ms"] show ?thesis by simp
qed

subsection \<open>Nobody else writes\<close>

definition consistent :: "labels \<times> nat \<Rightarrow> bool \<Rightarrow> 'd cluster \<Rightarrow> bool" where
  "consistent rec ex c \<longleftrightarrow> (if ex then cm c = Some rec else cm c = None \<and> fst rec = [])"

text \<open>Nobody else writes the record, and no call claims that it is not there.\<close>

fun calm :: "'d event \<Rightarrow> bool" where
  "calm Quiet = True"
| "calm (Refuse k) = (k \<noteq> KNotFound)"
| "calm (Moved d f) = False"

definition undisturbed :: "'d cluster \<Rightarrow> bool" where
  "undisturbed c \<longleftrightarrow> list_all calm (events c)"

lemma happens_undisturbed:
  assumes "undisturbed c" "happens c = (r, c')"
  shows "cm c' = cm c \<and> stored_data c' = stored_data c \<and> next_rv c' = next_rv c \<and> undisturbed c' \<and> r \<noteq> Some KNotFound \<and>
    (events c = [] \<longrightarrow> r = None \<and> c' = c)"
  using assms by (auto simp: undisturbed_def happens_def split: list.splits event.splits)

lemma consistent_level: "consistent rec ex c \<Longrightarrow> level c = storedVersion (fst rec)"
  by (cases rec) (auto simp: consistent_def level_def split: if_splits)

lemma save_undisturbed:
  assumes "undisturbed c" "consistent rec ex c" "save stamp rec ex v release c = (r, c')" "0 \<le> v" "in64 v"
  shows "stored_data c' = stored_data c \<and> undisturbed c' \<and> (events c = [] \<longrightarrow> (\<exists>rec'. r = Inr rec') \<and> events c' = []) \<and>
    (case r of Inl k \<Rightarrow> cm c' = cm c | Inr rec' \<Rightarrow> consistent rec' True c' \<and> storedVersion (fst rec') = Inr v \<and> lookup0 (fst rec') keyRelease = release)"
proof -
  obtain h c1 where h: "happens c = (h, c1)" by fastforce
  note u = happens_undisturbed [OF assms(1) h]
  have "undisturbed (c1\<lparr>cm := x, next_rv := y\<rparr>)" for x y using u by (simp add: undisturbed_def)
  then show ?thesis
    using assms(2,3) h u saved_level [OF assms(4,5)]
    by (cases rec) (auto simp: save_def Create_record_def Update_record_def consistent_def Let_def split: if_splits option.splits)
qed

section \<open>What the migrations promise\<close>

text \<open>
  What \<open>Run\<close> relies on, as the comments on \<open>Migration\<close> ask for it: versions from one without gaps, every
  migration safe to run on any data, and to run again on what it has changed already.
\<close>

locale migration_plan =
  fixes ms :: "'d migration list"
  assumes valid: "Validate ms = None"
    and fits: "in64 (int (length ms))"
    and works: "m \<in> set ms \<Longrightarrow> fst (run_of m d) = None"
    and idempotent: "m \<in> set ms \<Longrightarrow> snd (run_of m (snd (run_of m d))) = snd (run_of m d)"
begin

lemma latest_length: "latest ms = int (length ms)"
  by (rule Validate_latest [OF valid])

definition upto_level :: "nat \<Rightarrow> nat \<Rightarrow> 'd \<Rightarrow> 'd" where
  "upto_level k j d = fold (\<lambda>m d. snd (run_of m d)) (drop k (take j ms)) d"

lemma upto_level_same: "upto_level k k d = d"
  by (simp add: upto_level_def)

lemma upto_level_Suc: "k \<le> j \<Longrightarrow> j < length ms \<Longrightarrow> upto_level k (Suc j) d = snd (run_of (ms ! j) (upto_level k j d))"
  by (simp add: upto_level_def take_Suc_conv_app_nth)

text \<open>The data is that of a level, or of the next already, its record not yet written.\<close>

definition near :: "nat \<Rightarrow> 'd \<Rightarrow> nat \<Rightarrow> 'd \<Rightarrow> bool" where
  "near k d0 j d \<longleftrightarrow> d = upto_level k j d0 \<or> (j < length ms \<and> d = upto_level k (Suc j) d0)"

lemma near_step:
  assumes "near k d0 j d" "k \<le> j" "j < length ms"
  shows "run_of (ms ! j) d = (None, upto_level k (Suc j) d0)"
proof -
  have m: "ms ! j \<in> set ms" using assms(3) by simp
  have "snd (run_of (ms ! j) d) = upto_level k (Suc j) d0"
    using assms idempotent [OF m, of "upto_level k j d0"] by (auto simp: near_def upto_level_Suc)
  with works [OF m, of d] show ?thesis by (cases "run_of (ms ! j) d") simp
qed

lemma level_fits: "j \<le> length ms \<Longrightarrow> in64 (int j)"
  using fits by (simp add: in64_def min_int64_def max_int64_def)

definition progressed :: "nat \<Rightarrow> 'd \<Rightarrow> nat \<Rightarrow> 'd cluster \<Rightarrow> bool" where
  "progressed k d0 i c \<longleftrightarrow> undisturbed c \<and>
     (\<exists>j. i \<le> j \<and> j \<le> length ms \<and> level c = Inr (int j) \<and> near k d0 j (stored_data c))"

lemma loop_progress:
  assumes "mig_loop stamp release stored (drop i ms) before rec ex res c = ((err, rec', ex', res'), c')"
    and "stored \<le> int i" "k \<le> i" "i \<le> length ms" "undisturbed c" "consistent rec ex c" "storedVersion (fst rec) = Inr (int i)"
    and "near k d0 i (stored_data c)" "To res = int i"
  shows "progressed k d0 i c' \<and>
    (err = None \<longrightarrow> consistent rec' ex' c' \<and> storedVersion (fst rec') = Inr (latest ms) \<and> To res' = latest ms \<and>
       From res' = From res \<and> Applied res' = Applied res @ map int [i + 1..<length ms + 1] \<and>
       near k d0 (length ms) (stored_data c')) \<and>
    (events c = [] \<and> before = None \<longrightarrow> err = None \<and> events c' = [])"
  using assms
proof (induction "length ms - i" arbitrary: i before rec ex res c)
  case 0
  then have i: "i = length ms" by simp
  with 0 have "err = None" "rec' = rec" "ex' = ex" "res' = res" "c' = c" by simp_all
  with 0 i show ?case
    by (auto simp: progressed_def latest_length consistent_level)
next
  case (Suc n)
  have i: "i < length ms" using Suc.hyps(2) by simp
  let ?m = "ms ! i" and ?d = "upto_level k (Suc i) d0"
  have ms: "drop i ms = ?m # drop (Suc i) ms" using i by (simp add: Cons_nth_drop_Suc)
  have v: "mg_version ?m = int (Suc i)" using Validate_nth [OF valid i] by simp
  have r: "run_of ?m (stored_data c) = (None, ?d)" by (rule near_step [OF Suc.prems(8,3) i])
  have stay: "progressed k d0 i c" using Suc.prems by (auto simp: progressed_def consistent_level)
  show ?case
  proof (cases "case before of None \<Rightarrow> None | Some b \<Rightarrow> b c")
    case (Some e)
    with Suc.prems(1,2) stay show ?thesis by (auto simp: ms v split: option.splits)
  next
    case None
    note go = this
    let ?c = "c\<lparr>stored_data := ?d\<rparr>"
    obtain sr c1 where s: "save stamp rec ex (int (Suc i)) release ?c = (sr, c1)" by fastforce
    have u: "undisturbed ?c" "consistent rec ex ?c"
      using Suc.prems(5,6) by (simp_all add: undisturbed_def consistent_def)
    note sv = save_undisturbed [OF u s _ level_fits [of "Suc i"]]
    have d1: "stored_data c1 = ?d" and u1: "undisturbed c1" using sv i by auto
    show ?thesis
    proof (cases sr)
      case (Inl e)
      have "level c1 = Inr (int i)"
        using sv Inl i consistent_level [OF Suc.prems(6)] Suc.prems(7) by (auto simp: level_def)
      then have "progressed k d0 i c1" using u1 d1 i by (auto simp: progressed_def near_def)
      moreover have "events c \<noteq> []" using sv Inl i by auto
      ultimately show ?thesis
        using Suc.prems(1,2) go r s Inl by (auto simp: ms v)
    next
      case (Inr rec1)
      let ?res = "res\<lparr>To := int (Suc i), Applied := Applied res @ [int (Suc i)]\<rparr>"
      have loop: "mig_loop stamp release stored (drop (Suc i) ms) None rec1 True ?res c1 = ((err, rec', ex', res'), c')"
        using Suc.prems(1,2) go r s Inr by (simp add: ms v)
      have c1: "consistent rec1 True c1" "storedVersion (fst rec1) = Inr (int (Suc i))" using sv Inr i by auto
      have n1: "near k d0 (Suc i) (stored_data c1)" by (simp add: near_def d1)
      have "n = length ms - Suc i" using Suc.hyps(2) by simp
      from Suc.hyps(1) [OF this loop _ _ _ u1 c1 n1] Suc.prems(2,3) i
      have IH: "progressed k d0 (Suc i) c'" "err = None \<longrightarrow> consistent rec' ex' c' \<and> storedVersion (fst rec') = Inr (latest ms) \<and>
          To res' = latest ms \<and> From res' = From ?res \<and> Applied res' = Applied ?res @ map int [Suc i + 1..<length ms + 1] \<and>
          near k d0 (length ms) (stored_data c')"
        "events c1 = [] \<longrightarrow> err = None \<and> events c' = []" by simp_all
      have "progressed k d0 i c'" using IH(1) by (auto simp: progressed_def)
      moreover have "map int [i + 1..<length ms + 1] = int (Suc i) # map int [Suc i + 1..<length ms + 1]"
        using i by (simp add: upt_conv_Cons)
      moreover have "events c = [] \<longrightarrow> events c1 = []" using sv i by auto
      ultimately show ?thesis using IH(2,3) by auto
    qed
  qed
qed

lemma run_record_progress:
  assumes "run_record stamp release ms before rec ex c = ((err, res), c')" "undisturbed c" "consistent rec ex c"
    and "storedVersion (fst rec) = Inr (int i)" "k \<le> i" "i \<le> length ms" "near k d0 i (stored_data c)"
  shows "progressed k d0 i c' \<and> (events c = [] \<and> before = None \<longrightarrow> err = None \<and> events c' = [] \<and>
      level c' = Inr (latest ms) \<and> near k d0 (length ms) (stored_data c') \<and>
      res = \<lparr>From = int i, To = latest ms, Applied = map int [i + 1..<length ms + 1]\<rparr>)"
proof -
  let ?res = "\<lparr>From = int i, To = int i, Applied = []\<rparr>"
  obtain e1 rec1 ex1 res1 c1 where l: "mig_loop stamp release (int i) (drop i ms) before rec ex ?res c = ((e1, rec1, ex1, res1), c1)"
    by (metis prod.collapse)
  have eq: "run_record stamp release ms before rec ex c = (case e1 of Some e \<Rightarrow> ((Some e, res1), c1)
      | None \<Rightarrow> if lookup0 (fst rec1) keyRelease \<noteq> release \<or> \<not> ex1 then
           (case save stamp rec1 ex1 (To res1) release c1 of (Inl k, c) \<Rightarrow> ((Some (RecordRelease k), res1), c) | (Inr _, c) \<Rightarrow> ((None, res1), c))
         else ((None, res1), c1))"
    using assms(4,6) loop_from_level [OF valid assms(6)] l
    by (auto simp: run_record_def latest_length split: option.splits)
  note p = loop_progress [OF l _ assms(5,6,2,3,4,7)]
  have p1: "progressed k d0 i c1" using p by simp
  show ?thesis
  proof (cases e1)
    case (Some e)
    with p assms(1) eq show ?thesis by auto
  next
    case None
    with p have q: "consistent rec1 ex1 c1" "storedVersion (fst rec1) = Inr (latest ms)" "To res1 = latest ms" "From res1 = int i"
      "Applied res1 = map int [i + 1..<length ms + 1]" "near k d0 (length ms) (stored_data c1)"
      "events c = [] \<and> before = None \<longrightarrow> events c1 = []" by simp_all
    have res1: "res1 = \<lparr>From = int i, To = latest ms, Applied = map int [i + 1..<length ms + 1]\<rparr>"
      by (rule result.equality) (simp_all add: q)
    have lv: "level c1 = Inr (latest ms)" using consistent_level [OF q(1)] q(2) by simp
    have u1: "undisturbed c1" using p1 by (simp add: progressed_def)
    have here: "progressed k d0 i c2" if "undisturbed c2" "level c2 = Inr (latest ms)" "stored_data c2 = stored_data c1" for c2
      using that q(6) assms(6) by (auto simp: progressed_def latest_length)
    show ?thesis
    proof (cases "lookup0 (fst rec1) keyRelease \<noteq> release \<or> \<not> ex1")
      case False
      with None eq assms(1) q lv res1 here [OF u1 lv refl] show ?thesis by auto
    next
      case True
      obtain sr c2 where s: "save stamp rec1 ex1 (latest ms) release c1 = (sr, c2)" by fastforce
      note sv = save_undisturbed [OF u1 q(1) s _ level_fits [of "length ms", folded latest_length]]
      have c2: "undisturbed c2" "stored_data c2 = stored_data c1" "level c2 = Inr (latest ms)"
        using sv consistent_level [of _ True c2] lv by (auto simp: latest_length level_def split: sum.splits)
      show ?thesis
        using None True eq assms(1) q sv s res1 c2 here [OF c2(1,3,2)] by (cases sr) (auto simp: latest_length)
    qed
  qed
qed

lemma run_once_progress:
  assumes "run_once stamp release ms before c = ((err, res), c')" "undisturbed c" "level c = Inr (int i)"
    and "k \<le> i" "i \<le> length ms" "near k d0 i (stored_data c)"
  shows "progressed k d0 i c' \<and> (events c = [] \<and> before = None \<longrightarrow> err = None \<and> events c' = [] \<and>
      level c' = Inr (latest ms) \<and> near k d0 (length ms) (stored_data c') \<and>
      res = \<lparr>From = int i, To = latest ms, Applied = map int [i + 1..<length ms + 1]\<rparr>)"
proof -
  obtain h c1 where h: "happens c = (h, c1)" by fastforce
  note u = happens_undisturbed [OF assms(2) h]
  have lv: "level c1 = Inr (int i)" using u assms(3) by (simp add: level_def)
  have n: "near k d0 i (stored_data c1)" using u assms(6) by simp
  show ?thesis
  proof (cases h)
    case (Some e)
    then have "c' = c1" "events c \<noteq> []" using assms(1) h u by (auto simp: run_once_def Get_record_def split: kube_error.splits)
    then show ?thesis using u lv n assms(5) by (auto simp: progressed_def)
  next
    case None
    obtain rec ex where re: "consistent rec ex c1" "run_record stamp release ms before rec ex c1 = ((err, res), c')"
    proof (cases "cm c1")
      case None
      with assms(1) h \<open>h = None\<close> show ?thesis
        by (intro that [of "([], 0)" False]) (auto simp: run_once_def Get_record_def consistent_def)
    next
      case (Some rec)
      with assms(1) h \<open>h = None\<close> show ?thesis
        by (intro that [of rec True]) (auto simp: run_once_def Get_record_def consistent_def)
    qed
    have "storedVersion (fst rec) = Inr (int i)" using consistent_level [OF re(1)] lv by simp
    from run_record_progress [OF re(2) _ re(1) this assms(4,5) n] u show ?thesis by auto
  qed
qed

lemma run_tries_progress:
  assumes "progressed k d0 i c" "k \<le> i"
  shows "progressed k d0 i (snd (run_tries n e stamp release ms before c))"
  using assms
proof (induction n arbitrary: c e)
  case (Suc n)
  obtain err res c1 where r: "run_once stamp release ms before c = ((err, res), c1)" by (metis prod.collapse)
  obtain j where j: "i \<le> j" "j \<le> length ms" "level c = Inr (int j)" "near k d0 j (stored_data c)" "undisturbed c"
    using Suc.prems(1) by (auto simp: progressed_def)
  have "progressed k d0 j c1" using run_once_progress [OF r j(5,3) _ j(2,4)] Suc.prems(2) j(1) by simp
  then have p: "progressed k d0 i c1" using j(1) by (auto simp: progressed_def)
  show ?case using r p Suc.IH [OF p Suc.prems(2)] by (cases err) auto
qed simp

lemma quiet_Run:
  assumes "events c = []" "level c = Inr (int i)" "k \<le> i" "i \<le> length ms" "near k d0 i (stored_data c)"
  shows "\<exists>c'. Run stamp release ms None c = ((None, \<lparr>From = int i, To = latest ms, Applied = map int [i + 1..<length ms + 1]\<rparr>), c') \<and>
    events c' = [] \<and> level c' = Inr (latest ms) \<and> stored_data c' = upto_level k (length ms) d0"
proof -
  obtain err res c1 where r: "run_once stamp release ms None c = ((err, res), c1)" by (metis prod.collapse)
  have "undisturbed c" using assms(1) by (simp add: undisturbed_def)
  from run_once_progress [OF r this assms(2-5)] assms(1) r show ?thesis
    by (auto simp: Run_def valid maxConflicts_def numeral_eq_Suc near_def)
qed

lemma Run_progress:
  assumes "undisturbed c" "level c = Inr (int k)" "k \<le> length ms"
  shows "progressed k (stored_data c) k (snd (Run stamp release ms before c))"
proof -
  have "progressed k (stored_data c) k c"
    using assms by (auto simp: progressed_def near_def upto_level_same)
  then show ?thesis by (simp add: Run_def valid run_tries_progress)
qed

end

interpretation baseline: migration_plan all_migrations
  by unfold_locales (auto simp: all_migrations_def Validate_def run_of_def in64_def min_int64_def max_int64_def)


section \<open>Running the migrations\<close>

lemma versions_above:
  "Validate ms = None \<Longrightarrow> map mg_version (drop k ms) = map int [k + 1..<length ms + 1]"
  by (rule nth_equalityI) (simp_all add: Validate_nth del: upt_Suc)

lemma Run_migrates_helper:
  assumes "migration_plan ms" "events c = []" "level c = Inr k" "0 \<le> k" "k \<le> latest ms"
  shows "\<exists>c'. Run stamp release ms None c =
      ((None, \<lparr>From = k, To = latest ms, Applied = map mg_version (drop (nat k) ms)\<rparr>), c') \<and>
    level c' = Inr (latest ms) \<and> stored_data c' = fold (\<lambda>m d. snd (run_of m d)) (drop (nat k) ms) (stored_data c)"
proof -
  note latest = migration_plan.latest_length [OF assms(1)] and valid = migration_plan.valid [OF assms(1)]
  have "migration_plan.near ms (nat k) (stored_data c) (nat k) (stored_data c)"
    using assms(1) by (simp add: migration_plan.near_def migration_plan.upto_level_same)
  moreover have "nat k \<le> length ms" using assms(5) latest by simp
  ultimately show ?thesis
    using migration_plan.quiet_Run [OF assms(1,2), of "nat k" "nat k" "stored_data c" stamp release] assms(3,4)
    by (auto simp: migration_plan.upto_level_def [OF assms(1)] versions_above [OF valid])
qed

text \<open>
  C33. \<open>Run\<close> runs every migration the cluster has not had, once each and in order. When nobody interferes, and the
  recorded level is known and not beyond the newest, it succeeds; the migrations above the level are exactly the
  ones that ran, in order, each on what the one before left; and the record is at the newest level.
\<close>

theorem Run_migrates:
  assumes "migration_plan ms" "events c = []" "level c = Inr k" "0 \<le> k" "k \<le> latest ms"
  shows "\<exists>c'. Run stamp release ms None c =
      ((None, \<lparr>From = k, To = latest ms, Applied = map mg_version (drop (nat k) ms)\<rparr>), c') \<and>
    level c' = Inr (latest ms) \<and> stored_data c' = fold (\<lambda>m d. snd (run_of m d)) (drop (nat k) ms) (stored_data c)"
  by (rule Run_migrates_helper [OF assms])

definition fresh_cluster :: "nat cluster" where
  "fresh_cluster = \<lparr>cm = None, next_rv = 1, stored_data = 7, events = []\<rparr>"

lemma fresh_level: "level fresh_cluster = Inr 0"
  by (simp add: fresh_cluster_def level_def)

theorem Run_migrates_witness:
  "\<exists>c'. Run ''now'' ''v1'' all_migrations None fresh_cluster = ((None, \<lparr>From = 0, To = 1, Applied = [1]\<rparr>), c') \<and>
     level c' = Inr 1 \<and> stored_data c' = 7"
proof -
  have "events fresh_cluster = []" "0 \<le> latest (all_migrations :: nat migration list)"
    by (simp_all add: fresh_cluster_def all_migrations_def latest_def)
  from Run_migrates [OF baseline.migration_plan_axioms this(1) fresh_level _ this(2), of "''now''" "''v1''"] show ?thesis
    by (simp add: all_migrations_def latest_def run_of_def fresh_cluster_def)
qed

text \<open>
  C34. An interrupted \<open>Run\<close> is made good by the next. Whatever calls fail, at whatever point and however often (as long
  as no other operator writes), \<open>Run\<close> leaves the data of the recorded level or of the next one; and when it is run
  again undisturbed, the data is what one undisturbed run over the original data would have made of it.
\<close>

theorem Run_recovers:
  assumes "migration_plan ms" "undisturbed c" "level c = Inr k" "0 \<le> k" "k \<le> latest ms"
  shows "\<exists>res c'. Run stamp' release' ms None ((snd (Run stamp release ms before c))\<lparr>events := []\<rparr>) = ((None, res), c') \<and> level c' = Inr (latest ms) \<and>
    stored_data c' = fold (\<lambda>m d. snd (run_of m d)) (drop (nat k) ms) (stored_data c)"
proof -
  define interrupted where "interrupted = snd (Run stamp release ms before c)"
  note latest = migration_plan.latest_length [OF assms(1)]
  have k: "nat k \<le> length ms" "level c = Inr (int (nat k))" using assms(3-5) latest by simp_all
  from migration_plan.Run_progress [OF assms(1,2) k(2,1), of stamp release before]
  obtain j where j: "nat k \<le> j" "j \<le> length ms" "level interrupted = Inr (int j)"
    "migration_plan.near ms (nat k) (stored_data c) j (stored_data interrupted)"
    unfolding interrupted_def by (auto simp: migration_plan.progressed_def [OF assms(1)])
  have "level (interrupted\<lparr>events := []\<rparr>) = Inr (int j)" using j(3) by (simp add: level_def)
  from migration_plan.quiet_Run [OF assms(1) _ this j(1,2), of "stored_data c" stamp' release'] j(4)
  show ?thesis unfolding interrupted_def by (auto simp: migration_plan.upto_level_def [OF assms(1)])
qed

theorem Run_recovers_witness:
  "\<exists>res c'. Run ''now'' ''v1'' all_migrations None
       ((snd (Run ''now'' ''v1'' all_migrations None (fresh_cluster\<lparr>events := [Quiet, Refuse (KOther ''down'')]\<rparr>)))\<lparr>events := []\<rparr>) =
     ((None, res), c') \<and> level c' = Inr 1 \<and> stored_data c' = 7"
proof -
  let ?c = "fresh_cluster\<lparr>events := [Quiet, Refuse (KOther ''down'')]\<rparr>"
  have "undisturbed ?c" "level ?c = Inr 0" "0 \<le> latest (all_migrations :: nat migration list)"
    by (simp_all add: fresh_cluster_def undisturbed_def level_def all_migrations_def latest_def)
  from Run_recovers [OF baseline.migration_plan_axioms this(1,2) _ this(3), of "''now''" "''v1''" "''now''" "''v1''" None]
  show ?thesis by (simp add: all_migrations_def latest_def run_of_def fresh_cluster_def)
qed

text \<open>
  What the record guards against. On its own, \<open>Run\<close> refuses exactly when the level cannot be read or is beyond the
  newest migration, and then it has changed neither the data nor the record; and \<open>Check\<close>, which never changes
  anything, passes exactly when the recorded level is the newest migration's.
\<close>

theorem Run_guards_level:
  assumes "migration_plan ms" "events c = []"
  shows "(fst (fst (Run stamp release ms None c)) \<noteq> None \<longleftrightarrow> (case level c of Inl e \<Rightarrow> True | Inr v \<Rightarrow> v > latest ms)) \<and>
    (fst (fst (Run stamp release ms None c)) \<noteq> None \<longrightarrow> snd (Run stamp release ms None c) = c) \<and>
    (fst (Check ms c) = None \<longleftrightarrow> level c = Inr (latest ms)) \<and> snd (Check ms c) = c"
proof -
  note valid = migration_plan.valid [OF assms(1)]
  have h: "happens c = (None, c)" using assms(2) by (simp add: happens_def)
  have check: "(fst (Check ms c) = None \<longleftrightarrow> level c = Inr (latest ms)) \<and> snd (Check ms c) = c"
    using valid by (auto simp: Check_def Get_record_def h level_def split: option.splits sum.splits prod.splits)
  have stop: "run_once stamp release ms None c = ((Some e, no_result), c) \<and> \<not> is_race e"
    if "level c = Inl e" for e
  proof -
    have "\<not> is_race e" using that by (auto simp: level_def storedVersion_def split: list.splits if_splits option.splits)
    with that show ?thesis by (auto simp: run_once_def Get_record_def h run_record_def level_def split: option.splits)
  qed
  have ahead: "\<exists>e. run_once stamp release ms None c = ((Some e, no_result), c) \<and> \<not> is_race e" if "level c = Inr v" "v > latest ms" for v
    using that by (auto simp: run_once_def Get_record_def h run_record_def level_def split: option.splits)
  have go: "fst (fst (Run stamp release ms None c)) = None" if "level c = Inr v" "\<not> v > latest ms" for v
  proof -
    have "0 \<le> v" using that(1) by (auto simp: level_def storedVersion_def split: list.splits if_splits option.splits)
    with Run_migrates_helper [OF assms that(1), of stamp release] that(2) show ?thesis by auto
  qed
  show ?thesis
  proof (cases "level c")
    case (Inl e)
    with stop [OF Inl] check show ?thesis by (auto simp: Run_def valid maxConflicts_def numeral_eq_Suc)
  next
    case (Inr v)
    show ?thesis
    proof (cases "v > latest ms")
      case True
      with ahead [OF Inr True] Inr check show ?thesis by (auto simp: Run_def valid maxConflicts_def numeral_eq_Suc)
    next
      case False
      with go [OF Inr False] Inr check show ?thesis by simp
    qed
  qed
qed


theorem Run_guards_level_witness:
  "fst (fst (Run ''now'' ''v1'' all_migrations None (fresh_cluster\<lparr>cm := Some ([(keyRelease, ''v9'')], 1)\<rparr>))) \<noteq> None \<and>
   fst (Check all_migrations fresh_cluster) \<noteq> None"
proof -
  let ?c = "fresh_cluster\<lparr>cm := Some ([(keyRelease, ''v9'')], 1)\<rparr>"
  have "events ?c = []" "events fresh_cluster = []" by (simp_all add: fresh_cluster_def)
  moreover have "level ?c = Inl (NoLevel 1)"
    by (simp add: level_def fresh_cluster_def storedVersion_def lookup0_def)
  ultimately show ?thesis
    using Run_guards_level [OF baseline.migration_plan_axioms, of ?c "''now''" "''v1''"]
      Run_guards_level [OF baseline.migration_plan_axioms, of fresh_cluster "''now''" "''v1''"]
    by (simp add: fresh_level) (simp add: all_migrations_def latest_def)
qed

subsection \<open>Other operators\<close>

text \<open>What a record, as far as it can be read, says is at least the level \<open>L\<close>.\<close>

definition reached :: "int \<Rightarrow> labels \<Rightarrow> bool" where
  "reached L data \<longleftrightarrow> (case storedVersion data of Inl e \<Rightarrow> True | Inr v \<Rightarrow> L \<le> v)"

definition record_reached :: "int \<Rightarrow> 'd cluster \<Rightarrow> bool" where
  "record_reached L c \<longleftrightarrow> reached L (case cm c of None \<Rightarrow> [] | Some (data, rv) \<Rightarrow> data)"

definition others_reach :: "int \<Rightarrow> 'd cluster \<Rightarrow> bool" where
  "others_reach L c \<longleftrightarrow> list_all (\<lambda>e. case e of Moved data f \<Rightarrow> reached L data | Refuse k \<Rightarrow> k \<noteq> KNotFound | Quiet \<Rightarrow> True) (events c)"

text \<open>A resourceVersion that was read belongs to one content of the record.\<close>

definition tracked :: "labels \<times> nat \<Rightarrow> bool \<Rightarrow> 'd cluster \<Rightarrow> bool" where
  "tracked rec ex c \<longleftrightarrow> (ex \<longrightarrow> snd rec < next_rv c) \<and>
     (case cm c of None \<Rightarrow> True | Some (data, rv) \<Rightarrow> ex \<and> rv = snd rec \<longrightarrow> data = fst rec)"

definition fresh_versions :: "'d cluster \<Rightarrow> bool" where
  "fresh_versions c \<longleftrightarrow> (case cm c of None \<Rightarrow> True | Some (data, rv) \<Rightarrow> rv < next_rv c)"

definition holds_level :: "int \<Rightarrow> 'd cluster \<Rightarrow> bool" where
  "holds_level L c \<longleftrightarrow> record_reached L c \<and> others_reach L c \<and> fresh_versions c"

lemma happens_holds:
  assumes "happens c = (r, c')" "holds_level L c" "tracked rec ex c"
  shows "holds_level L c' \<and> tracked rec ex c' \<and> r \<noteq> Some KNotFound"
  using assms
  by (auto simp: happens_def holds_level_def record_reached_def others_reach_def tracked_def fresh_versions_def
      split: list.splits event.splits option.splits)

lemma data_holds [simp]:
  "holds_level L (c\<lparr>stored_data := d\<rparr>) = holds_level L c" "tracked rec ex (c\<lparr>stored_data := d\<rparr>) = tracked rec ex c"
  by (auto simp: holds_level_def record_reached_def others_reach_def tracked_def fresh_versions_def split: option.splits)

lemma save_holds:
  assumes "save stamp rec ex v release c = (r, c')" "holds_level L c" "tracked rec ex c"
    and "storedVersion (fst rec) = Inr s" "s \<le> v" "0 \<le> v" "in64 v"
  shows "holds_level L c' \<and> (\<forall>rec'. r = Inr rec' \<longrightarrow> tracked rec' True c' \<and> storedVersion (fst rec') = Inr v)"
proof -
  obtain h c1 where h: "happens c = (h, c1)" by fastforce
  note u = happens_holds [OF h assms(2,3)]
  let ?data = "saved_data stamp (fst rec) v release"
  let ?c = "c1\<lparr>cm := Some (?data, next_rv c1), next_rv := Suc (next_rv c1)\<rparr>"
  have lv: "storedVersion ?data = Inr v" by (rule saved_level [OF assms(6,7)])
  have ok: "holds_level L ?c" if "L \<le> v"
    using u that by (simp add: holds_level_def record_reached_def reached_def others_reach_def fresh_versions_def lv)
  have new: "tracked (?data, next_rv c1) True ?c" by (simp add: tracked_def)
  have written: "L \<le> v" if "cm c1 = (if ex then Some (d, snd rec) else None)" for d
    using that u assms(4-6) by (auto simp: holds_level_def record_reached_def reached_def tracked_def split: if_splits)
  show ?thesis
  proof (cases "h = None \<and> (\<exists>d. cm c1 = (if ex then Some (d, snd rec) else None))")
    case True
    then have "r = Inr (?data, next_rv c1) \<and> c' = ?c"
      using assms(1) h by (auto simp: save_def Create_record_def Update_record_def Let_def split: if_splits)
    with True ok written new lv show ?thesis by auto
  next
    case False
    then have "c' = c1 \<and> (\<forall>rec'. r \<noteq> Inr rec')"
      using assms(1) h by (auto simp: save_def Create_record_def Update_record_def Let_def split: if_splits option.splits prod.splits)
    with u show ?thesis by simp
  qed
qed

lemma loop_holds:
  assumes "mig_loop stamp release stored ms before rec ex res c = ((err, rec', ex', res'), c')"
    and "holds_level L c" "tracked rec ex c" "storedVersion (fst rec) = Inr (To res)"
    and "sorted_wrt (<) (map mg_version ms)" "\<forall>m \<in> set ms. 0 \<le> mg_version m \<and> in64 (mg_version m) \<and> (stored < mg_version m \<longrightarrow> To res \<le> mg_version m)"
  shows "holds_level L c' \<and> (err = None \<longrightarrow> tracked rec' ex' c' \<and> storedVersion (fst rec') = Inr (To res'))"
  using assms
proof (induction ms arbitrary: before rec ex res c)
  case (Cons m ms)
  show ?case
  proof (cases "mg_version m \<le> stored")
    case True
    with Cons.prems show ?thesis using Cons.IH [of before rec ex res c] by simp
  next
    case False
    obtain re d where r: "run_of m (stored_data c) = (re, d)" by fastforce
    obtain sr c1 where s: "save stamp rec ex (mg_version m) release (c\<lparr>stored_data := d\<rparr>) = (sr, c1)" by fastforce
    have v: "To res \<le> mg_version m" "0 \<le> mg_version m" "in64 (mg_version m)" using Cons.prems(6) False by auto
    have sv: "holds_level L c1" "\<forall>rec1. sr = Inr rec1 \<longrightarrow> tracked rec1 True c1 \<and> storedVersion (fst rec1) = Inr (mg_version m)"
      using save_holds [OF s _ _ Cons.prems(4) v] Cons.prems(2,3) by auto
    show ?thesis
    proof (cases "(case before of None \<Rightarrow> None | Some b \<Rightarrow> b c) = None \<and> re = None \<and> (\<exists>rec1. sr = Inr rec1)")
      case True
      then obtain rec1 where rec1: "sr = Inr rec1" by blast
      let ?res = "res\<lparr>To := mg_version m, Applied := Applied res @ [mg_version m]\<rparr>"
      have loop: "mig_loop stamp release stored ms None rec1 True ?res c1 = ((err, rec', ex', res'), c')"
        using Cons.prems(1) False True r s rec1 by simp
      have later: "\<forall>n \<in> set ms. 0 \<le> mg_version n \<and> in64 (mg_version n) \<and> (stored < mg_version n \<longrightarrow> To ?res \<le> mg_version n)"
        using Cons.prems(5,6) by fastforce
      show ?thesis using Cons.IH [OF loop sv(1) _ _ _ later] sv(2) rec1 Cons.prems(5) by simp
    next
      case False
      then show ?thesis
        using Cons.prems(1,2) \<open>\<not> mg_version m \<le> stored\<close> r s sv(1)
        by (cases re; cases sr) (auto split: option.splits)
    qed
  qed
qed simp

lemma versions_sorted:
  assumes "Validate ms = None" "in64 (latest ms)"
  shows "sorted_wrt (<) (map mg_version ms)" "\<forall>m \<in> set ms. 0 \<le> mg_version m \<and> in64 (mg_version m) \<and> (s < mg_version m \<longrightarrow> s \<le> mg_version m)"
proof -
  show "sorted_wrt (<) (map mg_version ms)"
    using Validate_nth [OF assms(1)] by (simp add: sorted_wrt_iff_nth_less)
  show "\<forall>m \<in> set ms. 0 \<le> mg_version m \<and> in64 (mg_version m) \<and> (s < mg_version m \<longrightarrow> s \<le> mg_version m)"
    using Validate_nth [OF assms(1)] assms(2) Validate_latest [OF assms(1)]
    by (fastforce simp: in_set_conv_nth in64_def min_int64_def max_int64_def)
qed

lemma stored_nonneg: "storedVersion data = Inr v \<Longrightarrow> 0 \<le> v \<and> in64 v"
  by (auto simp: storedVersion_def parse_int64_def in64_def min_int64_def max_int64_def Let_def split: list.splits if_splits option.splits prod.splits)

lemma run_record_holds:
  assumes "Validate ms = None" "in64 (latest ms)" "run_record stamp release ms before rec ex c = (r, c')" "holds_level L c" "tracked rec ex c"
  shows "holds_level L c'"
proof (cases "storedVersion (fst rec)")
  case (Inl e)
  with assms(3,4) show ?thesis by (simp add: run_record_def)
next
  case (Inr s)
  show ?thesis
  proof (cases "s > latest ms")
    case True
    with Inr assms(3,4) show ?thesis by (simp add: run_record_def)
  next
    case False
    obtain err rec1 ex1 res1 c1 where l: "mig_loop stamp release s ms before rec ex \<lparr>From = s, To = s, Applied = []\<rparr> c = ((err, rec1, ex1, res1), c1)"
      by (metis prod.collapse)
    have p: "holds_level L c1" "err = None \<longrightarrow> tracked rec1 ex1 c1 \<and> storedVersion (fst rec1) = Inr (To res1)"
      using loop_holds [OF l assms(4,5) _ versions_sorted(1) [OF assms(1,2)]] Inr versions_sorted(2) [OF assms(1,2), of s] by auto
    obtain sr c2 where s: "save stamp rec1 ex1 (To res1) release c1 = (sr, c2)" by fastforce
    have "err = None \<Longrightarrow> holds_level L c2"
      using save_holds [OF s p(1)] p(2) stored_nonneg [of "fst rec1" "To res1"] by auto
    with p(1) l s Inr False assms(3) show ?thesis
      by (cases err) (auto simp: run_record_def split: if_splits sum.splits)
  qed
qed


lemma run_once_holds:
  assumes "Validate ms = None" "in64 (latest ms)" "run_once stamp release ms before c = (r, c')" "holds_level L c"
  shows "holds_level L c'"
proof -
  obtain h c1 where h: "happens c = (h, c1)" by fastforce
  have c1: "holds_level L c1" "h \<noteq> Some KNotFound" using happens_holds [OF h assms(4), of "([], 0)" False] by (auto simp: tracked_def split: option.splits)
  show ?thesis
  proof (cases h)
    case (Some k)
    with c1 h assms(3) show ?thesis by (cases k) (auto simp: run_once_def Get_record_def)
  next
    case None
    show ?thesis
    proof (cases "cm c1")
      case None
      then have "tracked ([], 0) False c1" by (simp add: tracked_def)
      with None \<open>h = None\<close> h assms(3) show ?thesis
        using run_record_holds [OF assms(1,2) _ c1(1)] by (auto simp: run_once_def Get_record_def)
    next
      case (Some rec)
      then have "tracked rec True c1" using c1(1) by (auto simp: tracked_def holds_level_def fresh_versions_def split: prod.splits)
      with Some \<open>h = None\<close> h assms(3) show ?thesis
        using run_record_holds [OF assms(1,2) _ c1(1)] by (auto simp: run_once_def Get_record_def)
    qed
  qed
qed

lemma run_tries_holds:
  assumes "Validate ms = None" "in64 (latest ms)" "holds_level L c"
  shows "holds_level L (snd (run_tries n e stamp release ms before c))"
  using assms(3)
proof (induction n arbitrary: c e)
  case (Suc n)
  obtain err res c1 where r: "run_once stamp release ms before c = ((err, res), c1)" by (metis prod.collapse)
  have "holds_level L c1" by (rule run_once_holds [OF assms(1,2) r Suc.prems])
  with r Suc.IH show ?case by (cases err) auto
qed simp

text \<open>
  C36. The record never goes back. Let other operators write the record, and the data, before any call of \<open>Run\<close>, and let
  any call fail: if the record, and every record the others write, is at level \<open>L\<close> or beyond, or is not one that
  \<open>Run\<close> would go on from, then the record is so after \<open>Run\<close>. An operator that is behind, or that read the record
  before another moved it, does not take the cluster back.
\<close>

theorem Run_never_lowers:
  assumes "in64 (latest ms)" "record_reached L c" "others_reach L c" "fresh_versions c"
  shows "record_reached L (snd (Run stamp release ms before c))"
proof (cases "Validate ms")
  case None
  have "holds_level L c" using assms(2-4) by (simp add: holds_level_def)
  from run_tries_holds [OF None assms(1) this] show ?thesis
    by (simp add: Run_def None holds_level_def)
qed (simp add: Run_def assms(2))

theorem Run_never_lowers_witness:
  "record_reached 1 (snd (Run ''now'' ''v1'' all_migrations None
     (fresh_cluster\<lparr>cm := Some ([(keySchemaVersion, ''1'')], 0), events := [Quiet, Moved [(keySchemaVersion, ''2'')] (\<lambda>d. d + 1)]\<rparr>)))"
proof -
  let ?c = "fresh_cluster\<lparr>cm := Some ([(keySchemaVersion, ''1'')], 0), events := [Quiet, Moved [(keySchemaVersion, ''2'')] (\<lambda>d. d + 1)]\<rparr>"
  have "storedVersion [(keySchemaVersion, ''1'')] = Inr 1" "storedVersion [(keySchemaVersion, ''2'')] = Inr 2"
    by (simp_all add: storedVersion_def lookup0_def parse_int64_def digit_of_def in64_def min_int64_def max_int64_def Let_def)
  then have "record_reached 1 ?c" "others_reach 1 ?c" "fresh_versions ?c"
    by (simp_all add: record_reached_def others_reach_def fresh_versions_def fresh_cluster_def reached_def)
  moreover have "in64 (latest (all_migrations :: nat migration list))"
    by (simp add: all_migrations_def latest_def in64_def min_int64_def max_int64_def)
  ultimately show ?thesis using Run_never_lowers by blast
qed

end

