(* ===== verification/Lease.thy ===== *)
theory Lease
  imports Migrations
begin

section \<open>Waiting for the previous operator (lease.go)\<close>

text \<open>
  \<open>activeHolder\<close> reads the leader election lease, \<open>waitForLeaseRelease\<close> waits until nobody renews it. What the
  code sees from outside is a sequence of looks, one for each round of the loop: the clock, the lease or an
  error, and whether the wait after it is cut short. The loop may go on for ever if the clock stands still, so
  it is a partial function; the loop reads the clock twice in a round, which is one reading here.
\<close>

definition defaultLeaseDuration :: duration where "defaultLeaseDuration = 15 * Second"
definition leasePoll :: duration where "leasePoll = 2 * Second"

text \<open>The zero of \<open>time.Time\<close>, January 1 of the year 1, in nanoseconds from the Unix epoch.\<close>

definition zero_time :: time where "zero_time = - 62135596800 * Second"

record lease =
  ls_holder :: "string option"
  ls_renew :: "time option"
  ls_acquire :: "time option"
  ls_duration_seconds :: "int option"

definition lease_last :: "lease \<Rightarrow> time" where
  "lease_last l = (case ls_renew l of Some t \<Rightarrow> t | None \<Rightarrow> (case ls_acquire l of Some t \<Rightarrow> t | None \<Rightarrow> zero_time))"

definition lease_duration :: "lease \<Rightarrow> duration" where
  "lease_duration l = (case ls_duration_seconds l of None \<Rightarrow> defaultLeaseDuration
     | Some s \<Rightarrow> if s > 0 then s * Second else defaultLeaseDuration)"

text \<open>Who holds the lease and renews it, and when it was last renewed.\<close>

definition activeHolder :: "kube_error + lease \<Rightarrow> time \<Rightarrow> kube_error + (string \<times> time) option" where
  "activeHolder got now = (case got of
      Inl KNotFound \<Rightarrow> Inr None
    | Inl e \<Rightarrow> Inl e
    | Inr l \<Rightarrow> (case ls_holder l of
          None \<Rightarrow> Inr None
        | Some holder \<Rightarrow>
            if holder = [] then Inr None
            else if now > lease_last l + lease_duration l then Inr None
            else Inr (Some (holder, lease_last l))))"

record look =
  lk_now :: time
  lk_lease :: "kube_error + lease"
  lk_cancelled :: bool

datatype wait_result = Released | StillRunning string time | ReadFailed kube_error | Cancelled

partial_function (option) wait_loop :: "time \<Rightarrow> (nat \<Rightarrow> look) \<Rightarrow> nat \<Rightarrow> wait_result option" where
  [code]: "wait_loop deadline looks i = (case activeHolder (lk_lease (looks i)) (lk_now (looks i)) of
      Inl e \<Rightarrow> Some (ReadFailed e)
    | Inr None \<Rightarrow> Some Released
    | Inr (Some (holder, renewed)) \<Rightarrow>
        if \<not> lk_now (looks i) < deadline then Some (StillRunning holder renewed)
        else if lk_cancelled (looks i) then Some Cancelled
        else wait_loop deadline looks (i + 1))"

definition waitForLeaseRelease :: "duration \<Rightarrow> (nat \<Rightarrow> look) \<Rightarrow> wait_result option" where
  "waitForLeaseRelease wait looks = wait_loop (lk_now (looks 0) + wait) looks 0"

section \<open>The wait ends\<close>

text \<open>What a round decides: the result, or to go on.\<close>

definition verdict :: "time \<Rightarrow> look \<Rightarrow> wait_result option" where
  "verdict deadline lk = (case activeHolder (lk_lease lk) (lk_now lk) of
      Inl e \<Rightarrow> Some (ReadFailed e)
    | Inr None \<Rightarrow> Some Released
    | Inr (Some (holder, renewed)) \<Rightarrow>
        if \<not> lk_now lk < deadline then Some (StillRunning holder renewed) else if lk_cancelled lk then Some Cancelled else None)"

lemma wait_loop_verdict:
  "wait_loop deadline looks i = (case verdict deadline (looks i) of Some r \<Rightarrow> Some r | None \<Rightarrow> wait_loop deadline looks (i + 1))"
  by (subst wait_loop.simps) (auto simp: verdict_def split: sum.splits option.splits prod.splits)

lemma verdict_None: "verdict deadline lk = None \<Longrightarrow> lk_now lk < deadline \<and> (\<exists>h. activeHolder (lk_lease lk) (lk_now lk) = Inr (Some h))"
  by (auto simp: verdict_def split: sum.splits option.splits prod.splits if_splits)

lemma wait_loop_first:
  assumes "verdict deadline (looks (i + n)) = Some r" "\<forall>j < n. verdict deadline (looks (i + j)) = None"
  shows "wait_loop deadline looks i = Some r"
  using assms
proof (induction n arbitrary: i)
  case 0
  then show ?case by (simp add: wait_loop_verdict [of _ _ i])
next
  case (Suc n)
  have "verdict deadline (looks i) = None" using Suc.prems(2) by (metis add.right_neutral zero_less_Suc)
  moreover have "wait_loop deadline looks (i + 1) = Some r"
    by (rule Suc.IH) (use Suc.prems in auto)
  ultimately show ?case by (simp add: wait_loop_verdict [of _ _ i])
qed

lemma clock_advances:
  assumes "\<forall>i. lk_now (looks i) + leasePoll \<le> lk_now (looks (i + 1))"
  shows "lk_now (looks 0) + int n * leasePoll \<le> lk_now (looks n)"
proof (induction n)
  case (Suc n)
  have "lk_now (looks n) + leasePoll \<le> lk_now (looks (Suc n))" using assms [rule_format, of n] by simp
  with Suc show ?case by (simp add: algebra_simps)
qed simp

text \<open>
  C37. The wait for the previous operator ends, and says why. When every sleep takes its two seconds, the loop returns
  after at most one round for every two seconds of the wait and one more; with \<open>Released\<close> only when at that
  look nobody held the lease and renewed it in time, and with an operator that is still running only when the
  time was up and that operator's lease had not run out. In every round before, somebody did and there was time.
\<close>

theorem lease_wait_ends:
  assumes "\<forall>i. lk_now (looks i) + leasePoll \<le> lk_now (looks (i + 1))" "0 \<le> wait"
  shows "\<exists>n r. waitForLeaseRelease wait looks = Some r \<and> int n \<le> wait div leasePoll + 1 \<and>
    (\<forall>j < n. lk_now (looks j) < lk_now (looks 0) + wait \<and> (\<exists>h. activeHolder (lk_lease (looks j)) (lk_now (looks j)) = Inr (Some h))) \<and>
    (r = Released \<longrightarrow> activeHolder (lk_lease (looks n)) (lk_now (looks n)) = Inr None) \<and>
    (\<forall>h t. r = StillRunning h t \<longrightarrow> lk_now (looks 0) + wait \<le> lk_now (looks n) \<and>
       activeHolder (lk_lease (looks n)) (lk_now (looks n)) = Inr (Some (h, t)))"
proof -
  define deadline where "deadline = lk_now (looks 0) + wait"
  define N where "N = nat (wait div leasePoll + 1)"
  have poll: "0 < leasePoll" by (simp add: leasePoll_def Second_def)
  then have N: "0 \<le> wait div leasePoll" using assms(2) by (simp add: pos_imp_zdiv_nonneg_iff)
  then have iN: "int N = wait div leasePoll + 1" by (simp add: N_def)
  have "wait < int N * leasePoll"
    using div_mult_mod_eq [of wait leasePoll] pos_mod_bound [OF poll, of wait] unfolding iN distrib_right by linarith
  then have "deadline \<le> lk_now (looks N)" using clock_advances [OF assms(1), of N] by (simp add: deadline_def)
  then have stops: "verdict deadline (looks N) \<noteq> None" using verdict_None [of deadline "looks N"] by auto
  define n where "n = (LEAST i. verdict deadline (looks i) \<noteq> None)"
  have n: "verdict deadline (looks n) \<noteq> None" "n \<le> N" "\<forall>j < n. verdict deadline (looks j) = None"
    unfolding n_def using LeastI [of "\<lambda>i. verdict deadline (looks i) \<noteq> None", OF stops]
      Least_le [of "\<lambda>i. verdict deadline (looks i) \<noteq> None", OF stops] not_less_Least by blast+
  then obtain r where r: "verdict deadline (looks n) = Some r" by blast
  have w: "waitForLeaseRelease wait looks = Some r"
    unfolding waitForLeaseRelease_def deadline_def [symmetric] by (rule wait_loop_first [where n = n]) (use r n in simp_all)
  have before: "lk_now (looks j) < deadline \<and> (\<exists>h. activeHolder (lk_lease (looks j)) (lk_now (looks j)) = Inr (Some h))" if "j < n" for j
    by (rule verdict_None) (use n(3) that in simp)
  have "int n \<le> wait div leasePoll + 1" using n(2) N by (simp add: N_def)
  moreover have "r = Released \<longrightarrow> activeHolder (lk_lease (looks n)) (lk_now (looks n)) = Inr None"
    using r by (auto simp: verdict_def split: sum.splits option.splits prod.splits if_splits)
  moreover have "r = StillRunning h t \<longrightarrow> deadline \<le> lk_now (looks n) \<and> activeHolder (lk_lease (looks n)) (lk_now (looks n)) = Inr (Some (h, t))" for h t
    using r by (auto simp: verdict_def split: sum.splits option.splits prod.splits if_splits)
  ultimately show ?thesis
    using w before unfolding deadline_def by (intro exI [of _ n] exI [of _ r]) blast
qed

definition held_looks :: "nat \<Rightarrow> look" where
  "held_looks i = \<lparr>lk_now = int i * leasePoll, lk_lease = Inr \<lparr>ls_holder = Some ''old'', ls_renew = Some (int i * leasePoll),
     ls_acquire = None, ls_duration_seconds = None\<rparr>, lk_cancelled = False\<rparr>"

theorem lease_wait_ends_witness: "\<exists>r. waitForLeaseRelease (10 * Second) held_looks = Some r \<and> r \<noteq> Released"
proof -
  have a: "\<forall>i. lk_now (held_looks i) + leasePoll \<le> lk_now (held_looks (i + 1))" by (simp add: held_looks_def algebra_simps)
  have held: "activeHolder (lk_lease (held_looks i)) (lk_now (held_looks i)) = Inr (Some (''old'', int i * leasePoll))" for i
    by (simp add: activeHolder_def held_looks_def lease_last_def lease_duration_def defaultLeaseDuration_def Second_def)
  have "0 \<le> 10 * Second" by (simp add: Second_def)
  from lease_wait_ends [OF a this] obtain r where "waitForLeaseRelease (10 * Second) held_looks = Some r" "r \<noteq> Released"
    unfolding held by auto
  then show ?thesis by blast
qed

end
