(* ===== verification/Release_Versions.thy ===== *)
theory Release_Versions
  imports Go_Prelude
begin

section \<open>Releases and K3s versions (pkg/release)\<close>

text \<open>
  \<open>release.go\<close> orders releases of Geass and refuses downgrades; \<open>k3s.go\<close> decides which K3s version a cluster
  may be installed with or moved to. Reading a version and ordering two of them is the package
  \<open>k8s.io/apimachinery/pkg/util/version\<close>, which is not part of the repository: it is the parameter
  \<open>version_lib\<close> (\<open>ParseSemantic\<close>, \<open>ParseGeneric\<close> and \<open>LessThan\<close>), and what is relied on of it are the named
  hypotheses \<open>orders_versions\<close> and \<open>reads_k8s\<close>. The two regular expressions are matched by hand. Errors are
  a datatype with a constructor for each message.
\<close>

record 'v version_lib =
  ParseSemantic :: "string \<Rightarrow> 'v option"
  ParseGeneric :: "string \<Rightarrow> 'v option"
  LessThan :: "'v \<Rightarrow> 'v \<Rightarrow> bool"

definition is_digit :: "char \<Rightarrow> bool" where
  "is_digit c \<longleftrightarrow> digit_of c \<noteq> None"

definition is_hex :: "char \<Rightarrow> bool" where
  "is_hex c \<longleftrightarrow> is_digit c \<or> (97 \<le> (of_char c :: nat) \<and> of_char c \<le> (102 :: nat))"

text \<open>The number that a string of digits writes, and \<open>strconv.Atoi\<close> of it, which stops at the largest \<open>int\<close>.\<close>

definition digits_value :: "string \<Rightarrow> int" where
  "digits_value ds = (case parse_digits 0 ds of None \<Rightarrow> 0 | Some n \<Rightarrow> n)"

definition atoi_digits :: "string \<Rightarrow> int" where
  "atoi_digits ds = min (digits_value ds) max_int64"

subsection \<open>Releases (release.go)\<close>

definition cut_suffix :: "string \<Rightarrow> string \<Rightarrow> string option" where
  "cut_suffix p s = map_option rev (cut_prefix (rev p) (rev s))"

text \<open>The text before the last hyphen and the text after it.\<close>

definition split_last_hyphen :: "string \<Rightarrow> (string \<times> string) option" where
  "split_last_hyphen s = (let r = rev s; after = takeWhile (\<lambda>c. c \<noteq> CHR ''-'') r in
     if length after = length r then None else Some (rev (drop (length after + 1) r), rev after))"

text \<open>\<open>^(.+)-([0-9]+)-g[0-9a-f]{7,}(-dirty)?$\<close>: the tag and the number of commits past it. A dot does not match a line break.\<close>

definition describeSuffix :: "string \<Rightarrow> (string \<times> string) option" where
  "describeSuffix v = (let s = (case cut_suffix ''-dirty'' v of Some s \<Rightarrow> s | None \<Rightarrow> v) in
     case split_last_hyphen s of
       None \<Rightarrow> None
     | Some (rest, hash) \<Rightarrow> (case hash of
         [] \<Rightarrow> None
       | g # hex \<Rightarrow> if g \<noteq> CHR ''g'' \<or> length hex < 7 \<or> \<not> list_all is_hex hex then None
           else (case split_last_hyphen rest of
             None \<Rightarrow> None
           | Some (tag, n) \<Rightarrow> if n = [] \<or> \<not> list_all is_digit n \<or> tag = [] \<or> CHR 0x0A \<in> set tag then None else Some (tag, n))))"

definition parse_release :: "'v version_lib \<Rightarrow> string \<Rightarrow> ('v \<times> int) option" where
  "parse_release lib v = (let v = trim_space v in
     case (case describeSuffix v of None \<Rightarrow> None
           | Some (tag, n) \<Rightarrow> (case ParseSemantic lib tag of None \<Rightarrow> None | Some sv \<Rightarrow> Some (sv, atoi_digits n))) of
       Some r \<Rightarrow> Some r
     | None \<Rightarrow> (case ParseSemantic lib v of None \<Rightarrow> None | Some sv \<Rightarrow> Some (sv, 0)))"

definition Known :: "'v version_lib \<Rightarrow> string \<Rightarrow> bool" where
  "Known lib v \<longleftrightarrow> parse_release lib v \<noteq> None"

definition Development :: "string \<Rightarrow> bool" where
  "Development v \<longleftrightarrow> (let v = trim_space v in cut_suffix ''-dirty'' v \<noteq> None \<or> describeSuffix v \<noteq> None)"

definition compareVersions :: "'v version_lib \<Rightarrow> 'v \<Rightarrow> 'v \<Rightarrow> int" where
  "compareVersions lib a b = (if LessThan lib a b then -1 else if LessThan lib b a then 1 else 0)"

definition Compare :: "'v version_lib \<Rightarrow> string \<Rightarrow> string \<Rightarrow> int \<times> bool" where
  "Compare lib a b = (case (parse_release lib a, parse_release lib b) of
      (Some (av, ac), Some (bv, bc)) \<Rightarrow>
        if compareVersions lib av bv \<noteq> 0 then (compareVersions lib av bv, True)
        else if ac < bc then (-1, True) else if ac > bc then (1, True) else (0, True)
    | _ \<Rightarrow> (0, False))"

definition Newer :: "'v version_lib \<Rightarrow> string \<Rightarrow> string \<Rightarrow> string" where
  "Newer lib a b =
     (if trim_space a = [] then b else if trim_space b = [] then a
      else let (order, ok) = Compare lib a b in
        if \<not> ok \<and> Known lib b \<and> \<not> Known lib a then b else if ok \<and> order < 0 then b else a)"

definition Describe :: "string \<Rightarrow> string" where
  "Describe v = (let t = trim_space v in
     if t = [] then ''a Geass release from before releases were recorded''
     else if t = ''dev'' then ''a Geass development build'' else ''Geass '' @ v)"

datatype release_error = Downgrade string string

definition CheckUpgrade :: "'v version_lib \<Rightarrow> string \<Rightarrow> string \<Rightarrow> release_error option" where
  "CheckUpgrade lib from_release to_release = (let (order, ok) = Compare lib from_release to_release in
     if \<not> ok then None else if order > 0 then Some (Downgrade from_release to_release) else None)"

subsection \<open>K3s (k3s.go)\<close>

definition K3sMinMinor :: int where "K3sMinMinor = 25"
definition K3sMaxMinor :: int where "K3sMaxMinor = 36"

definition span_digits :: "string \<Rightarrow> string \<times> string" where
  "span_digits s = (takeWhile is_digit s, dropWhile is_digit s)"

text \<open>\<open>^v1\.(\d+)\.(\d+)\+k3s(\d+)$\<close>: the minor version, the patch and the K3s build.\<close>

definition k3sVersion :: "string \<Rightarrow> (string \<times> string \<times> string) option" where
  "k3sVersion v = (case cut_prefix ''v1.'' v of None \<Rightarrow> None | Some r \<Rightarrow>
     (case span_digits r of (minor, r) \<Rightarrow> if minor = [] then None else
     (case cut_prefix ''.'' r of None \<Rightarrow> None | Some r \<Rightarrow>
     (case span_digits r of (patch, r) \<Rightarrow> if patch = [] then None else
     (case cut_prefix ''+k3s'' r of None \<Rightarrow> None | Some r \<Rightarrow>
     (case span_digits r of (build, r) \<Rightarrow> if build = [] \<or> r \<noteq> [] then None else Some (minor, patch, build)))))))"

definition ValidK3s :: "string \<Rightarrow> bool" where
  "ValidK3s v \<longleftrightarrow> k3sVersion v \<noteq> None"

datatype k3s_error = NotK3s string | MinorOutOfRange string | BadGeneric string | OutsideTested int | UnknownCurrent string
  | K3sDowngrade string string | TooFarAhead string int string

text \<open>The number and the error, as \<open>strconv.Atoi\<close> returns both: past the largest \<open>int\<close> it is that largest, with an error.\<close>

definition K3sMinor :: "string \<Rightarrow> int \<times> k3s_error option" where
  "K3sMinor v = (case k3sVersion v of
      None \<Rightarrow> (0, Some (NotK3s v))
    | Some (minor, _, _) \<Rightarrow> (atoi_digits minor, if digits_value minor > max_int64 then Some (MinorOutOfRange minor) else None))"

text \<open>\<open>strings.SplitN(v, "+", 2)[0]\<close>.\<close>

definition before_plus :: "string \<Rightarrow> string" where
  "before_plus v = takeWhile (\<lambda>c. c \<noteq> CHR ''+'') v"

definition splitK3s :: "'v version_lib \<Rightarrow> string \<Rightarrow> k3s_error + 'v \<times> int" where
  "splitK3s lib v = (case k3sVersion v of
      None \<Rightarrow> Inl (NotK3s v)
    | Some (_, _, build) \<Rightarrow> (case ParseGeneric lib (before_plus v) of
        None \<Rightarrow> Inl (BadGeneric v) | Some k8s \<Rightarrow> Inr (k8s, atoi_digits build)))"

definition CompareK3s :: "'v version_lib \<Rightarrow> string \<Rightarrow> string \<Rightarrow> k3s_error + int" where
  "CompareK3s lib a b = (case splitK3s lib a of
      Inl e \<Rightarrow> Inl e
    | Inr (av, an) \<Rightarrow> (case splitK3s lib b of
        Inl e \<Rightarrow> Inl e
      | Inr (bv, bn) \<Rightarrow> if compareVersions lib av bv \<noteq> 0 then Inr (compareVersions lib av bv)
          else if an < bn then Inr (-1) else if an > bn then Inr 1 else Inr 0))"

text \<open>\<open>minor, _ := K3sMinor(v)\<close>, as both callers have it.\<close>

definition minor_or_zero :: "string \<Rightarrow> int" where
  "minor_or_zero v = fst (K3sMinor v)"

definition CheckK3sInstall :: "string \<Rightarrow> bool \<Rightarrow> k3s_error option" where
  "CheckK3sInstall target allowUntested =
     (if \<not> ValidK3s target then Some (NotK3s target)
      else let minor = minor_or_zero target in
        if \<not> allowUntested \<and> (minor < K3sMinMinor \<or> minor > K3sMaxMinor) then Some (OutsideTested minor) else None)"

definition CheckK3sUpgrade :: "'v version_lib \<Rightarrow> string \<Rightarrow> string \<Rightarrow> bool \<Rightarrow> k3s_error option" where
  "CheckK3sUpgrade lib current target allowUntested =
     (if \<not> ValidK3s target then Some (NotK3s target)
      else let targetMinor = minor_or_zero target in
        if \<not> allowUntested \<and> (targetMinor < K3sMinMinor \<or> targetMinor > K3sMaxMinor) then Some (OutsideTested targetMinor)
        else if \<not> ValidK3s current then Some (UnknownCurrent current)
        else (case CompareK3s lib current target of
            Inl e \<Rightarrow> Some e
          | Inr order \<Rightarrow> if order > 0 then Some (K3sDowngrade target current)
              else let currentMinor = minor_or_zero current in
                if targetMinor - currentMinor > 1 then Some (TooFarAhead target (targetMinor - currentMinor) current) else None))"

section \<open>Lemmas\<close>

subsection \<open>The spelling of a K3s release\<close>

definition digit_string :: "string \<Rightarrow> bool" where
  "digit_string ds \<longleftrightarrow> ds \<noteq> [] \<and> list_all is_digit ds"

definition k3s_name :: "string \<Rightarrow> string \<Rightarrow> string \<Rightarrow> string" where
  "k3s_name minor patch build = ''v1.'' @ minor @ ''.'' @ patch @ ''+k3s'' @ build"

lemma span_digits_append: "list_all is_digit ds \<Longrightarrow> r = [] \<or> \<not> is_digit (hd r) \<Longrightarrow> span_digits (ds @ r) = (ds, r)"
  by (cases r) (auto simp: span_digits_def takeWhile_append1 dropWhile_append1 list_all_iff takeWhile_append dropWhile_append)

lemma span_digits_parts: "span_digits s = (ds, r) \<Longrightarrow> s = ds @ r \<and> list_all is_digit ds"
  by (auto simp: span_digits_def list_all_iff dest: set_takeWhileD)

lemma punctuation_no_digit [simp]: "\<not> is_digit CHR ''.''" "\<not> is_digit CHR ''+''"
  by (simp_all add: is_digit_def digit_of_def)

text \<open>The expression accepts exactly the strings that are spelled so, and gives back their parts.\<close>

lemma k3sVersion_iff:
  "k3sVersion v = Some (minor, patch, build) \<longleftrightarrow>
     v = k3s_name minor patch build \<and> digit_string minor \<and> digit_string patch \<and> digit_string build"
proof
  assume "k3sVersion v = Some (minor, patch, build)"
  then obtain r1 r2 r3 r4 where
    "cut_prefix ''v1.'' v = Some r1" "span_digits r1 = (minor, CHR ''.'' # r2)" "minor \<noteq> []"
    "span_digits r2 = (patch, ''+k3s'' @ r3)" "patch \<noteq> []" "span_digits r3 = (build, [])" "build \<noteq> []"
    by (auto simp: k3sVersion_def split: option.splits prod.splits if_splits)
  then show "v = k3s_name minor patch build \<and> digit_string minor \<and> digit_string patch \<and> digit_string build"
    by (auto simp: k3s_name_def digit_string_def dest!: span_digits_parts)
next
  assume v: "v = k3s_name minor patch build \<and> digit_string minor \<and> digit_string patch \<and> digit_string build"
  then have d: "span_digits (minor @ ''.'' @ x) = (minor, ''.'' @ x)" "span_digits (patch @ ''+k3s'' @ y) = (patch, ''+k3s'' @ y)"
    "span_digits build = (build, [])" for x y
    using span_digits_append [of build "[]"] by (simp_all add: span_digits_append digit_string_def)
  with v show "k3sVersion v = Some (minor, patch, build)"
    by (simp add: k3sVersion_def k3s_name_def digit_string_def cut_prefix_def has_prefix_def)
qed

lemma before_plus_name:
  assumes "digit_string minor" "digit_string patch"
  shows "before_plus (k3s_name minor patch build) = ''v1.'' @ minor @ ''.'' @ patch"
proof -
  have "c \<noteq> CHR ''+''" if "is_digit c" for c using that punctuation_no_digit(2) by blast
  with assms show ?thesis
    by (auto simp: before_plus_def k3s_name_def digit_string_def list_all_iff takeWhile_append takeWhile_eq_all_conv)
qed

subsection \<open>What is relied on of the version library\<close>

text \<open>\<open>ParseGeneric\<close> reads dotted numbers, which \<open>LessThan\<close> orders as numbers, the first that differs deciding.\<close>

definition fits_int :: "string \<Rightarrow> bool" where
  "fits_int ds \<longleftrightarrow> digit_string ds \<and> digits_value ds \<le> max_int64"

definition reads_k8s :: "'v version_lib \<Rightarrow> bool" where
  "reads_k8s lib \<longleftrightarrow> (\<forall>a b. fits_int a \<and> fits_int b \<longrightarrow> ParseGeneric lib (''v1.'' @ a @ ''.'' @ b) \<noteq> None) \<and>
     (\<forall>a b a' b' v v'. fits_int a \<and> fits_int b \<and> fits_int a' \<and> fits_int b' \<and>
        ParseGeneric lib (''v1.'' @ a @ ''.'' @ b) = Some v \<and> ParseGeneric lib (''v1.'' @ a' @ ''.'' @ b') = Some v' \<longrightarrow>
        (LessThan lib v v' \<longleftrightarrow> digits_value a < digits_value a' \<or> digits_value a = digits_value a' \<and> digits_value b < digits_value b'))"

text \<open>\<open>LessThan\<close> is a strict weak order, and the empty string is not a version.\<close>

definition orders_versions :: "'v version_lib \<Rightarrow> bool" where
  "orders_versions lib \<longleftrightarrow> weak_order (compareVersions lib) \<and> ParseSemantic lib [] = None"

subsection \<open>Moving K3s\<close>

definition in_range :: "string \<Rightarrow> bool" where
  "in_range v \<longleftrightarrow> (case k3sVersion v of None \<Rightarrow> True | Some (a, b, c) \<Rightarrow> fits_int a \<and> fits_int b \<and> fits_int c)"

text \<open>The numbers of a K3s release: minor version, patch, build.\<close>

definition k3s_numbers :: "string \<Rightarrow> (int \<times> int \<times> int) option" where
  "k3s_numbers v = map_option (\<lambda>(a, b, c). (digits_value a, digits_value b, digits_value c)) (k3sVersion v)"

definition not_after :: "int \<times> int \<times> int \<Rightarrow> int \<times> int \<times> int \<Rightarrow> bool" where
  "not_after x y \<longleftrightarrow> (case (x, y) of ((a, b, c), (a', b', c')) \<Rightarrow> a < a' \<or> a = a' \<and> (b < b' \<or> b = b' \<and> c \<le> c'))"

lemma CompareK3s_numbers:
  assumes "reads_k8s lib" "in_range x" "in_range y" "k3s_numbers x = Some n" "k3s_numbers y = Some m"
  shows "\<exists>order. CompareK3s lib x y = Inr order \<and> (order \<le> 0 \<longleftrightarrow> not_after n m)"
proof -
  obtain a b c a' b' c' where x: "k3sVersion x = Some (a, b, c)" and y: "k3sVersion y = Some (a', b', c')"
    using assms(4,5) by (auto simp: k3s_numbers_def)
  have d: "fits_int a" "fits_int b" "fits_int c" "fits_int a'" "fits_int b'" "fits_int c'"
    using assms(2,3) x y by (simp_all add: in_range_def)
  note sx = x [unfolded k3sVersion_iff] and sy = y [unfolded k3sVersion_iff]
  have before: "before_plus x = ''v1.'' @ a @ ''.'' @ b" "before_plus y = ''v1.'' @ a' @ ''.'' @ b'"
    using sx sy by (simp_all only: before_plus_name)
  obtain v v' where v: "ParseGeneric lib (before_plus x) = Some v" "ParseGeneric lib (before_plus y) = Some v'"
    using assms(1) d unfolding reads_k8s_def before by (metis not_Some_eq)
  note r = assms(1) [unfolded reads_k8s_def, THEN conjunct2, rule_format] and v' = v [unfolded before]
  have less: "LessThan lib v v' \<longleftrightarrow> digits_value a < digits_value a' \<or> digits_value a = digits_value a' \<and> digits_value b < digits_value b'"
    "LessThan lib v' v \<longleftrightarrow> digits_value a' < digits_value a \<or> digits_value a' = digits_value a \<and> digits_value b' < digits_value b"
    using r [of a b a' b' v v'] r [of a' b' a b v' v] d v' by blast+
  have s: "splitK3s lib x = Inr (v, digits_value c)" "splitK3s lib y = Inr (v', digits_value c')"
    using x y v d by (simp_all add: splitK3s_def atoi_digits_def fits_int_def)
  have n: "n = (digits_value a, digits_value b, digits_value c)" "m = (digits_value a', digits_value b', digits_value c')"
    using assms(4,5) x y by (simp_all add: k3s_numbers_def)
  show ?thesis
    by (auto simp: CompareK3s_def s compareVersions_def less n not_after_def)
qed

lemma minor_numbers: "in_range v \<Longrightarrow> k3s_numbers v = Some (a, b, c) \<Longrightarrow> minor_or_zero v = a"
  by (auto simp: k3s_numbers_def minor_or_zero_def K3sMinor_def in_range_def atoi_digits_def fits_int_def)

lemma ValidK3s_numbers: "ValidK3s v \<longleftrightarrow> (\<exists>n. k3s_numbers v = Some n)"
  by (auto simp: ValidK3s_def k3s_numbers_def)

text \<open>
  A cluster's K3s moves forward, a minor version at a time. \<open>CheckK3sUpgrade\<close> lets a move pass exactly when both ends
  are spelled as K3s releases, the target is not before the current one (by Kubernetes version and then K3s
  build, as numbers), is at most one minor version ahead, and is in the tested range unless that is waived.
\<close>

theorem CheckK3sUpgrade_iff:
  assumes "reads_k8s lib" "in_range current" "in_range target"
  shows "CheckK3sUpgrade lib current target allowUntested = None \<longleftrightarrow>
    (case (k3s_numbers current, k3s_numbers target) of
       (Some n, Some m) \<Rightarrow> not_after n m \<and> fst m - fst n \<le> 1 \<and> (allowUntested \<or> K3sMinMinor \<le> fst m \<and> fst m \<le> K3sMaxMinor)
     | _ \<Rightarrow> False)"
proof (cases "ValidK3s current \<and> ValidK3s target")
  case True
  then obtain n m where nm: "k3s_numbers current = Some n" "k3s_numbers target = Some m" by (auto simp: ValidK3s_numbers)
  obtain order where o: "CompareK3s lib current target = Inr order" "order \<le> 0 \<longleftrightarrow> not_after n m"
    using CompareK3s_numbers [OF assms nm] by blast
  have "minor_or_zero current = fst n" "minor_or_zero target = fst m"
    using minor_numbers assms(2,3) nm by (metis prod.collapse)+
  with True o nm show ?thesis by (auto simp: CheckK3sUpgrade_def Let_def)
next
  case False
  then show ?thesis by (auto simp: CheckK3sUpgrade_def ValidK3s_numbers Let_def split: option.splits)
qed

text \<open>A version library of this kind: it reads \<open>v1.a.b\<close> and orders the pairs of numbers.\<close>

definition read_v1 :: "string \<Rightarrow> (int \<times> int) option" where
  "read_v1 s = (case cut_prefix ''v1.'' s of None \<Rightarrow> None | Some r \<Rightarrow>
     (case span_digits r of (minor, r) \<Rightarrow> if minor = [] then None else
     (case cut_prefix ''.'' r of None \<Rightarrow> None | Some r \<Rightarrow>
     (case span_digits r of (patch, r) \<Rightarrow> if patch = [] \<or> r \<noteq> [] then None else Some (digits_value minor, digits_value patch)))))"

definition v1_lib :: "(int \<times> int) version_lib" where
  "v1_lib = \<lparr>ParseSemantic = read_v1, ParseGeneric = read_v1,
     LessThan = (\<lambda>(a, b) (a', b'). a < a' \<or> a = a' \<and> b < b')\<rparr>"

lemma read_v1_name: "fits_int a \<Longrightarrow> fits_int b \<Longrightarrow> read_v1 (''v1.'' @ a @ ''.'' @ b) = Some (digits_value a, digits_value b)"
  using span_digits_append [of b "[]"]
  by (simp add: read_v1_def fits_int_def digit_string_def cut_prefix_def has_prefix_def span_digits_append)

lemma v1_lib_reads: "reads_k8s v1_lib"
  unfolding reads_k8s_def by (intro conjI allI impI) (use read_v1_name in \<open>auto simp: v1_lib_def\<close>)

lemma v1_lib_orders: "orders_versions v1_lib"
  by (auto simp: orders_versions_def weak_order_def compareVersions_def v1_lib_def read_v1_def cut_prefix_def has_prefix_def)

theorem CheckK3sUpgrade_iff_witness:
  "CheckK3sUpgrade v1_lib ''v1.35.9+k3s2'' ''v1.36.1+k3s1'' False = None \<and>
   CheckK3sUpgrade v1_lib ''v1.36.1+k3s1'' ''v1.35.9+k3s2'' False \<noteq> None"
proof -
  let ?old = "''v1.35.9+k3s2''" and ?new = "''v1.36.1+k3s1''"
  have n: "k3s_numbers ?old = Some (35, 9, 2)" "k3s_numbers ?new = Some (36, 1, 1)" by code_simp+
  have r: "in_range ?old" "in_range ?new" by code_simp+
  show ?thesis
    using CheckK3sUpgrade_iff [OF v1_lib_reads r(1) r(2), of False] CheckK3sUpgrade_iff [OF v1_lib_reads r(2) r(1), of False]
    by (simp add: n not_after_def K3sMinMinor_def K3sMaxMinor_def)
qed

subsection \<open>Ordering releases\<close>

definition release_order :: "'v version_lib \<Rightarrow> 'v \<times> int \<Rightarrow> 'v \<times> int \<Rightarrow> int" where
  "release_order lib x y = cmp_or (compareVersions lib (fst x) (fst y)) (cmp_compare (snd x) (snd y))"

lemma release_order_weak: "weak_order (compareVersions lib) \<Longrightarrow> weak_order (release_order lib)"
proof -
  assume "weak_order (compareVersions lib)"
  then have "weak_order (\<lambda>x y. compareVersions lib (fst x) (fst y))" by (simp add: weak_order_def)
  from weak_order_lex [OF this weak_order_compare [of snd]] show ?thesis
    by (simp add: release_order_def [abs_def])
qed

lemma Compare_order:
  "parse_release lib a = Some x \<Longrightarrow> parse_release lib b = Some y \<Longrightarrow> Compare lib a b = (release_order lib x y, True)"
  by (auto simp: Compare_def release_order_def cmp_or_def cmp_compare_def split: prod.splits)

lemma Known_not_blank: "ParseSemantic lib [] = None \<Longrightarrow> Known lib a \<Longrightarrow> trim_space a \<noteq> []"
  by (auto simp: Known_def parse_release_def describeSuffix_def split_last_hyphen_def cut_suffix_def cut_prefix_def has_prefix_def Let_def)

text \<open>
  Releases are ordered, and a cluster never goes back. On names that are releases, \<open>Compare\<close> always answers, turns
  round when its arguments do, and is transitive; \<open>CheckUpgrade\<close> refuses exactly the moves to an older release;
  and \<open>Newer\<close> gives one of the two that is not older than either.
\<close>

theorem Compare_orders_releases:
  assumes "orders_versions lib" "Known lib a" "Known lib b" "Known lib c"
  shows "snd (Compare lib a b) \<and> (fst (Compare lib a b) < 0 \<longleftrightarrow> fst (Compare lib b a) > 0) \<and>
    (fst (Compare lib a b) \<le> 0 \<and> fst (Compare lib b c) \<le> 0 \<longrightarrow> fst (Compare lib a c) \<le> 0) \<and>
    (CheckUpgrade lib a b = None \<longleftrightarrow> fst (Compare lib a b) \<le> 0) \<and>
    Newer lib a b \<in> {a, b} \<and> fst (Compare lib a (Newer lib a b)) \<le> 0 \<and> fst (Compare lib b (Newer lib a b)) \<le> 0"
proof -
  obtain x y z where p: "parse_release lib a = Some x" "parse_release lib b = Some y" "parse_release lib c = Some z"
    using assms(2-4) by (auto simp: Known_def)
  have w: "weak_order (release_order lib)" using assms(1) by (intro release_order_weak) (simp add: orders_versions_def)
  note o = weak_order.cmp_flip [OF w] weak_order.cmp_self [OF w] weak_order.cmp_trans [OF w]
  have blank: "trim_space a \<noteq> []" "trim_space b \<noteq> []"
    using Known_not_blank assms(1-3) by (auto simp: orders_versions_def)
  have newer: "Newer lib a b = (if release_order lib x y < 0 then b else a)"
    using blank by (simp add: Newer_def Compare_order [OF p(1,2)])
  show ?thesis
    using o(1) [of x y] o(1) [of y x] o(2) [of x] o(2) [of y] o(3) [of x y z]
    by (auto simp: newer CheckUpgrade_def Compare_order p not_less)
qed

theorem Compare_orders_releases_witness:
  "Newer v1_lib ''v1.9.0'' ''v1.10.0-3-g1a2b3c4'' = ''v1.10.0-3-g1a2b3c4'' \<and>
   CheckUpgrade v1_lib ''v1.9.0'' ''v1.10.0-3-g1a2b3c4'' = None"
proof -
  let ?a = "''v1.9.0''" and ?b = "''v1.10.0-3-g1a2b3c4''"
  have k: "Known v1_lib ?a" "Known v1_lib ?b" by code_simp+
  have c: "fst (Compare v1_lib ?a ?b) = -1" "fst (Compare v1_lib ?b ?a) = 1" by code_simp+
  note t = Compare_orders_releases [OF v1_lib_orders k(1) k(2) k(1)]
  have "CheckUpgrade v1_lib ?a ?b = None" using t c(1) by linarith
  moreover have "Newer v1_lib ?a ?b \<in> {?a, ?b}" "fst (Compare v1_lib ?b (Newer v1_lib ?a ?b)) \<le> 0" using t by blast+
  ultimately show ?thesis using c(2) by force
qed

end
