(* ===== verification/Usage_Clock.thy ===== *)
theory Usage_Clock
  imports Go_Numbers
begin

section \<open>Hours and their names (pkg/metering/hour.go)\<close>

text \<open>
  The usage meter keeps an hour in a ConfigMap that is named after it. Here a time is the number of
  nanoseconds since the first of January of the year 1 in UTC, which is Go's zero time; \<open>Truncate\<close> counts
  from there too. \<open>civil\<close> is how the package \<open>time\<close> finds the date of a day, \<open>formatHour\<close> and \<open>formatDay\<close> are
  \<open>Format\<close> with the layouts \<open>2006010215\<close> and \<open>20060102\<close>, \<open>parseHour\<close> is \<open>time.Parse\<close> with the first. That
  an hour is read back from its name, and so that no two hours share a name, is the lemma the rest of the
  metering theories relies on; it is stated by the locale \<open>hour_names\<close>.
\<close>

definition Day :: duration where "Day = 24 * Hour"

definition HourOf :: "time \<Rightarrow> time" where
  "HourOf t = t - t mod Hour"

definition leap :: "int \<Rightarrow> bool" where
  "leap y \<longleftrightarrow> y mod 4 = 0 \<and> (y mod 100 \<noteq> 0 \<or> y mod 400 = 0)"

definition month_lengths :: "int \<Rightarrow> int list" where
  "month_lengths y = [31, if leap y then 29 else 28, 31, 30, 31, 30, 31, 31, 30, 31, 30, 31]"

definition days_before_year :: "int \<Rightarrow> int" where
  "days_before_year y = 365 * (y - 1) + (y - 1) div 4 - (y - 1) div 100 + (y - 1) div 400"

text \<open>The year of a day and the day of that year, by cycles of 400, 100 and 4 years.\<close>

definition year_day :: "int \<Rightarrow> int \<times> int" where
  "year_day d =
     (let e = d div 146097; d = d - 146097 * e;
          c = d div 36524; c = c - c div 4; d = d - 36524 * c;
          q = d div 1461; d = d - 1461 * q;
          n = d div 365; n = n - n div 4; d = d - 365 * n
      in (400 * e + 100 * c + 4 * q + n + 1, d))"

fun month_day :: "int list \<Rightarrow> int \<Rightarrow> int \<Rightarrow> int \<times> int" where
  "month_day [] m r = (m, r + 1)"
| "month_day (l # ls) m r = (if r < l then (m, r + 1) else month_day ls (m + 1) (r - l))"

definition civil :: "int \<Rightarrow> int \<times> int \<times> int" where
  "civil d = (case year_day d of (y, r) \<Rightarrow> (case month_day (month_lengths y) 1 r of (m, dd) \<Rightarrow> (y, m, dd)))"

text \<open>\<open>appendInt\<close>: at least so many digits.\<close>

definition pad :: "nat \<Rightarrow> int \<Rightarrow> string" where
  "pad w n = (let s = itoa n in replicate (w - length s) CHR ''0'' @ s)"

definition formatDay :: "time \<Rightarrow> string" where
  "formatDay t = (case civil (t div Day) of (y, m, d) \<Rightarrow> pad 4 y @ pad 2 m @ pad 2 d)"

definition formatHour :: "time \<Rightarrow> string" where
  "formatHour t = formatDay t @ pad 2 (t mod Day div Hour)"

definition HourName :: "time \<Rightarrow> string" where
  "HourName start = ''geass-usage-'' @ formatHour start"

text \<open>\<open>getnum\<close>: two digits, or one where the layout allows it.\<close>

definition getnum :: "bool \<Rightarrow> string \<Rightarrow> (int \<times> string) option" where
  "getnum fixed s = (case s of
      [] \<Rightarrow> None
    | c # r \<Rightarrow> (case digit_of c of
        None \<Rightarrow> None
      | Some a \<Rightarrow> (case r of
          [] \<Rightarrow> if fixed then None else Some (a, r)
        | c' # r' \<Rightarrow> (case digit_of c' of
            None \<Rightarrow> if fixed then None else Some (a, r)
          | Some b \<Rightarrow> Some (10 * a + b, r')))))"

definition days_of :: "int \<Rightarrow> int \<Rightarrow> int \<Rightarrow> int" where
  "days_of y m d = days_before_year y + sum_list (take (nat (m - 1)) (month_lengths y)) + d - 1"

definition parseHour :: "string \<Rightarrow> time option" where
  "parseHour s =
     (if length s < 4 then None else
      case parse_digits 0 (take 4 s) of None \<Rightarrow> None | Some y \<Rightarrow>
      (case getnum True (drop 4 s) of None \<Rightarrow> None | Some (m, s) \<Rightarrow>
       if m \<le> 0 \<or> 12 < m then None else
      (case getnum True s of None \<Rightarrow> None | Some (d, s) \<Rightarrow>
      (case getnum False s of None \<Rightarrow> None | Some (h, s) \<Rightarrow>
       if h < 0 \<or> 24 \<le> h \<or> s \<noteq> [] \<or> d < 1 \<or> d > month_lengths y ! nat (m - 1) then None
       else Some (days_of y m d * Day + h * Hour)))))"

section \<open>The calendar\<close>

text \<open>Four periods of \<open>k\<close> days, the last of which may have a day more.\<close>

lemma four_periods:
  fixes d :: int
  assumes "0 \<le> d" "d \<le> 4 * k" "0 < k" "c = d div k - d div k div 4"
  shows "0 \<le> c \<and> c \<le> 3 \<and> 0 \<le> d - k * c \<and> d - k * c \<le> k \<and> (d - k * c = k \<longrightarrow> d = 4 * k \<and> c = 3)"
proof -
  define x where "x = d div k"
  have dx: "d = k * x + d mod k" "0 \<le> d mod k" "d mod k < k" using assms(3) by (simp_all add: x_def)
  have x: "0 \<le> x" "x \<le> 4"
    using assms(1-3) zdiv_mono1 [of d "4 * k" k] by (simp_all add: x_def pos_imp_zdiv_nonneg_iff)
  show ?thesis
  proof (cases "x = 4")
    case True
    have "k * x = 4 * k" using True by simp
    then have "d = 4 * k" using dx assms(2) by linarith
    with True assms(3,4) show ?thesis by (simp add: x_def)
  next
    case False
    then have "c = x" using x assms(4) by (simp add: x_def [symmetric])
    with False x dx show ?thesis by auto
  qed
qed

lemma year_day_shape:
  assumes "0 \<le> d" "year_day d = (y, r)"
  shows "days_before_year y + r = d \<and> 0 \<le> r \<and> r < (if leap y then 366 else 365) \<and> 1 \<le> y"
proof -
  define e where "e = d div 146097"
  define d1 where "d1 = d - 146097 * e"
  define c where "c = d1 div 36524 - d1 div 36524 div 4"
  define d2 where "d2 = d1 - 36524 * c"
  define q where "q = d2 div 1461"
  define d3 where "d3 = d2 - 1461 * q"
  define n where "n = d3 div 365 - d3 div 365 div 4"
  define d4 where "d4 = d3 - 365 * n"
  have "year_day d = (400 * e + 100 * c + 4 * q + n + 1, d4)"
    unfolding year_day_def Let_def d4_def n_def d3_def q_def d2_def c_def d1_def e_def by (rule refl)
  then have yr: "y = 400 * e + 100 * c + 4 * q + n + 1" "r = d4" using assms(2) by simp_all
  have e: "0 \<le> e" using assms(1) by (simp add: e_def pos_imp_zdiv_nonneg_iff)
  have d1: "0 \<le> d1" "d1 < 146097" unfolding d1_def e_def by (simp_all add: minus_mult_div_eq_mod)
  have c: "0 \<le> c \<and> c \<le> 3 \<and> 0 \<le> d2 \<and> d2 \<le> 36524 \<and> (d2 = 36524 \<longrightarrow> d1 = 4 * 36524 \<and> c = 3)"
    using four_periods [OF _ _ _ c_def] d1 by (simp add: d2_def)
  have q': "d3 = d2 mod 1461" by (simp add: d3_def q_def minus_mult_div_eq_mod)
  have q: "0 \<le> q" "q \<le> 24" "0 \<le> d3" "d3 < 1461"
    using c zdiv_mono1 [of d2 36524 1461] by (simp_all add: q' q_def pos_imp_zdiv_nonneg_iff)
  have n: "0 \<le> n \<and> n \<le> 3 \<and> 0 \<le> d4 \<and> d4 \<le> 365 \<and> (d4 = 365 \<longrightarrow> d3 = 4 * 365 \<and> n = 3)"
    using four_periods [OF _ _ _ n_def] q by (simp add: d4_def)
  have div: "(y - 1) div 4 = 100 * e + 25 * c + q" "(y - 1) div 100 = 4 * e + c" "(y - 1) div 400 = e"
    using yr(1) c q n int_div_pos_eq [of "y - 1" 4 "100 * e + 25 * c + q" n] int_div_pos_eq [of "y - 1" 100 "4 * e + c" "4 * q + n"]
      int_div_pos_eq [of "y - 1" 400 e "100 * c + (4 * q + n)"] by auto
  have sum: "days_before_year y + r = d"
    unfolding days_before_year_def div yr(2) using yr(1) by (simp add: d4_def d3_def d2_def d1_def)
  have "leap y" if "d4 = 365"
  proof (cases "q = 24")
    case True
    then have "d2 = 36524" using n that by (simp add: d3_def)
    then have "y = 400 * (e + 1)" using True c n that yr(1) by simp
    then show ?thesis by (simp add: leap_def)
  next
    case False
    then have y: "y = 4 * (100 * e + 25 * c + q + 1)" "y = 100 * (4 * e + c) + (4 * q + 4)" using n that yr(1) by simp_all
    have "y mod 100 = 4 * q + 4" using y(2) q False by (intro int_mod_pos_eq [of _ _ "4 * e + c"]) auto
    moreover have "y mod 4 = 0" using y(1) by simp
    ultimately show ?thesis using q by (simp add: leap_def)
  qed
  then have "r < (if leap y then 366 else 365)" using n yr(2) by (cases "d4 = 365") auto
  then show ?thesis using sum n yr e c q by simp
qed

lemma month_day_shape:
  assumes "0 \<le> r" "r < sum_list ls" "month_day ls m0 r = (m, d)"
  shows "m0 \<le> m \<and> m < m0 + int (length ls) \<and> 1 \<le> d \<and> d \<le> ls ! nat (m - m0) \<and> sum_list (take (nat (m - m0)) ls) + d - 1 = r"
  using assms
proof (induction ls m0 r rule: month_day.induct)
  case (1 m0 r)
  then show ?case by simp
next
  case (2 l ls m0 r)
  show ?case
  proof (cases "r < l")
    case True
    with 2 show ?thesis by auto
  next
    case False
    with 2 have "m0 + 1 \<le> m \<and> m < m0 + 1 + int (length ls) \<and> 1 \<le> d \<and> d \<le> ls ! nat (m - (m0 + 1)) \<and>
        sum_list (take (nat (m - (m0 + 1))) ls) + d - 1 = r - l" by auto
    moreover have "m0 + 1 \<le> m \<Longrightarrow> nat (m - m0) = Suc (nat (m - (m0 + 1)))" by linarith
    ultimately show ?thesis by (auto simp: take_Suc_conv_app_nth nth_Cons split: nat.splits)
  qed
qed

lemma sum_month_lengths: "sum_list (month_lengths y) = (if leap y then 366 else 365)"
  by (simp add: month_lengths_def)

lemma month_length_bound: "i < 12 \<Longrightarrow> month_lengths y ! i \<le> 31"
  by (auto simp: month_lengths_def nth_Cons split: nat.splits)

text \<open>The date of a day is a date, and counting the days up to it gives the day back.\<close>

lemma civil_date:
  assumes "0 \<le> n" "civil n = (y, m, d)"
  shows "days_of y m d = n \<and> 1 \<le> y \<and> 1 \<le> m \<and> m \<le> 12 \<and> 1 \<le> d \<and> d \<le> month_lengths y ! nat (m - 1) \<and> d \<le> 31"
proof -
  obtain r where yd: "year_day n = (y, r)" and md: "month_day (month_lengths y) 1 r = (m, d)"
    using assms(2) by (auto simp: civil_def split: prod.splits)
  note s = year_day_shape [OF assms(1) yd]
  have l: "length (month_lengths y) = 12" by (simp add: month_lengths_def)
  have "1 \<le> m \<and> m < 1 + int (length (month_lengths y)) \<and> 1 \<le> d \<and> d \<le> month_lengths y ! nat (m - 1) \<and>
      sum_list (take (nat (m - 1)) (month_lengths y)) + d - 1 = r"
    using month_day_shape [OF _ _ md] s by (simp add: sum_month_lengths)
  with s month_length_bound [of "nat (m - 1)" y] show ?thesis
    unfolding days_of_def l by linarith
qed

lemma days_before_year_mono: "x \<le> y \<Longrightarrow> days_before_year x \<le> days_before_year y"
proof -
  assume le: "x \<le> y"
  have part: "b div k - a div k \<le> b - a" if "a \<le> b" "1 < k" for a b k :: int
  proof -
    have "b div k \<le> (a + k * (b - a)) div k" using that mult_right_mono [of 1 k "b - a"] by (intro zdiv_mono1) auto
    also have "\<dots> = b - a + a div k" using that by simp
    finally show ?thesis by simp
  qed
  have "0 \<le> b div k - a div k" if "a \<le> b" "1 < k" for a b k :: int using that by (simp add: zdiv_mono1)
  from this [of "x - 1" "y - 1" 4] this [of "x - 1" "y - 1" 400] part [of "x - 1" "y - 1" 100] le show ?thesis
    unfolding days_before_year_def by simp
qed

lemma year_before_10000:
  assumes "0 \<le> n" "civil n = (y, m, d)" "n < days_before_year 10000"
  shows "y \<le> 9999"
proof -
  obtain r where "year_day n = (y, r)" using assms(2) by (auto simp: civil_def split: prod.splits)
  from year_day_shape [OF assms(1) this] have "days_before_year y \<le> n" by linarith
  with assms(3) days_before_year_mono [of 10000 y] show ?thesis by linarith
qed

section \<open>Names round trip\<close>

lemma pad2: 
  assumes "0 \<le> n" "n < 100"
  shows "pad 2 n = [char_of (48 + nat (n div 10)), char_of (48 + nat n mod 10)]"
proof (cases "n < 10")
  case True
  then have "n div 10 = 0" "nat n mod 10 = nat n" using assms by auto
  with True assms show ?thesis by (simp add: pad_def itoa_digits Let_def char_zero)
next
  case False
  then have "0 \<le> n div 10" "n div 10 < 10" using assms by auto
  with False assms show ?thesis by (simp add: pad_def itoa_digits(2) itoa_digits(1) [of "n div 10"] Let_def)
qed

lemma getnum_pad2: "0 \<le> n \<Longrightarrow> n < 100 \<Longrightarrow> getnum fixed (pad 2 n @ s) = Some (n, s)"
proof -
  assume n: "0 \<le> n" "n < 100"
  then have "nat (n div 10) < 10" "int (nat (n div 10)) = n div 10" "nat n mod 10 < 10" by simp_all
  moreover have "10 * (n div 10) + int (nat n mod 10) = n" using n by (simp add: zmod_int)
  ultimately show ?thesis using n by (auto simp: getnum_def pad2)
qed

lemma pad4:
  assumes "0 \<le> n" "n < 10000"
  shows "length (pad 4 n) = 4 \<and> parse_digits 0 (pad 4 n) = Some n"
proof -
  have step: "parse_digits 0 (itoa m) = Some m" if "0 \<le> m" for m
    using that
  proof (induction "nat m" arbitrary: m rule: less_induct)
    case less
    show ?case
    proof (cases "m < 10")
      case True
      with less.prems show ?thesis by (simp add: itoa_digits(1))
    next
      case False
      then have "parse_digits 0 (itoa (m div 10)) = Some (m div 10)" using less by auto
      moreover have "10 * (m div 10) + int (nat m mod 10) = m" using less.prems by (simp add: zmod_int)
      ultimately show ?thesis using False less.prems by (simp add: itoa_digits(2) parse_digits_append)
    qed
  qed
  have zeros: "parse_digits 0 (replicate k CHR ''0'' @ ds) = parse_digits 0 ds" for k ds
    by (induction k) (simp_all add: digit_of_def)
  have len: "length (itoa m) \<le> Suc k" if "0 \<le> m" "m < 10 ^ Suc k" for m k
    using that
  proof (induction k arbitrary: m)
    case 0
    then show ?case by (simp add: itoa_digits(1))
  next
    case (Suc k)
    then have "m div 10 < 10 ^ Suc k" by simp
    with Suc show ?case by (cases "m < 10") (simp_all add: itoa_digits)
  qed
  show ?thesis using step [OF assms(1)] len [of n 3] assms by (simp add: pad_def Let_def zeros)
qed

text \<open>The times from the second hour of the year 1 to the end of the year 9999.\<close>

definition in_calendar :: "time \<Rightarrow> bool" where
  "in_calendar t \<longleftrightarrow> Hour \<le> t \<and> t < days_before_year 10000 * Day"

lemma hour_pos [simp]: "0 < Hour" "0 < Day" "0 < Second" "0 < Minute" "0 \<le> Hour" "0 \<le> Day" "0 \<le> Second" "0 \<le> Minute"
  by (simp_all add: Day_def duration_defs)

lemma div_below: "0 < (q :: int) \<Longrightarrow> m < n * q \<Longrightarrow> m div q < n"
  using mult_right_mono [of n "m div q" q] div_mult_mod_eq [of m q] pos_mod_sign [of q m] by linarith

lemma parse_format:
  assumes "in_calendar t" "t mod Hour = 0"
  shows "parseHour (formatHour t) = Some t"
proof -
  obtain y m d where c: "civil (t div Day) = (y, m, d)" by (cases "civil (t div Day)") auto
  have t: "0 \<le> t" using assms(1) hour_pos(1) unfolding in_calendar_def by linarith
  then have n: "0 \<le> t div Day" by (simp add: pos_imp_zdiv_nonneg_iff)
  have "t div Day < days_before_year 10000"
    using assms(1) by (intro div_below) (simp_all add: in_calendar_def)
  note date = civil_date [OF n c] and year = year_before_10000 [OF n c this]
  have h: "0 \<le> t mod Day div Hour" "t mod Day div Hour < 24"
    using pos_mod_bound [of Day t] by (simp_all add: pos_imp_zdiv_nonneg_iff div_below Day_def)
  have "t mod Day mod Hour = 0" using assms(2) by (simp add: Day_def mod_mod_cancel)
  then have "t mod Day div Hour * Hour = t mod Day" using div_mult_mod_eq [of "t mod Day" Hour] by simp
  then have "days_of y m d * Day + t mod Day div Hour * Hour = t" using date div_mult_mod_eq [of t Day] by simp
  then show ?thesis
    using pad4 [of y] date year h c
    by (simp add: parseHour_def formatHour_def formatDay_def getnum_pad2 getnum_pad2 [of _ _ "[]", simplified])
qed

section \<open>The contract of the names\<close>

text \<open>No two hours share a name, so what is kept under the name of one is not touched by a write of another.\<close>

locale hour_names =
  fixes name :: "time \<Rightarrow> string" and hour :: "time \<Rightarrow> bool"
  assumes name_inj: "hour s \<Longrightarrow> hour t \<Longrightarrow> name s = name t \<Longrightarrow> s = t"
begin

lemma lookup_update_hour:
  "hour s \<Longrightarrow> hour t \<Longrightarrow> map_of (AList.update (name s) v ms) (name t) = (if s = t then Some v else map_of ms (name t))"
  using name_inj [of s t] by (auto simp: update_conv')

lemma lookup_delete_hour:
  "hour s \<Longrightarrow> hour t \<Longrightarrow> map_of (AList.delete (name s) ms) (name t) = (if s = t then None else map_of ms (name t))"
  using name_inj [of s t] by (auto simp: delete_conv')

end

definition is_hour :: "time \<Rightarrow> bool" where
  "is_hour t \<longleftrightarrow> in_calendar t \<and> t mod Hour = 0"

lemma HourName_inj: "is_hour s \<Longrightarrow> is_hour t \<Longrightarrow> HourName s = HourName t \<Longrightarrow> s = t"
proof -
  assume h: "is_hour s" "is_hour t" and "HourName s = HourName t"
  then have "parseHour (formatHour s) = parseHour (formatHour t)" by (simp add: HourName_def)
  with h show "s = t" by (simp add: parse_format is_hour_def)
qed

lemma is_hour_pos: "is_hour t \<Longrightarrow> 0 < t"
  using hour_pos(1) unfolding is_hour_def in_calendar_def by linarith

interpretation hn: hour_names HourName is_hour
  by unfold_locales (rule HourName_inj)

lemma HourOf_props: "HourOf t \<le> t" "t < HourOf t + Hour" "HourOf t mod Hour = 0" "is_hour t \<Longrightarrow> HourOf t = t"
proof -
  have "0 \<le> t mod Hour" "t mod Hour < Hour" by simp_all
  then show "HourOf t \<le> t" "t < HourOf t + Hour" unfolding HourOf_def by linarith+
qed (simp_all add: HourOf_def is_hour_def minus_mod_eq_mult_div)

end
