(* ===== verification/Usage_Measure.thy ===== *)
theory Usage_Measure
  imports Kube_Types
begin

section \<open>What each owner reserves (pkg/metering/measure.go)\<close>

text \<open>
  \<open>Measure\<close> reads projects, organizations, pods and volume claims and adds up what each owner reserves at one
  moment. The maps of a snapshot are association lists; \<open>reserved_of\<close> reads them as Go does, a key that is
  not there being zero. Sums wrap around at 64 bits, except what one pod asks for, which is no more than the
  node that it is on has. \<open>validation.IsDNS1123Label\<close> of apimachinery is the parameter \<open>dns\<close>.
\<close>

record reserved =
  CPUMillis :: int
  MemoryBytes :: int
  StorageBytes :: int

definition nothing :: reserved where
  "nothing = \<lparr>CPUMillis = 0, MemoryBytes = 0, StorageBytes = 0\<rparr>"

definition plus_reserved :: "reserved \<Rightarrow> reserved \<Rightarrow> reserved" where
  "plus_reserved r other = \<lparr>CPUMillis = wrap64 (CPUMillis r + CPUMillis other),
     MemoryBytes = wrap64 (MemoryBytes r + MemoryBytes other), StorageBytes = wrap64 (StorageBytes r + StorageBytes other)\<rparr>"

record snapshot =
  s_orgs :: "(string \<times> (string \<times> reserved) list) list"
  s_unassigned :: reserved
  s_platform :: reserved

record owner =
  o_org :: string
  o_workspace :: string

record geass_project =
  pr_name :: string
  pr_org :: string
  pr_workspace :: string
  pr_environments :: "string list"

record volume_claim =
  vc_namespace :: string
  vc_phase :: string
  vc_capacity :: resource_list
  vc_requests :: resource_list

abbreviation ResourceStorage :: string where "ResourceStorage \<equiv> ''storage''"
abbreviation ClaimBound :: string where "ClaimBound \<equiv> ''Bound''"

subsection \<open>Whose a namespace is\<close>

definition OrgBuildNamespace :: "string \<Rightarrow> string" where
  "OrgBuildNamespace org = ''geass-build-'' @ org"

definition ProjectNamespace :: "(string \<Rightarrow> bool) \<Rightarrow> string \<Rightarrow> string \<Rightarrow> string option" where
  "ProjectNamespace dns project environment =
     (let project = trim_space project; environment = trim_space environment in
      if project = [] \<or> \<not> dns project then None
      else if environment = [] \<or> \<not> dns environment then None
      else let name = project @ ''-'' @ environment in
        if length name > 63 \<or> \<not> dns name then None else Some name)"

definition project_owner :: "geass_project \<Rightarrow> owner" where
  "project_owner p = \<lparr>o_org = pr_org p, o_workspace = if pr_org p \<noteq> [] then pr_workspace p else []\<rparr>"

definition own_environment :: "(string \<Rightarrow> bool) \<Rightarrow> geass_project \<Rightarrow> (string \<times> owner) list \<Rightarrow> string \<Rightarrow> (string \<times> owner) list" where
  "own_environment dns p owners environment = (case ProjectNamespace dns (pr_name p) environment of
      None \<Rightarrow> owners | Some namespace \<Rightarrow> AList.update namespace (project_owner p) owners)"

definition namespace_owners :: "(string \<Rightarrow> bool) \<Rightarrow> geass_project list \<Rightarrow> string list \<Rightarrow> (string \<times> owner) list" where
  "namespace_owners dns projects orgs =
     foldl (\<lambda>owners p. foldl (own_environment dns p) owners (pr_environments p))
       (foldl (\<lambda>owners org. AList.update (OrgBuildNamespace org) \<lparr>o_org = org, o_workspace = []\<rparr> owners) [] orgs) projects"

subsection \<open>What a pod and a claim reserve\<close>

definition podHoldsItsRequests :: "pod \<Rightarrow> bool" where
  "podHoldsItsRequests pod \<longleftrightarrow> p_node_name pod \<noteq> [] \<and> p_phase pod \<noteq> PodSucceeded \<and> p_phase pod \<noteq> PodFailed"

definition always_restarts :: "container \<Rightarrow> bool" where
  "always_restarts c \<longleftrightarrow> c_restart_policy c = Some ''Always''"

fun init_requests :: "(container \<Rightarrow> int) \<Rightarrow> container list \<Rightarrow> int \<times> int \<times> int \<Rightarrow> int \<times> int \<times> int" where
  "init_requests request [] acc = acc"
| "init_requests request (c # cs) (tot, sidecars, largestInit) =
     (if always_restarts c then
        let sidecars' = sidecars + request c
        in init_requests request cs (tot + request c, sidecars', max largestInit sidecars')
      else init_requests request cs (tot, sidecars, max largestInit (request c + sidecars)))"

definition effectiveRequest :: "pod \<Rightarrow> string \<Rightarrow> (quantity \<Rightarrow> int) \<Rightarrow> int" where
  "effectiveRequest pod name val =
     (let overhead = val (rl_get (p_overhead pod) name);
          request = (\<lambda>c. val (rl_get (c_requests c) name))
      in case (case p_resources pod of None \<Rightarrow> None | Some requests \<Rightarrow> map_of requests name) of
        Some q \<Rightarrow> val q + overhead
      | None \<Rightarrow>
          let tot = sum_list (map request (p_containers pod));
              (tot, sidecars, largestInit) = init_requests request (p_init_containers pod) (tot, 0, 0)
          in max tot largestInit + overhead)"

definition podRequests :: "pod \<Rightarrow> int \<times> int" where
  "podRequests pod = (effectiveRequest pod ResourceCPU MilliValue, effectiveRequest pod ResourceMemory QValue)"

definition claimSize :: "volume_claim \<Rightarrow> int" where
  "claimSize claim =
     (if vc_phase claim \<noteq> ClaimBound then 0
      else case map_of (vc_capacity claim) ResourceStorage of
        Some q \<Rightarrow> if QValue q \<noteq> 0 then QValue q else QValue (rl_get (vc_requests claim) ResourceStorage)
      | None \<Rightarrow> QValue (rl_get (vc_requests claim) ResourceStorage))"

subsection \<open>Measure\<close>

definition org_map :: "snapshot \<Rightarrow> string \<Rightarrow> (string \<times> reserved) list" where
  "org_map s org = (case map_of (s_orgs s) org of None \<Rightarrow> [] | Some m \<Rightarrow> m)"

definition get_reserved :: "(string \<times> reserved) list \<Rightarrow> string \<Rightarrow> reserved" where
  "get_reserved m workspace = (case map_of m workspace of None \<Rightarrow> nothing | Some r \<Rightarrow> r)"

definition charge :: "(string \<times> owner) list \<Rightarrow> snapshot \<Rightarrow> string \<times> reserved \<Rightarrow> snapshot" where
  "charge owners s item = (case item of (namespace, reserved) \<Rightarrow>
     (case map_of owners namespace of
        None \<Rightarrow> s\<lparr>s_platform := plus_reserved (s_platform s) reserved\<rparr>
      | Some who \<Rightarrow>
          if o_org who = [] then s\<lparr>s_unassigned := plus_reserved (s_unassigned s) reserved\<rparr>
          else let m = org_map s (o_org who);
                   tot = plus_reserved (get_reserved m (o_workspace who)) reserved
            in s\<lparr>s_orgs := AList.update (o_org who) (AList.update (o_workspace who) tot m) (s_orgs s)\<rparr>))"

definition pod_charges :: "pod list \<Rightarrow> (string \<times> reserved) list" where
  "pod_charges pods = map (\<lambda>pod. (p_namespace pod, case podRequests pod of (cpu, memory) \<Rightarrow>
       \<lparr>CPUMillis = cpu, MemoryBytes = memory, StorageBytes = 0\<rparr>)) (filter podHoldsItsRequests pods)"

definition claim_charges :: "volume_claim list \<Rightarrow> (string \<times> reserved) list" where
  "claim_charges claims = map (\<lambda>c. (vc_namespace c, \<lparr>CPUMillis = 0, MemoryBytes = 0, StorageBytes = claimSize c\<rparr>))
     (filter (\<lambda>c. claimSize c > 0) claims)"

definition Measure :: "(string \<Rightarrow> bool) \<Rightarrow> geass_project list \<Rightarrow> string list \<Rightarrow> pod list \<Rightarrow> volume_claim list \<Rightarrow> snapshot" where
  "Measure dns projects orgs pods claims =
     (let owners = namespace_owners dns projects orgs
      in foldl (charge owners) (foldl (charge owners) \<lparr>s_orgs = [], s_unassigned = nothing, s_platform = nothing\<rparr>
           (pod_charges pods)) (claim_charges claims))"

definition reserved_of :: "snapshot \<Rightarrow> string \<Rightarrow> string \<Rightarrow> reserved" where
  "reserved_of s org workspace = get_reserved (org_map s org) workspace"

section \<open>What a pod holds, phase by phase\<close>

text \<open>
  The reference: a pod runs its init containers one after the other, each beside the sidecars that were
  started before it, and then its containers beside all the sidecars. What it needs is the most that it needs
  at any moment.
\<close>

fun init_phases :: "(container \<Rightarrow> int) \<Rightarrow> container list \<Rightarrow> int \<Rightarrow> int list" where
  "init_phases request [] sidecars = []"
| "init_phases request (c # cs) sidecars =
     (sidecars + request c) # init_phases request cs (if always_restarts c then sidecars + request c else sidecars)"

definition phases :: "(container \<Rightarrow> int) \<Rightarrow> pod \<Rightarrow> int list" where
  "phases request pod = init_phases request (p_init_containers pod) 0 @
     [sum_list (map request (p_containers pod)) + sum_list (map request (filter always_restarts (p_init_containers pod)))]"

lemma init_requests_phases:
  "init_requests request cs (tot, sidecars, largest) =
     (tot + sum_list (map request (filter always_restarts cs)), sidecars + sum_list (map request (filter always_restarts cs)),
      foldl max largest (init_phases request cs sidecars))"
  by (induction cs arbitrary: tot sidecars largest) (simp_all add: Let_def add.commute add.left_commute)

lemma foldl_max: "foldl max x ys = Max (set (x # ys))" for x :: int
proof -
  have "(\<lambda>x y :: int. max y x) = max" by (intro ext) (rule max.commute)
  then show ?thesis unfolding Max.set_eq_fold foldl_conv_fold by simp
qed

lemma max_phases:
  fixes a :: int
  assumes "0 \<le> a"
  shows "max a (foldl max 0 ps) = Max (set (ps @ [a]))"
proof -
  have "max a (Max (set (0 # ps))) = Max (insert a (set (0 # ps)))" by simp
  also have "insert a (set (0 # ps)) = insert 0 (set (ps @ [a]))" by auto
  also have "Max \<dots> = max 0 (Max (set (ps @ [a])))" by (rule Max_insert) auto
  also have "\<dots> = Max (set (ps @ [a]))" using assms by (intro max_absorb2 order_trans [OF assms Max_ge]) auto
  finally show ?thesis by (simp only: foldl_max)
qed

text \<open>What a pod is billed for is the most that it needs in any of its phases, and its overhead.\<close>

lemma effectiveRequest_is_peak:
  assumes "\<And>c :: container. 0 \<le> val (rl_get (c_requests c) name)" "\<And>rs. p_resources pod = Some rs \<Longrightarrow> map_of rs name = None"
  shows "effectiveRequest pod name val =
    Max (set (phases (\<lambda>c. val (rl_get (c_requests c) name)) pod)) + val (rl_get (p_overhead pod) name)"
proof -
  let ?f = "\<lambda>c. val (rl_get (c_requests c) name)"
  let ?all = "sum_list (map ?f (p_containers pod)) + sum_list (map ?f (filter always_restarts (p_init_containers pod)))"
  have none: "(case p_resources pod of None \<Rightarrow> None | Some rs \<Rightarrow> map_of rs name) = None"
    using assms(2) by (auto split: option.splits)
  have "0 \<le> ?all" by (intro add_nonneg_nonneg sum_list_nonneg) (auto simp: assms(1))
  moreover have "effectiveRequest pod name val = max ?all (foldl max 0 (init_phases ?f (p_init_containers pod) 0)) + val (rl_get (p_overhead pod) name)"
    unfolding effectiveRequest_def none by (simp add: init_requests_phases Let_def)
  ultimately show ?thesis using max_phases [of ?all] unfolding phases_def by simp
qed

section \<open>Who is charged\<close>

abbreviation plus_all :: "reserved list \<Rightarrow> reserved" where
  "plus_all rs \<equiv> foldl plus_reserved nothing rs"

definition charged_to :: "(string \<times> owner) list \<Rightarrow> (owner option \<Rightarrow> bool) \<Rightarrow> (string \<times> reserved) list \<Rightarrow> reserved list" where
  "charged_to owners P items = map snd (filter (\<lambda>(namespace, r). P (map_of owners namespace)) items)"

definition is_owner :: "string \<Rightarrow> string \<Rightarrow> owner option \<Rightarrow> bool" where
  "is_owner org workspace o' \<longleftrightarrow> org \<noteq> [] \<and> o' = Some \<lparr>o_org = org, o_workspace = workspace\<rparr>"

definition is_unassigned :: "owner option \<Rightarrow> bool" where
  "is_unassigned o' \<longleftrightarrow> (case o' of None \<Rightarrow> False | Some who \<Rightarrow> o_org who = [])"

lemma reserved_of_charge:
  "reserved_of (charge owners s (namespace, r)) org workspace =
     (if is_owner org workspace (map_of owners namespace) then plus_reserved (reserved_of s org workspace) r else reserved_of s org workspace)"
proof (cases "map_of owners namespace")
  case None
  then show ?thesis by (simp add: charge_def reserved_of_def org_map_def is_owner_def)
next
  case (Some who)
  show ?thesis
  proof (cases "o_org who = []")
    case True
    with Some show ?thesis by (auto simp: charge_def reserved_of_def org_map_def is_owner_def)
  next
    case False
    have "is_owner org workspace (Some who) \<longleftrightarrow> o_org who = org \<and> o_workspace who = workspace"
      using False by (cases who) (auto simp: is_owner_def)
    moreover have "org_map (charge owners s (namespace, r)) org = (if o_org who = org
        then AList.update (o_workspace who) (plus_reserved (get_reserved (org_map s org) (o_workspace who)) r) (org_map s org) else org_map s org)"
      using Some False by (simp add: charge_def org_map_def update_conv' Let_def)
    ultimately show ?thesis unfolding Some reserved_of_def by (simp add: get_reserved_def update_conv')
  qed
qed

lemma charge_rest:
  "s_unassigned (charge owners s (namespace, r)) =
     (if is_unassigned (map_of owners namespace) then plus_reserved (s_unassigned s) r else s_unassigned s)"
  "s_platform (charge owners s (namespace, r)) = (if map_of owners namespace = None then plus_reserved (s_platform s) r else s_platform s)"
  by (auto simp: charge_def is_unassigned_def Let_def split: option.splits)

lemma fold_charge:
  "reserved_of (foldl (charge owners) s items) org workspace =
     foldl plus_reserved (reserved_of s org workspace) (charged_to owners (is_owner org workspace) items)"
  "s_unassigned (foldl (charge owners) s items) = foldl plus_reserved (s_unassigned s) (charged_to owners is_unassigned items)"
  "s_platform (foldl (charge owners) s items) = foldl plus_reserved (s_platform s) (charged_to owners (\<lambda>o'. o' = None) items)"
  by (induction items arbitrary: s) (auto simp: charged_to_def reserved_of_charge charge_rest)

definition items_of :: "pod list \<Rightarrow> volume_claim list \<Rightarrow> (string \<times> reserved) list" where
  "items_of pods claims = pod_charges pods @ claim_charges claims"

lemma Measure_sums:
  fixes dns projects orgs
  defines "owners \<equiv> namespace_owners dns projects orgs"
  shows "reserved_of (Measure dns projects orgs pods claims) org workspace =
      plus_all (charged_to owners (is_owner org workspace) (items_of pods claims))"
    and "s_unassigned (Measure dns projects orgs pods claims) = plus_all (charged_to owners is_unassigned (items_of pods claims))"
    and "s_platform (Measure dns projects orgs pods claims) = plus_all (charged_to owners (\<lambda>o'. o' = None) (items_of pods claims))"
  unfolding Measure_def Let_def owners_def [symmetric] items_of_def foldl_append [symmetric] fold_charge
  by (simp_all add: reserved_of_def org_map_def get_reserved_def)

text \<open>Whose a namespace is: the last project that spells it, or else the organization that builds in it.\<close>

definition spells :: "(string \<Rightarrow> bool) \<Rightarrow> geass_project \<Rightarrow> string \<Rightarrow> bool" where
  "spells dns p namespace \<longleftrightarrow> (\<exists>e \<in> set (pr_environments p). ProjectNamespace dns (pr_name p) e = Some namespace)"

lemma find_in_set: "find P xs = Some x \<Longrightarrow> x \<in> set xs \<and> P x"
  by (auto simp: find_Some_iff)

lemma own_environments:
  "map_of (foldl (own_environment dns p) owners es) namespace =
     (if \<exists>e \<in> set es. ProjectNamespace dns (pr_name p) e = Some namespace then Some (project_owner p) else map_of owners namespace)"
  by (induction es arbitrary: owners) (auto simp: own_environment_def update_conv' split: option.splits)

lemma own_projects:
  "map_of (foldl (\<lambda>owners p. foldl (own_environment dns p) owners (pr_environments p)) owners projects) namespace =
     (case find (\<lambda>p. spells dns p namespace) (rev projects) of Some p \<Rightarrow> Some (project_owner p) | None \<Rightarrow> map_of owners namespace)"
  by (induction projects rule: rev_induct) (auto simp: own_environments spells_def)

lemma own_builds:
  "map_of (foldl (\<lambda>owners org. AList.update (OrgBuildNamespace org) \<lparr>o_org = org, o_workspace = []\<rparr> owners) owners orgs) namespace =
     (case find (\<lambda>org. OrgBuildNamespace org = namespace) (rev orgs) of
        Some org \<Rightarrow> Some \<lparr>o_org = org, o_workspace = []\<rparr> | None \<Rightarrow> map_of owners namespace)"
  by (induction orgs rule: rev_induct) (auto simp: update_conv')

lemma owner_of_namespace:
  "map_of (namespace_owners dns projects orgs) namespace =
     (case find (\<lambda>p. spells dns p namespace) (rev projects) of
        Some p \<Rightarrow> Some (project_owner p)
      | None \<Rightarrow> map_option (\<lambda>org. \<lparr>o_org = org, o_workspace = []\<rparr>) (find (\<lambda>org. OrgBuildNamespace org = namespace) (rev orgs)))"
  by (auto simp: namespace_owners_def own_projects own_builds split: option.splits)

text \<open>Nobody else's project spells a namespace of a project or of an organization's builds.\<close>

definition unambiguous :: "(string \<Rightarrow> bool) \<Rightarrow> geass_project list \<Rightarrow> string list \<Rightarrow> bool" where
  "unambiguous dns projects orgs \<longleftrightarrow> (\<forall>p \<in> set projects. \<forall>namespace. spells dns p namespace \<longrightarrow>
     (\<forall>q \<in> set projects. spells dns q namespace \<longrightarrow> project_owner p = project_owner q) \<and>
     (\<forall>org \<in> set orgs. namespace \<noteq> OrgBuildNamespace org))"

definition belongs_to :: "(string \<Rightarrow> bool) \<Rightarrow> geass_project list \<Rightarrow> string list \<Rightarrow> string \<Rightarrow> string \<Rightarrow> string \<Rightarrow> bool" where
  "belongs_to dns projects orgs org workspace namespace \<longleftrightarrow>
     (\<exists>p \<in> set projects. pr_org p = org \<and> pr_workspace p = workspace \<and> spells dns p namespace) \<or>
     workspace = [] \<and> org \<in> set orgs \<and> namespace = OrgBuildNamespace org"

lemma find_unique:
  assumes "\<And>y. P y \<Longrightarrow> y = x"
  shows "find P xs = Some x \<longleftrightarrow> x \<in> set xs \<and> P x"
  using assms by (induction xs) auto

lemma find_build:
  "find (\<lambda>org. OrgBuildNamespace org = OrgBuildNamespace b) orgs = Some b \<longleftrightarrow> b \<in> set orgs"
proof -
  have "OrgBuildNamespace y = OrgBuildNamespace b \<Longrightarrow> y = b" for y
    unfolding OrgBuildNamespace_def by (rule same_append_eq [THEN iffD1])
  then show ?thesis by (subst find_unique) simp_all
qed

lemma find_build_only: "find (\<lambda>org. OrgBuildNamespace org = namespace) orgs = Some b \<Longrightarrow> namespace = OrgBuildNamespace b"
  by (drule find_in_set) simp

lemma owner_unambiguous:
  assumes "unambiguous dns projects orgs" "org \<noteq> []"
  shows "is_owner org workspace (map_of (namespace_owners dns projects orgs) namespace) \<longleftrightarrow>
    belongs_to dns projects orgs org workspace namespace"
proof (cases "find (\<lambda>p. spells dns p namespace) (rev projects)")
  case None
  then have "\<not> spells dns p namespace" if "p \<in> set projects" for p using that by (simp add: find_None_iff)
  then have "belongs_to dns projects orgs org workspace namespace \<longleftrightarrow> workspace = [] \<and> org \<in> set orgs \<and> OrgBuildNamespace org = namespace"
    unfolding belongs_to_def by blast
  moreover have "is_owner org workspace (map_of (namespace_owners dns projects orgs) namespace) \<longleftrightarrow>
      workspace = [] \<and> find (\<lambda>org. OrgBuildNamespace org = namespace) (rev orgs) = Some org"
    unfolding owner_of_namespace None is_owner_def using assms(2) by auto
  ultimately show ?thesis using find_build [of org "rev orgs"] find_build_only [of namespace "rev orgs" org] by auto
next
  case (Some p)
  then have p: "p \<in> set projects" "spells dns p namespace" using find_in_set by fastforce+
  then have same: "project_owner q = project_owner p" if "q \<in> set projects" "spells dns q namespace" for q
    using assms(1) that unfolding unambiguous_def by metis
  have "namespace \<noteq> OrgBuildNamespace org" if "org \<in> set orgs" using assms(1) p that unfolding unambiguous_def by metis
  then have b: "belongs_to dns projects orgs org workspace namespace \<longleftrightarrow>
      (\<exists>q \<in> set projects. pr_org q = org \<and> pr_workspace q = workspace \<and> spells dns q namespace)"
    unfolding belongs_to_def by metis
  have "pr_org q = pr_org p \<and> (pr_org p \<noteq> [] \<longrightarrow> pr_workspace q = pr_workspace p)" if "q \<in> set projects" "spells dns q namespace" for q
    using same [OF that] by (cases "pr_org p = []") (simp_all add: project_owner_def split: if_splits)
  then have "belongs_to dns projects orgs org workspace namespace \<longleftrightarrow> pr_org p = org \<and> pr_workspace p = workspace"
    unfolding b using p assms(2) by metis
  then show ?thesis unfolding owner_of_namespace Some is_owner_def using assms(2) by (auto simp: project_owner_def)
qed


text \<open>An example, with the labels that DNS allows: an organization with one project and one pod.\<close>

definition dns1123 :: "string \<Rightarrow> bool" where
  "dns1123 s \<longleftrightarrow> s \<noteq> [] \<and> length s \<le> 63 \<and> hd s \<noteq> CHR ''-'' \<and> last s \<noteq> CHR ''-'' \<and>
     list_all (\<lambda>c. c = CHR ''-'' \<or> 48 \<le> (of_char c :: nat) \<and> (of_char c :: nat) \<le> 57 \<or> 97 \<le> (of_char c :: nat) \<and> (of_char c :: nat) \<le> 122) s"

definition placed_pod :: "string \<Rightarrow> int \<Rightarrow> int \<Rightarrow> pod" where
  "placed_pod namespace cpu memory =
     (plain_pod ''web'' cpu memory)\<lparr>p_namespace := namespace, p_node_name := ''n1'', p_phase := PodRunning\<rparr>"

definition shop :: geass_project where
  "shop = \<lparr>pr_name = ''shop'', pr_org = ''acme'', pr_workspace = ''eu'', pr_environments = [''eu-prod'']\<rparr>"

lemma shop_spells: "spells dns1123 shop namespace \<longleftrightarrow> namespace = ''shop-eu-prod''"
proof -
  have "ProjectNamespace dns1123 ''shop'' ''eu-prod'' = Some ''shop-eu-prod''" by code_simp
  then show ?thesis by (auto simp: spells_def shop_def)
qed


text \<open>
  Without that: a project of another organization that spells the same namespace, which the project controller does not
  give it, pays for what runs there.
\<close>

lemma usage_charged_to_another:
  "reserved_of (Measure dns1123 [shop, shop\<lparr>pr_name := ''shop-eu'', pr_org := ''other'', pr_environments := [''prod'']\<rparr>] [''acme'', ''other'']
       [placed_pod ''shop-eu-prod'' 500 9] []) ''other'' ''eu'' = \<lparr>CPUMillis = 500, MemoryBytes = 9, StorageBytes = 0\<rparr>"
  by code_simp

end
