(* ===== verification/Metering.thy ===== *)
theory Metering
  imports Usage_Clock Usage_Measure
begin

section \<open>The usage meter (pkg/metering: hour.go, meter.go, read.go)\<close>

text \<open>
  Every minute the meter adds what is reserved, times the time since the last sample, to the hour that it
  falls in. An hour is a ConfigMap. The world holds the ConfigMaps of the system namespace with their
  resourceVersions, what the meter measures, and what happens around the calls of the API server (\<open>around\<close>):
  before a call nothing happens, or the call is refused, or another meter (an operator that lost the lease
  and does not know it yet) writes an hour or deletes one first. What another meter writes is one successful
  write: it reads an hour and writes it at the version that it read, so nothing comes between the two. The
  JSON of an hour is the hour itself (\<open>Json\<close>), anything else in its place is \<open>NotJson\<close>. Numbers are 64 bits
  wide and wrap around.
\<close>

subsection \<open>Hours\<close>

definition MaxStep :: duration where "MaxStep = 3 * Minute"
definition CloseAfter :: duration where "CloseAfter = 5 * Minute"
definition Retention :: duration where "Retention = 62 * 24 * Hour"
definition formatVersion :: int where "formatVersion = 1"

record amounts =
  CPUMilliSeconds :: int
  MemoryByteSeconds :: int
  StorageByteSeconds :: int

definition no_amounts :: amounts where
  "no_amounts = \<lparr>CPUMilliSeconds = 0, MemoryByteSeconds = 0, StorageByteSeconds = 0\<rparr>"

definition add_amounts :: "amounts \<Rightarrow> reserved \<Rightarrow> int \<Rightarrow> amounts" where
  "add_amounts a r seconds = \<lparr>CPUMilliSeconds = wrap64 (CPUMilliSeconds a + wrap64 (CPUMillis r * seconds)),
     MemoryByteSeconds = wrap64 (MemoryByteSeconds a + wrap64 (MemoryBytes r * seconds)),
     StorageByteSeconds = wrap64 (StorageByteSeconds a + wrap64 (StorageBytes r * seconds))\<rparr>"

type_synonym org_amounts = "(string \<times> (string \<times> amounts) list) list"

record usage_hour =
  h_version :: int
  h_start :: time
  h_covered :: time
  h_metered :: int
  h_orgs :: org_amounts
  h_unassigned :: amounts
  h_platform :: amounts

definition empty_hour :: "time \<Rightarrow> usage_hour" where
  "empty_hour start = \<lparr>h_version = 0, h_start = start, h_covered = 0, h_metered = 0, h_orgs = [],
     h_unassigned = no_amounts, h_platform = no_amounts\<rparr>"

definition hour_End :: "usage_hour \<Rightarrow> time" where
  "hour_End h = h_start h + Hour"

definition Closed :: "usage_hour \<Rightarrow> time \<Rightarrow> bool" where
  "Closed h now \<longleftrightarrow> \<not> h_covered h < hour_End h \<or> \<not> now < hour_End h + CloseAfter"

definition get_amounts :: "(string \<times> amounts) list \<Rightarrow> string \<Rightarrow> amounts" where
  "get_amounts m workspace = (case map_of m workspace of None \<Rightarrow> no_amounts | Some a \<Rightarrow> a)"

definition add_workspaces :: "int \<Rightarrow> (string \<times> amounts) list \<Rightarrow> (string \<times> reserved) list \<Rightarrow> (string \<times> amounts) list" where
  "add_workspaces seconds m workspaces =
     foldl (\<lambda>m (workspace, reserved). AList.update workspace (add_amounts (get_amounts m workspace) reserved seconds) m) m workspaces"

definition add_orgs :: "int \<Rightarrow> org_amounts \<Rightarrow> (string \<times> (string \<times> reserved) list) list \<Rightarrow> org_amounts" where
  "add_orgs seconds orgs s =
     foldl (\<lambda>orgs (org, workspaces).
        AList.update org (add_workspaces seconds (case map_of orgs org of None \<Rightarrow> [] | Some m \<Rightarrow> m) workspaces) orgs) orgs s"

definition hour_add :: "usage_hour \<Rightarrow> snapshot \<Rightarrow> int \<Rightarrow> usage_hour" where
  "hour_add h s seconds = h\<lparr>h_orgs := add_orgs seconds (h_orgs h) (s_orgs s),
     h_unassigned := add_amounts (h_unassigned h) (s_unassigned s) seconds,
     h_platform := add_amounts (h_platform h) (s_platform s) seconds,
     h_metered := wrap64 (h_metered h + seconds)\<rparr>"

subsection \<open>ConfigMaps\<close>

definition LabelManagedBy :: string where "LabelManagedBy = ''geass.dev/managed-by''"
definition ManagedByValue :: string where "ManagedByValue = ''geass''"
definition LabelUsageHour :: string where "LabelUsageHour = ''geass.dev/usage-hour''"
definition LabelUsageDay :: string where "LabelUsageDay = ''geass.dev/usage-day''"

datatype usage_json = NotJson | Json usage_hour

record config_map =
  cm_labels :: labels
  cm_data :: usage_json
  cm_rv :: nat

definition hourLabels :: "time \<Rightarrow> labels" where
  "hourLabels start = [(LabelManagedBy, ManagedByValue), (LabelUsageHour, formatHour start), (LabelUsageDay, formatDay start)]"

definition newHourConfigMap :: config_map where
  "newHourConfigMap = \<lparr>cm_labels = [], cm_data = NotJson, cm_rv = 0\<rparr>"

text \<open>The name and the ConfigMap with the hour in it.\<close>

definition encode :: "usage_hour \<Rightarrow> config_map \<Rightarrow> string \<times> config_map" where
  "encode h m = (HourName (h_start h),
     m\<lparr>cm_labels := foldl (\<lambda>ls (k, v). AList.update k v ls) (cm_labels m) (hourLabels (h_start h)),
       cm_data := Json (h\<lparr>h_version := formatVersion\<rparr>)\<rparr>)"

datatype decode_error = Unreadable | WrongFormat int | WrongHour | MeteredOutside

definition decode :: "string \<Rightarrow> config_map \<Rightarrow> decode_error + usage_hour" where
  "decode name m = (case cm_data m of
      NotJson \<Rightarrow> Inl Unreadable
    | Json h \<Rightarrow>
        if h_version h \<noteq> formatVersion then Inl (WrongFormat (h_version h))
        else if h_start h = 0 \<or> h_start h \<noteq> HourOf (h_start h) \<or> HourName (h_start h) \<noteq> name then Inl WrongHour
        else if h_covered h < h_start h \<or> h_covered h > hour_End h \<or> h_metered h < 0 \<or> h_metered h > Hour div Second
          then Inl MeteredOutside
        else Inr h)"

subsection \<open>The world\<close>

datatype usage_write = Charge time snapshot time time | Restart time time | Remove time

datatype meter_event = Undisturbed | Refused kube_error | Rival usage_write

type_synonym config_maps = "(string \<times> config_map) list"

record usage_world =
  maps :: config_maps
  next_version :: nat
  usage_enabled :: "bool option" \<comment> \<open>spec.usage.enabled; no platform configuration: None\<close>
  projects :: "geass_project list"
  organizations :: "string list"
  all_pods :: "pod list"
  all_claims :: "volume_claim list"
  around :: "meter_event list"

text \<open>The hour that another meter reads, the empty one where there is none.\<close>

definition hour_at :: "config_maps \<Rightarrow> time \<Rightarrow> usage_hour option" where
  "hour_at ms start = (case map_of ms (HourName start) of
      None \<Rightarrow> Some (empty_hour start)
    | Some m \<Rightarrow> (case decode (HourName start) m of Inl e \<Rightarrow> None | Inr h \<Rightarrow> Some h))"

definition put_hour :: "usage_hour \<Rightarrow> usage_world \<Rightarrow> usage_world" where
  "put_hour h w = (case encode h (case map_of (maps w) (HourName (h_start h)) of None \<Rightarrow> newHourConfigMap | Some m \<Rightarrow> m) of
     (name, m) \<Rightarrow> w\<lparr>maps := AList.update name (m\<lparr>cm_rv := next_version w\<rparr>) (maps w), next_version := Suc (next_version w)\<rparr>)"

definition seconds :: "duration \<Rightarrow> int" where
  "seconds d = (if d \<ge> 0 then d div Second else - ((- d) div Second))"

definition span_ok :: "usage_hour \<Rightarrow> time \<Rightarrow> time \<Rightarrow> bool" where
  "span_ok h f t \<longleftrightarrow> h_covered h \<le> f \<and> h_start h \<le> f \<and> f \<le> t \<and> t \<le> hour_End h \<and> f mod Second = 0 \<and> t mod Second = 0"

definition snapshot_ok :: "snapshot \<Rightarrow> bool" where
  "snapshot_ok s \<longleftrightarrow> distinct (map fst (s_orgs s)) \<and> list_all (\<lambda>(org, m). distinct (map fst m)) (s_orgs s)"

text \<open>
  The write of another meter: it adds the time after what is covered, or starts again, or deletes an hour.
  What no meter writes has no effect.
\<close>

definition rival :: "usage_write \<Rightarrow> usage_world \<Rightarrow> usage_world" where
  "rival op w = (case op of
      Charge start s f t \<Rightarrow> (case hour_at (maps w) start of
          None \<Rightarrow> w
        | Some h \<Rightarrow> if is_hour start \<and> snapshot_ok s \<and> span_ok h f t
            then put_hour ((hour_add h s (seconds (t - f)))\<lparr>h_covered := t\<rparr>) w else w)
    | Restart start t \<Rightarrow> (case hour_at (maps w) start of
          None \<Rightarrow> w
        | Some h \<Rightarrow> if is_hour start \<and> span_ok h t t
            then put_hour (h\<lparr>h_covered := t\<rparr>) w else w)
    | Remove start \<Rightarrow> w\<lparr>maps := AList.delete (HourName start) (maps w)\<rparr>)"

definition happens :: "usage_world \<Rightarrow> kube_error option \<times> usage_world" where
  "happens w = (case around w of
      [] \<Rightarrow> (None, w)
    | Undisturbed # es \<Rightarrow> (None, w\<lparr>around := es\<rparr>)
    | Refused k # es \<Rightarrow> (Some k, w\<lparr>around := es\<rparr>)
    | Rival op # es \<Rightarrow> (None, rival op (w\<lparr>around := es\<rparr>)))"

definition Get_map :: "string \<Rightarrow> usage_world \<Rightarrow> (kube_error + config_map) \<times> usage_world" where
  "Get_map name w = (case happens w of
      (Some k, w) \<Rightarrow> (Inl k, w)
    | (None, w) \<Rightarrow> (case map_of (maps w) name of None \<Rightarrow> Inl KNotFound | Some m \<Rightarrow> Inr m, w))"

definition Create_map :: "string \<times> config_map \<Rightarrow> usage_world \<Rightarrow> kube_error option \<times> usage_world" where
  "Create_map nm w = (case happens w of
      (Some k, w) \<Rightarrow> (Some k, w)
    | (None, w) \<Rightarrow> if has_key (maps w) (fst nm) then (Some KAlreadyExists, w)
        else (None, w\<lparr>maps := AList.update (fst nm) ((snd nm)\<lparr>cm_rv := next_version w\<rparr>) (maps w), next_version := Suc (next_version w)\<rparr>))"

definition Update_map :: "string \<times> config_map \<Rightarrow> usage_world \<Rightarrow> kube_error option \<times> usage_world" where
  "Update_map nm w = (case happens w of
      (Some k, w) \<Rightarrow> (Some k, w)
    | (None, w) \<Rightarrow> (case map_of (maps w) (fst nm) of
          None \<Rightarrow> (Some KNotFound, w)
        | Some m \<Rightarrow> if cm_rv m \<noteq> cm_rv (snd nm) then (Some KConflict, w)
            else (None, w\<lparr>maps := AList.update (fst nm) ((snd nm)\<lparr>cm_rv := next_version w\<rparr>) (maps w), next_version := Suc (next_version w)\<rparr>)))"

definition Delete_map :: "string \<Rightarrow> usage_world \<Rightarrow> kube_error option \<times> usage_world" where
  "Delete_map name w = (case happens w of
      (Some k, w) \<Rightarrow> (Some k, w)
    | (None, w) \<Rightarrow> if has_key (maps w) name then (None, w\<lparr>maps := AList.delete name (maps w)\<rparr>) else (Some KNotFound, w))"

text \<open>Any other read: it may be refused, and what it reads is read after it happened.\<close>

definition Read_other :: "usage_world \<Rightarrow> kube_error option \<times> usage_world" where
  "Read_other w = happens w"

subsection \<open>A sample\<close>

datatype meter_error =
    ConfigError kube_error
  | LoadError kube_error
  | DecodeError decode_error
  | StoreError kube_error
  | MeasureError string kube_error
  | TrimError kube_error

definition Enabled :: "usage_world \<Rightarrow> (meter_error + bool) \<times> usage_world" where
  "Enabled w = (case Read_other w of
      (Some KNotFound, w) \<Rightarrow> (Inr False, w)
    | (Some k, w) \<Rightarrow> (Inl (ConfigError k), w)
    | (None, w) \<Rightarrow> (Inr (usage_enabled w = Some True), w))"

text \<open>An hour and the ConfigMap that it was read from.\<close>

type_synonym stored = "usage_hour \<times> config_map option"

definition load :: "time \<Rightarrow> usage_world \<Rightarrow> (meter_error + stored) \<times> usage_world" where
  "load start w = (case Get_map (HourName start) w of
      (Inl KNotFound, w) \<Rightarrow> (Inr (empty_hour start, None), w)
    | (Inl k, w) \<Rightarrow> (Inl (LoadError k), w)
    | (Inr m, w) \<Rightarrow> (case decode (HourName start) m of
          Inl e \<Rightarrow> (Inl (DecodeError e), w)
        | Inr h \<Rightarrow> (Inr (h, Some m), w)))"

definition store :: "stored \<Rightarrow> usage_world \<Rightarrow> meter_error option \<times> usage_world" where
  "store s w = (case s of (hour, cm) \<Rightarrow>
     (case (case cm of None \<Rightarrow> Create_map (encode hour newHourConfigMap) w | Some m \<Rightarrow> Update_map (encode hour m) w) of
        (e, w) \<Rightarrow> (map_option StoreError e, w)))"

definition measure_now :: "(string \<Rightarrow> bool) \<Rightarrow> usage_world \<Rightarrow> (meter_error + snapshot) \<times> usage_world" where
  "measure_now dns w = (case Read_other w of
      (Some k, w) \<Rightarrow> (Inl (MeasureError ''listing projects'' k), w)
    | (None, w) \<Rightarrow> (case Read_other w of
      (Some k, w) \<Rightarrow> (Inl (MeasureError ''listing organizations'' k), w)
    | (None, w) \<Rightarrow> (case Read_other w of
      (Some k, w) \<Rightarrow> (Inl (MeasureError ''listing pods'' k), w)
    | (None, w) \<Rightarrow> (case Read_other w of
      (Some k, w) \<Rightarrow> (Inl (MeasureError ''listing volume claims'' k), w)
    | (None, w) \<Rightarrow> (Inr (Measure dns (projects w) (organizations w) (all_pods w) (all_claims w)), w)))))"

text \<open>The names and labels of the hours, as they are when the list is read.\<close>

definition trim_candidates :: "time \<Rightarrow> config_maps \<Rightarrow> string list" where
  "trim_candidates oldest ms = map fst (filter (\<lambda>(name, m). has_key (cm_labels m) LabelUsageHour \<and>
     (case parseHour (lookup0 (cm_labels m) LabelUsageHour) of None \<Rightarrow> False | Some start \<Rightarrow> name = HourName start \<and> start < oldest)) ms)"

fun trim_loop :: "string list \<Rightarrow> usage_world \<Rightarrow> meter_error option \<times> usage_world" where
  "trim_loop [] w = (None, w)"
| "trim_loop (name # names) w = (case Delete_map name w of
      (Some k, w) \<Rightarrow> if k = KNotFound then trim_loop names w else (Some (TrimError k), w)
    | (None, w) \<Rightarrow> trim_loop names w)"

text \<open>With the time of the last trim, zero at first, which is the state of the meter.\<close>

definition trim :: "time \<Rightarrow> time \<Rightarrow> usage_world \<Rightarrow> meter_error option \<times> time \<times> usage_world" where
  "trim trimmed now w =
     (if trimmed \<noteq> 0 \<and> tsub now trimmed < Hour then (None, trimmed, w)
      else (case Read_other w of
          (Some k, w) \<Rightarrow> (Some (TrimError k), trimmed, w)
        | (None, w) \<Rightarrow> (case trim_loop (trim_candidates (HourOf (now - Retention)) (maps w)) w of
              (Some e, w) \<Rightarrow> (Some e, trimmed, w)
            | (None, w) \<Rightarrow> (None, now, w))))"

definition cover :: "stored \<Rightarrow> snapshot \<Rightarrow> time \<Rightarrow> time \<Rightarrow> usage_world \<Rightarrow> meter_error option \<times> usage_world" where
  "cover st s cursor t w = store ((hour_add (fst st) s (seconds (tsub t cursor)))\<lparr>h_covered := t\<rparr>, snd st) w"

definition add_sample :: "(string \<Rightarrow> bool) \<Rightarrow> time \<Rightarrow> time \<Rightarrow> stored \<Rightarrow> stored \<Rightarrow> time \<Rightarrow> usage_world \<Rightarrow> meter_error option \<times> usage_world" where
  "add_sample dns now current this previous cursor w = (case measure_now dns w of
      (Inl e, w) \<Rightarrow> (Some e, w)
    | (Inr s, w) \<Rightarrow>
        if cursor < current then
          (case cover previous s cursor current w of
             (Some e, w) \<Rightarrow> (Some e, w)
           | (None, w) \<Rightarrow> cover this s current now w)
        else cover this s cursor now w)"

definition meter_count :: "(string \<Rightarrow> bool) \<Rightarrow> time \<Rightarrow> usage_world \<Rightarrow> meter_error option \<times> usage_world" where
  "meter_count dns now w =
     (let current = HourOf now in
      case load current w of
        (Inl e, w) \<Rightarrow> (Some e, w)
      | (Inr this, w) \<Rightarrow>
          (case load (current - Hour) w of
             (Inl e, w) \<Rightarrow> (Some e, w)
           | (Inr previous, w) \<Rightarrow>
               let cursor = max (h_covered (fst this)) (h_covered (fst previous));
                   step = tsub now cursor
               in if cursor = 0 \<or> step > MaxStep then store ((fst this)\<lparr>h_covered := now\<rparr>, snd this) w
                  else if step \<le> 0 then (None, w)
                  else add_sample dns now current this previous cursor w))"

definition Sample :: "(string \<Rightarrow> bool) \<Rightarrow> time \<Rightarrow> time \<Rightarrow> usage_world \<Rightarrow> meter_error option \<times> time \<times> usage_world" where
  "Sample dns trimmed clock w = (case Enabled w of
      (Inl e, w) \<Rightarrow> (Some e, trimmed, w)
    | (Inr on, w) \<Rightarrow>
        if \<not> on then (None, trimmed, w)
        else let now = clock - clock mod Second in
          (case meter_count dns now w of
             (Some e, w) \<Rightarrow> (Some e, trimmed, w)
           | (None, w) \<Rightarrow> trim trimmed now w))"

section \<open>Adding to an hour\<close>

definition amount_of :: "usage_hour \<Rightarrow> string \<Rightarrow> string \<Rightarrow> amounts" where
  "amount_of h org workspace = get_amounts (case map_of (h_orgs h) org of None \<Rightarrow> [] | Some m \<Rightarrow> m) workspace"

lemma get_add_workspaces:
  "distinct (map fst ws) \<Longrightarrow> get_amounts (add_workspaces n m ws) workspace =
     (case map_of ws workspace of None \<Rightarrow> get_amounts m workspace | Some r \<Rightarrow> add_amounts (get_amounts m workspace) r n)"
proof (induction ws arbitrary: m)
  case Nil
  then show ?case by (simp add: add_workspaces_def)
next
  case (Cons x ws)
  obtain k r where x: "x = (k, r)" by (cases x)
  have step: "add_workspaces n m (x # ws) = add_workspaces n (AList.update k (add_amounts (get_amounts m k) r n) m) ws"
    by (simp add: add_workspaces_def x)
  have get: "get_amounts (AList.update k v m) j = (if j = k then v else get_amounts m j)" for v j
    by (simp add: get_amounts_def update_conv')
  have "k \<notin> fst ` set ws" using Cons.prems x by simp
  then have "map_of ws k = None" by (simp add: map_of_eq_None_iff)
  with Cons show ?case unfolding step by (auto simp: x get split: option.splits)
qed

lemma add_nothing: "add_amounts a nothing n = \<lparr>CPUMilliSeconds = wrap64 (CPUMilliSeconds a), MemoryByteSeconds = wrap64 (MemoryByteSeconds a), StorageByteSeconds = wrap64 (StorageByteSeconds a)\<rparr>"
  by (simp add: add_amounts_def nothing_def in64_def min_int64_def max_int64_def)

definition in_range :: "amounts \<Rightarrow> bool" where
  "in_range a \<longleftrightarrow> in64 (CPUMilliSeconds a) \<and> in64 (MemoryByteSeconds a) \<and> in64 (StorageByteSeconds a)"

lemma add_nothing_in_range: "in_range a \<Longrightarrow> add_amounts a nothing n = a"
  by (simp add: add_nothing in_range_def)

lemma amount_add_orgs:
  assumes "distinct (map fst s)" "list_all (\<lambda>(org, m). distinct (map fst m)) s" "in_range (get_amounts (case map_of orgs org of None \<Rightarrow> [] | Some m \<Rightarrow> m) workspace)"
  shows "get_amounts (case map_of (add_orgs n orgs s) org of None \<Rightarrow> [] | Some m \<Rightarrow> m) workspace =
    add_amounts (get_amounts (case map_of orgs org of None \<Rightarrow> [] | Some m \<Rightarrow> m) workspace)
      (get_reserved (case map_of s org of None \<Rightarrow> [] | Some m \<Rightarrow> m) workspace) n"
  using assms
proof (induction s arbitrary: orgs)
  case Nil
  then show ?case by (simp add: add_orgs_def get_reserved_def add_nothing_in_range)
next
  case (Cons x s)
  obtain k ws where x: "x = (k, ws)" by (cases x)
  define orgs' where "orgs' = AList.update k (add_workspaces n (case map_of orgs k of None \<Rightarrow> [] | Some m \<Rightarrow> m) ws) orgs"
  have step: "add_orgs n orgs (x # s) = add_orgs n orgs' s" by (simp add: add_orgs_def x orgs'_def)
  have k: "map_of s k = None" "distinct (map fst ws)" using Cons.prems x by (auto simp: map_of_eq_None_iff)
  show ?case
  proof (cases "org = k")
    case True
    have "map_of (add_orgs n o' s) k = map_of o' k" for o'
      using k(1) by (induction s arbitrary: o') (auto simp: add_orgs_def update_conv' split: if_splits)
    then show ?thesis
      unfolding step using True k Cons.prems(3)
      by (auto simp: x orgs'_def update_conv' get_add_workspaces get_reserved_def add_nothing_in_range split: option.splits)
  next
    case False
    then have "map_of orgs' org = map_of orgs org" by (simp add: orgs'_def update_conv')
    with Cons False show ?thesis unfolding step by (simp add: x)
  qed
qed

lemma amount_of_add:
  assumes "snapshot_ok s" "in_range (amount_of h org workspace)"
  shows "amount_of (hour_add h s n) org workspace = add_amounts (amount_of h org workspace) (reserved_of s org workspace) n"
  using amount_add_orgs [of "s_orgs s" "h_orgs h" org workspace n] assms
  by (simp add: amount_of_def hour_add_def snapshot_ok_def reserved_of_def org_map_def)

section \<open>The ledger\<close>

text \<open>
  The specification: a ledger of what was metered, each entry a piece of time within one hour and what was
  reserved in it. An hour is in order when its entries follow each other without overlap, end where it says
  that it is covered, and its amounts are what they add up to.
\<close>

record entry =
  e_start :: time
  e_snapshot :: snapshot
  e_from :: time
  e_to :: time

definition e_seconds :: "entry \<Rightarrow> int" where
  "e_seconds e = seconds (e_to e - e_from e)"

definition entries :: "entry list \<Rightarrow> time \<Rightarrow> entry list" where
  "entries L start = filter (\<lambda>e. e_start e = start) L"

definition total_of :: "(snapshot \<Rightarrow> reserved) \<Rightarrow> entry list \<Rightarrow> amounts" where
  "total_of f es = \<lparr>CPUMilliSeconds = wrap64 (\<Sum>e \<leftarrow> es. CPUMillis (f (e_snapshot e)) * e_seconds e),
     MemoryByteSeconds = wrap64 (\<Sum>e \<leftarrow> es. MemoryBytes (f (e_snapshot e)) * e_seconds e),
     StorageByteSeconds = wrap64 (\<Sum>e \<leftarrow> es. StorageBytes (f (e_snapshot e)) * e_seconds e)\<rparr>"

definition in_hour :: "usage_hour \<Rightarrow> entry \<Rightarrow> bool" where
  "in_hour h e \<longleftrightarrow> h_start h \<le> e_from e \<and> e_from e \<le> e_to e \<and> e_to e \<le> h_covered h \<and> e_from e mod Second = 0 \<and> e_to e mod Second = 0"

definition hour_books :: "entry list \<Rightarrow> usage_hour \<Rightarrow> bool" where
  "hour_books es h \<longleftrightarrow> h_metered h = (\<Sum>e \<leftarrow> es. e_seconds e) \<and>
     (\<forall>org workspace. amount_of h org workspace = total_of (\<lambda>s. reserved_of s org workspace) es) \<and>
     h_unassigned h = total_of s_unassigned es \<and> h_platform h = total_of s_platform es \<and>
     sorted_wrt (\<lambda>e e'. e_to e \<le> e_from e') es \<and> list_all (in_hour h) es \<and> h_covered h mod Second = 0"

definition labelled :: "time \<Rightarrow> config_map \<Rightarrow> bool" where
  "labelled start m \<longleftrightarrow> has_key (cm_labels m) LabelUsageHour \<and> lookup0 (cm_labels m) LabelUsageHour = formatHour start \<and>
     has_key (cm_labels m) LabelUsageDay \<and> lookup0 (cm_labels m) LabelUsageDay = formatDay start"

definition kept_as :: "entry list \<Rightarrow> time \<Rightarrow> config_map option \<Rightarrow> bool" where
  "kept_as es start cm = (case cm of
      None \<Rightarrow> es = []
    | Some m \<Rightarrow> labelled start m \<and> (\<exists>h. decode (HourName start) m = Inr h \<and> h_start h = start \<and> hour_books es h))"

definition booked :: "entry list \<Rightarrow> config_maps \<Rightarrow> bool" where
  "booked L ms \<longleftrightarrow> (\<forall>start. is_hour start \<longrightarrow> kept_as (entries L start) start (map_of ms (HourName start))) \<and>
     distinct (map fst ms) \<and> fst ` set ms \<subseteq> HourName ` {start. is_hour start}"

lemma total_of_snoc: "total_of f (es @ [e]) = add_amounts (total_of f es) (f (e_snapshot e)) (e_seconds e)"
  by (simp add: total_of_def add_amounts_def wrap_simps)

lemma total_in_range [simp]: "in_range (total_of f es)"
  by (simp add: in_range_def total_of_def wrap64_range)

lemma total_of_Nil [simp]: "total_of f [] = no_amounts"
  by (simp add: total_of_def no_amounts_def in64_def min_int64_def max_int64_def)

lemma books_empty [simp]: "hour_books [] (empty_hour start)"
  by (simp add: hour_books_def empty_hour_def amount_of_def get_amounts_def)

lemma whole_seconds: "f mod Second = 0 \<Longrightarrow> t mod Second = 0 \<Longrightarrow> f \<le> t \<Longrightarrow> seconds (t - f) * Second = t - f \<and> 0 \<le> seconds (t - f)"
proof -
  assume a: "f mod Second = 0" "t mod Second = 0" "f \<le> t"
  then have "(t - f) mod Second = 0" by (simp add: mod_diff_eq [symmetric])
  then have "(t - f) div Second * Second = t - f" using div_mult_mod_eq [of "t - f" Second] by simp
  with a show ?thesis by (simp add: seconds_def pos_imp_zdiv_nonneg_iff)
qed

text \<open>Pieces of time that follow each other are together no longer than what they lie in.\<close>

lemma pieces_fit:
  "sorted_wrt (\<lambda>e e'. e_to e \<le> e_from e') es \<Longrightarrow> \<forall>e \<in> set es. a \<le> e_from e \<and> e_from e \<le> e_to e \<and> e_to e \<le> b \<Longrightarrow> a \<le> b \<Longrightarrow>
     (\<Sum>e \<leftarrow> es. e_to e - e_from e) \<le> b - a"
proof (induction es arbitrary: a)
  case (Cons e es)
  then have "(\<Sum>e \<leftarrow> es. e_to e - e_from e) \<le> b - e_to e" by (intro Cons.IH) auto
  with Cons.prems show ?case by simp
qed simp

lemma metered_fits:
  assumes "hour_books es h" "h_start h \<le> h_covered h"
  shows "0 \<le> h_metered h \<and> h_metered h * Second \<le> h_covered h - h_start h"
proof -
  have e: "e_seconds e * Second = e_to e - e_from e" "0 \<le> e_seconds e" if "e \<in> set es" for e
    using assms(1) that whole_seconds [of "e_from e" "e_to e"] by (auto simp: hour_books_def in_hour_def list_all_iff e_seconds_def)
  have "(\<Sum>e \<leftarrow> es. e_seconds e) * Second = (\<Sum>e \<leftarrow> es. e_to e - e_from e)"
    using e(1) by (induction es) (simp_all add: distrib_right)
  also have "\<dots> \<le> h_covered h - h_start h"
    using assms by (intro pieces_fit) (auto simp: hour_books_def in_hour_def list_all_iff)
  finally have "h_metered h * Second \<le> h_covered h - h_start h" using assms(1) by (simp add: hour_books_def)
  moreover have "0 \<le> (\<Sum>e \<leftarrow> es. e_seconds e)" using e(2) by (intro sum_list_nonneg) auto
  ultimately show ?thesis using assms(1) by (simp add: hour_books_def)
qed

lemma books_restart: "hour_books es h \<Longrightarrow> h_covered h \<le> t \<Longrightarrow> t mod Second = 0 \<Longrightarrow> hour_books es (h\<lparr>h_covered := t\<rparr>)"
  by (fastforce simp: hour_books_def in_hour_def list_all_iff amount_of_def)

lemma books_add:
  assumes "hour_books es h" "span_ok h f t" "snapshot_ok s" "h_covered h = 0 \<and> es = [] \<or> h_start h \<le> h_covered h"
  shows "hour_books (es @ [\<lparr>e_start = h_start h, e_snapshot = s, e_from = f, e_to = t\<rparr>])
    ((hour_add h s (seconds (t - f)))\<lparr>h_covered := t\<rparr>)"
proof -
  let ?e = "\<lparr>e_start = h_start h, e_snapshot = s, e_from = f, e_to = t\<rparr>"
  let ?h = "(hour_add h s (seconds (t - f)))\<lparr>h_covered := t\<rparr>"
  have sp: "h_covered h \<le> f" "h_start h \<le> f" "f \<le> t" "t \<le> h_start h + Hour" "f mod Second = 0" "t mod Second = 0"
    using assms(2) by (simp_all add: span_ok_def hour_End_def)
  note b = assms(1) [unfolded hour_books_def]
  have m: "0 \<le> h_metered h \<and> h_metered h * Second \<le> f - h_start h"
  proof (cases "es = [] \<and> h_covered h = 0")
    case True
    with b sp show ?thesis by simp
  next
    case False
    with metered_fits [OF assms(1)] assms(4) sp show ?thesis by auto
  qed
  have sec: "seconds (t - f) * Second = t - f" "0 \<le> seconds (t - f)" using whole_seconds [OF sp(5,6,3)] by simp_all
  have "(h_metered h + seconds (t - f)) * Second \<le> Hour" using m sec sp(4) by (simp add: distrib_right)
  then have "in64 (h_metered h + seconds (t - f))"
    using m sec(2) by (simp add: in64_def min_int64_def max_int64_def Second_def Minute_def Hour_def)
  moreover have se: "e_seconds ?e = seconds (t - f)" by (simp add: e_seconds_def)
  ultimately have metered: "h_metered ?h = (\<Sum>e \<leftarrow> es @ [?e]. e_seconds e)"
    using b se by (simp add: hour_add_def)
  have "amount_of ?h org workspace = total_of (\<lambda>s. reserved_of s org workspace) (es @ [?e])" for org workspace
    using b amount_of_add [OF assms(3), of h org workspace "seconds (t - f)"] total_of_snoc [of _ es ?e]
    by (simp add: amount_of_def se)
  moreover have "h_unassigned ?h = total_of s_unassigned (es @ [?e])" "h_platform ?h = total_of s_platform (es @ [?e])"
    using b total_of_snoc [of _ es ?e] by (simp_all add: hour_add_def se)
  moreover have "sorted_wrt (\<lambda>e e'. e_to e \<le> e_from e') (es @ [?e])" "list_all (in_hour ?h) (es @ [?e])"
    using b sp by (fastforce simp: sorted_wrt_append list_all_iff in_hour_def hour_add_def)+
  moreover have "h_covered ?h mod Second = 0" using sp by simp
  ultimately show ?thesis using metered by (simp only: hour_books_def) blast
qed

section \<open>Writes keep the ledger in order\<close>

lemma encode_labels: "labelled (h_start h) ((snd (encode h m))\<lparr>cm_rv := r\<rparr>)"
  by (simp add: labelled_def encode_def hourLabels_def lookup0_update has_key_def update_conv'
      LabelUsageHour_def LabelUsageDay_def LabelManagedBy_def)

lemma hour_written:
  assumes "is_hour start" "h_start h = start" "hour_books es h" "start \<le> h_covered h" "h_covered h \<le> start + Hour"
    "m = (snd (encode h m0))\<lparr>cm_rv := r\<rparr>"
  shows "kept_as es start (Some m)"
proof -
  have "h_metered h * Second \<le> Hour" "0 \<le> h_metered h" using metered_fits [OF assms(3)] assms(2,4,5) by auto
  then have "h_metered h \<le> Hour div Second" by (simp add: Second_def Minute_def Hour_def)
  moreover have "start \<noteq> 0" "HourOf start = start"
    using is_hour_pos [OF assms(1)] HourOf_props(4) [OF assms(1)] by simp_all
  ultimately have "decode (HourName start) m = Inr (h\<lparr>h_version := formatVersion\<rparr>)"
    using assms \<open>0 \<le> h_metered h\<close> by (simp add: decode_def encode_def hour_End_def)
  moreover have "hour_books es (h\<lparr>h_version := formatVersion\<rparr>)"
    using assms(3) by (simp add: hour_books_def amount_of_def in_hour_def [abs_def])
  moreover have "labelled start m" using encode_labels [of h r m0] assms(2,6) by simp
  ultimately show ?thesis using assms(2) by (simp add: kept_as_def)
qed

lemma booked_write:
  assumes "booked L ms" "is_hour start" "\<And>t. t \<noteq> start \<Longrightarrow> entries L' t = entries L t" "kept_as (entries L' start) start (Some m)"
  shows "booked L' (AList.update (HourName start) m ms)"
proof -
  have "kept_as (entries L' t) t (map_of (AList.update (HourName start) m ms) (HourName t))" if "is_hour t" for t
    using assms that by (cases "start = t") (simp_all add: hn.lookup_update_hour booked_def)
  then show ?thesis using assms(1,2) by (auto simp: booked_def distinct_update dom_update)
qed

lemma entries_snoc: "entries (L @ [e]) t = (if e_start e = t then entries L t @ [e] else entries L t)"
  by (simp add: entries_def)

text \<open>Deleting what has a name takes the entries of that hour out of the ledger.\<close>

lemma booked_delete: "booked L ms \<Longrightarrow> \<exists>L'. booked L' (AList.delete name ms) \<and> set L' \<subseteq> set L"
proof (intro exI conjI)
  let ?L = "filter (\<lambda>e. HourName (e_start e) \<noteq> name) L"
  assume b: "booked L ms"
  have "entries ?L t = (if HourName t = name then [] else entries L t)" for t
    by (auto simp: entries_def filter_empty_conv intro: filter_cong)
  moreover have del: "distinct (map fst (AList.delete name ms))" "fst ` set (AList.delete name ms) \<subseteq> fst ` set ms"
    using b distinct_delete [of ms name] by (auto simp: booked_def) (force simp: AList.delete_eq)
  moreover from del(2) b have "fst ` set (AList.delete name ms) \<subseteq> HourName ` {start. is_hour start}"
    unfolding booked_def by (meson order_trans)
  ultimately show "booked ?L (AList.delete name ms)"
    using b unfolding booked_def by (simp add: delete_conv' kept_as_def [of _ _ None])
qed auto

lemma booked_kept: "booked L ms \<Longrightarrow> is_hour start \<Longrightarrow> kept_as (entries L start) start (map_of ms (HourName start))"
  by (simp add: booked_def)

lemma booked_hour:
  assumes "booked L (maps w)" "is_hour start" "hour_at (maps w) start = Some h"
  shows "hour_books (entries L start) h \<and> h_start h = start \<and> (h_covered h = 0 \<and> entries L start = [] \<or> start \<le> h_covered h)"
proof (cases "map_of (maps w) (HourName start)")
  case None
  with booked_kept [OF assms(1,2)] assms(3) have "entries L start = []" "h = empty_hour start" by (auto simp: kept_as_def hour_at_def)
  then show ?thesis by (simp add: empty_hour_def [of start]) (simp add: empty_hour_def [symmetric])
next
  case (Some m)
  then obtain h' where "decode (HourName start) m = Inr h'" "h_start h' = start" "hour_books (entries L start) h'"
    using booked_kept [OF assms(1,2)] by (auto simp: kept_as_def)
  with Some assms(3) show ?thesis by (auto simp: hour_at_def decode_def split: usage_json.splits if_splits)
qed

fun entries_of :: "usage_write \<Rightarrow> entry set" where
  "entries_of (Charge start s f t) = {\<lparr>e_start = start, e_snapshot = s, e_from = f, e_to = t\<rparr>}"
| "entries_of op = {}"

definition rival_entries :: "meter_event list \<Rightarrow> entry set" where
  "rival_entries es = (\<Union>op \<in> {op. Rival op \<in> set es}. entries_of op)"

definition fresh :: "usage_world \<Rightarrow> bool" where
  "fresh w \<longleftrightarrow> (\<forall>name m. map_of (maps w) name = Some m \<longrightarrow> cm_rv m < next_version w)"

lemma put_hour_maps:
  "maps (put_hour h w) = AList.update (HourName (h_start h))
     ((snd (encode h (case map_of (maps w) (HourName (h_start h)) of None \<Rightarrow> newHourConfigMap | Some m \<Rightarrow> m)))\<lparr>cm_rv := next_version w\<rparr>) (maps w)"
  by (simp add: put_hour_def encode_def)

lemma booked_put:
  assumes "booked L (maps w)" "is_hour start" "h_start h = start" "hour_books (entries L' start) h" "start \<le> h_covered h"
    "h_covered h \<le> start + Hour" "\<And>t. t \<noteq> start \<Longrightarrow> entries L' t = entries L t"
  shows "booked L' (maps (put_hour h w))"
  unfolding put_hour_maps assms(3)
  by (intro booked_write [OF assms(1,2,7)] hour_written [OF assms(2-6)]) simp_all

lemma rival_books:
  assumes "booked L (maps w)"
  shows "\<exists>L'. booked L' (maps (rival op w)) \<and> set L' \<subseteq> set L \<union> entries_of op"
proof (cases op)
  case (Charge start s f t)
  show ?thesis
  proof (cases "\<exists>h. hour_at (maps w) start = Some h \<and> is_hour start \<and> snapshot_ok s \<and> span_ok h f t")
    case True
    then obtain h where h: "hour_at (maps w) start = Some h" "is_hour start" "snapshot_ok s" "span_ok h f t" by blast
    note b = booked_hour [OF assms h(2,1)]
    let ?e = "\<lparr>e_start = start, e_snapshot = s, e_from = f, e_to = t\<rparr>"
    have "booked (L @ [?e]) (maps (put_hour ((hour_add h s (seconds (t - f)))\<lparr>h_covered := t\<rparr>) w))"
      using b h books_add [of "entries L start" h f t s]
      by (intro booked_put [OF assms h(2)]) (auto simp: entries_snoc span_ok_def hour_End_def hour_add_def)
    with h Charge show ?thesis by (intro exI [of _ "L @ [?e]"]) (simp add: rival_def)
  next
    case False
    with Charge have "rival op w = w" by (auto simp: rival_def split: option.splits)
    with assms show ?thesis by auto
  qed
next
  case (Restart start t)
  show ?thesis
  proof (cases "\<exists>h. hour_at (maps w) start = Some h \<and> is_hour start \<and> span_ok h t t")
    case True
    then obtain h where h: "hour_at (maps w) start = Some h" "is_hour start" "span_ok h t t" by blast
    note b = booked_hour [OF assms h(2,1)]
    have "booked L (maps (put_hour (h\<lparr>h_covered := t\<rparr>) w))"
      using b h by (intro booked_put [OF assms h(2)] books_restart) (auto simp: span_ok_def hour_End_def intro: books_restart)
    with h Restart show ?thesis by (intro exI [of _ L]) (simp add: rival_def)
  next
    case False
    with Restart have "rival op w = w" by (auto simp: rival_def split: option.splits)
    with assms show ?thesis by auto
  qed
next
  case (Remove start)
  with booked_delete [OF assms, of "HourName start"] show ?thesis by (simp add: rival_def)
qed

section \<open>What a sample does to the ledger\<close>

text \<open>
  \<open>goes A w w'\<close>: from \<open>w\<close> to \<open>w'\<close> only entries of \<open>A\<close> and of other meters are added to the ledger, what is
  measured stays, and a ConfigMap that has changed has a version that was not given before.
\<close>

definition kept :: "usage_world \<Rightarrow> usage_world \<Rightarrow> string \<Rightarrow> bool" where
  "kept w w' name \<longleftrightarrow> map_of (maps w') name = map_of (maps w) name \<or> map_of (maps w') name = None \<or>
     (\<exists>m. map_of (maps w') name = Some m \<and> next_version w \<le> cm_rv m)"

definition measured :: "(string \<Rightarrow> bool) \<Rightarrow> usage_world \<Rightarrow> snapshot" where
  "measured dns w = Measure dns (projects w) (organizations w) (all_pods w) (all_claims w)"

definition same_cluster :: "usage_world \<Rightarrow> usage_world \<Rightarrow> bool" where
  "same_cluster w w' \<longleftrightarrow> (\<forall>dns. measured dns w' = measured dns w) \<and> usage_enabled w' = usage_enabled w"

definition goes :: "entry set \<Rightarrow> usage_world \<Rightarrow> usage_world \<Rightarrow> bool" where
  "goes A w w' \<longleftrightarrow> set (around w') \<subseteq> set (around w) \<and> same_cluster w w' \<and> next_version w \<le> next_version w' \<and>
     (fresh w \<longrightarrow> fresh w') \<and> (\<forall>name. kept w w' name) \<and>
     (\<forall>L. booked L (maps w) \<longrightarrow> (\<exists>L'. booked L' (maps w') \<and> set L' \<subseteq> set L \<union> A \<union> rival_entries (around w)))"

lemma rival_entries_mono: "set es \<subseteq> set es' \<Longrightarrow> rival_entries es \<subseteq> rival_entries es'"
  by (auto simp: rival_entries_def)

lemma goes_refl [intro]: "goes A w w"
  by (auto simp: goes_def kept_def same_cluster_def)

lemma goes_trans [trans]:
  assumes "goes A w w'" "goes B w' w''"
  shows "goes (A \<union> B) w w''"
proof -
  have "next_version w \<le> next_version w'" using assms(1) by (simp add: goes_def)
  moreover have "kept w w' name" "kept w' w'' name" for name using assms by (simp_all add: goes_def)
  ultimately have "kept w w'' name" for name
    unfolding kept_def by (cases "map_of (maps w'') name") (simp, metis option.inject order_trans)
  moreover have "\<exists>L''. booked L'' (maps w'') \<and> set L'' \<subseteq> set L \<union> (A \<union> B) \<union> rival_entries (around w)" if L: "booked L (maps w)" for L
  proof -
    obtain L' where L': "booked L' (maps w')" "set L' \<subseteq> set L \<union> A \<union> rival_entries (around w)"
      using assms(1) L by (auto simp: goes_def)
    then obtain L'' where "booked L'' (maps w'')" "set L'' \<subseteq> set L' \<union> B \<union> rival_entries (around w')"
      using assms(2) by (auto simp: goes_def)
    moreover have "rival_entries (around w') \<subseteq> rival_entries (around w)"
      using assms(1) by (intro rival_entries_mono) (simp add: goes_def)
    ultimately show ?thesis using L'(2) by blast
  qed
  ultimately show ?thesis using assms by (auto simp: goes_def same_cluster_def)
qed

lemma goes_mono: "goes A w w' \<Longrightarrow> A \<subseteq> B \<Longrightarrow> goes B w w'"
  unfolding goes_def by (meson Un_mono order_refl order_trans)

text \<open>A write or a removal under one name.\<close>

lemma goes_write:
  assumes "around w' = around w" "same_cluster w w'" "next_version w' = Suc (next_version w)"
    "maps w' = AList.update name m (maps w)" "cm_rv m = next_version w"
    "\<And>L. booked L (maps w) \<Longrightarrow> \<exists>L'. booked L' (maps w') \<and> set L' \<subseteq> set L \<union> A"
  shows "goes A w w'"
proof -
  have "fresh w \<longrightarrow> fresh w'" using assms(3-5) by (auto simp: fresh_def update_conv' less_Suc_eq)
  moreover have "kept w w' n" for n using assms(4,5) by (auto simp: kept_def update_conv')
  moreover have "\<exists>L'. booked L' (maps w') \<and> set L' \<subseteq> set L \<union> A \<union> rival_entries (around w)" if "booked L (maps w)" for L
    using assms(6) [OF that] by blast
  ultimately show ?thesis using assms(1-3) by (simp add: goes_def)
qed

lemma goes_remove: "goes {} w (w\<lparr>maps := AList.delete name (maps w)\<rparr>)"
proof -
  have "fresh w \<longrightarrow> fresh (w\<lparr>maps := AList.delete name (maps w)\<rparr>)" by (auto simp: fresh_def delete_conv' split: if_splits)
  moreover have "kept w (w\<lparr>maps := AList.delete name (maps w)\<rparr>) n" for n by (simp add: kept_def delete_conv')
  ultimately show ?thesis
    using booked_delete [of _ "maps w" name] unfolding goes_def by (fastforce simp: same_cluster_def measured_def)
qed

lemma put_hour_other:
  "around (put_hour h w) = around w" "same_cluster w (put_hour h w)" "next_version (put_hour h w) = Suc (next_version w)"
  by (simp_all add: put_hour_def encode_def same_cluster_def measured_def)

lemma rival_shapes:
  "rival op w = w \<or> (\<exists>h. rival op w = put_hour h w) \<or> (\<exists>name. rival op w = w\<lparr>maps := AList.delete name (maps w)\<rparr>)"
  by (cases op) (auto simp: rival_def split: option.splits)

lemma rival_goes: "goes (entries_of op) w (rival op w)"
proof -
  consider "rival op w = w" | h where "rival op w = put_hour h w" | name where "rival op w = w\<lparr>maps := AList.delete name (maps w)\<rparr>"
    using rival_shapes [of op w] by blast
  then show ?thesis
  proof cases
    case 1
    then show ?thesis by (simp add: goes_refl)
  next
    case (2 h)
    have "goes (entries_of op) w (put_hour h w)"
      using rival_books [of _ w op, unfolded 2] by (intro goes_write [OF put_hour_other put_hour_maps]) simp_all
    with 2 show ?thesis by simp
  next
    case 3
    with goes_mono [OF goes_remove] show ?thesis by simp
  qed
qed

lemma goes_event:
  assumes "around w = ev # es" "goes A (w\<lparr>around := es\<rparr>) w'" "A \<subseteq> rival_entries (around w)"
  shows "goes {} w w'"
proof -
  have "rival_entries es \<subseteq> rival_entries (around w)" using assms(1) by (intro rival_entries_mono) auto
  then have "\<exists>L'. booked L' (maps w') \<and> set L' \<subseteq> set L \<union> {} \<union> rival_entries (around w)" if "booked L (maps w)" for L
    using assms(2,3) that unfolding goes_def by simp blast
  with assms(1,2) show ?thesis unfolding goes_def by (auto simp: same_cluster_def measured_def kept_def fresh_def)
qed

lemma happens_goes: "happens w = (r, w') \<Longrightarrow> goes {} w w'"
proof (cases "around w")
  case Nil
  moreover assume "happens w = (r, w')"
  ultimately show ?thesis by (auto simp: happens_def)
next
  case (Cons ev es)
  assume h: "happens w = (r, w')"
  show ?thesis
  proof (cases ev)
    case (Rival op)
    then have "goes (entries_of op) (w\<lparr>around := es\<rparr>) w'" using h Cons rival_goes by (auto simp: happens_def)
    with Cons Rival show ?thesis by (rule_tac goes_event) (auto simp: rival_entries_def)
  qed (use h Cons goes_event [OF Cons goes_refl, of "{}"] in \<open>auto simp: happens_def\<close>)
qed

text \<open>What the meter has read of an hour, as long as nothing else has written it.\<close>

definition holds :: "usage_world \<Rightarrow> time \<Rightarrow> stored \<Rightarrow> bool" where
  "holds w start st \<longleftrightarrow> h_start (fst st) = start \<and> h_covered (fst st) mod Second = 0 \<and>
     (case snd st of
        None \<Rightarrow> fst st = empty_hour start
      | Some m \<Rightarrow> decode (HourName start) m = Inr (fst st) \<and> cm_rv m < next_version w \<and>
          (\<forall>m'. map_of (maps w) (HourName start) = Some m' \<longrightarrow> cm_rv m' = cm_rv m \<longrightarrow> m' = m))"

lemma holds_goes: "goes A w w' \<Longrightarrow> holds w start st \<Longrightarrow> holds w' start st"
proof -
  assume g: "goes A w w'" and h: "holds w start st"
  have k: "kept w w' (HourName start)" "next_version w \<le> next_version w'" using g by (simp_all add: goes_def)
  show ?thesis
  proof (cases "snd st")
    case None
    with h show ?thesis by (auto simp: holds_def)
  next
    case (Some m)
    with h k show ?thesis by (auto simp: holds_def kept_def)
  qed
qed

lemma decode_covered: "decode name m = Inr h \<Longrightarrow> h_start h \<le> h_covered h \<and> h_covered h \<le> hour_End h"
  by (auto simp: decode_def split: usage_json.splits if_splits)

lemma load_holds:
  assumes "fresh w" "booked L (maps w)" "is_hour start" "load start w = (Inr st, w')"
  shows "goes {} w w' \<and> holds w' start st"
proof -
  obtain r w1 where h: "happens w = (r, w1)" by fastforce
  note g = happens_goes [OF h]
  then obtain L1 where L1: "booked L1 (maps w1)" using assms(2) by (auto simp: goes_def)
  have f: "fresh w1" using g assms(1) by (simp add: goes_def)
  have w': "w' = w1" using assms(4) h by (auto simp: load_def Get_map_def split: option.splits sum.splits kube_error.splits)
  have "holds w1 start st"
  proof (cases "snd st")
    case None
    with assms(4) h have "st = (empty_hour start, None)"
      by (auto simp: load_def Get_map_def split: option.splits sum.splits kube_error.splits)
    then show ?thesis by (simp add: holds_def empty_hour_def)
  next
    case (Some m)
    with assms(4) h have m: "map_of (maps w1) (HourName start) = Some m" "decode (HourName start) m = Inr (fst st)"
      by (auto simp: load_def Get_map_def split: option.splits sum.splits kube_error.splits)
    with booked_kept [OF L1 assms(3)] have "h_start (fst st) = start" "h_covered (fst st) mod Second = 0"
      by (auto simp: kept_as_def hour_books_def)
    with m Some f show ?thesis by (simp add: holds_def fresh_def)
  qed
  with g w' show ?thesis by simp
qed

lemma entries_append: "\<forall>e \<in> set new. e_start e = start \<Longrightarrow> entries (L @ new) t = (if t = start then entries L t @ new else entries L t)"
  by (auto simp: entries_def filter_empty_conv filter_id_conv)

lemma store_goes:
  assumes "holds w start st" "is_hour start" "h_start h = start" "start \<le> h_covered h" "h_covered h \<le> start + Hour"
    "\<forall>e \<in> set new. e_start e = start"
    "\<And>es. hour_books es (fst st) \<Longrightarrow> h_covered (fst st) = 0 \<and> es = [] \<or> start \<le> h_covered (fst st) \<Longrightarrow> hour_books (es @ new) h"
    "store (h, snd st) w = (r, w')"
  shows "goes (set new) w w'"
proof -
  obtain k w1 where h: "happens w = (k, w1)" by fastforce
  note g = happens_goes [OF h]
  note hold = holds_goes [OF g assms(1)]
  define m where "m = snd (encode h (case snd st of None \<Rightarrow> newHourConfigMap | Some m \<Rightarrow> m))"
  define w2 where "w2 = w1\<lparr>maps := AList.update (HourName start) (m\<lparr>cm_rv := next_version w1\<rparr>) (maps w1), next_version := Suc (next_version w1)\<rparr>"
  have fst_encode: "fst (encode h x) = HourName start" for x using assms(3) by (simp add: encode_def)
  consider "w' = w1" | "w' = w2" "snd st = None" "map_of (maps w1) (HourName start) = None"
    | m0 where "w' = w2" "snd st = Some m0" "map_of (maps w1) (HourName start) = Some m0"
    using assms(8) h hold fst_encode
    by (cases "snd st")
      (auto simp: store_def Create_map_def Update_map_def holds_def m_def w2_def has_key_def encode_def split: option.splits if_splits)
  moreover have written: "goes (set new) w1 w2" if "\<And>L. booked L (maps w1) \<Longrightarrow> hour_books (entries L start @ new) h"
  proof -
    have "booked (L @ new) (AList.update (HourName start) (m\<lparr>cm_rv := next_version w1\<rparr>) (maps w1))" if L: "booked L (maps w1)" for L
    proof (rule booked_write [OF L assms(2)])
      show "kept_as (entries (L @ new) start) start (Some (m\<lparr>cm_rv := next_version w1\<rparr>))"
        unfolding entries_append [OF assms(6)]
        using \<open>\<And>L. booked L (maps w1) \<Longrightarrow> hour_books (entries L start @ new) h\<close> [OF L]
        by (intro hour_written [OF assms(2,3) _ assms(4,5)]) (simp_all add: m_def encode_def)
    qed (simp add: entries_append [OF assms(6)])
    then show ?thesis
      by (intro goes_write [where name = "HourName start" and m = "m\<lparr>cm_rv := next_version w1\<rparr>"])
        (auto simp: w2_def same_cluster_def measured_def intro!: exI)
  qed
  ultimately have "goes (set new) w1 w'"
  proof cases
    case 1
    then show ?thesis by (simp add: goes_refl)
  next
    case 2
    have e: "fst st = empty_hour start" using hold 2 by (simp add: holds_def)
    have "hour_books (entries L start @ new) h" if "booked L (maps w1)" for L
      using booked_kept [OF that assms(2)] 2 assms(7) [of "[]"] books_empty e by (auto simp: kept_as_def empty_hour_def)
    with written 2(1) show ?thesis by simp
  next
    case (3 m0)
    have d: "decode (HourName start) m0 = Inr (fst st)" "h_start (fst st) = start" using hold 3 by (simp_all add: holds_def)
    have "hour_books (entries L start @ new) h" if "booked L (maps w1)" for L
      using booked_kept [OF that assms(2)] 3 assms(7) d decode_covered [OF d(1)] by (auto simp: kept_as_def)
    with written 3(1) show ?thesis by simp
  qed
  from goes_trans [OF g this] show ?thesis by simp
qed

lemma tsub_within: "0 \<le> t - f \<Longrightarrow> t - f \<le> Hour \<Longrightarrow> tsub t f = t - f"
  by (simp add: tsub_def min_int64_def max_int64_def duration_defs)

lemma cover_goes:
  assumes "holds w start st" "is_hour start" "span_ok (fst st) f t" "snapshot_ok s" "cover st s f t w = (r, w')"
  shows "goes {\<lparr>e_start = start, e_snapshot = s, e_from = f, e_to = t\<rparr>} w w'"
proof -
  have start: "h_start (fst st) = start" using assms(1) by (simp add: holds_def)
  have sp: "start \<le> f" "f \<le> t" "t \<le> start + Hour" using assms(3) start by (auto simp: span_ok_def hour_End_def)
  then have "tsub t f = t - f" by (intro tsub_within) auto
  with assms(5) have st: "store ((hour_add (fst st) s (seconds (t - f)))\<lparr>h_covered := t\<rparr>, snd st) w = (r, w')"
    by (simp add: cover_def)
  have "goes (set [\<lparr>e_start = start, e_snapshot = s, e_from = f, e_to = t\<rparr>]) w w'"
    using books_add [OF _ assms(3,4)] start sp
    by (intro store_goes [OF assms(1,2) _ _ _ _ _ st]) (auto simp: hour_add_def)
  then show ?thesis by simp
qed

lemma restart_goes:
  assumes "holds w start st" "is_hour start" "span_ok (fst st) t t" "store ((fst st)\<lparr>h_covered := t\<rparr>, snd st) w = (r, w')"
  shows "goes {} w w'"
proof -
  have start: "h_start (fst st) = start" using assms(1) by (simp add: holds_def)
  have "goes (set []) w w'"
    using assms(3) start by (intro store_goes [OF assms(1,2) _ _ _ _ _ assms(4)]) (auto simp: span_ok_def hour_End_def intro: books_restart)
  then show ?thesis by simp
qed

lemma set_update: "x \<in> set (AList.update k v al) \<Longrightarrow> x = (k, v) \<or> x \<in> set al"
  by (induction al) (auto split: if_splits)

lemma charge_ok:
  assumes "snapshot_ok s"
  shows "snapshot_ok (charge owners s (namespace, r))"
proof (cases "\<exists>who. map_of owners namespace = Some who \<and> o_org who \<noteq> []")
  case True
  then obtain who where who: "map_of owners namespace = Some who" "o_org who \<noteq> []" by blast
  have "distinct (map fst (org_map s (o_org who)))"
    using assms by (auto simp: snapshot_ok_def org_map_def list_all_iff split: option.splits dest!: map_of_SomeD)
  with who assms show ?thesis
    by (auto simp: charge_def snapshot_ok_def list_all_iff Let_def distinct_update dest!: set_update)
next
  case False
  with assms show ?thesis by (auto simp: charge_def snapshot_ok_def split: option.splits)
qed

lemma measured_ok: "snapshot_ok (measured dns w)"
proof -
  have "snapshot_ok s \<Longrightarrow> snapshot_ok (foldl (charge owners) s items)" for owners s items
    by (induction items arbitrary: s) (auto simp: charge_ok)
  then show ?thesis by (simp add: measured_def Measure_def Let_def snapshot_ok_def [of "\<lparr>s_orgs = [], s_unassigned = _, s_platform = _\<rparr>"])
qed

lemma measure_now_goes: "measure_now dns w = (r, w') \<Longrightarrow> goes {} w w' \<and> (\<forall>s. r = Inr s \<longrightarrow> s = measured dns w)"
proof -
  assume m: "measure_now dns w = (r, w')"
  obtain r1 w1 r2 w2 r3 w3 r4 w4 where h: "happens w = (r1, w1)" "happens w1 = (r2, w2)" "happens w2 = (r3, w3)" "happens w3 = (r4, w4)"
    by (metis surj_pair)
  note g1 = happens_goes [OF h(1)]
  note g2 = goes_trans [OF g1 happens_goes [OF h(2)]]
  note g3 = goes_trans [OF g2 happens_goes [OF h(3)]]
  note g4 = goes_trans [OF g3 happens_goes [OF h(4)]]
  have "measured dns w4 = measured dns w" using g4 by (simp add: goes_def same_cluster_def)
  with m h g1 g2 g3 g4 show ?thesis
    by (auto simp: measure_now_def Read_other_def measured_def split: option.splits)
qed

text \<open>What a sample of its own may add: what it measured, for at most \<open>MaxStep\<close> up to now.\<close>

definition own_entries :: "snapshot \<Rightarrow> time \<Rightarrow> entry set" where
  "own_entries s now = {e. e_snapshot e = s \<and> now - MaxStep \<le> e_from e \<and> e_from e \<le> e_to e \<and> e_to e \<le> now}"

lemma holds_covered:
  "holds w start st \<Longrightarrow> h_covered (fst st) mod Second = 0 \<and> h_start (fst st) = start \<and>
     (h_covered (fst st) = 0 \<or> start \<le> h_covered (fst st) \<and> h_covered (fst st) \<le> start + Hour)"
  using decode_covered [of "HourName start" _ "fst st"]
  by (auto simp: holds_def hour_End_def empty_hour_def split: option.splits)

lemma add_sample_goes:
  assumes cur: "holds w current this" and prev: "holds w (current - Hour) previous" and hours: "is_hour current" "is_hour (current - Hour)"
    and cursor: "cursor = max (h_covered (fst this)) (h_covered (fst previous))" "cursor \<noteq> 0"
    and now: "current \<le> now" "now < current + Hour" "now mod Second = 0" "cursor < now" "now - cursor \<le> MaxStep"
    and run: "add_sample dns now current this previous cursor w = (r, w')"
  shows "goes (own_entries (measured dns w) now) w w'"
proof -
  let ?s = "measured dns w"
  note c = holds_covered [OF cur] and p = holds_covered [OF prev]
  have pos: "0 < current" "0 < current - Hour" using is_hour_pos [OF hours(1)] is_hour_pos [OF hours(2)] .
  have "current mod Second = 0" using hours(1) by (auto simp: is_hour_def Hour_def Minute_def Second_def mod_mod_cancel intro: mod_0_imp_dvd)
  note facts = c p pos this
  obtain m w1 where m: "measure_now dns w = (m, w1)" by fastforce
  note g1 = measure_now_goes [OF m]
  show ?thesis
  proof (cases m)
    case (Inl e)
    with run m g1 show ?thesis by (auto simp: add_sample_def intro: goes_mono)
  next
    case (Inr s)
    with g1 have s: "s = ?s" by simp
    have hold: "holds w1 current this" "holds w1 (current - Hour) previous" using holds_goes g1 cur prev by blast+
    have ok: "snapshot_ok ?s" by (rule measured_ok)
    show ?thesis
    proof (cases "cursor < current")
      case True
      have sp: "span_ok (fst previous) cursor current" "span_ok (fst this) current now"
        using facts True cursor now by (auto simp: span_ok_def hour_End_def max_def split: if_splits)
      obtain e2 w2 where c2: "cover previous s cursor current w1 = (e2, w2)" by fastforce
      note g2 = cover_goes [OF hold(2) hours(2) sp(1) ok c2 [unfolded s]]
      have own2: "{\<lparr>e_start = current - Hour, e_snapshot = ?s, e_from = cursor, e_to = current\<rparr>} \<subseteq> own_entries ?s now"
        using now True by (auto simp: own_entries_def)
      show ?thesis
      proof (cases e2)
        case None
        then have c3: "cover this s current now w2 = (r, w')" using run m Inr c2 True by (simp add: add_sample_def)
        note g3 = cover_goes [OF holds_goes [OF g2 hold(1)] hours(1) sp(2) ok c3 [unfolded s]]
        have "{\<lparr>e_start = current, e_snapshot = ?s, e_from = current, e_to = now\<rparr>} \<subseteq> own_entries ?s now"
          using now True by (auto simp: own_entries_def)
        with own2 show ?thesis using goes_trans [OF conjunct1 [OF g1] goes_trans [OF g2 g3]] by (rule_tac goes_mono) auto
      next
        case (Some e)
        then have "w' = w2" using run m Inr c2 True by (simp add: add_sample_def)
        with own2 show ?thesis using goes_trans [OF conjunct1 [OF g1] g2] by (rule_tac goes_mono) auto
      qed
    next
      case False
      have sp: "span_ok (fst this) cursor now"
        using facts False cursor now by (auto simp: span_ok_def hour_End_def max_def split: if_splits)
      have "cover this s cursor now w1 = (r, w')" using run m Inr False by (simp add: add_sample_def)
      note g2 = cover_goes [OF hold(1) hours(1) sp ok this [unfolded s]]
      have "{\<lparr>e_start = current, e_snapshot = ?s, e_from = cursor, e_to = now\<rparr>} \<subseteq> own_entries ?s now"
        using now by (auto simp: own_entries_def)
      then show ?thesis using goes_trans [OF conjunct1 [OF g1] g2] by (rule_tac goes_mono) auto
    qed
  qed
qed

lemma step_cases: "tsub now c > MaxStep \<longleftrightarrow> now - c > MaxStep" "tsub now c \<le> 0 \<longleftrightarrow> now \<le> c"
  by (auto simp: tsub_def MaxStep_def min_int64_def max_int64_def duration_defs)

lemma meter_count_goes:
  assumes "fresh w" "booked L (maps w)" "is_hour (HourOf now)" "is_hour (HourOf now - Hour)" "now mod Second = 0"
    "meter_count dns now w = (r, w')"
  shows "goes (own_entries (measured dns w) now) w w'"
proof -
  let ?c = "HourOf now"
  obtain r1 w1 where l1: "load ?c w = (r1, w1)" by fastforce
  have g1: "goes {} w w1" using l1 happens_goes by (auto simp: load_def Get_map_def split: prod.splits option.splits sum.splits kube_error.splits)
  show ?thesis
  proof (cases r1)
    case (Inl e)
    with l1 g1 assms(6) show ?thesis by (auto simp: meter_count_def Let_def intro: goes_mono)
  next
    case (Inr this')
    have h1: "holds w1 ?c this'" using load_holds [OF assms(1,2,3)] l1 Inr by simp
    obtain L1 where L1: "fresh w1" "booked L1 (maps w1)" using g1 assms(1,2) by (auto simp: goes_def)
    obtain r2 w2 where l2: "load (?c - Hour) w1 = (r2, w2)" by fastforce
    have g2: "goes {} w1 w2" using l2 happens_goes by (auto simp: load_def Get_map_def split: prod.splits option.splits sum.splits kube_error.splits)
    note g = goes_trans [OF g1 g2]
    show ?thesis
    proof (cases r2)
      case (Inl e)
      with l1 l2 \<open>r1 = Inr this'\<close> g assms(6) show ?thesis by (auto simp: meter_count_def Let_def intro: goes_mono)
    next
      case (Inr previous)
      have h2: "holds w2 (?c - Hour) previous" using load_holds [OF L1 assms(4)] l2 Inr by simp
      note h1' = holds_goes [OF g2 h1]
      define cursor where "cursor = max (h_covered (fst this')) (h_covered (fst previous))"
      have run: "(if cursor = 0 \<or> MaxStep < now - cursor then store ((fst this')\<lparr>h_covered := now\<rparr>, snd this') w2
          else if now \<le> cursor then (None, w2) else add_sample dns now ?c this' previous cursor w2) = (r, w')"
        using assms(6) [unfolded meter_count_def Let_def l1 \<open>r1 = Inr this'\<close> prod.case sum.case l2 Inr cursor_def [symmetric]]
        by (simp only: step_cases)
      have m: "measured dns w2 = measured dns w" using g by (simp add: goes_def same_cluster_def)
      note now = HourOf_props(1,2) [of now]
      have "goes (own_entries (measured dns w2) now) w2 w'"
      proof (cases "cursor = 0 \<or> MaxStep < now - cursor")
        case True
        have "span_ok (fst this') now now"
          using True now assms(5) holds_covered [OF h1'] is_hour_pos [OF assms(3)] holds_covered [OF h2] is_hour_pos [OF assms(4)]
          by (auto simp: span_ok_def hour_End_def cursor_def max_def MaxStep_def duration_defs split: if_splits)
        from restart_goes [OF h1' assms(3) this] run True show ?thesis by (auto intro: goes_mono)
      next
        case False
        with run add_sample_goes [OF h1' h2 assms(3,4) cursor_def _ now assms(5), of dns r w'] show ?thesis
          by (auto split: if_splits intro: goes_refl)
      qed
      with goes_trans [OF g this] m show ?thesis by simp
    qed
  qed
qed

lemma trim_loop_goes: "trim_loop names w = (r, w') \<Longrightarrow> goes {} w w'"
proof (induction names w rule: trim_loop.induct)
  case (1 w)
  then show ?case by auto
next
  case (2 name names w)
  obtain k w1 where d: "Delete_map name w = (k, w1)" by fastforce
  obtain r0 w0 where h: "happens w = (r0, w0)" by fastforce
  have "goes {} w w1"
  proof (cases "w1 = w0")
    case True
    with happens_goes [OF h] show ?thesis by simp
  next
    case False
    with d h have "w1 = w0\<lparr>maps := AList.delete name (maps w0)\<rparr>" by (auto simp: Delete_map_def split: option.splits if_splits)
    with goes_trans [OF happens_goes [OF h] goes_remove] show ?thesis by simp
  qed
  moreover have "w' = w1 \<or> trim_loop names w1 = (r, w')" using 2 d by (auto split: option.splits if_splits)
  moreover have "trim_loop names w1 = (r, w') \<Longrightarrow> goes {} w1 w'" using 2 d by (cases k) (auto split: if_splits)
  ultimately show ?case using goes_trans [of "{}" w w1 "{}" w'] by auto
qed

lemma trim_goes: "trim trimmed now w = (r, trimmed', w') \<Longrightarrow> goes {} w w'"
proof -
  assume t: "trim trimmed now w = (r, trimmed', w')"
  obtain k w1 where h: "happens w = (k, w1)" by fastforce
  obtain k2 w2 where l: "trim_loop (trim_candidates (HourOf (now - Retention)) (maps w1)) w1 = (k2, w2)" by fastforce
  note g1 = happens_goes [OF h]
  note g2 = goes_trans [OF g1 trim_loop_goes [OF l]]
  show ?thesis using t h l g1 g2 by (auto simp: trim_def Read_other_def split: option.splits if_splits)
qed

definition usable_clock :: "time \<Rightarrow> bool" where
  "usable_clock t \<longleftrightarrow> 2 * Hour \<le> t \<and> t < days_before_year 10000 * Day"

lemma usable_hours:
  assumes "usable_clock t"
  defines "now \<equiv> t - t mod Second"
  shows "is_hour (HourOf now)" "is_hour (HourOf now - Hour)" "now mod Second = 0" "HourOf now \<le> t"
proof -
  have d: "Second dvd Hour" by (simp add: Hour_def Minute_def)
  have n: "now \<le> t" "2 * Hour \<le> now"
  proof -
    show "now \<le> t" by (simp add: now_def)
    have "2 * Hour mod Second = 0" using d by (simp add: dvd_imp_mod_0)
    then have "2 * Hour div Second * Second = 2 * Hour" using div_mult_mod_eq [of "2 * Hour" Second] by simp
    moreover have "2 * Hour div Second \<le> t div Second" using assms(1) by (intro zdiv_mono1) (simp_all add: usable_clock_def)
    moreover have "now = t div Second * Second" by (simp add: now_def minus_mod_eq_div_mult)
    ultimately show "2 * Hour \<le> now" using mult_right_mono [of "2 * Hour div Second" "t div Second" Second] less_imp_le [OF hour_pos(3)] by simp
  qed
  have "2 * Hour \<le> HourOf now"
  proof -
    have "2 \<le> now div Hour" using n(2) zdiv_mono1 [of "2 * Hour" now Hour] hour_pos(1) by (simp split: if_splits)
    then have "2 * Hour \<le> now div Hour * Hour" by (intro mult_right_mono) simp_all
    then show ?thesis by (simp add: HourOf_def minus_mod_eq_div_mult)
  qed
  moreover have "HourOf now \<le> now" by (rule HourOf_props)
  ultimately have "Hour \<le> HourOf now - Hour" "HourOf now - Hour < days_before_year 10000 * Day" "HourOf now \<le> t"
    "Hour \<le> HourOf now" "HourOf now < days_before_year 10000 * Day"
    using assms(1) [unfolded usable_clock_def] n hour_pos(1) by linarith+
  then show "is_hour (HourOf now)" "is_hour (HourOf now - Hour)" "HourOf now \<le> t"
    using HourOf_props(3) [of now] by (simp_all add: is_hour_def in_calendar_def mod_diff_eq [symmetric])
  show "now mod Second = 0" by (simp add: now_def minus_mod_eq_div_mult)
qed

lemma Sample_goes:
  assumes "fresh w" "booked L (maps w)" "usable_clock clock" "Sample dns trimmed clock w = (r, trimmed', w')"
  shows "goes (own_entries (measured dns w) (clock - clock mod Second)) w w'"
proof -
  let ?now = "clock - clock mod Second"
  obtain k w1 where h: "happens w = (k, w1)" by fastforce
  note g1 = happens_goes [OF h]
  obtain L1 where L1: "fresh w1" "booked L1 (maps w1)" using g1 assms(1,2) by (auto simp: goes_def)
  have m: "measured dns w1 = measured dns w" using g1 by (simp add: goes_def same_cluster_def)
  obtain r2 w2 where c: "meter_count dns ?now w1 = (r2, w2)" by fastforce
  note g2 = goes_trans [OF g1 meter_count_goes [OF L1 usable_hours(1-3) [OF assms(3)] c]]
  obtain r3 t3 w3 where t: "trim trimmed ?now w2 = (r3, t3, w3)" by (metis surj_pair)
  note g3 = goes_trans [OF g2 trim_goes [OF t]]
  have "w' = w1 \<or> w' = w2 \<or> w' = w3"
    using assms(4) h c t by (auto simp: Sample_def Enabled_def Read_other_def Let_def split: option.splits kube_error.splits if_splits)
  with goes_mono [OF g1] g2 g3 m show ?thesis by auto
qed

section \<open>Histories\<close>

text \<open>
  One sample after another, with the clock, the cluster and what happens around the calls of each. An operator
  that starts, again or in another's place, has trimmed nothing yet.
\<close>

record tick =
  tk_clock :: time
  tk_started :: bool
  tk_enabled :: "bool option"
  tk_projects :: "geass_project list"
  tk_organizations :: "string list"
  tk_pods :: "pod list"
  tk_claims :: "volume_claim list"
  tk_around :: "meter_event list"

definition at_tick :: "tick \<Rightarrow> usage_world \<Rightarrow> usage_world" where
  "at_tick t w = w\<lparr>usage_enabled := tk_enabled t, projects := tk_projects t, organizations := tk_organizations t,
     all_pods := tk_pods t, all_claims := tk_claims t, around := tk_around t\<rparr>"

definition tick_snapshot :: "(string \<Rightarrow> bool) \<Rightarrow> tick \<Rightarrow> snapshot" where
  "tick_snapshot dns t = Measure dns (tk_projects t) (tk_organizations t) (tk_pods t) (tk_claims t)"

definition tick_now :: "tick \<Rightarrow> time" where
  "tick_now t = tk_clock t - tk_clock t mod Second"

fun meter_run :: "(string \<Rightarrow> bool) \<Rightarrow> tick list \<Rightarrow> time \<Rightarrow> usage_world \<Rightarrow> usage_world" where
  "meter_run dns [] trimmed w = w"
| "meter_run dns (t # ts) trimmed w =
     (case Sample dns (if tk_started t then 0 else trimmed) (tk_clock t) (at_tick t w) of
        (e, trimmed, w) \<Rightarrow> meter_run dns ts trimmed w)"

lemma meter_run_books:
  assumes "fresh w" "booked L (maps w)" "\<forall>t \<in> set ts. usable_clock (tk_clock t)"
  shows "\<exists>L'. booked L' (maps (meter_run dns ts trimmed w)) \<and>
    set L' \<subseteq> set L \<union> (\<Union>t \<in> set ts. own_entries (tick_snapshot dns t) (tick_now t) \<union> rival_entries (tk_around t))"
  using assms
proof (induction ts arbitrary: trimmed w L)
  case Nil
  then show ?case by auto
next
  case (Cons t ts)
  obtain e tr w1 where s: "Sample dns (if tk_started t then 0 else trimmed) (tk_clock t) (at_tick t w) = (e, tr, w1)" by (metis surj_pair)
  have w: "fresh (at_tick t w)" "booked L (maps (at_tick t w))" using Cons.prems(1,2) by (simp_all add: at_tick_def fresh_def)
  have g: "goes (own_entries (tick_snapshot dns t) (tick_now t)) (at_tick t w) w1"
    using Sample_goes [OF w _ s] Cons.prems(3) by (simp add: measured_def tick_snapshot_def tick_now_def at_tick_def)
  then obtain L1 where L1: "fresh w1" "booked L1 (maps w1)"
      "set L1 \<subseteq> set L \<union> own_entries (tick_snapshot dns t) (tick_now t) \<union> rival_entries (tk_around t)"
    using w by (auto simp: goes_def) (auto simp: at_tick_def)
  from Cons.IH [OF L1(1,2), of tr] Cons.prems(3) obtain L' where
    "booked L' (maps (meter_run dns ts tr w1))"
    "set L' \<subseteq> set L1 \<union> (\<Union>t \<in> set ts. own_entries (tick_snapshot dns t) (tick_now t) \<union> rival_entries (tk_around t))" by auto
  with L1(3) s show ?case by (intro exI [of _ L']) auto
qed

end
