(* ===== verification/Usage_Bills.thy ===== *)
theory Usage_Bills
  imports Metering
begin

section \<open>Reading the hours (pkg/metering/read.go), and what a bill can rely on\<close>

text \<open>
  \<open>Read\<close> returns every hour of a range from the ConfigMaps, a day at a time. On top of the ledger of the
  previous theory: what one undisturbed sample does exactly, that an hour that is closed stays as it is until
  it is deleted for its age, and that a read returns every hour of the range as it is stored.
\<close>

definition MaxHours :: int where "MaxHours = 31 * 24"

datatype read_error = TooManyHours int | ReadListError kube_error | BadHour decode_error

fun decode_all :: "(string \<times> config_map) list \<Rightarrow> (time \<times> usage_hour) list \<Rightarrow> read_error + (time \<times> usage_hour) list" where
  "decode_all [] hours = Inr hours"
| "decode_all ((name, m) # items) hours =
     (if \<not> has_key (cm_labels m) LabelUsageHour then decode_all items hours
      else case decode name m of
        Inl e \<Rightarrow> Inl (BadHour e)
      | Inr h \<Rightarrow> decode_all items (AList.update (h_start h) h hours))"

definition of_day :: "time \<Rightarrow> config_maps \<Rightarrow> config_maps" where
  "of_day day ms = filter (\<lambda>(name, m). has_key (cm_labels m) LabelUsageDay \<and> lookup0 (cm_labels m) LabelUsageDay = formatDay day) ms"

function read_days :: "time \<Rightarrow> time \<Rightarrow> (time \<times> usage_hour) list \<Rightarrow> usage_world \<Rightarrow> (read_error + (time \<times> usage_hour) list) \<times> usage_world" where
  "read_days day to hours w =
     (if \<not> day < to then (Inr hours, w)
      else case happens w of
        (Some k, w) \<Rightarrow> (Inl (ReadListError k), w)
      | (None, w) \<Rightarrow> (case decode_all (of_day day (maps w)) hours of
            Inl e \<Rightarrow> (Inl e, w)
          | Inr hours \<Rightarrow> read_days (day + Day) to hours w))"
  by auto

termination
  by (relation "measure (\<lambda>(day, to, hours, w). nat (to - day))") (auto simp: Day_def duration_defs)

declare read_days.simps [simp del]

function hour_starts :: "time \<Rightarrow> time \<Rightarrow> time list" where
  "hour_starts start to = (if \<not> start < to then [] else start # hour_starts (start + Hour) to)"
  by auto

termination
  by (relation "measure (\<lambda>(start, to). nat (to - start))") (auto simp: duration_defs)

declare hour_starts.simps [simp del]

definition Read :: "time \<Rightarrow> time \<Rightarrow> usage_world \<Rightarrow> (read_error + usage_hour list) \<times> usage_world" where
  "Read f to w =
     (let from_hour = HourOf f in
      if \<not> from_hour < to then (Inr [], w)
      else if tsub to from_hour > MaxHours * Hour then (Inl (TooManyHours (tsub to from_hour)), w)
      else (case read_days (from_hour - from_hour mod Day) to [] w of
          (Inl e, w) \<Rightarrow> (Inl e, w)
        | (Inr hours, w) \<Rightarrow> (Inr (map (\<lambda>start. case map_of hours start of Some h \<Rightarrow> h | None \<Rightarrow> empty_hour start)
            (hour_starts from_hour to)), w)))"

section \<open>No time is billed twice\<close>

text \<open>
  C3. No time is billed twice, and the bill is what was reserved. After any history of samples, with restarts, failing
  calls, clocks that jump and other meters that write between any two calls, there is a ledger that says what every
  stored hour holds: pieces of time that do not overlap and lie within the hour and what it says is covered, each with
  what one sample measured, at most \<open>MaxStep\<close> before it; the hour's seconds are their length, and the amount
  of every organization and workspace, of the projects of no organization and of the platform is exactly (in 64 bits) the
  sum of what was reserved times the seconds.
\<close>

theorem usage_billed_once:
  assumes "maps w = []" "\<forall>t \<in> set ts. usable_clock (tk_clock t)"
  shows "\<exists>L. (\<forall>e \<in> set L. \<exists>t \<in> set ts. e \<in> own_entries (tick_snapshot dns t) (tick_now t) \<union> rival_entries (tk_around t)) \<and>
    (\<forall>start m. is_hour start \<and> map_of (maps (meter_run dns ts trimmed w)) (HourName start) = Some m \<longrightarrow>
      (\<exists>h. decode (HourName start) m = Inr h \<and> h_start h = start \<and> hour_books (entries L start) h))"
proof -
  have "fresh w" "booked [] (maps w)" using assms(1) by (simp_all add: fresh_def booked_def kept_as_def entries_def)
  from meter_run_books [OF this assms(2), of dns trimmed] obtain L where L: "booked L (maps (meter_run dns ts trimmed w))"
    "set L \<subseteq> (\<Union>t \<in> set ts. own_entries (tick_snapshot dns t) (tick_now t) \<union> rival_entries (tk_around t))" by auto
  have "\<exists>h. decode (HourName start) m = Inr h \<and> h_start h = start \<and> hour_books (entries L start) h"
    if "is_hour start" "map_of (maps (meter_run dns ts trimmed w)) (HourName start) = Some m" for start m
    using booked_kept [OF L(1) that(1)] that(2) by (auto simp: kept_as_def)
  with L(2) show ?thesis by blast
qed

section \<open>A read returns every hour\<close>

lemma set_hour_starts:
  "start mod Hour = 0 \<Longrightarrow> set (hour_starts start to) = {s. s mod Hour = 0 \<and> start \<le> s \<and> s < to} \<and> sorted_wrt (<) (hour_starts start to)"
proof (induction start to rule: hour_starts.induct)
  case (1 start to)
  show ?case
  proof (cases "start < to")
    case False
    then show ?thesis by (auto simp: hour_starts.simps [of start])
  next
    case True
    have "(start + Hour) mod Hour = 0" using "1.prems" by simp
    from "1.IH" [OF _ this] True have IH: "set (hour_starts (start + Hour) to) = {s. s mod Hour = 0 \<and> start + Hour \<le> s \<and> s < to}"
      "sorted_wrt (<) (hour_starts (start + Hour) to)" by simp_all
    have next_hour: "s = start \<or> start + Hour \<le> s" if "s mod Hour = 0" "start \<le> s" for s
    proof -
      have "s div Hour * Hour = s" "start div Hour * Hour = start"
        using that(1) 1(2) div_mult_mod_eq [of s Hour] div_mult_mod_eq [of start Hour] by simp_all
      moreover have "start div Hour \<le> s div Hour" using that(2) by (simp add: zdiv_mono1)
      moreover have "start + Hour \<le> s" if "start div Hour + 1 \<le> s div Hour"
        using mult_right_mono [OF that hour_pos(5)] calculation(1,2) by (simp only: distrib_right mult_1)
      moreover have "s = start" if "start div Hour = s div Hour" using calculation(1,2) that by metis
      moreover have "start div Hour = s div Hour \<or> start div Hour + 1 \<le> s div Hour" using calculation(3) by linarith
      ultimately show ?thesis by blast
    qed
    have st: "hour_starts start to = start # hour_starts (start + Hour) to" using True by (subst hour_starts.simps) simp
    have "set (hour_starts start to) = {s. s mod Hour = 0 \<and> start \<le> s \<and> s < to}"
    proof (intro equalityI subsetI)
      fix s
      assume "s \<in> set (hour_starts start to)"
      then have "s = start \<or> s mod Hour = 0 \<and> start + Hour \<le> s \<and> s < to" unfolding st using IH(1) by simp
      moreover from this have "start \<le> s" using hour_pos(5) by linarith
      ultimately show "s \<in> {s. s mod Hour = 0 \<and> start \<le> s \<and> s < to}" using True "1.prems" by auto
    next
      fix s
      assume "s \<in> {s. s mod Hour = 0 \<and> start \<le> s \<and> s < to}"
      with next_hour [of s] show "s \<in> set (hour_starts start to)" unfolding st using IH(1) by simp
    qed
    moreover have "sorted_wrt (<) (hour_starts start to)"
      unfolding st using IH hour_pos(1) by (simp add: less_le_trans [of start "start + Hour"])
    ultimately show ?thesis by blast
  qed
qed

text \<open>What \<open>decode_all\<close> gathers from hours in order: each under its start.\<close>

definition hour_object :: "string \<times> config_map \<Rightarrow> usage_hour \<Rightarrow> bool" where
  "hour_object nm h \<longleftrightarrow> has_key (cm_labels (snd nm)) LabelUsageHour \<and> decode (fst nm) (snd nm) = Inr h"

definition starts_of :: "config_maps \<Rightarrow> time set" where
  "starts_of items = {h_start h |nm h. nm \<in> set items \<and> hour_object nm h}"

lemma decode_all_gathers:
  assumes "\<forall>nm \<in> set items. \<exists>h. hour_object nm h \<and> g (h_start h) = Some h"
  shows "\<exists>hours'. decode_all items hours = Inr hours' \<and>
    (\<forall>start. map_of hours' start = (if start \<in> starts_of items then g start else map_of hours start))"
  using assms
proof (induction items arbitrary: hours)
  case Nil
  then show ?case by (simp add: starts_of_def)
next
  case (Cons nm items)
  obtain name m where nm: "nm = (name, m)" by (cases nm)
  obtain h where h: "hour_object (name, m) h" "g (h_start h) = Some h" using Cons.prems nm by auto
  then have step: "decode_all (nm # items) hours = decode_all items (AList.update (h_start h) h hours)"
    by (simp add: nm hour_object_def)
  have "hour_object (name, m) h' \<longleftrightarrow> h' = h" for h' using h by (auto simp: hour_object_def)
  then have starts: "starts_of (nm # items) = insert (h_start h) (starts_of items)" by (auto simp: starts_of_def nm)
  obtain hours' where "decode_all items (AList.update (h_start h) h hours) = Inr hours'"
    "\<forall>start. map_of hours' start = (if start \<in> starts_of items then g start else map_of (AList.update (h_start h) h hours) start)"
    using Cons by (metis list.set_intros(2))
  then show ?case unfolding step starts using h(2) by (auto simp: update_conv')
qed

lemma later_day: "\<not> day < to \<Longrightarrow> \<not> day + Day * int k < to"
  using mult_nonneg_nonneg [OF hour_pos(6) of_nat_0_le_iff [of k]] by linarith

lemma read_days_gathers:
  assumes "around w = []" "\<forall>nm \<in> set (maps w). \<exists>h. hour_object nm h \<and> g (h_start h) = Some h" "to - day \<le> Day * int n"
  shows "\<exists>hours'. read_days day to hours w = (Inr hours', w) \<and>
    (\<forall>start. map_of hours' start =
      (if \<exists>k. day + Day * int k < to \<and> start \<in> starts_of (of_day (day + Day * int k) (maps w)) then g start else map_of hours start))"
  using assms(3)
proof (induction n arbitrary: day hours)
  case 0
  then have "\<not> day < to" by simp
  moreover from this have "\<not> day + Day * int k < to" for k by (rule later_day)
  ultimately show ?case by (subst read_days.simps) simp
next
  case (Suc n)
  show ?case
  proof (cases "day < to")
    case False
    then have "\<not> day + Day * int k < to" for k by (rule later_day)
    with False show ?thesis by (subst read_days.simps) simp
  next
    case True
    have "\<forall>nm \<in> set (of_day day (maps w)). \<exists>h. hour_object nm h \<and> g (h_start h) = Some h" using assms(2) by (auto simp: of_day_def)
    from decode_all_gathers [OF this, of hours] obtain hours1 where d: "decode_all (of_day day (maps w)) hours = Inr hours1"
      "\<And>start. map_of hours1 start = (if start \<in> starts_of (of_day day (maps w)) then g start else map_of hours start)" by auto
    have "to - (day + Day) \<le> Day * int n" using Suc.prems by (simp add: algebra_simps)
    from Suc.IH [OF this, of hours1] obtain hours' where r: "read_days (day + Day) to hours1 w = (Inr hours', w)"
      "\<And>start. map_of hours' start =
        (if \<exists>k. day + Day + Day * int k < to \<and> start \<in> starts_of (of_day (day + Day + Day * int k) (maps w)) then g start else map_of hours1 start)" by auto
    have "read_days day to hours w = (Inr hours', w)"
      using True assms(1) d(1) r(1) by (subst read_days.simps) (simp add: happens_def)
    moreover have "(\<exists>k. day + Day * int k < to \<and> start \<in> starts_of (of_day (day + Day * int k) (maps w))) \<longleftrightarrow>
        start \<in> starts_of (of_day day (maps w)) \<or> (\<exists>k. day + Day + Day * int k < to \<and> start \<in> starts_of (of_day (day + Day + Day * int k) (maps w)))" for start
    proof -
      have "(\<exists>k. P (day + Day * int k)) \<longleftrightarrow> P day \<or> (\<exists>k. P (day + Day + Day * int k))" for P
      proof
        assume "\<exists>k. P (day + Day * int k)"
        then obtain k where k: "P (day + Day * int k)" ..
        show "P day \<or> (\<exists>k. P (day + Day + Day * int k))"
          using k by (cases k) (auto simp: algebra_simps)
      next
        assume "P day \<or> (\<exists>k. P (day + Day + Day * int k))"
        then show "\<exists>k. P (day + Day * int k)"
        proof
          assume "P day"
          then show ?thesis by (intro exI [of _ 0]) simp
        next
          assume "\<exists>k. P (day + Day + Day * int k)"
          then obtain k where "P (day + Day + Day * int k)" ..
          then show ?thesis by (intro exI [of _ "Suc k"]) (simp add: algebra_simps)
        qed
      qed
      from this [of "\<lambda>d. d < to \<and> start \<in> starts_of (of_day d (maps w))"] True show ?thesis by simp
    qed
    ultimately show ?thesis using d(2) r(2) by (intro exI [of _ hours']) auto
  qed
qed

text \<open>
  A gap is never silent. When no call fails, \<open>Read\<close> returns one hour for every hour of the range, oldest first: each
  that is stored exactly as it is stored, and an empty one, with nothing metered, for each that is not.
\<close>

theorem Read_returns_every_hour:
  assumes "booked L (maps w)" "around w = []" "is_hour (HourOf f)" "HourOf f < to" "to - HourOf f \<le> MaxHours * Hour"
    "to < days_before_year 10000 * Day"
  shows "\<exists>starts. Read f to w = (Inr (map (\<lambda>start. the (hour_at (maps w) start)) starts), w) \<and>
    set starts = {s. s mod Hour = 0 \<and> HourOf f \<le> s \<and> s < to} \<and> sorted_wrt (<) starts"
proof -
  let ?from = "HourOf f" and ?ms = "maps w"
  let ?starts = "hour_starts ?from to" and ?day = "?from - ?from mod Day"
  note st = set_hour_starts [OF HourOf_props(3), of f to]
  have hours: "is_hour s" if "s \<in> set ?starts" for s
  proof -
    have "s mod Hour = 0" "?from \<le> s" "s < to" using that st by auto
    moreover have "Hour \<le> ?from" using assms(3) by (simp add: is_hour_def in_calendar_def)
    ultimately show ?thesis using assms(6) by (simp add: is_hour_def in_calendar_def)
  qed
  define g where "g start = (if map_of ?ms (HourName start) = None then None else hour_at ?ms start)" for start
  have at: "labelled start m \<and> (\<exists>h. hour_object (HourName start, m) h \<and> h_start h = start \<and> hour_at ?ms start = Some h)"
    if "is_hour start" "map_of ?ms (HourName start) = Some m" for start m
    using booked_kept [OF assms(1) that(1)] that(2) by (auto simp: kept_as_def hour_at_def hour_object_def labelled_def)
  have objects: "\<forall>nm \<in> set ?ms. \<exists>h. hour_object nm h \<and> g (h_start h) = Some h"
  proof
    fix nm
    assume nm: "nm \<in> set ?ms"
    obtain name m where n: "nm = (name, m)" by (cases nm)
    then obtain start where s: "is_hour start" "name = HourName start" using nm assms(1) by (force simp: booked_def)
    moreover have "map_of ?ms name = Some m" using nm n assms(1) by (simp add: booked_def)
    ultimately show "\<exists>h. hour_object nm h \<and> g (h_start h) = Some h" using at n by (fastforce simp: g_def)
  qed
  have "?day \<le> to" using assms(4) pos_mod_sign [of Day ?from] hour_pos(2) by linarith
  moreover from this have "1 * (to - ?day) \<le> Day * (to - ?day)" by (intro mult_right_mono) (simp_all add: Day_def duration_defs)
  ultimately have long: "to - ?day \<le> Day * int (nat (to - ?day))" by simp
  obtain hours' where r: "read_days ?day to [] w = (Inr hours', w)"
    "\<And>start. map_of hours' start = (if \<exists>k. ?day + Day * int k < to \<and> start \<in> starts_of (of_day (?day + Day * int k) ?ms) then g start else None)"
    using read_days_gathers [OF assms(2) objects long, of "[]", unfolded map_of.simps] by blast
  have found: "(case map_of hours' start of Some h \<Rightarrow> h | None \<Rightarrow> empty_hour start) = the (hour_at ?ms start)" if "start \<in> set ?starts" for start
  proof (cases "map_of ?ms (HourName start)")
    case None
    then show ?thesis using r(2) by (simp add: g_def hour_at_def)
  next
    case (Some m)
    from at [OF hours [OF that] Some] obtain h where h: "labelled start m" "hour_object (HourName start, m) h" "h_start h = start" "hour_at ?ms start = Some h" by auto
    define k where "k = start div Day - ?from div Day"
    have "?from \<le> start" "start < to" using that st by auto
    then have "0 \<le> k" by (simp add: k_def zdiv_mono1)
    moreover have "?day = Day * (?from div Day)" "start - start mod Day = Day * (start div Day)" by (simp_all add: minus_mod_eq_mult_div)
    ultimately have k: "?day + Day * int (nat k) = start - start mod Day" by (simp add: k_def right_diff_distrib)
    have "(start - start mod Day) div Day = start div Day" by (simp add: minus_mod_eq_mult_div)
    then have "formatDay (start - start mod Day) = formatDay start" by (simp add: formatDay_def)
    moreover have "(HourName start, m) \<in> set ?ms" using Some by (rule map_of_SomeD)
    ultimately have "start \<in> starts_of (of_day (?day + Day * int (nat k)) ?ms)"
      unfolding k starts_of_def of_day_def using h by (force simp: labelled_def)
    moreover have "?day + Day * int (nat k) < to" unfolding k using \<open>start < to\<close> pos_mod_sign [OF hour_pos(2), of start] by linarith
    ultimately have "map_of hours' start = g start" unfolding r(2) [of start] by (intro if_P exI [of _ "nat k"] conjI)
    with h Some show ?thesis by (simp add: g_def)
  qed
  have "\<not> MaxHours * Hour < tsub to ?from" using assms(5) by (simp add: tsub_def max_int64_def min_int64_def MaxHours_def duration_defs)
  then have "Read f to w = (Inr (map (\<lambda>start. the (hour_at ?ms start)) ?starts), w)"
    using assms(4) r(1) found by (simp add: Read_def Let_def)
  with st show ?thesis by blast
qed

section \<open>A closed hour is final\<close>

text \<open>Nobody else writes. Calls may still fail.\<close>

definition alone :: "usage_world \<Rightarrow> bool" where
  "alone w \<longleftrightarrow> (\<forall>op. Rival op \<notin> set (around w))"

lemma happens_alone: "alone w \<Longrightarrow> happens w = (r, w') \<Longrightarrow> maps w' = maps w \<and> alone w'"
  by (auto simp: alone_def happens_def split: list.splits meter_event.splits)

lemma load_alone:
  assumes "alone w" "load start w = (r, w')"
  shows "maps w' = maps w \<and> alone w' \<and> (\<forall>h m. r = Inr (h, Some m) \<longrightarrow> map_of (maps w) (HourName start) = Some m \<and> decode (HourName start) m = Inr h)"
proof -
  obtain k w1 where h: "happens w = (k, w1)" by fastforce
  note a = happens_alone [OF assms(1) h]
  with h assms(2) show ?thesis
    by (cases k; cases "map_of (maps w) (HourName start)")
      (auto simp: load_def Get_map_def split: sum.splits kube_error.splits)
qed

lemma store_alone:
  assumes "alone w" "store (h, cm) w = (r, w')" "map_of (maps w) name = Some m" "name \<noteq> HourName (h_start h) \<or> cm = None"
  shows "map_of (maps w') name = Some m \<and> alone w'"
proof -
  obtain k w1 where hp: "happens w = (k, w1)" by fastforce
  note a = happens_alone [OF assms(1) hp]
  show ?thesis
  proof (cases cm)
    case None
    with a assms hp show ?thesis
      by (auto simp: store_def Create_map_def encode_def has_key_def alone_def update_conv' split: option.splits if_splits)
  next
    case (Some c)
    with a assms hp show ?thesis
      by (auto simp: store_def Update_map_def encode_def alone_def update_conv' split: option.splits if_splits)
  qed
qed

lemma measure_alone: "alone w \<Longrightarrow> measure_now dns w = (r, w') \<Longrightarrow> maps w' = maps w \<and> alone w'"
proof -
  assume w: "alone w" and m: "measure_now dns w = (r, w')"
  obtain r1 w1 r2 w2 r3 w3 r4 w4 where h: "happens w = (r1, w1)" "happens w1 = (r2, w2)" "happens w2 = (r3, w3)" "happens w3 = (r4, w4)"
    by (metis surj_pair)
  note a1 = happens_alone [OF w h(1)]
  note a2 = happens_alone [OF conjunct2 [OF a1] h(2)]
  note a3 = happens_alone [OF conjunct2 [OF a2] h(3)]
  note a4 = happens_alone [OF conjunct2 [OF a3] h(4)]
  show ?thesis using m h a1 a2 a3 a4 by (auto simp: measure_now_def Read_other_def split: option.splits)
qed

lemma cover_keeps:
  assumes "alone w" "map_of (maps w) name = Some m" "cover st s f t w = (e, w')" "name \<noteq> HourName (h_start (fst st)) \<or> snd st = None"
  shows "map_of (maps w') name = Some m \<and> alone w'"
  using store_alone [OF assms(1) assms(3) [unfolded cover_def] assms(2)] assms(4) by (simp add: hour_add_def)

lemma add_sample_keeps:
  assumes "alone w" "map_of (maps w) name = Some m" "add_sample dns now current this previous cursor w = (r, w')"
    "name \<noteq> HourName (h_start (fst this)) \<or> snd this = None"
    "cursor < current \<Longrightarrow> name \<noteq> HourName (h_start (fst previous)) \<or> snd previous = None"
  shows "map_of (maps w') name = Some m \<and> alone w'"
proof -
  obtain rm w1 where ms: "measure_now dns w = (rm, w1)" by fastforce
  from measure_alone [OF assms(1) ms] assms(2) have a: "alone w1" "map_of (maps w1) name = Some m" by simp_all
  show ?thesis
  proof (cases rm)
    case (Inl e)
    with assms(3) ms a show ?thesis by (auto simp: add_sample_def)
  next
    case (Inr s)
    show ?thesis
    proof (cases "cursor < current")
      case True
      obtain e2 w2 where c: "cover previous s cursor current w1 = (e2, w2)" by fastforce
      note k = cover_keeps [OF a c assms(5) [OF True]]
      show ?thesis using assms(3) ms Inr c True k cover_keeps [of w2 name m this s current now] assms(4)
        by (cases e2) (auto simp: add_sample_def)
    next
      case False
      with assms(3) ms Inr have "cover this s cursor now w1 = (r, w')" by (simp add: add_sample_def)
      from cover_keeps [OF a this assms(4)] show ?thesis .
    qed
  qed
qed

text \<open>An hour that is closed is neither the one that goes on nor the one before it that still has time to count.\<close>

lemma count_keeps_closed:
  assumes inv: "fresh w" "booked L (maps w)" "alone w" and hours: "is_hour (HourOf now)" "is_hour (HourOf now - Hour)"
    and m: "is_hour start" "map_of (maps w) (HourName start) = Some m" "decode (HourName start) m = Inr h" "Closed h t" "t \<le> now"
    and run: "meter_count dns now w = (r, w')"
  shows "map_of (maps w') (HourName start) = Some m \<and> alone w'"
proof -
  let ?c = "HourOf now" and ?n = "HourName start"
  note now = HourOf_props(1,2) [of now]
  have start: "h_start h = start" using booked_kept [OF inv(2) m(1)] m(2,3) by (auto simp: kept_as_def)
  obtain r1 w1 where l1: "load ?c w = (r1, w1)" by fastforce
  note a1 = load_alone [OF inv(3) l1]
  obtain r2 w2 where l2: "load (?c - Hour) w1 = (r2, w2)" by fastforce
  note a2 = load_alone [OF conjunct1 [OF conjunct2 [OF a1]] l2]
  show ?thesis
  proof (cases "\<exists>this previous. r1 = Inr this \<and> r2 = Inr previous")
    case False
    then have "w' = w1 \<or> w' = w2" using run l1 l2 by (auto simp: meter_count_def Let_def split: sum.splits)
    with a1 a2 m(2) show ?thesis by auto
  next
    case True
    then obtain this' previous where r: "r1 = Inr this'" "r2 = Inr previous" by blast
    have h1: "holds w1 ?c this'" using load_holds [OF inv(1,2) hours(1)] l1 r by simp
    obtain L1 where b1: "fresh w1" "booked L1 (maps w1)" using load_holds [OF inv(1,2) hours(1)] l1 r inv by (auto simp: goes_def)
    have h2: "holds w2 (?c - Hour) previous" using load_holds [OF b1 hours(2)] l2 r by simp
    define cursor where "cursor = max (h_covered (fst this')) (h_covered (fst previous))"
    have run2: "(if cursor = 0 \<or> MaxStep < now - cursor then store ((fst this')\<lparr>h_covered := now\<rparr>, snd this') w2
        else if now \<le> cursor then (None, w2) else add_sample dns now ?c this' previous cursor w2) = (r, w')"
      using run [unfolded meter_count_def Let_def l1 r prod.case sum.case l2 cursor_def [symmetric]] by (simp only: step_cases)
    have m2: "map_of (maps w2) ?n = Some m" "alone w2" using a1 a2 m(2) by auto
    have hs: "h_start (fst this') = ?c" "h_start (fst previous) = ?c - Hour" using h1 h2 by (simp_all add: holds_def)
    have this_closed: "\<not> MaxStep < now - cursor \<and> cursor \<noteq> 0 \<and> now \<le> cursor" if "start = ?c" "snd this' \<noteq> None"
    proof -
      from that obtain c where "snd this' = Some c" by auto
      with that a1 r m(2,3) have "fst this' = h" by (metis Inr_inject option.inject prod.collapse)
      moreover have "now < h_covered h"
        using m(4,5) start that(1) now by (auto simp: Closed_def hour_End_def CloseAfter_def duration_defs)
      ultimately show ?thesis using is_hour_pos [OF hours(1)] now by (auto simp: cursor_def MaxStep_def duration_defs)
    qed
    have previous_closed: "\<not> cursor < ?c" if "start = ?c - Hour" "snd previous \<noteq> None" "now - cursor \<le> MaxStep"
    proof -
      from that obtain c where "snd previous = Some c" by auto
      with that a1 a2 r m(2,3) have "fst previous = h" by (metis Inr_inject option.inject prod.collapse)
      then show ?thesis
        using m(4,5) start that(1,3) now by (auto simp: Closed_def hour_End_def CloseAfter_def cursor_def MaxStep_def duration_defs)
    qed
    have other: "?n \<noteq> HourName s" if "start \<noteq> s" "is_hour s" for s using HourName_inj m(1) that by blast
    show ?thesis
    proof (cases "cursor = 0 \<or> MaxStep < now - cursor")
      case True
      with run2 have "store ((fst this')\<lparr>h_covered := now\<rparr>, snd this') w2 = (r, w')" by simp
      moreover have "?n \<noteq> HourName ?c \<or> snd this' = None" using this_closed True other [OF _ hours(1)] by blast
      ultimately show ?thesis using store_alone [OF m2(2) _ m2(1)] hs(1) by simp
    next
      case F: False
      show ?thesis
      proof (cases "now \<le> cursor")
        case True
        with F run2 m2 show ?thesis by auto
      next
        case False
        have this_free: "?n \<noteq> HourName ?c \<or> snd this' = None" using this_closed False other [OF _ hours(1)] by blast
        have "?n \<noteq> HourName (?c - Hour) \<or> snd previous = None" if "cursor < ?c"
          using that previous_closed F other [OF _ hours(2)] by (meson not_less)
        moreover have "add_sample dns now ?c this' previous cursor w2 = (r, w')" using run2 F False by simp
        ultimately show ?thesis using add_sample_keeps [OF m2(2,1)] this_free hs by (metis hs)
      qed
    qed
  qed
qed

lemma trim_loop_alone:
  "alone w \<Longrightarrow> trim_loop names w = (r, w') \<Longrightarrow> map_of (maps w') name = map_of (maps w) name \<or> name \<in> set names \<and> map_of (maps w') name = None"
proof (induction names w rule: trim_loop.induct)
  case (2 n names w)
  obtain k w1 where d: "Delete_map n w = (k, w1)" by fastforce
  obtain r0 w0 where h: "happens w = (r0, w0)" by fastforce
  note a = happens_alone [OF "2.prems"(1) h]
  have w1: "alone w1" "map_of (maps w1) name = map_of (maps w) name \<or> name = n \<and> map_of (maps w1) name = None"
    using d h a by (auto simp: Delete_map_def delete_conv' alone_def split: option.splits if_splits)
  have "w' = w1 \<or> trim_loop names w1 = (r, w')" using "2.prems" d by (auto split: option.splits if_splits)
  moreover have "trim_loop names w1 = (r, w') \<Longrightarrow> map_of (maps w') name = map_of (maps w1) name \<or> name \<in> set names \<and> map_of (maps w') name = None"
    using 2(1,2) d w1(1) "2.prems"(2) by (cases k) (auto split: if_splits)
  ultimately show ?case using w1(2) by auto
qed simp

lemma trim_alone:
  assumes "alone w" "booked L (maps w)" "is_hour start" "map_of (maps w) (HourName start) = Some m" "trim trimmed now w = (r, tr, w')"
  shows "map_of (maps w') (HourName start) = Some m \<or> map_of (maps w') (HourName start) = None \<and> start < now - Retention"
proof -
  obtain k w1 where h: "happens w = (k, w1)" by fastforce
  note a = happens_alone [OF assms(1) h]
  let ?names = "trim_candidates (HourOf (now - Retention)) (maps w1)"
  obtain k2 w2 where l: "trim_loop ?names w1 = (k2, w2)" by fastforce
  have "start < now - Retention" if "HourName start \<in> set ?names"
  proof -
    from that obtain m' where m': "(HourName start, m') \<in> set (maps w)"
      "\<exists>s. parseHour (lookup0 (cm_labels m') LabelUsageHour) = Some s \<and> s < HourOf (now - Retention)"
      using a by (auto simp: trim_candidates_def split: option.splits)
    then have "m' = m" using assms(2,4) by (simp add: booked_def)
    moreover have "labelled start m" using booked_kept [OF assms(2,3)] assms(4) by (simp add: kept_as_def)
    ultimately have "start < HourOf (now - Retention)"
      using m'(2) parse_format [of start] assms(3) by (simp add: labelled_def is_hour_def)
    then show ?thesis using HourOf_props(1) [of "now - Retention"] by linarith
  qed
  moreover have "w' = w \<or> w' = w1 \<or> w' = w2" using assms(5) h l by (auto simp: trim_def Read_other_def split: option.splits if_splits)
  moreover have "alone w1" "map_of (maps w1) (HourName start) = Some m" using a assms(4) by auto
  ultimately show ?thesis using trim_loop_alone [OF _ l, of "HourName start"] assms(4) by auto
qed

text \<open>
  C12. A closed hour can be billed: once \<open>Closed\<close> says so, a sample (with no other meter at work, whatever calls fail) leaves
  the hour as it is, or deletes it when it is older than \<open>Retention\<close>.
\<close>

theorem closed_hours_final:
  assumes "fresh w" "booked L (maps w)" "alone w" "usable_clock clock" "is_hour start"
    "map_of (maps w) (HourName start) = Some m" "decode (HourName start) m = Inr h" "Closed h t" "t \<le> clock - clock mod Second"
    "Sample dns trimmed clock w = (r, tr, w')"
  shows "map_of (maps w') (HourName start) = Some m \<or> map_of (maps w') (HourName start) = None \<and> start < clock - Retention"
proof -
  let ?now = "clock - clock mod Second"
  obtain k w1 where h: "happens w = (k, w1)" by fastforce
  note a1 = happens_alone [OF assms(3) h] and g1 = happens_goes [OF h]
  obtain L1 where L1: "fresh w1" "booked L1 (maps w1)" using g1 assms(1,2) by (auto simp: goes_def)
  obtain r2 w2 where c: "meter_count dns ?now w1 = (r2, w2)" by fastforce
  have k2: "map_of (maps w2) (HourName start) = Some m \<and> alone w2"
    using count_keeps_closed [OF L1 _ usable_hours(1,2) [OF assms(4)] assms(5) _ assms(7,8,9) c] a1 assms(6) by simp
  obtain L2 where L2: "booked L2 (maps w2)"
    using meter_count_goes [OF L1 usable_hours(1-3) [OF assms(4)] c] L1(2) by (auto simp: goes_def)
  obtain r3 t3 w3 where tr: "trim trimmed ?now w2 = (r3, t3, w3)" by (metis surj_pair)
  have "start < clock - Retention" if "start < ?now - Retention" using that pos_mod_sign [OF hour_pos(3), of clock] by linarith
  with trim_alone [OF _ L2 assms(5) _ tr] k2 have "map_of (maps w3) (HourName start) = Some m \<or>
      map_of (maps w3) (HourName start) = None \<and> start < clock - Retention" by auto
  moreover have "w' = w1 \<or> w' = w2 \<or> w' = w3"
    using assms(10) h c tr by (auto simp: Sample_def Enabled_def Read_other_def Let_def split: option.splits kube_error.splits if_splits)
  ultimately show ?thesis using a1 k2 assms(6) by auto
qed

section \<open>What an undisturbed sample counts\<close>

lemma load_quiet:
  assumes "around w = []" "hour_at (maps w) start = Some h"
  shows "load start w = (Inr (h, map_of (maps w) (HourName start)), w)"
  using assms by (auto simp: load_def Get_map_def happens_def hour_at_def split: option.splits sum.splits)

text \<open>A write that nothing disturbs, of an hour as it was read.\<close>

lemma store_quiet:
  assumes "around w = []" "is_hour start" "h_start h = start" "hour_books es h" "start \<le> h_covered h" "h_covered h \<le> start + Hour"
    "store (h, map_of (maps w) (HourName start)) w = (r, w')"
  shows "r = None \<and> around w' = [] \<and> same_cluster w w' \<and> hour_at (maps w') start = Some (h\<lparr>h_version := formatVersion\<rparr>) \<and>
    (\<forall>s. is_hour s \<longrightarrow> s \<noteq> start \<longrightarrow> map_of (maps w') (HourName s) = map_of (maps w) (HourName s)) \<and>
    (\<exists>m. w' = w\<lparr>maps := AList.update (HourName start) m (maps w), next_version := Suc (next_version w)\<rparr>)"
proof -
  define m where "m = (snd (encode h (case map_of (maps w) (HourName start) of None \<Rightarrow> newHourConfigMap | Some m \<Rightarrow> m)))\<lparr>cm_rv := next_version w\<rparr>"
  have w': "w' = w\<lparr>maps := AList.update (HourName start) m (maps w), next_version := Suc (next_version w)\<rparr>" "r = None"
    using assms(1,3,7) by (auto simp: store_def Create_map_def Update_map_def happens_def m_def encode_def has_key_def split: option.splits)
  have "0 \<le> h_metered h" "h_metered h * Second \<le> Hour" using metered_fits [OF assms(4)] assms(3,5,6) by auto
  then have "h_metered h \<le> Hour div Second" by (simp add: Second_def Minute_def Hour_def)
  then have "decode (HourName start) m = Inr (h\<lparr>h_version := formatVersion\<rparr>)"
    using assms(3,5,6) \<open>0 \<le> h_metered h\<close> is_hour_pos [OF assms(2)] HourOf_props(4) [OF assms(2)]
    by (simp add: decode_def encode_def m_def hour_End_def)
  then have "hour_at (maps w') start = Some (h\<lparr>h_version := formatVersion\<rparr>)" by (simp add: w' hour_at_def update_conv')
  moreover have "map_of (maps w') (HourName s) = map_of (maps w) (HourName s)" if "is_hour s" "s \<noteq> start" for s
    using that assms(2) by (simp add: w' hn.lookup_update_hour)
  ultimately show ?thesis using w' assms(1) by (auto simp: same_cluster_def measured_def)
qed

lemma cover_quiet:
  assumes "around w = []" "booked L (maps w0)" "is_hour start" "hour_at (maps w0) start = Some h" "map_of (maps w) (HourName start) = map_of (maps w0) (HourName start)"
    "span_ok h f t" "snapshot_ok s" "cover (h, map_of (maps w0) (HourName start)) s f t w = (r, w')"
  shows "r = None \<and> around w' = [] \<and> same_cluster w w' \<and>
    hour_at (maps w') start = Some ((hour_add h s (seconds (t - f)))\<lparr>h_covered := t, h_version := formatVersion\<rparr>) \<and>
    (\<forall>s. is_hour s \<longrightarrow> s \<noteq> start \<longrightarrow> map_of (maps w') (HourName s) = map_of (maps w) (HourName s))"
proof -
  note b = booked_hour [OF assms(2,3,4)]
  have sp: "start \<le> f" "f \<le> t" "t \<le> start + Hour" using assms(6) b by (auto simp: span_ok_def hour_End_def)
  let ?h = "(hour_add h s (seconds (t - f)))\<lparr>h_covered := t\<rparr>"
  have "tsub t f = t - f" using sp by (intro tsub_within) auto
  with assms(5,8) have st: "store (?h, map_of (maps w) (HourName start)) w = (r, w')" by (simp add: cover_def)
  have "hour_books (entries L start @ [\<lparr>e_start = h_start h, e_snapshot = s, e_from = f, e_to = t\<rparr>]) ?h"
    using books_add [OF _ assms(6,7)] b by blast
  from store_quiet [OF assms(1,3) _ this _ _ st] b sp show ?thesis by (simp add: hour_add_def)
qed

lemma trim_loop_quiet: "around w = [] \<Longrightarrow> fst (trim_loop names w) = None"
  by (induction names w rule: trim_loop.induct) (auto simp: Delete_map_def happens_def split: option.splits)

lemma trim_quiet:
  assumes "around w = []" "booked L (maps w)" "trim trimmed now w = (r, tr, w')"
  shows "r = None \<and> (\<forall>s. is_hour s \<longrightarrow> now - Retention \<le> s \<longrightarrow> hour_at (maps w') s = hour_at (maps w) s)"
proof -
  have a: "alone w" using assms(1) by (simp add: alone_def)
  have "hour_at (maps w') s = hour_at (maps w) s" if "is_hour s" "now - Retention \<le> s" for s
  proof (cases "map_of (maps w) (HourName s)")
    case (Some m)
    with trim_alone [OF a assms(2) that(1) Some assms(3)] that(2) show ?thesis by (auto simp: hour_at_def)
  next
    case None
    have "w' = w \<or> (\<exists>names k. trim_loop names w = (k, w'))"
      using assms(1,3) by (auto simp: trim_def Read_other_def happens_def split: option.splits if_splits prod.splits)
    then have "map_of (maps w') (HourName s) = None" using trim_loop_alone [OF a, of _ _ w' "HourName s"] None by auto
    with None show ?thesis by (simp add: hour_at_def)
  qed
  moreover have "r = None"
    using assms(1,3) trim_loop_quiet [OF assms(1)] by (auto simp: trim_def Read_other_def happens_def split: option.splits if_splits prod.splits)
      (metis fst_conv option.distinct(1))+
  ultimately show ?thesis by blast
qed


section \<open>Examples\<close>

definition some_day :: time where "some_day = 738000 * Day"

definition no_usage :: usage_world where
  "no_usage = \<lparr>maps = [], next_version = 0, usage_enabled = Some True, projects = [shop], organizations = [''acme''],
     all_pods = [placed_pod ''shop-eu-prod'' 500 9], all_claims = [], around = []\<rparr>"

text \<open>An hour that is covered for so long, and nothing of it metered.\<close>

definition covered_for :: "duration \<Rightarrow> usage_world" where
  "covered_for d = put_hour ((empty_hour some_day)\<lparr>h_covered := some_day + d\<rparr>) no_usage"

lemma some_day_hour: "is_hour some_day" "is_hour (some_day - Hour)" "HourOf some_day = some_day" "some_day mod Second = 0"
  by (simp_all add: is_hour_def in_calendar_def some_day_def HourOf_def Day_def duration_defs days_before_year_def)

lemma covered_for_books:
  assumes "0 \<le> d" "d \<le> Hour" "d mod Second = 0"
  shows "booked [] (maps (covered_for d))" "fresh (covered_for d)"
    "hour_at (maps (covered_for d)) some_day = Some ((empty_hour some_day)\<lparr>h_covered := some_day + d, h_version := formatVersion\<rparr>)"
proof -
  let ?h = "(empty_hour some_day)\<lparr>h_covered := some_day + d\<rparr>"
  have b: "booked [] (maps no_usage)" by (simp add: no_usage_def booked_def kept_as_def entries_def)
  have e: "h_start (empty_hour some_day) = some_day" "h_metered (empty_hour some_day) = 0" by (simp_all add: empty_hour_def)
  have hb: "hour_books [] ?h"
    using assms is_hour_pos [OF some_day_hour(1)] some_day_hour(4) by (intro books_restart books_empty) (simp_all add: empty_hour_def mod_add_eq [symmetric])
  show "booked [] (maps (covered_for d))"
    unfolding covered_for_def using assms hb
    by (intro booked_put [OF b some_day_hour(1)]) (simp_all add: entries_def e)
  show "fresh (covered_for d)" by (simp add: covered_for_def put_hour_def encode_def fresh_def no_usage_def update_conv')
  show "hour_at (maps (covered_for d)) some_day = Some ((empty_hour some_day)\<lparr>h_covered := some_day + d, h_version := formatVersion\<rparr>)"
    using assms is_hour_pos [OF some_day_hour(1)] some_day_hour(3)
    by (simp add: covered_for_def put_hour_maps hour_at_def update_conv' decode_def encode_def hour_End_def e Hour_def Minute_def Second_def)
qed


theorem closed_hours_final_witness:
  "\<exists>m. map_of (maps (covered_for Hour)) (HourName some_day) = Some m \<and>
     map_of (maps (snd (snd (Sample dns1123 0 (some_day + 2 * Hour) (covered_for Hour))))) (HourName some_day) = Some m"
proof -
  let ?w = "covered_for Hour" and ?clock = "some_day + 2 * Hour"
  obtain r tr w' where s: "Sample dns1123 0 ?clock ?w = (r, tr, w')" by (metis surj_pair)
  have d: "0 \<le> Hour" "Hour \<le> Hour" "Hour mod Second = 0" by (simp_all add: duration_defs)
  have k: "usable_clock ?clock" "?clock \<le> ?clock - ?clock mod Second" "\<not> some_day < ?clock - Retention"
    by (simp_all add: some_day_def Day_def Retention_def duration_defs usable_clock_def days_before_year_def)
  obtain m h where m: "map_of (maps ?w) (HourName some_day) = Some m" "decode (HourName some_day) m = Inr h" "h_covered h = some_day + Hour" "h_start h = some_day"
    using covered_for_books(3) [OF d] hour_pos(1) is_hour_pos [OF some_day_hour(1)]
    by (auto simp: hour_at_def empty_hour_def formatVersion_def split: option.splits sum.splits)
  have c: "Closed h ?clock" using m(3,4) by (simp add: Closed_def hour_End_def)
  have "alone ?w" by (simp add: alone_def covered_for_def put_hour_def encode_def no_usage_def)
  from closed_hours_final [OF covered_for_books(2,1) [OF d] this k(1) some_day_hour(1) m(1,2) c k(2) s] k(3) m(1) s show ?thesis by simp
qed

theorem Read_returns_every_hour_witness:
  "\<exists>starts. Read (some_day + Minute) (some_day + 2 * Hour) (covered_for Hour) =
       (Inr (map (\<lambda>start. the (hour_at (maps (covered_for Hour)) start)) starts), covered_for Hour) \<and> some_day \<in> set starts \<and> some_day + Hour \<in> set starts"
proof -
  have d: "0 \<le> Hour" "Hour \<le> Hour" "Hour mod Second = 0" by (simp_all add: duration_defs)
  have h: "HourOf (some_day + Minute) = some_day" by (simp add: HourOf_def some_day_def Day_def duration_defs)
  have k: "some_day < some_day + 2 * Hour" "some_day + 2 * Hour - some_day \<le> MaxHours * Hour" "some_day + 2 * Hour < days_before_year 10000 * Day"
    "some_day mod Hour = 0" "(some_day + Hour) mod Hour = 0"
    by (simp_all add: some_day_def Day_def MaxHours_def duration_defs days_before_year_def)
  have "around (covered_for Hour) = []" by (simp add: covered_for_def put_hour_def encode_def no_usage_def)
  from Read_returns_every_hour [OF covered_for_books(1) [OF d] this, of "some_day + Minute" "some_day + 2 * Hour", unfolded h, OF some_day_hour(1) k(1-3)]
  show ?thesis using k(1,4,5) hour_pos(1) by fastforce
qed

theorem usage_billed_once_witness:
  "\<exists>L. (\<forall>e \<in> set L. \<exists>t \<in> {\<lparr>tk_clock = some_day, tk_started = True, tk_enabled = Some True, tk_projects = [shop], tk_organizations = [''acme''],
         tk_pods = [placed_pod ''shop-eu-prod'' 500 9], tk_claims = [], tk_around = [Refused KConflict]\<rparr>}.
       e \<in> own_entries (tick_snapshot dns1123 t) (tick_now t) \<union> rival_entries (tk_around t)) \<and>
     (\<forall>start m. is_hour start \<and> map_of (maps (meter_run dns1123 [\<lparr>tk_clock = some_day, tk_started = True, tk_enabled = Some True, tk_projects = [shop],
         tk_organizations = [''acme''], tk_pods = [placed_pod ''shop-eu-prod'' 500 9], tk_claims = [], tk_around = [Refused KConflict]\<rparr>] 0 no_usage)) (HourName start) = Some m \<longrightarrow>
       (\<exists>h. decode (HourName start) m = Inr h \<and> h_start h = start \<and> hour_books (entries L start) h))"
proof -
  let ?t = "\<lparr>tk_clock = some_day, tk_started = True, tk_enabled = Some True, tk_projects = [shop], tk_organizations = [''acme''],
    tk_pods = [placed_pod ''shop-eu-prod'' 500 9], tk_claims = [], tk_around = [Refused KConflict]\<rparr>"
  have "maps no_usage = []" "\<forall>t \<in> set [?t]. usable_clock (tk_clock t)"
    by (simp_all add: no_usage_def usable_clock_def some_day_def Day_def duration_defs days_before_year_def)
  from usage_billed_once [OF this, of dns1123 0] show ?thesis by simp
qed

end
