(* ===== verification/Crd_Compat.thy ===== *)
theory Crd_Compat
  imports Go_Prelude Complex_Main
begin

section \<open>Whether a resource definition can replace an older one (pkg/crdcompat/compat.go)\<close>

text \<open>
  A custom resource definition is the data of \<open>apiextensions/v1\<close> that the comparison reads: \<open>schema_attrs\<close> are
  the fields of \<open>JSONSchemaProps\<close> that hold no schema, and \<open>Schema\<close> adds the properties, the schema of a
  list's elements and \<open>additionalProperties\<close> (its \<open>Allows\<close> and its schema). Bounds are exact numbers; the
  schemas of \<open>allOf\<close>, \<open>anyOf\<close>, \<open>oneOf\<close> and \<open>not\<close>, which are only compared for equality, are their text.
  A violation's message is a value (\<open>change\<close>) with the parts that the text is made of.

  What the API server does with a stored value, which is what the package is there to protect, is the
  specification (section on validation): \<open>valid\<close>, \<open>prune\<close>, with the meaning of patterns, formats, rules
  and composed schemas as a parameter.
\<close>

record schema_attrs =
  a_type :: string
  a_int_or_string :: bool
  a_preserve :: "bool option"
  a_nullable :: bool
  a_enum :: "string list"
  a_maximum :: "rat option"
  a_minimum :: "rat option"
  a_exclusive_maximum :: bool
  a_exclusive_minimum :: bool
  a_max_length :: "int option"
  a_min_length :: "int option"
  a_max_items :: "int option"
  a_min_items :: "int option"
  a_max_properties :: "int option"
  a_min_properties :: "int option"
  a_unique_items :: bool
  a_multiple_of :: "rat option"
  a_pattern :: string
  a_format :: string
  a_list_type :: "string option"
  a_list_map_keys :: "string list"
  a_map_type :: "string option"
  a_required :: "string list"
  a_default :: "string option"
  a_rules :: "string list"
  a_all_of :: "string list"
  a_any_of :: "string list"
  a_one_of :: "string list"
  a_not :: "string option"

datatype schema = Schema (attrs: schema_attrs) (properties: "(string \<times> schema) list") (item_schema: "schema option")
  (additional: "(bool \<times> schema option) option")

datatype rule = RuleCRDRemoved | RuleScopeChanged | RuleNamesChanged | RuleVersionRemoved | RuleVersionUnserved
  | RuleStorageVersionChanged | RuleSubresourceRemoved | RuleConversionChanged | RuleFieldRemoved | RuleTypeChanged
  | RuleRequiredAdded | RuleEnumRestricted | RuleValidationTightened | RulePreserveUnknownRemoved | RuleListSemanticsChanged

fun rule_text :: "rule \<Rightarrow> string" where
  "rule_text RuleCRDRemoved = ''crd-removed''"
| "rule_text RuleScopeChanged = ''scope-changed''"
| "rule_text RuleNamesChanged = ''names-changed''"
| "rule_text RuleVersionRemoved = ''version-removed''"
| "rule_text RuleVersionUnserved = ''version-unserved''"
| "rule_text RuleStorageVersionChanged = ''storage-version-changed''"
| "rule_text RuleSubresourceRemoved = ''subresource-removed''"
| "rule_text RuleConversionChanged = ''conversion-changed''"
| "rule_text RuleFieldRemoved = ''field-removed''"
| "rule_text RuleTypeChanged = ''type-changed''"
| "rule_text RuleRequiredAdded = ''required-added''"
| "rule_text RuleEnumRestricted = ''enum-restricted''"
| "rule_text RuleValidationTightened = ''validation-tightened''"
| "rule_text RulePreserveUnknownRemoved = ''preserve-unknown-removed''"
| "rule_text RuleListSemanticsChanged = ''list-semantics-changed''"

datatype bound = Unbounded | Number rat | Length int | Text string

datatype change =
    DefinitionGone
  | ScopeFrom string string
  | NamesFrom string string string string
  | VersionGone
  | NoLongerServed
  | StorageFrom string string
  | WebhookGone
  | StatusGone
  | ScaleGone
  | SchemaGone
  | TypeFrom string string
  | IntOrStringMarker
  | UnknownNowPruned
  | NullRefused
  | NowLimited
  | NoLongerAccepted "string list"
  | Tighter string bound bound
  | ListSemantics
  | NewlyRequired
  | RuleAdded string
  | Composition
  | FieldGone
  | ElementsGone
  | TypedKeysGone
  | FreeKeysGone
  | FreeKeysTyped

record finding =
  f_path :: string
  f_rule :: rule
  f_change :: change

record violation = finding +
  v_crd :: string
  v_version :: string

definition isTrue :: "bool option \<Rightarrow> bool" where
  "isTrue b \<longleftrightarrow> b = Some True"

definition join_path :: "string \<Rightarrow> string \<Rightarrow> string" where
  "join_path path name = (if path = [] then name else path @ ''.'' @ name)"

definition orNone :: "string \<Rightarrow> string" where
  "orNone s = (if s = [] then ''unspecified'' else s)"

definition found :: "string \<Rightarrow> rule \<Rightarrow> change \<Rightarrow> finding list" where
  "found path r c = [\<lparr>f_path = path, f_rule = r, f_change = c\<rparr>]"

definition compareEnum :: "string \<Rightarrow> schema_attrs \<Rightarrow> schema_attrs \<Rightarrow> finding list" where
  "compareEnum path a b =
     (if a_enum b = [] then []
      else if a_enum a = [] then found path RuleEnumRestricted NowLimited
      else let allowed = map trim_space (a_enum b);
               dropped = filter (\<lambda>raw. raw \<notin> set allowed) (map trim_space (a_enum a))
           in if dropped \<noteq> [] then found path RuleEnumRestricted (NoLongerAccepted dropped) else [])"

definition fmtF :: "rat option \<Rightarrow> bound" where
  "fmtF x = (case x of None \<Rightarrow> Unbounded | Some f \<Rightarrow> Number f)"

definition fmtI :: "int option \<Rightarrow> bound" where
  "fmtI x = (case x of None \<Rightarrow> Unbounded | Some i \<Rightarrow> Length i)"

definition tighter :: "string \<Rightarrow> string \<Rightarrow> bound \<Rightarrow> bound \<Rightarrow> finding list" where
  "tighter path what was now = found path RuleValidationTightened (Tighter what was now)"

definition upper_tightened :: "'a::linorder option \<Rightarrow> 'a option \<Rightarrow> bool" where
  "upper_tightened was now = (case now of None \<Rightarrow> False | Some n \<Rightarrow> (case was of None \<Rightarrow> True | Some w \<Rightarrow> n < w))"

definition lower_tightened :: "'a::linorder option \<Rightarrow> 'a option \<Rightarrow> bool" where
  "lower_tightened was now = (case now of None \<Rightarrow> False | Some n \<Rightarrow> (case was of None \<Rightarrow> True | Some w \<Rightarrow> n > w))"

definition upperF :: "string \<Rightarrow> string \<Rightarrow> rat option \<Rightarrow> rat option \<Rightarrow> finding list" where
  "upperF path what was now = (if upper_tightened was now then tighter path what (fmtF was) (fmtF now) else [])"
definition lowerF :: "string \<Rightarrow> string \<Rightarrow> rat option \<Rightarrow> rat option \<Rightarrow> finding list" where
  "lowerF path what was now = (if lower_tightened was now then tighter path what (fmtF was) (fmtF now) else [])"
definition upperI :: "string \<Rightarrow> string \<Rightarrow> int option \<Rightarrow> int option \<Rightarrow> finding list" where
  "upperI path what was now = (if upper_tightened was now then tighter path what (fmtI was) (fmtI now) else [])"
definition lowerI :: "string \<Rightarrow> string \<Rightarrow> int option \<Rightarrow> int option \<Rightarrow> finding list" where
  "lowerI path what was now = (if lower_tightened was now then tighter path what (fmtI was) (fmtI now) else [])"

definition compareBounds :: "string \<Rightarrow> schema_attrs \<Rightarrow> schema_attrs \<Rightarrow> finding list" where
  "compareBounds path a b =
     upperF path ''maximum'' (a_maximum a) (a_maximum b) @
     lowerF path ''minimum'' (a_minimum a) (a_minimum b) @
     upperI path ''maxLength'' (a_max_length a) (a_max_length b) @
     lowerI path ''minLength'' (a_min_length a) (a_min_length b) @
     upperI path ''maxItems'' (a_max_items a) (a_max_items b) @
     lowerI path ''minItems'' (a_min_items a) (a_min_items b) @
     upperI path ''maxProperties'' (a_max_properties a) (a_max_properties b) @
     lowerI path ''minProperties'' (a_min_properties a) (a_min_properties b) @
     (if a_exclusive_maximum b \<and> \<not> a_exclusive_maximum a \<or> a_exclusive_minimum b \<and> \<not> a_exclusive_minimum a
      then tighter path ''an exclusive bound'' (Text ''inclusive'') (Text ''exclusive'') else []) @
     (if a_unique_items b \<and> \<not> a_unique_items a then tighter path ''uniqueItems'' (Text ''false'') (Text ''true'') else []) @
     (if a_multiple_of b \<noteq> None \<and> a_multiple_of a \<noteq> a_multiple_of b then tighter path ''multipleOf'' (fmtF (a_multiple_of a)) (fmtF (a_multiple_of b)) else []) @
     (if a_pattern b \<noteq> [] \<and> a_pattern b \<noteq> a_pattern a then tighter path ''the pattern'' (Text (a_pattern a)) (Text (a_pattern b)) else []) @
     (if a_format b \<noteq> [] \<and> a_format b \<noteq> a_format a then tighter path ''the format'' (Text (a_format a)) (Text (a_format b)) else [])"

definition compareList :: "string \<Rightarrow> schema_attrs \<Rightarrow> schema_attrs \<Rightarrow> finding list" where
  "compareList path a b =
     (if a_list_type a \<noteq> a_list_type b \<or> a_list_map_keys a \<noteq> a_list_map_keys b \<or> a_map_type a \<noteq> a_map_type b
      then found path RuleListSemanticsChanged ListSemantics else [])"

definition compareRequired :: "string \<Rightarrow> schema_attrs \<Rightarrow> schema_attrs \<Rightarrow> (string \<times> schema) list \<Rightarrow> finding list" where
  "compareRequired path a b ps = concat (map (\<lambda>name.
     if name \<in> set (a_required a) then []
     else case map_of ps name of
       Some p \<Rightarrow> if a_default (attrs p) \<noteq> None then [] else found (join_path path name) RuleRequiredAdded NewlyRequired
     | None \<Rightarrow> found (join_path path name) RuleRequiredAdded NewlyRequired) (a_required b))"

definition compareCEL :: "string \<Rightarrow> schema_attrs \<Rightarrow> schema_attrs \<Rightarrow> finding list" where
  "compareCEL path a b = concat (map (\<lambda>r. if r \<notin> set (a_rules a) then found path RuleValidationTightened (RuleAdded r) else []) (a_rules b))"

definition compareComposition :: "string \<Rightarrow> schema_attrs \<Rightarrow> schema_attrs \<Rightarrow> finding list" where
  "compareComposition path a b =
     (if a_all_of a \<noteq> a_all_of b \<or> a_any_of a \<noteq> a_any_of b \<or> a_one_of a \<noteq> a_one_of b \<or> a_not a \<noteq> a_not b
      then found path RuleValidationTightened Composition else [])"

text \<open>What \<open>walk\<close> says of a schema itself, before it goes on to the schemas beneath.\<close>

definition walk_here :: "string \<Rightarrow> schema_attrs \<Rightarrow> schema_attrs \<Rightarrow> (string \<times> schema) list \<Rightarrow> finding list" where
  "walk_here path a b ps =
     (if a_int_or_string a \<noteq> a_int_or_string b then found path RuleTypeChanged IntOrStringMarker else []) @
     (if isTrue (a_preserve a) \<and> \<not> isTrue (a_preserve b) then found path RulePreserveUnknownRemoved UnknownNowPruned else []) @
     (if a_nullable a \<and> \<not> a_nullable b then found path RuleValidationTightened NullRefused else []) @
     compareEnum path a b @ compareBounds path a b @ compareList path a b @ compareRequired path a b ps @
     compareCEL path a b @ compareComposition path a b"

text \<open>The size of a schema beneath another, for the recursion.\<close>

lemma size_property: "(name, p) \<in> set ps \<Longrightarrow> size p < size (Schema a ps it ad)"
proof -
  assume "(name, p) \<in> set ps"
  then have "size_prod (\<lambda>_. 0) size (name, p) < Suc (size_list (size_prod (\<lambda>_. 0) size) ps)"
    by (intro less_Suc_eq_le [THEN iffD2] size_list_estimation' [where y = "size_prod (\<lambda>_. 0) size (name, p)"]) auto
  then show ?thesis by simp
qed

function walk :: "string \<Rightarrow> schema \<Rightarrow> schema \<Rightarrow> finding list" where
  "walk path (Schema a ps it ad) updated =
     (if a_type a \<noteq> a_type (attrs updated) then found path RuleTypeChanged (TypeFrom (orNone (a_type a)) (orNone (a_type (attrs updated))))
      else walk_here path a (attrs updated) (properties updated) @
        concat (map (\<lambda>(name, p). case map_of (properties updated) name of
            None \<Rightarrow> if isTrue (a_preserve (attrs updated)) then [] else found (join_path path name) RuleFieldRemoved FieldGone
          | Some q \<Rightarrow> walk (join_path path name) p q) (sort_key fst ps)) @
        (case it of None \<Rightarrow> []
         | Some s \<Rightarrow> (case item_schema updated of None \<Rightarrow> found (path @ ''[]'') RuleTypeChanged ElementsGone
            | Some s' \<Rightarrow> walk (path @ ''[]'') s s')) @
        (case ad of None \<Rightarrow> []
         | Some (allows, Some s) \<Rightarrow> (case additional updated of
              Some (_, Some s') \<Rightarrow> walk (path @ ''{}'') s s'
            | Some (True, None) \<Rightarrow> []
            | _ \<Rightarrow> found (path @ ''{}'') RuleFieldRemoved TypedKeysGone)
         | Some (allows, None) \<Rightarrow> if \<not> allows then [] else (case additional updated of
              Some (_, Some s') \<Rightarrow> found path RuleTypeChanged FreeKeysTyped
            | Some (True, None) \<Rightarrow> []
            | _ \<Rightarrow> found path RuleFieldRemoved FreeKeysGone)))"
  by pat_completeness auto

termination
  by (relation "measure (\<lambda>(path, old, updated). size old)") (auto dest: size_property)

declare walk.simps [simp del]

subsection \<open>Definitions and versions\<close>

record crd_version =
  cv_name :: string
  cv_served :: bool
  cv_storage :: bool
  cv_status :: bool \<comment> \<open>has the status subresource\<close>
  cv_scale :: bool
  cv_schema :: "schema option"

record crd =
  d_name :: string
  d_group :: string
  d_scope :: string
  d_kind :: string
  d_plural :: string
  d_singular :: string
  d_versions :: "crd_version list"
  d_conversion :: string \<comment> \<open>the strategy, empty when there is none\<close>

definition storageVersion :: "crd \<Rightarrow> string" where
  "storageVersion c = (case find cv_storage (d_versions c) of None \<Rightarrow> [] | Some v \<Rightarrow> cv_name v)"

definition conversionStrategy :: "crd \<Rightarrow> string" where
  "conversionStrategy c = (if d_conversion c = [] then ''None'' else d_conversion c)"

definition compareVersion :: "crd_version \<Rightarrow> crd_version \<Rightarrow> finding list" where
  "compareVersion old updated =
     (if cv_status old \<and> \<not> cv_status updated then found [] RuleSubresourceRemoved StatusGone else []) @
     (if cv_scale old \<and> \<not> cv_scale updated then found [] RuleSubresourceRemoved ScaleGone else []) @
     (case cv_schema old of None \<Rightarrow> []
      | Some s \<Rightarrow> (case cv_schema updated of None \<Rightarrow> found [] RuleFieldRemoved SchemaGone | Some s' \<Rightarrow> walk [] s s'))"

definition add_violation :: "string \<Rightarrow> string \<Rightarrow> finding \<Rightarrow> violation" where
  "add_violation crd version f = \<lparr>f_path = f_path f, f_rule = f_rule f, f_change = f_change f, v_crd = crd, v_version = version\<rparr>"

definition find_named :: "string \<Rightarrow> ('a \<Rightarrow> string) \<Rightarrow> 'a list \<Rightarrow> 'a option" where
  "find_named name f xs = map_of (rev (map (\<lambda>x. (f x, x)) xs)) name"

definition version_violations :: "string \<Rightarrow> crd_version list \<Rightarrow> crd_version \<Rightarrow> violation list" where
  "version_violations crd newVersions ov = map (add_violation crd (cv_name ov))
     (case find_named (cv_name ov) cv_name newVersions of
        None \<Rightarrow> if cv_served ov \<or> cv_storage ov then found [] RuleVersionRemoved VersionGone else []
      | Some nv \<Rightarrow> (if cv_served ov \<and> \<not> cv_served nv then found [] RuleVersionUnserved NoLongerServed else []) @ compareVersion ov nv)"

definition violation_cmp :: "violation \<Rightarrow> violation \<Rightarrow> int" where
  "violation_cmp a b = cmp_or (cmp_compare (v_crd a) (v_crd b)) (cmp_or (cmp_compare (v_version a) (v_version b))
     (cmp_or (cmp_compare (f_path a) (f_path b)) (cmp_compare (rule_text (f_rule a)) (rule_text (f_rule b)))))"

definition sortViolations :: "violation list \<Rightarrow> violation list" where
  "sortViolations vs = sort_cmp violation_cmp vs"

definition CompareCRD :: "crd \<Rightarrow> crd \<Rightarrow> violation list" where
  "CompareCRD old updated =
     (let whole = map (add_violation (d_name old) []);
          oldStorage = storageVersion old; newStorage = storageVersion updated;
          oc = conversionStrategy old; nc = conversionStrategy updated
      in sortViolations (
        whole (if d_scope old \<noteq> d_scope updated then found [] RuleScopeChanged (ScopeFrom (d_scope old) (d_scope updated)) else []) @
        whole (if d_kind old \<noteq> d_kind updated \<or> d_plural old \<noteq> d_plural updated \<or> d_singular old \<noteq> d_singular updated \<or> d_group old \<noteq> d_group updated
          then found [] RuleNamesChanged (NamesFrom (d_group old) (d_plural old) (d_group updated) (d_plural updated)) else []) @
        concat (map (version_violations (d_name old) (d_versions updated)) (d_versions old)) @
        whole (if oldStorage \<noteq> [] \<and> newStorage \<noteq> [] \<and> oldStorage \<noteq> newStorage then found [] RuleStorageVersionChanged (StorageFrom oldStorage newStorage) else []) @
        whole (if oc \<noteq> nc \<and> oc = ''Webhook'' then found [] RuleConversionChanged WebhookGone else [])))"

definition Compare :: "crd list \<Rightarrow> crd list \<Rightarrow> violation list" where
  "Compare old updated = sortViolations (concat (map (\<lambda>o'. case find_named (d_name o') d_name updated of
      None \<Rightarrow> map (add_violation (d_name o') []) (found [] RuleCRDRemoved DefinitionGone)
    | Some u \<Rightarrow> CompareCRD o' u) old))"

section \<open>What the API server does with a stored value\<close>

datatype json = JNull | JBool bool | JNum rat | JStr string | JArr "json list" | JObj "(string \<times> json) list"

text \<open>The meaning of what the comparison only compares: how a value is written, patterns, formats, rules and so on.\<close>

record meaning =
  raw :: "json \<Rightarrow> string"
  matches :: "string \<Rightarrow> string \<Rightarrow> bool"
  formatted :: "string \<Rightarrow> json \<Rightarrow> bool"
  rule_holds :: "string \<Rightarrow> json \<Rightarrow> bool"
  listed :: "string option \<Rightarrow> string list \<Rightarrow> string option \<Rightarrow> json \<Rightarrow> bool"
  composed :: "string list \<Rightarrow> string list \<Rightarrow> string list \<Rightarrow> string option \<Rightarrow> json \<Rightarrow> bool"

definition at_most :: "'a::linorder \<Rightarrow> 'a option \<Rightarrow> bool" where
  "at_most x b = (case b of None \<Rightarrow> True | Some m \<Rightarrow> x \<le> m)"

definition at_least :: "'a::linorder \<Rightarrow> 'a option \<Rightarrow> bool" where
  "at_least x b = (case b of None \<Rightarrow> True | Some m \<Rightarrow> m \<le> x)"

fun type_ok :: "schema_attrs \<Rightarrow> json \<Rightarrow> bool" where
  "type_ok a v = (if a_int_or_string a then (case v of JNum n \<Rightarrow> n \<in> \<int> | JStr s \<Rightarrow> True | _ \<Rightarrow> False)
     else a_type a = [] \<or> (case v of JNull \<Rightarrow> False | JBool b \<Rightarrow> a_type a = ''boolean''
       | JNum n \<Rightarrow> a_type a = ''number'' \<or> a_type a = ''integer'' \<and> n \<in> \<int> | JStr s \<Rightarrow> a_type a = ''string''
       | JArr vs \<Rightarrow> a_type a = ''array'' | JObj kvs \<Rightarrow> a_type a = ''object''))"

definition enum_ok :: "meaning \<Rightarrow> schema_attrs \<Rightarrow> json \<Rightarrow> bool" where
  "enum_ok E a v \<longleftrightarrow> a_enum a = [] \<or> raw E v \<in> set (map trim_space (a_enum a))"

fun bounds_ok :: "meaning \<Rightarrow> schema_attrs \<Rightarrow> json \<Rightarrow> bool" where
  "bounds_ok E a (JNum x) \<longleftrightarrow> at_most x (a_maximum a) \<and> at_least x (a_minimum a) \<and>
     (a_exclusive_maximum a \<longrightarrow> a_maximum a \<noteq> Some x) \<and> (a_exclusive_minimum a \<longrightarrow> a_minimum a \<noteq> Some x) \<and>
     (\<forall>m. a_multiple_of a = Some m \<longrightarrow> x / m \<in> \<int>)"
| "bounds_ok E a (JStr s) \<longleftrightarrow> at_most (int (length s)) (a_max_length a) \<and> at_least (int (length s)) (a_min_length a) \<and>
     (a_pattern a = [] \<or> matches E (a_pattern a) s)"
| "bounds_ok E a (JArr vs) \<longleftrightarrow> at_most (int (length vs)) (a_max_items a) \<and> at_least (int (length vs)) (a_min_items a) \<and>
     (a_unique_items a \<longrightarrow> distinct vs)"
| "bounds_ok E a (JObj kvs) \<longleftrightarrow> at_most (int (length kvs)) (a_max_properties a) \<and> at_least (int (length kvs)) (a_min_properties a)"
| "bounds_ok E a v \<longleftrightarrow> True"

definition meaning_ok :: "meaning \<Rightarrow> schema_attrs \<Rightarrow> json \<Rightarrow> bool" where
  "meaning_ok E a v \<longleftrightarrow> (a_format a = [] \<or> formatted E (a_format a) v) \<and> (\<forall>r \<in> set (a_rules a). rule_holds E r v) \<and>
     listed E (a_list_type a) (a_list_map_keys a) (a_map_type a) v \<and> composed E (a_all_of a) (a_any_of a) (a_one_of a) (a_not a) v"

text \<open>A required field is there, or is filled in from its default when the object is read.\<close>

definition required_ok :: "schema_attrs \<Rightarrow> (string \<times> schema) list \<Rightarrow> (string \<times> json) list \<Rightarrow> bool" where
  "required_ok a ps kvs \<longleftrightarrow> (\<forall>r \<in> set (a_required a). r \<in> fst ` set kvs \<or> (\<exists>s. map_of ps r = Some s \<and> a_default (attrs s) \<noteq> None))"

text \<open>The schema of what is under a key: a property's, or that of any other key.\<close>

definition key_schema :: "schema \<Rightarrow> string \<Rightarrow> schema option" where
  "key_schema s k = (case map_of (properties s) k of
      Some p \<Rightarrow> Some p
    | None \<Rightarrow> (case additional s of Some (_, Some p) \<Rightarrow> Some p | _ \<Rightarrow> None))"

definition key_kept :: "schema \<Rightarrow> string \<Rightarrow> bool" where
  "key_kept s k \<longleftrightarrow> map_of (properties s) k \<noteq> None \<or> isTrue (a_preserve (attrs s)) \<or>
     (case additional s of None \<Rightarrow> False | Some (allows, p) \<Rightarrow> allows \<or> p \<noteq> None)"

lemma size_json: "(k, x) \<in> set kvs \<Longrightarrow> size x < size (JObj kvs)"
proof -
  assume "(k, x) \<in> set kvs"
  then have "size_prod (\<lambda>_. 0) size (k, x) < Suc (size_list (size_prod (\<lambda>_. 0) size) kvs)"
    by (intro less_Suc_eq_le [THEN iffD2] size_list_estimation' [where y = "size_prod (\<lambda>_. 0) size (k, x)"]) auto
  then show ?thesis by simp
qed

function valid :: "meaning \<Rightarrow> schema \<Rightarrow> json \<Rightarrow> bool" where
  "valid E s JNull \<longleftrightarrow> a_nullable (attrs s)"
| "valid E s (JBool b) \<longleftrightarrow> type_ok (attrs s) (JBool b) \<and> enum_ok E (attrs s) (JBool b) \<and> meaning_ok E (attrs s) (JBool b)"
| "valid E s (JNum n) \<longleftrightarrow> type_ok (attrs s) (JNum n) \<and> enum_ok E (attrs s) (JNum n) \<and> bounds_ok E (attrs s) (JNum n) \<and> meaning_ok E (attrs s) (JNum n)"
| "valid E s (JStr t) \<longleftrightarrow> type_ok (attrs s) (JStr t) \<and> enum_ok E (attrs s) (JStr t) \<and> bounds_ok E (attrs s) (JStr t) \<and> meaning_ok E (attrs s) (JStr t)"
| "valid E s (JArr vs) \<longleftrightarrow> type_ok (attrs s) (JArr vs) \<and> enum_ok E (attrs s) (JArr vs) \<and> bounds_ok E (attrs s) (JArr vs) \<and> meaning_ok E (attrs s) (JArr vs) \<and>
     (case item_schema s of None \<Rightarrow> True | Some p \<Rightarrow> \<forall>x \<in> set vs. valid E p x)"
| "valid E s (JObj kvs) \<longleftrightarrow> type_ok (attrs s) (JObj kvs) \<and> enum_ok E (attrs s) (JObj kvs) \<and> bounds_ok E (attrs s) (JObj kvs) \<and> meaning_ok E (attrs s) (JObj kvs) \<and>
     required_ok (attrs s) (properties s) kvs \<and>
     (\<forall>kx \<in> set kvs. case key_schema s (fst kx) of None \<Rightarrow> True | Some p \<Rightarrow> valid E p (snd kx))"
  by pat_completeness auto

termination
  by (relation "measure (\<lambda>(E, s, v). size v)") (auto dest: size_json intro: size_list_estimation' [OF _ order_refl, THEN le_imp_less_Suc] simp: less_Suc_eq_le size_list_estimation')

text \<open>What is left of a value when what the schema does not know is dropped.\<close>

function prune :: "schema \<Rightarrow> json \<Rightarrow> json" where
  "prune s (JArr vs) = JArr (case item_schema s of None \<Rightarrow> vs | Some p \<Rightarrow> map (prune p) vs)"
| "prune s (JObj kvs) = JObj (map (\<lambda>kx. (fst kx, case key_schema s (fst kx) of None \<Rightarrow> snd kx | Some p \<Rightarrow> prune p (snd kx)))
     (filter (\<lambda>kx. key_kept s (fst kx)) kvs))"
| "prune s JNull = JNull" | "prune s (JBool b) = JBool b" | "prune s (JNum n) = JNum n" | "prune s (JStr t) = JStr t"
  by pat_completeness auto

termination
  by (relation "measure (\<lambda>(s, v). size v)") (auto dest: size_json simp: less_Suc_eq_le size_list_estimation')

section \<open>Two schemas under which stored values stay as they are\<close>

text \<open>
  What the API server itself demands of a schema before it accepts the definition, as far as it matters here: a map has
  one entry per key, an object has named fields or values under any key but not both, and exactly the arrays have a
  schema for their elements.
\<close>

function structural :: "schema \<Rightarrow> bool" where
  "structural (Schema a ps it ad) \<longleftrightarrow> distinct (map fst ps) \<and> (ps = [] \<or> ad = None) \<and> (it \<noteq> None \<longleftrightarrow> a_type a = ''array'') \<and>
     (\<forall>np \<in> set ps. structural (snd np)) \<and>
     (case it of None \<Rightarrow> True | Some s \<Rightarrow> structural s) \<and>
     (case ad of Some (_, Some s) \<Rightarrow> structural s | _ \<Rightarrow> True)"
  by pat_completeness auto

termination
  by (relation "measure size") (auto dest: size_property)

definition values_typed :: "(bool \<times> schema option) option \<Rightarrow> bool" where
  "values_typed ad = (case ad of Some (_, Some s) \<Rightarrow> True | _ \<Rightarrow> False)"

definition has_default :: "(string \<times> schema) list \<Rightarrow> string \<Rightarrow> bool" where
  "has_default ps r = (case map_of ps r of None \<Rightarrow> False | Some s \<Rightarrow> a_default (attrs s) \<noteq> None)"

text \<open>
  What the comparison does not look at: where unknown fields are kept no field among them gets a schema, neither
  by name nor by a schema for all of them, and a field that stays required keeps its default.
\<close>

function unknown_left_alone :: "schema \<Rightarrow> schema \<Rightarrow> bool" where
  "unknown_left_alone (Schema a ps it ad) updated \<longleftrightarrow>
     (isTrue (a_preserve a) \<longrightarrow> fst ` set (properties updated) \<subseteq> fst ` set ps) \<and>
     (isTrue (a_preserve (attrs updated)) \<and> values_typed (additional updated) \<longrightarrow> values_typed ad) \<and>
     (\<forall>r \<in> set (a_required a) \<inter> set (a_required (attrs updated)). has_default ps r \<longrightarrow> has_default (properties updated) r) \<and>
     (\<forall>np \<in> set ps. case map_of (properties updated) (fst np) of None \<Rightarrow> True | Some q \<Rightarrow> unknown_left_alone (snd np) q) \<and>
     (case it of None \<Rightarrow> True | Some s \<Rightarrow> (case item_schema updated of None \<Rightarrow> True | Some s' \<Rightarrow> unknown_left_alone s s')) \<and>
     (case ad of Some (_, Some s) \<Rightarrow> (case additional updated of Some (_, Some s') \<Rightarrow> unknown_left_alone s s' | _ \<Rightarrow> True) | _ \<Rightarrow> True)"
  by pat_completeness auto

termination
  by (relation "measure (\<lambda>(old, updated). size old)") (auto dest: size_property)

definition stored :: "meaning \<Rightarrow> schema \<Rightarrow> json \<Rightarrow> bool" where
  "stored E s v \<longleftrightarrow> valid E s v \<and> prune s v = v"

subsection \<open>What each check rules out\<close>

lemma found_not_Nil [simp]: "found path r c \<noteq> []" "\<not> [] = found path r c"
  by (simp_all add: found_def)

lemma tighter_not_Nil [simp]: "tighter path w a b \<noteq> []" "\<not> [] = tighter path w a b"
  by (simp_all add: tighter_def)

lemma concat_map_Nil: "concat (map f xs) = [] \<longleftrightarrow> (\<forall>x \<in> set xs. f x = [])"
  by (induction xs) auto

lemma sortViolations_Nil [simp]: "sortViolations vs = [] \<longleftrightarrow> vs = []"
  by (metis length_0_conv length_sort_cmp sortViolations_def)

lemma bounds_loosened:
  "at_most x was \<Longrightarrow> \<not> upper_tightened was now \<Longrightarrow> at_most x now"
  "at_least x was \<Longrightarrow> \<not> lower_tightened was now \<Longrightarrow> at_least x now"
  by (auto simp: at_most_def at_least_def upper_tightened_def lower_tightened_def split: option.splits)

lemma exclusive_loosened:
  "at_most x was \<Longrightarrow> was \<noteq> Some x \<Longrightarrow> \<not> upper_tightened was now \<Longrightarrow> now \<noteq> Some x"
  "at_least x was \<Longrightarrow> was \<noteq> Some x \<Longrightarrow> \<not> lower_tightened was now \<Longrightarrow> now \<noteq> Some x"
  by (auto simp: at_most_def at_least_def upper_tightened_def lower_tightened_def split: option.splits)

lemma compareEnum_sound: "compareEnum path a b = [] \<Longrightarrow> enum_ok E a v \<Longrightarrow> enum_ok E b v"
  by (auto simp: compareEnum_def enum_ok_def Let_def filter_empty_conv split: if_splits)

lemma compareBounds_Nil:
  "compareBounds path a b = [] \<longleftrightarrow>
     \<not> upper_tightened (a_maximum a) (a_maximum b) \<and> \<not> lower_tightened (a_minimum a) (a_minimum b) \<and>
     \<not> upper_tightened (a_max_length a) (a_max_length b) \<and> \<not> lower_tightened (a_min_length a) (a_min_length b) \<and>
     \<not> upper_tightened (a_max_items a) (a_max_items b) \<and> \<not> lower_tightened (a_min_items a) (a_min_items b) \<and>
     \<not> upper_tightened (a_max_properties a) (a_max_properties b) \<and> \<not> lower_tightened (a_min_properties a) (a_min_properties b) \<and>
     (a_exclusive_maximum b \<longrightarrow> a_exclusive_maximum a) \<and> (a_exclusive_minimum b \<longrightarrow> a_exclusive_minimum a) \<and>
     (a_unique_items b \<longrightarrow> a_unique_items a) \<and> (a_multiple_of b = None \<or> a_multiple_of a = a_multiple_of b) \<and>
     (a_pattern b = [] \<or> a_pattern b = a_pattern a) \<and> (a_format b = [] \<or> a_format b = a_format a)"
  by (simp add: compareBounds_def upperF_def lowerF_def upperI_def lowerI_def)

lemma compareBounds_sound: "compareBounds path a b = [] \<Longrightarrow> bounds_ok E a v \<Longrightarrow> bounds_ok E b v"
proof (cases v)
  case (JNum x)
  assume c: "compareBounds path a b = []" and ok: "bounds_ok E a v"
  note c' = c [unfolded compareBounds_Nil]
  have 1: "at_most x (a_maximum a)" "at_least x (a_minimum a)" using ok JNum by simp_all
  have 2: "a_maximum b \<noteq> Some x" if "a_exclusive_maximum b"
    using exclusive_loosened(1) [OF 1(1)] c' ok JNum that by simp
  have 3: "a_minimum b \<noteq> Some x" if "a_exclusive_minimum b"
    using exclusive_loosened(2) [OF 1(2)] c' ok JNum that by simp
  have 4: "x / m \<in> \<int>" if "a_multiple_of b = Some m" for m using c' ok JNum that by auto
  show "bounds_ok E b v"
    using bounds_loosened(1) [OF 1(1)] bounds_loosened(2) [OF 1(2)] c' 2 3 4 JNum by simp
qed (auto simp: compareBounds_Nil elim: bounds_loosened)

lemma compareCEL_Nil: "compareCEL path a b = [] \<longleftrightarrow> set (a_rules b) \<subseteq> set (a_rules a)"
  by (subst compareCEL_def, subst concat_map_Nil) (auto simp del: if_image_distrib split: if_splits)

lemma meaning_kept:
  assumes "compareBounds path a b = []" and "compareList path a b = []" and "compareCEL path a b = []"
    and "compareComposition path a b = []" and "meaning_ok E a v"
  shows "meaning_ok E b v"
  using assms by (auto simp: meaning_ok_def compareBounds_Nil compareList_def compareCEL_Nil compareComposition_def split: if_splits)

lemma compareRequired_Nil:
  "compareRequired path a b ps = [] \<longleftrightarrow> (\<forall>r \<in> set (a_required b). r \<in> set (a_required a) \<or> has_default ps r)"
  by (subst compareRequired_def, subst concat_map_Nil) (auto simp: has_default_def split: option.splits if_splits)

lemma required_ok_iff: "required_ok a ps kvs \<longleftrightarrow> (\<forall>r \<in> set (a_required a). r \<in> fst ` set kvs \<or> has_default ps r)"
  by (auto simp: required_ok_def has_default_def split: option.splits)

subsection \<open>A comparison that finds nothing\<close>

lemma walk_Nil:
  assumes "walk path (Schema a ps it ad) u = []"
  shows "a_type (attrs u) = a_type a" and "walk_here path a (attrs u) (properties u) = []"
    and "map_of ps k = Some p \<Longrightarrow> map_of (properties u) k = None \<Longrightarrow> isTrue (a_preserve (attrs u))"
    and "map_of ps k = Some p \<Longrightarrow> map_of (properties u) k = Some q \<Longrightarrow> walk (join_path path k) p q = []"
    and "it = Some s \<Longrightarrow> \<exists>s'. item_schema u = Some s' \<and> walk (path @ ''[]'') s s' = []"
    and "ad = Some (al, Some s) \<Longrightarrow> additional u = Some (True, None) \<or> (\<exists>al' s'. additional u = Some (al', Some s') \<and> walk (path @ ''{}'') s s' = [])"
    and "ad = Some (True, None) \<Longrightarrow> additional u = Some (True, None)"
proof -
  note w = assms [unfolded walk.simps [of path a ps it ad u]]
  show t: "a_type (attrs u) = a_type a" using w by (simp split: if_splits)
  note w' = w [unfolded t simp_thms if_False append_is_Nil_conv]
  show "walk_here path a (attrs u) (properties u) = []" using w' by (rule conjunct1)
  have props: "\<forall>(k, p) \<in> set (sort_key fst ps). (case map_of (properties u) k of
      None \<Rightarrow> if isTrue (a_preserve (attrs u)) then [] else found (join_path path k) RuleFieldRemoved FieldGone
    | Some q \<Rightarrow> walk (join_path path k) p q) = []"
    using w' [THEN conjunct2, THEN conjunct1] by (simp only: concat_map_Nil split_def)
  show "isTrue (a_preserve (attrs u))" if "map_of ps k = Some p" "map_of (properties u) k = None"
    using bspec [OF props, of "(k, p)"] map_of_SomeD [OF that(1)] that(2) by (simp split: if_splits)
  show "walk (join_path path k) p q = []" if "map_of ps k = Some p" "map_of (properties u) k = Some q"
    using bspec [OF props, of "(k, p)"] map_of_SomeD [OF that(1)] that(2) by simp
  show "\<exists>s'. item_schema u = Some s' \<and> walk (path @ ''[]'') s s' = []" if "it = Some s"
    using w' [THEN conjunct2, THEN conjunct2, THEN conjunct1] that by (simp split: option.splits)
  note w'' = w' [THEN conjunct2, THEN conjunct2, THEN conjunct2]
  show "additional u = Some (True, None) \<or> (\<exists>al' s'. additional u = Some (al', Some s') \<and> walk (path @ ''{}'') s s' = [])"
    if "ad = Some (al, Some s)"
    using w'' that by (auto split: option.splits bool.splits)
  show "additional u = Some (True, None)" if "ad = Some (True, None)"
    using w'' that by (auto split: option.splits bool.splits)
qed

lemma walk_here_Nil:
  assumes "walk_here path a b ps = []"
  shows "a_int_or_string b = a_int_or_string a" and "isTrue (a_preserve a) \<Longrightarrow> isTrue (a_preserve b)"
    and "a_nullable a \<Longrightarrow> a_nullable b" and "compareEnum path a b = []" and "compareBounds path a b = []"
    and "compareList path a b = []" and "compareRequired path a b ps = []" and "compareCEL path a b = []"
    and "compareComposition path a b = []"
  using assms by (auto simp: walk_here_def split: if_splits)

text \<open>All that the induction over a stored value needs of two schemas.\<close>

definition compatible :: "schema \<Rightarrow> schema \<Rightarrow> bool" where
  "compatible old upd \<longleftrightarrow> (\<exists>path. walk path old upd = []) \<and> structural old \<and> structural upd \<and> unknown_left_alone old upd"

lemma structural_parts:
  assumes "structural s"
  shows "properties s = [] \<or> additional s = None" and "item_schema s \<noteq> None \<longleftrightarrow> a_type (attrs s) = ''array''"
    and "map_of (properties s) k = Some p \<Longrightarrow> structural p" and "item_schema s = Some p \<Longrightarrow> structural p"
    and "additional s = Some (al, Some p) \<Longrightarrow> structural p"
proof -
  obtain a ps it ad where s: "s = Schema a ps it ad" by (cases s)
  note st = assms [unfolded s structural.simps]
  show "properties s = [] \<or> additional s = None" using st s by simp
  show "item_schema s \<noteq> None \<longleftrightarrow> a_type (attrs s) = ''array''" using st s by simp
  show "structural p" if "map_of (properties s) k = Some p" using st map_of_SomeD [of ps k p] that s by auto
  show "structural p" if "item_schema s = Some p" using st that s by simp
  show "structural p" if "additional s = Some (al, Some p)" using st that s by simp
qed

lemma unknown_left_alone_parts:
  assumes "unknown_left_alone s u"
  shows "isTrue (a_preserve (attrs s)) \<Longrightarrow> map_of (properties u) k = Some q \<Longrightarrow> map_of (properties s) k \<noteq> None"
    and "isTrue (a_preserve (attrs u)) \<Longrightarrow> values_typed (additional u) \<Longrightarrow> values_typed (additional s)"
    and "r \<in> set (a_required (attrs s)) \<Longrightarrow> r \<in> set (a_required (attrs u)) \<Longrightarrow> has_default (properties s) r \<Longrightarrow> has_default (properties u) r"
    and "map_of (properties s) k = Some p \<Longrightarrow> map_of (properties u) k = Some q \<Longrightarrow> unknown_left_alone p q"
    and "item_schema s = Some p \<Longrightarrow> item_schema u = Some q \<Longrightarrow> unknown_left_alone p q"
    and "additional s = Some (al, Some p) \<Longrightarrow> additional u = Some (al', Some q) \<Longrightarrow> unknown_left_alone p q"
proof -
  obtain a ps it ad where s: "s = Schema a ps it ad" by (cases s)
  note ul = assms [unfolded s unknown_left_alone.simps]
  show "map_of (properties s) k \<noteq> None" if "isTrue (a_preserve (attrs s))" "map_of (properties u) k = Some q"
  proof -
    have "fst ` set (properties u) \<subseteq> fst ` set ps" using ul that(1) s by simp
    moreover have "k \<in> fst ` set (properties u)" using that(2) by (force dest: map_of_SomeD)
    ultimately have "k \<in> fst ` set ps" by (rule subsetD)
    then show ?thesis by (simp add: s map_of_eq_None_iff)
  qed
  show "values_typed (additional s)" if "isTrue (a_preserve (attrs u))" "values_typed (additional u)" using ul that s by simp
  show "has_default (properties u) r" if "r \<in> set (a_required (attrs s))" "r \<in> set (a_required (attrs u))" "has_default (properties s) r"
    using ul [THEN conjunct2, THEN conjunct2, THEN conjunct1] that s by simp
  show "unknown_left_alone p q" if "map_of (properties s) k = Some p" "map_of (properties u) k = Some q"
    using ul [THEN conjunct2, THEN conjunct2, THEN conjunct2, THEN conjunct1] map_of_SomeD [of ps k p] that s by auto
  show "unknown_left_alone p q" if "item_schema s = Some p" "item_schema u = Some q" using ul that s by simp
  show "unknown_left_alone p q" if "additional s = Some (al, Some p)" "additional u = Some (al', Some q)" using ul that s by simp
qed

lemma compatible_parts:
  assumes "compatible s u"
  shows "structural s" and "structural u" and "unknown_left_alone s u"
    and "a_type (attrs u) = a_type (attrs s)" and "\<exists>path. walk_here path (attrs s) (attrs u) (properties u) = []"
    and "map_of (properties s) k = Some p \<Longrightarrow> map_of (properties u) k = None \<Longrightarrow> isTrue (a_preserve (attrs u))"
    and "map_of (properties s) k = Some p \<Longrightarrow> map_of (properties u) k = Some q \<Longrightarrow> compatible p q"
    and "item_schema s = Some p \<Longrightarrow> \<exists>q. item_schema u = Some q \<and> compatible p q"
    and "item_schema s = None \<Longrightarrow> item_schema u = None"
    and "additional s = Some (al, Some p) \<Longrightarrow> additional u = Some (True, None) \<or> (\<exists>al' q. additional u = Some (al', Some q) \<and> compatible p q)"
    and "additional s = Some (True, None) \<Longrightarrow> additional u = Some (True, None)"
proof -
  obtain a ps it ad where s: "s = Schema a ps it ad" by (cases s)
  obtain path where w: "walk path (Schema a ps it ad) u = []" and st: "structural s" and su: "structural u" and ul: "unknown_left_alone s u"
    using assms s by (auto simp: compatible_def)
  show "structural s" and "structural u" and "unknown_left_alone s u" by fact+
  show ty: "a_type (attrs u) = a_type (attrs s)" using walk_Nil(1) [OF w] s by simp
  show "\<exists>path. walk_here path (attrs s) (attrs u) (properties u) = []" using walk_Nil(2) [OF w] s by auto
  show "isTrue (a_preserve (attrs u))" if "map_of (properties s) k = Some p" "map_of (properties u) k = None"
    using walk_Nil(3) [OF w] that s by simp
  show "compatible p q" if "map_of (properties s) k = Some p" "map_of (properties u) k = Some q"
    using walk_Nil(4) [OF w, of k p q] structural_parts(3) [OF st that(1)] structural_parts(3) [OF su that(2)]
      unknown_left_alone_parts(4) [OF ul that] that s by (auto simp: compatible_def)
  show "\<exists>q. item_schema u = Some q \<and> compatible p q" if p: "item_schema s = Some p"
  proof -
    obtain q where q: "item_schema u = Some q" "walk (path @ ''[]'') p q = []" using walk_Nil(5) [OF w, of p] p s by auto
    then show ?thesis using structural_parts(4) [OF st p] structural_parts(4) [OF su q(1)] unknown_left_alone_parts(5) [OF ul p q(1)]
      by (auto simp: compatible_def)
  qed
  show "item_schema u = None" if "item_schema s = None"
    using structural_parts(2) [OF st] structural_parts(2) [OF su] ty that by simp
  show "additional u = Some (True, None) \<or> (\<exists>al' q. additional u = Some (al', Some q) \<and> compatible p q)" if p: "additional s = Some (al, Some p)"
  proof (cases "additional u = Some (True, None)")
    case False
    then obtain al' q where q: "additional u = Some (al', Some q)" "walk (path @ ''{}'') p q = []"
      using walk_Nil(6) [OF w, of al p] p s by auto
    then show ?thesis using structural_parts(5) [OF st p] structural_parts(5) [OF su q(1)] unknown_left_alone_parts(6) [OF ul p q(1)]
      by (auto simp: compatible_def)
  qed simp
  show "additional u = Some (True, None)" if "additional s = Some (True, None)" using walk_Nil(7) [OF w] that s by simp
qed

lemma key_schema_untyped: "map_of (properties u) k = None \<Longrightarrow> key_schema u k = Some q \<Longrightarrow> values_typed (additional u)"
  by (auto simp: key_schema_def values_typed_def split: option.splits)

lemma compatible_preserve: "compatible s u \<Longrightarrow> isTrue (a_preserve (attrs s)) \<Longrightarrow> isTrue (a_preserve (attrs u))"
  using compatible_parts(5) walk_here_Nil(2) by blast

lemma compatible_key:
  assumes c: "compatible s u" and kept: "key_kept s k"
  shows "key_kept u k \<and> (\<forall>q. key_schema u k = Some q \<longrightarrow> (\<exists>p. key_schema s k = Some p \<and> compatible p q))"
proof (cases "map_of (properties s) k")
  case (Some p)
  then have no_ad: "\<not> values_typed (additional s)"
    using structural_parts(1) [OF compatible_parts(1) [OF c]] by (auto simp: values_typed_def)
  show ?thesis
  proof (cases "map_of (properties u) k")
    case None
    then have pu: "isTrue (a_preserve (attrs u))" using compatible_parts(6) [OF c Some] by blast
    then have "\<not> values_typed (additional u)" using unknown_left_alone_parts(2) [OF compatible_parts(3) [OF c]] no_ad by blast
    then show ?thesis using key_schema_untyped [OF None] pu by (auto simp: key_kept_def)
  next
    case (Some q)
    then show ?thesis using compatible_parts(7) [OF c \<open>map_of (properties s) k = Some p\<close>] \<open>map_of (properties s) k = Some p\<close>
      by (simp add: key_kept_def key_schema_def)
  qed
next
  case None
  have u_free: "map_of (properties u) k = None" if "additional u \<noteq> None"
    using structural_parts(1) [OF compatible_parts(2) [OF c]] that by auto
  consider (typed) al p where "additional s = Some (al, Some p)" | (free) "additional s = Some (True, None)"
    | (preserved) "isTrue (a_preserve (attrs s))" "\<not> values_typed (additional s)"
  proof (cases "values_typed (additional s)")
    case True
    then show ?thesis using typed by (auto simp: values_typed_def split: option.splits)
  next
    case False
    then have "additional s = Some (True, None) \<or> isTrue (a_preserve (attrs s))"
      using kept None by (auto simp: key_kept_def values_typed_def split: option.splits)
    then show ?thesis using free preserved False by blast
  qed
  then show ?thesis
  proof cases
    case typed
    then have "map_of (properties u) k = None" using u_free compatible_parts(10) [OF c typed] by auto
    then show ?thesis using compatible_parts(10) [OF c typed] typed None by (auto simp: key_kept_def key_schema_def)
  next
    case free
    then show ?thesis using compatible_parts(11) [OF c free] u_free by (simp add: key_kept_def key_schema_def)
  next
    case preserved
    note ul = compatible_parts(3) [OF c]
    have pu: "isTrue (a_preserve (attrs u))" using compatible_preserve [OF c preserved(1)] .
    have "map_of (properties u) k = None" using unknown_left_alone_parts(1) [OF ul preserved(1)] None by fastforce
    moreover have "\<not> values_typed (additional u)" using unknown_left_alone_parts(2) [OF ul pu] preserved(2) by blast
    ultimately show ?thesis using key_schema_untyped pu by (auto simp: key_kept_def)
  qed
qed

lemma compatible_scalar:
  assumes "compatible s u"
  shows "type_ok (attrs s) v \<Longrightarrow> type_ok (attrs u) v" and "enum_ok E (attrs s) v \<Longrightarrow> enum_ok E (attrs u) v"
    and "bounds_ok E (attrs s) v \<Longrightarrow> bounds_ok E (attrs u) v" and "meaning_ok E (attrs s) v \<Longrightarrow> meaning_ok E (attrs u) v"
    and "a_nullable (attrs s) \<Longrightarrow> a_nullable (attrs u)"
    and "required_ok (attrs s) (properties s) kvs \<Longrightarrow> required_ok (attrs u) (properties u) kvs"
proof -
  obtain path where h: "walk_here path (attrs s) (attrs u) (properties u) = []" using compatible_parts(5) [OF assms] by blast
  note here = walk_here_Nil [OF h]
  show "type_ok (attrs u) v" if "type_ok (attrs s) v" using that by (simp only: type_ok.simps here(1) compatible_parts(4) [OF assms])
  show "enum_ok E (attrs u) v" if "enum_ok E (attrs s) v" using compareEnum_sound here(4) that .
  show "bounds_ok E (attrs u) v" if "bounds_ok E (attrs s) v" using compareBounds_sound here(5) that .
  show "meaning_ok E (attrs u) v" if "meaning_ok E (attrs s) v" using meaning_kept here(5,6,8,9) that .
  show "a_nullable (attrs u)" if "a_nullable (attrs s)" using here(3) that .
  show "required_ok (attrs u) (properties u) kvs" if r: "required_ok (attrs s) (properties s) kvs"
    using here(7) r unknown_left_alone_parts(3) [OF compatible_parts(3) [OF assms]]
    unfolding compareRequired_Nil required_ok_iff by blast
qed

text \<open>Values an object or an array holds are themselves stored values of the schemas beneath.\<close>

lemma stored_array: "stored E s (JArr vs) \<Longrightarrow> item_schema s = Some p \<Longrightarrow> x \<in> set vs \<Longrightarrow> stored E p x"
  by (auto simp: stored_def map_idI map_eq_conv dest: map_eq_imp_length_eq simp: list_eq_iff_nth_eq in_set_conv_nth)

lemma filter_map_same:
  assumes "map g (filter P xs) = xs"
  shows "x \<in> set xs \<Longrightarrow> P x" and "x \<in> set xs \<Longrightarrow> g x = x"
proof -
  have "length (filter P xs) = length xs" using assms by (metis length_map)
  then have all: "\<forall>x \<in> set xs. P x" by (metis length_filter_less less_irrefl)
  then have "map g xs = xs" using assms by (simp add: filter_id_conv [THEN iffD2])
  then show "x \<in> set xs \<Longrightarrow> g x = x" by (metis in_set_conv_nth nth_map)
  show "x \<in> set xs \<Longrightarrow> P x" using all by blast
qed

lemma stored_key:
  assumes "stored E s (JObj kvs)" and "(k, x) \<in> set kvs"
  shows "key_kept s k" and "key_schema s k = Some p \<Longrightarrow> stored E p x"
proof -
  have m: "map (\<lambda>kx. (fst kx, case key_schema s (fst kx) of None \<Rightarrow> snd kx | Some p \<Rightarrow> prune p (snd kx))) (filter (\<lambda>kx. key_kept s (fst kx)) kvs) = kvs"
    using assms(1) by (simp add: stored_def)
  show "key_kept s k" using filter_map_same(1) [OF m assms(2)] by simp
  show "stored E p x" if "key_schema s k = Some p"
    using filter_map_same(2) [OF m assms(2)] assms that by (fastforce simp: stored_def)
qed

lemma stored_JArrI:
  assumes "valid E s (JArr vs)" and "\<And>p x. item_schema s = Some p \<Longrightarrow> x \<in> set vs \<Longrightarrow> prune p x = x"
  shows "stored E s (JArr vs)"
  using assms by (auto simp: stored_def map_idI simp del: valid.simps split: option.splits)

lemma stored_JObjI:
  assumes "valid E s (JObj kvs)" and "\<And>k x. (k, x) \<in> set kvs \<Longrightarrow> key_kept s k"
    and "\<And>k x p. (k, x) \<in> set kvs \<Longrightarrow> key_schema s k = Some p \<Longrightarrow> prune p x = x"
  shows "stored E s (JObj kvs)"
proof -
  have "filter (\<lambda>kx. key_kept s (fst kx)) kvs = kvs" using assms(2) by (auto simp: filter_id_conv)
  moreover have "map (\<lambda>kx. (fst kx, case key_schema s (fst kx) of None \<Rightarrow> snd kx | Some p \<Rightarrow> prune p (snd kx))) kvs = kvs"
    using assms(3) by (intro map_idI) (auto split: option.splits)
  ultimately show ?thesis using assms(1) by (simp add: stored_def del: valid.simps)
qed

text \<open>What is stored under the old schema is stored under the new one.\<close>

lemma compatible_stored: "compatible s u \<Longrightarrow> stored E s v \<Longrightarrow> stored E u v"
proof (induction v arbitrary: s u)
  case (JArr vs)
  note sc = compatible_scalar [OF JArr.prems(1)]
  have beneath: "stored E q x" if q: "item_schema u = Some q" and x: "x \<in> set vs" for q x
  proof (cases "item_schema s")
    case None
    then show ?thesis using compatible_parts(9) [OF JArr.prems(1)] q by simp
  next
    case (Some p)
    then have "compatible p q" using compatible_parts(8) [OF JArr.prems(1) Some] q by auto
    then show ?thesis using JArr.IH [OF x] stored_array [OF JArr.prems(2) Some x] by blast
  qed
  have "valid E u (JArr vs)" using JArr.prems(2) sc(1-4) beneath by (auto simp: stored_def simp del: type_ok.simps bounds_ok.simps split: option.splits)
  then show ?case using beneath by (intro stored_JArrI) (auto simp: stored_def)
next
  case (JObj kvs)
  note sc = compatible_scalar [OF JObj.prems(1)]
  note ck = compatible_key [OF JObj.prems(1) stored_key(1) [OF JObj.prems(2)]]
  have beneath: "stored E q x" if q: "key_schema u k = Some q" and x: "(k, x) \<in> set kvs" for q k x
  proof -
    obtain p where p: "key_schema s k = Some p" "compatible p q" using ck [OF x] q by blast
    show ?thesis using JObj.IH [OF x _ p(2)] stored_key(2) [OF JObj.prems(2) x p(1)] by simp
  qed
  have "valid E u (JObj kvs)" using JObj.prems(2) sc(1-4,6) beneath by (auto simp: stored_def simp del: type_ok.simps bounds_ok.simps split: option.splits)
  then show ?case using beneath ck by (intro stored_JObjI) (auto simp: stored_def)
qed (auto simp: stored_def compatible_scalar simp del: type_ok.simps bounds_ok.simps)

subsection \<open>Definitions that only add\<close>

function only_adds :: "schema \<Rightarrow> schema \<Rightarrow> bool" where
  "only_adds (Schema a ps it ad) updated \<longleftrightarrow> attrs updated = a \<and>
     (\<forall>np \<in> set ps. case map_of (properties updated) (fst np) of None \<Rightarrow> False | Some q \<Rightarrow> only_adds (snd np) q) \<and>
     (case it of None \<Rightarrow> True | Some s \<Rightarrow> (case item_schema updated of None \<Rightarrow> False | Some s' \<Rightarrow> only_adds s s')) \<and>
     (case ad of None \<Rightarrow> True
      | Some (al, None) \<Rightarrow> additional updated = ad
      | Some (al, Some s) \<Rightarrow> (case additional updated of Some (_, Some s') \<Rightarrow> only_adds s s' | _ \<Rightarrow> False))"
  by pat_completeness auto

termination
  by (relation "measure (\<lambda>(old, updated). size old)") (auto dest: size_property)

declare only_adds.simps [simp del] structural.simps [simp del] unknown_left_alone.simps [simp del]

lemma not_tightened [simp]: "\<not> upper_tightened b b" "\<not> lower_tightened b b"
  by (auto simp: upper_tightened_def lower_tightened_def split: option.splits)

lemma walk_here_same: "walk_here path a a ps = []"
proof -
  have "compareRequired path a a ps = []" by (simp add: compareRequired_Nil)
  moreover have "compareCEL path a a = []" by (simp add: compareCEL_Nil)
  moreover have "compareBounds path a a = []" by (simp add: compareBounds_Nil)
  moreover have "compareEnum path a a = []" by (simp add: compareEnum_def Let_def filter_empty_conv)
  moreover have "compareList path a a = []" by (simp add: compareList_def)
  moreover have "compareComposition path a a = []" by (simp add: compareComposition_def)
  ultimately show ?thesis unfolding walk_here_def by simp
qed

lemma only_adds_walk: "only_adds s u \<Longrightarrow> walk path s u = []"
proof (induction path s u rule: walk.induct)
  case (1 path a ps it ad u)
  note ad = "1.prems" [unfolded only_adds.simps]
  have t: "attrs u = a" using ad by (rule conjunct1)
  have props: "(case map_of (properties u) k of
      None \<Rightarrow> if isTrue (a_preserve (attrs u)) then [] else found (join_path path k) RuleFieldRemoved FieldGone
    | Some q \<Rightarrow> walk (join_path path k) p q) = []" if kp: "(k, p) \<in> set ps" for k p
  proof -
    have "case map_of (properties u) k of None \<Rightarrow> False | Some q \<Rightarrow> only_adds p q"
      using bspec [OF ad [THEN conjunct2, THEN conjunct1] kp] by (simp only: fst_conv snd_conv)
    then obtain q where q: "map_of (properties u) k = Some q" "only_adds p q" by (auto split: option.splits)
    have "walk (join_path path k) p q = []" using "1.IH"(1) [of "(k, p)" k p q] kp q t by simp
    then show ?thesis using q(1) by simp
  qed
  have its: "(case it of None \<Rightarrow> []
      | Some s \<Rightarrow> (case item_schema u of None \<Rightarrow> found (path @ ''[]'') RuleTypeChanged ElementsGone
         | Some s' \<Rightarrow> walk (path @ ''[]'') s s')) = []"
    using ad "1.IH"(2) t by (auto split: option.splits)
  have ads: "(case ad of None \<Rightarrow> []
      | Some (allows, Some s) \<Rightarrow> (case additional u of
           Some (_, Some s') \<Rightarrow> walk (path @ ''{}'') s s'
         | Some (True, None) \<Rightarrow> []
         | _ \<Rightarrow> found (path @ ''{}'') RuleFieldRemoved TypedKeysGone)
      | Some (allows, None) \<Rightarrow> if \<not> allows then [] else (case additional u of
           Some (_, Some s') \<Rightarrow> found path RuleTypeChanged FreeKeysTyped
         | Some (True, None) \<Rightarrow> []
         | _ \<Rightarrow> found path RuleFieldRemoved FreeKeysGone)) = []"
  proof (cases ad)
    case (Some al_s)
    then obtain al os where al: "ad = Some (al, os)" by (cases al_s) simp
    show ?thesis
    proof (cases os)
      case None
      then show ?thesis using ad al by (cases al) simp_all
    next
      case (Some s)
      then obtain al' s' where s': "additional u = Some (al', Some s')" "only_adds s s'"
        using ad al by (cases "additional u") (auto split: option.splits)
      have "walk (path @ ''{}'') s s' = []"
        using "1.IH"(3-) s' al Some t by (cases al') simp_all
      then show ?thesis using s'(1) al Some by (cases al') simp_all
    qed
  qed simp
  have "concat (map (\<lambda>(k, p). case map_of (properties u) k of
      None \<Rightarrow> if isTrue (a_preserve (attrs u)) then [] else found (join_path path k) RuleFieldRemoved FieldGone
    | Some q \<Rightarrow> walk (join_path path k) p q) (sort_key fst ps)) = []"
    unfolding concat_map_Nil using props by auto
  then show ?case using its ads t walk_here_same by (simp add: walk.simps)
qed

text \<open>A schema only adds to itself, as long as a map has one entry per key.\<close>

lemma only_adds_refl: "structural s \<Longrightarrow> only_adds s s"
proof (induction s rule: structural.induct)
  case (1 a ps it ad)
  note st = "1.prems" [unfolded structural.simps]
  have "case map_of ps (fst np) of None \<Rightarrow> False | Some q \<Rightarrow> only_adds (snd np) q" if np: "np \<in> set ps" for np
  proof -
    have "map_of ps (fst np) = Some (snd np)" using st np by (simp add: map_of_is_SomeI)
    moreover have "only_adds (snd np) (snd np)" using "1.IH"(1) [OF np] st np by blast
    ultimately show ?thesis by simp
  qed
  moreover have "case it of None \<Rightarrow> True | Some s \<Rightarrow> (case it of None \<Rightarrow> False | Some s' \<Rightarrow> only_adds s s')"
    using "1.IH"(2) st by (cases it) simp_all
  moreover have "case ad of None \<Rightarrow> True | Some (al, None) \<Rightarrow> ad = ad
      | Some (al, Some s) \<Rightarrow> (case ad of Some (_, Some s') \<Rightarrow> only_adds s s' | _ \<Rightarrow> False)"
    using "1.IH"(3) st by (cases ad) (auto split: option.splits)
  ultimately show ?case unfolding only_adds.simps schema.sel by blast
qed

subsection \<open>Whole definitions\<close>

definition version_only_adds :: "crd_version \<Rightarrow> crd_version \<Rightarrow> bool" where
  "version_only_adds old updated \<longleftrightarrow> (cv_served old \<longrightarrow> cv_served updated) \<and> (cv_status old \<longrightarrow> cv_status updated) \<and> (cv_scale old \<longrightarrow> cv_scale updated) \<and>
     (case cv_schema old of None \<Rightarrow> True | Some s \<Rightarrow> (case cv_schema updated of None \<Rightarrow> False | Some s' \<Rightarrow> only_adds s s'))"

definition crd_only_adds :: "crd \<Rightarrow> crd \<Rightarrow> bool" where
  "crd_only_adds old updated \<longleftrightarrow> d_scope updated = d_scope old \<and> d_group updated = d_group old \<and> d_kind updated = d_kind old \<and>
     d_plural updated = d_plural old \<and> d_singular updated = d_singular old \<and> storageVersion updated = storageVersion old \<and>
     d_conversion updated = d_conversion old \<and>
     (\<forall>ov \<in> set (d_versions old). case find_named (cv_name ov) cv_name (d_versions updated) of None \<Rightarrow> False | Some nv \<Rightarrow> version_only_adds ov nv)"

lemma version_violations_Nil:
  assumes "version_violations c vs ov = []"
  shows "cv_served ov \<or> cv_storage ov \<Longrightarrow> \<exists>nv. find_named (cv_name ov) cv_name vs = Some nv"
    and "find_named (cv_name ov) cv_name vs = Some nv \<Longrightarrow> (cv_served ov \<longrightarrow> cv_served nv) \<and> (cv_status ov \<longrightarrow> cv_status nv) \<and> (cv_scale ov \<longrightarrow> cv_scale nv) \<and>
      (\<forall>s. cv_schema ov = Some s \<longrightarrow> (\<exists>s'. cv_schema nv = Some s' \<and> walk [] s s' = []))"
  using assms by (auto simp: version_violations_def compareVersion_def split: option.splits if_splits)

lemma CompareCRD_Nil:
  assumes "CompareCRD d u = []"
  shows "d_scope u = d_scope d" and "d_group u = d_group d" and "d_kind u = d_kind d" and "d_plural u = d_plural d" and "d_singular u = d_singular d"
    and "ov \<in> set (d_versions d) \<Longrightarrow> version_violations (d_name d) (d_versions u) ov = []"
    and "storageVersion d \<noteq> [] \<Longrightarrow> storageVersion u \<noteq> [] \<Longrightarrow> storageVersion u = storageVersion d"
    and "conversionStrategy d = ''Webhook'' \<Longrightarrow> conversionStrategy u = ''Webhook''"
  using assms by (auto simp: CompareCRD_def Let_def split: if_splits)

lemma Compare_Nil: "Compare olds upds = [] \<longleftrightarrow>
    (\<forall>d \<in> set olds. case find_named (d_name d) d_name upds of None \<Rightarrow> False | Some u \<Rightarrow> CompareCRD d u = [])"
  unfolding Compare_def sortViolations_Nil concat_map_Nil by (auto simp: found_def split: option.splits)

lemma find_named_same: "distinct (map f xs) \<Longrightarrow> x \<in> set xs \<Longrightarrow> find_named (f x) f xs = Some x"
  unfolding find_named_def by (rule map_of_is_SomeI) (simp_all add: comp_def flip: rev_map)

lemma version_only_adds_quiet:
  "find_named (cv_name ov) cv_name vs = Some nv \<Longrightarrow> version_only_adds ov nv \<Longrightarrow> version_violations c vs ov = []"
  by (auto simp: version_only_adds_def version_violations_def compareVersion_def only_adds_walk split: option.splits)

lemma crd_only_adds_quiet: "crd_only_adds d u \<Longrightarrow> CompareCRD d u = []"
proof -
  assume a: "crd_only_adds d u"
  have "version_violations (d_name d) (d_versions u) ov = []" if "ov \<in> set (d_versions d)" for ov
  proof -
    have "case find_named (cv_name ov) cv_name (d_versions u) of None \<Rightarrow> False | Some nv \<Rightarrow> version_only_adds ov nv"
      using a that unfolding crd_only_adds_def by blast
    then show ?thesis by (auto intro: version_only_adds_quiet split: option.splits)
  qed
  then have "concat (map (version_violations (d_name d) (d_versions u)) (d_versions d)) = []" unfolding concat_map_Nil by blast
  then show ?thesis using a by (simp add: CompareCRD_def Let_def crd_only_adds_def conversionStrategy_def)
qed

lemma crd_only_adds_refl:
  assumes "distinct (map cv_name (d_versions d))" and "\<And>v s. v \<in> set (d_versions d) \<Longrightarrow> cv_schema v = Some s \<Longrightarrow> structural s"
  shows "crd_only_adds d d"
  using assms by (auto simp: crd_only_adds_def version_only_adds_def find_named_same only_adds_refl split: option.splits)

subsection \<open>The comparison as a whole\<close>

text \<open>Examples: a schema that says nothing, and a meaning under which every pattern, format and rule holds.\<close>

definition blank :: schema_attrs where
  "blank = \<lparr>a_type = [], a_int_or_string = False, a_preserve = None, a_nullable = False, a_enum = [], a_maximum = None, a_minimum = None,
     a_exclusive_maximum = False, a_exclusive_minimum = False, a_max_length = None, a_min_length = None, a_max_items = None, a_min_items = None,
     a_max_properties = None, a_min_properties = None, a_unique_items = False, a_multiple_of = None, a_pattern = [], a_format = [],
     a_list_type = None, a_list_map_keys = [], a_map_type = None, a_required = [], a_default = None, a_rules = [], a_all_of = [],
     a_any_of = [], a_one_of = [], a_not = None\<rparr>"

definition plain :: meaning where
  "plain = \<lparr>raw = (\<lambda>v. []), matches = (\<lambda>p s. True), formatted = (\<lambda>f v. True), rule_holds = (\<lambda>r v. True),
     listed = (\<lambda>t ks m v. True), composed = (\<lambda>a b c n v. True)\<rparr>"

definition leaf :: "string \<Rightarrow> schema" where
  "leaf t = Schema (blank\<lparr>a_type := t\<rparr>) [] None None"

definition object_of :: "(string \<times> schema) list \<Rightarrow> schema" where
  "object_of ps = Schema (blank\<lparr>a_type := ''object''\<rparr>) ps None None"

definition short_name :: "int \<Rightarrow> schema" where
  "short_name n = Schema (blank\<lparr>a_type := ''string'', a_max_length := Some n\<rparr>) [] None None"

definition app_version :: "schema \<Rightarrow> crd_version" where
  "app_version s = \<lparr>cv_name = ''v1'', cv_served = True, cv_storage = True, cv_status = True, cv_scale = False, cv_schema = Some s\<rparr>"

definition app_crd :: "crd_version list \<Rightarrow> crd" where
  "app_crd vs = \<lparr>d_name = ''apps.geass.dev'', d_group = ''geass.dev'', d_scope = ''Namespaced'', d_kind = ''App'', d_plural = ''apps'',
     d_singular = ''app'', d_versions = vs, d_conversion = []\<rparr>"

definition app_old :: schema where
  "app_old = object_of [(''name'', short_name 10)]"
definition app_new :: schema where
  "app_new = object_of [(''name'', short_name 20), (''port'', leaf ''integer'')]"
definition app_value :: json where
  "app_value = JObj [(''name'', JStr ''web'')]"

lemmas example_defs = blank_def plain_def leaf_def object_of_def short_name_def app_version_def app_crd_def app_old_def app_new_def app_value_def



text \<open>
  C22. A release whose definitions only add to the ones before, at any depth (new definitions, new versions, new fields and
  values), is accepted.
\<close>

theorem additions_accepted:
  assumes "\<And>d. d \<in> set olds \<Longrightarrow> \<exists>u. find_named (d_name d) d_name upds = Some u \<and> crd_only_adds d u"
  shows "Compare olds upds = []"
  unfolding Compare_Nil
proof
  fix d assume "d \<in> set olds"
  then obtain u where "find_named (d_name d) d_name upds = Some u" "crd_only_adds d u" using assms by blast
  then show "case find_named (d_name d) d_name upds of None \<Rightarrow> False | Some u \<Rightarrow> CompareCRD d u = []"
    by (simp add: crd_only_adds_quiet)
qed

theorem additions_accepted_witness:
  "\<not> app_new = app_old \<and> Compare [app_crd [app_version (object_of [(''spec'', app_old)])]] [app_crd [app_version (object_of [(''spec'', app_old), (''status'', app_new)])], app_crd [] \<lparr>d_name := ''jobs''\<rparr>] = []"
proof -
  have "crd_only_adds (app_crd [app_version (object_of [(''spec'', app_old)])]) (app_crd [app_version (object_of [(''spec'', app_old), (''status'', app_new)])])"
    by code_simp
  then have "Compare [app_crd [app_version (object_of [(''spec'', app_old)])]] [app_crd [app_version (object_of [(''spec'', app_old), (''status'', app_new)])], app_crd [] \<lparr>d_name := ''jobs''\<rparr>] = []"
    by (intro additions_accepted) (auto simp: find_named_def app_crd_def)
  then show ?thesis by (simp add: example_defs)
qed

text \<open>A release that changes nothing is accepted.\<close>

lemma Compare_same:
  assumes "distinct (map d_name cs)" and "\<And>d. d \<in> set cs \<Longrightarrow> distinct (map cv_name (d_versions d))"
    and "\<And>d v s. d \<in> set cs \<Longrightarrow> v \<in> set (d_versions d) \<Longrightarrow> cv_schema v = Some s \<Longrightarrow> structural s"
  shows "Compare cs cs = []"
proof -
  have "crd_only_adds d d" if "d \<in> set cs" for d using crd_only_adds_refl assms(2,3) that by blast
  then show ?thesis using find_named_same [OF assms(1)] by (auto simp: Compare_Nil crd_only_adds_quiet)
qed

subsection \<open>What the comparison does not see\<close>

text \<open>
  A field that gets a type where unknown fields are kept: what was stored under its name as unknown, of another type, no longer
  validates, and the comparison says nothing.
\<close>

lemma unknown_field_typed:
  defines "old \<equiv> Schema (blank\<lparr>a_type := ''object'', a_preserve := Some True\<rparr>) [] None None"
    and "upd \<equiv> Schema (blank\<lparr>a_type := ''object'', a_preserve := Some True\<rparr>) [(''port'', leaf ''integer'')] None None"
    and "v \<equiv> JObj [(''port'', JStr ''http'')]"
  shows "walk [] old upd = []" and "stored plain old v" and "\<not> valid plain upd v"
proof -
  show "walk [] old upd = []" unfolding old_def upd_def by code_simp
  show "stored plain old v"
    by (simp add: stored_def old_def v_def example_defs isTrue_def type_ok.simps enum_ok_def meaning_ok_def required_ok_def key_schema_def key_kept_def at_most_def at_least_def)
  show "\<not> valid plain upd v" by (simp add: upd_def v_def example_defs key_schema_def)
qed

text \<open>
  A required field that loses its default: an object stored before the field was added lacks it, and no longer validates.
\<close>

lemma default_dropped:
  defines "old \<equiv> Schema (blank\<lparr>a_type := ''object'', a_required := [''size'']\<rparr>) [(''size'', Schema (blank\<lparr>a_type := ''integer'', a_default := Some ''1''\<rparr>) [] None None)] None None"
    and "upd \<equiv> Schema (blank\<lparr>a_type := ''object'', a_required := [''size'']\<rparr>) [(''size'', leaf ''integer'')] None None"
  shows "walk [] old upd = []" and "stored plain old (JObj [])" and "\<not> valid plain upd (JObj [])"
proof -
  show "walk [] old upd = []" unfolding old_def upd_def by code_simp
  show "stored plain old (JObj [])"
    by (simp add: stored_def old_def example_defs type_ok.simps enum_ok_def meaning_ok_def required_ok_def at_most_def at_least_def)
  show "\<not> valid plain upd (JObj [])" by (simp add: upd_def example_defs required_ok_def)
qed

end
