(* ===== verification/Provisioning.thy ===== *)
theory Provisioning
  imports Conditions
begin

section \<open>Retries and attempts of provisioning (pkg/platform/reconcile_retry.go, provision_attempt.go)\<close>

text \<open>
  When a resource is not ready, its controller either waits, or counts a failure and gives the resource up after too many of
  them; the history of attempts in its status is what its owner reads. The state is \<open>retry_state\<close>
  (\<open>ReconcileRetryState\<close>, which mirrors \<open>GeassReconcileRetryStatus\<close>) and \<open>provision_status\<close> (\<open>GeassProvisionStatus\<close>).
  The clock is read once per call; the random identifier of an attempt is an argument (the bytes \<open>crypto/rand\<close> gave, or
  \<open>None\<close> when it failed, and what the clock prints then). The metrics that are counted on the way are left out.
\<close>

subsection \<open>Messages\<close>

definition MessageCouldNotPullImage :: string where "MessageCouldNotPullImage = ''Could not pull the database image''"
definition MessageCreatingDatabaseLogin :: string where "MessageCreatingDatabaseLogin = ''Creating the database login''"
definition MessagePromotingReplica :: string where "MessagePromotingReplica = ''Promoting a replica: the primary's machine is not responding''"
definition MessageSetUpObjectStorage :: string where "MessageSetUpObjectStorage = ''Set up object storage in cluster settings first''"
definition MessageObjectStorageCredentials :: string where "MessageObjectStorageCredentials = ''Cluster object storage credentials are unavailable''"
definition MessageOutOfMemory :: string where "MessageOutOfMemory = ''Ran out of memory''"
definition MessageQuotaUsedUp :: string where "MessageQuotaUsedUp = ''The environment's resource quota is used up, so this service cannot start''"
definition MessageRegistryIsolation :: string where "MessageRegistryIsolation = ''Registry isolation''"
definition MessageSandboxRuntimeMissing :: string where "MessageSandboxRuntimeMissing = ''Waiting for the sandboxed runtime''"
definition MessageCannotBeSandboxed :: string where "MessageCannotBeSandboxed = ''cannot run in the sandbox''"
definition MessageOneOrganizationPerServer :: string where "MessageOneOrganizationPerServer = ''a shared database server holds the databases of one organization only''"
definition MessageLimitsRefused :: string where "MessageLimitsRefused = ''The organization's limits refuse this service's pods''"
definition MessagePodsInvalid :: string where "MessagePodsInvalid = ''Kubernetes refuses this service's pods''"
definition MessageVolumeNotPlaced :: string where "MessageVolumeNotPlaced = ''Longhorn has no room for the database's volume''"
definition StartFailureMarker :: string where "StartFailureMarker = ''cannot start: ''"
definition ProvisionFailedUserMessage :: string where
  "ProvisionFailedUserMessage = ''Provisioning failed after repeated errors. Update settings or platform configuration, then save or redeploy to try again.''"
definition RetryingProvisionMessage :: string where "RetryingProvisionMessage = ''Retrying provisioning''"

definition ConditionReady :: string where "ConditionReady = ''Ready''"
definition ConditionReasonReconcileError :: string where "ConditionReasonReconcileError = ''ReconcileError''"
definition ConditionReasonProvisionFailed :: string where "ConditionReasonProvisionFailed = ''ProvisionFailed''"
definition ReconcileFailureThreshold :: int where "ReconcileFailureThreshold = 5"
definition ReconcileFailureMaxDuration :: duration where "ReconcileFailureMaxDuration = 3 * Minute"
definition ImagePullFailureMaxDuration :: duration where "ImagePullFailureMaxDuration = 10 * Minute"
definition RequeueAfterDefault :: duration where "RequeueAfterDefault = 30 * Second"

definition ImagePullMessage :: "string \<Rightarrow> string \<Rightarrow> string" where
  "ImagePullMessage img reason = MessageCouldNotPullImage @ '' '' @ img @ '' ('' @ reason @ '')''"

definition IsImagePullFailure :: "string \<Rightarrow> bool" where
  "IsImagePullFailure message \<longleftrightarrow> has_prefix MessageCouldNotPullImage (trim_space message)"

definition reconcileFailureLimits :: "string \<Rightarrow> int \<times> duration" where
  "reconcileFailureLimits message =
     (if IsImagePullFailure message then (max_int32, ImagePullFailureMaxDuration) else (ReconcileFailureThreshold, ReconcileFailureMaxDuration))"

definition ReconcileFailureShouldCount :: "string \<Rightarrow> bool" where
  "ReconcileFailureShouldCount message =
     (let msg = to_lower (trim_space message); says = string_contains msg in
      if msg = [] then False
      else if IsImagePullFailure message then True
      else if says ''waiting for deployment'' \<or> says ''configured and waiting'' then False
      else if says ''pending changes'' then False
      else if says ''waiting for a successful build'' then False
      else if says ''no container registry is set'' then False
      else if has_prefix (to_lower MessageRegistryIsolation @ '':'') msg then False
      else if says ''installing'' \<and> says ''chart'' then False
      else if says ''replacing the'' \<and> says ''chart'' then False
      else if says (to_lower MessageCreatingDatabaseLogin) then False
      else if says (to_lower MessagePromotingReplica) then False
      else if says ''configure the bucket name'' then False
      else if says (to_lower MessageQuotaUsedUp) \<or> says ''exceeded quota'' then False
      else if says (to_lower MessageLimitsRefused) \<or> says (to_lower MessagePodsInvalid) then False
      else if says (to_lower MessageOutOfMemory) then False
      else if says (to_lower MessageVolumeNotPlaced) then False
      else if says (to_lower MessageSetUpObjectStorage) then False
      else if has_prefix (to_lower MessageSandboxRuntimeMissing) msg then False
      else if says MessageCannotBeSandboxed then False
      else if says (to_lower MessageObjectStorageCredentials) then False
      else if has_prefix ''waiting for database '' msg \<or> has_prefix ''waiting for bucket '' msg then False
      else if says ''is starting'' then False
      else if says ''postgres database is starting'' then False
      else if says ''restoring database from backup'' then False
      else if says ''creating logical database'' then False
      else if says ''administrator login'' then False
      else if says ''database server is not ready'' then False
      else if says ''database server'' \<and> says ''unavailable'' then False
      else if says MessageOneOrganizationPerServer then False
      else if has_prefix ''project '' msg \<and> (has_suffix '' is not ready'' msg \<or> has_suffix '' does not exist'' msg) then False
      else if says ''referenced geasscluster is not ready'' then False
      else if says ''geass cluster is not ready'' then False
      else if says ''retrying provisioning'' then False
      else if says ''high availability requires'' then False
      else if says ''clusterref is not supported'' \<or> says ''clusterrefimmutable'' then False
      else if says ''duplicateenvironment'' \<or> says ''must be unique'' then False
      else True)"

definition ReconcileFailureIsPermanent :: "string \<Rightarrow> bool" where
  "ReconcileFailureIsPermanent message =
     (let msg = to_lower (trim_space message); says = string_contains msg in
      if msg = [] then False
      else if says ''unsupported engine'' then True
      else if says ''clusterref'' \<and> says ''not supported'' then True
      else if says ''access denied'' then True
      else if has_prefix (''put '' @ [char_of (34 :: nat)] @ ''http'') msg \<or> says ''ensurebucket'' then True
      else if says ''invalid'' \<and> (says ''credential'' \<or> says ''configuration'') then True
      else if says ''required'' \<and> (says ''aws'' \<or> says ''connection'') then True
      else if says ''database creation job failed'' then True
      else False)"

definition TerminalMessage :: "string \<Rightarrow> string" where
  "TerminalMessage message =
     (if string_contains message StartFailureMarker \<or> IsImagePullFailure message then trim_space message else ProvisionFailedUserMessage)"

definition SanitizeProvisionMessage :: "string \<Rightarrow> string" where
  "SanitizeProvisionMessage message =
     (let msg = trim_space message in
      if msg = [] then ''Provisioning issue''
      else if msg = ProvisionFailedUserMessage \<or> msg = RetryingProvisionMessage then msg
      else if string_contains msg StartFailureMarker then msg
      else if ReconcileFailureIsPermanent msg then ''Could not reach required platform services''
      else let lower = to_lower msg in
      if string_contains lower ''controller'' \<or> string_contains lower ''.svc'' \<or> string_contains lower ''dial tcp'' \<or>
         string_contains lower ''namespace'' \<or> string_contains lower ''helm'' then ''Object storage or platform services are not available''
      else if string_contains lower ''configure the bucket name'' then ''Bucket name is not configured''
      else if string_contains lower ''waiting for deployment'' \<or> string_contains lower ''configured and waiting'' then ''Waiting for deploy''
      else if length msg > 220 then ''Provisioning error''
      else msg)"

subsection \<open>Counting failures\<close>

record retry_state =
  Failures :: int
  FailureStarted :: "time option"
  FailureGeneration :: int

definition cleared :: retry_state where
  "cleared = \<lparr>Failures = 0, FailureStarted = None, FailureGeneration = 0\<rparr>"

definition ReadyConditionReason :: "condition list \<Rightarrow> string" where
  "ReadyConditionReason cs = (case find (\<lambda>c. cond_type c = ConditionReady) cs of None \<Rightarrow> [] | Some c \<Rightarrow> cond_reason c)"

definition SyncReconcileRetryForGeneration :: "retry_state \<Rightarrow> int \<Rightarrow> retry_state" where
  "SyncReconcileRetryForGeneration retry generation =
     (if FailureGeneration retry \<noteq> 0 \<and> generation \<noteq> FailureGeneration retry then cleared else retry)"

definition ReconcileProvisionPaused :: "condition list \<Rightarrow> int \<Rightarrow> retry_state \<Rightarrow> bool" where
  "ReconcileProvisionPaused conditions generation retry =
     (if ReadyConditionReason conditions \<noteq> ConditionReasonProvisionFailed then False
      else FailureGeneration retry = 0 \<or> FailureGeneration retry = generation)"

definition ClearReconcileRetry :: "retry_state \<Rightarrow> retry_state" where
  "ClearReconcileRetry retry = cleared"

definition ResetProvisionRetry :: "time \<Rightarrow> retry_state \<Rightarrow> condition list \<Rightarrow> retry_state \<times> condition list" where
  "ResetProvisionRetry now retry conditions =
     (ClearReconcileRetry retry, SetCondition now conditions ConditionReady ConditionFalse ConditionReasonReconcileError RetryingProvisionMessage)"

record not_ready_outcome =
  o_conditions :: "condition list"
  o_retry :: retry_state
  o_requeue_after :: duration
  o_terminal :: bool

definition ApplyNotReady :: "time \<Rightarrow> condition list \<Rightarrow> retry_state \<Rightarrow> int \<Rightarrow> string \<Rightarrow> not_ready_outcome" where
  "ApplyNotReady now conditions retry generation message =
     (if \<not> ReconcileFailureShouldCount message then
        \<lparr>o_conditions = SetCondition now conditions ConditionReady ConditionFalse ConditionReasonReconcileError message,
         o_retry = ClearReconcileRetry retry, o_requeue_after = RequeueAfterDefault, o_terminal = False\<rparr>
      else
       (let retry = retry\<lparr>Failures := wrap32 (Failures retry + 1)\<rparr>;
            retry = (if FailureStarted retry = None then retry\<lparr>FailureStarted := Some now\<rparr> else retry);
            (maxFailures, maxDuration) = reconcileFailureLimits message;
            terminal = (ReconcileFailureIsPermanent message \<or> Failures retry \<ge> maxFailures);
            terminal = (case FailureStarted retry of None \<Rightarrow> terminal | Some started \<Rightarrow> terminal \<or> tsub now started \<ge> maxDuration)
        in if terminal then
             \<lparr>o_conditions = SetCondition now conditions ConditionReady ConditionFalse ConditionReasonProvisionFailed (TerminalMessage message),
              o_retry = retry\<lparr>FailureGeneration := generation\<rparr>, o_requeue_after = 0, o_terminal = True\<rparr>
           else
             \<lparr>o_conditions = SetCondition now conditions ConditionReady ConditionFalse ConditionReasonReconcileError message,
              o_retry = retry, o_requeue_after = RequeueAfterDefault, o_terminal = False\<rparr>))"

subsection \<open>The history of attempts\<close>

datatype attempt_phase = ProvisionAttemptRunning | ProvisionAttemptSucceeded | ProvisionAttemptFailed

record attempt_error =
  RecordedAt :: time
  e_message :: string

record provision_attempt =
  ID :: string
  StartedAt :: time
  CompletedAt :: "time option"
  Phase :: attempt_phase
  Summary :: string
  Errors :: "attempt_error list"
  BuildRef :: string
  DeploymentRef :: string

record provision_status =
  ActiveProvisionAttempt :: string
  ProvisionAttempts :: "provision_attempt list"

definition MaxProvisionAttempts :: nat where "MaxProvisionAttempts = 8"
definition MaxProvisionAttemptErrors :: nat where "MaxProvisionAttemptErrors = 12"
definition MaxProvisionAttemptErrorsRetained :: nat where "MaxProvisionAttemptErrorsRetained = 5"

text \<open>The last \<open>n\<close> of a slice, \<open>xs[len(xs)-n:]\<close>, where it is longer.\<close>

definition last_of :: "nat \<Rightarrow> 'a list \<Rightarrow> 'a list" where
  "last_of n xs = (if length xs > n then drop (length xs - n) xs else xs)"

text \<open>\<open>hex.EncodeToString\<close>.\<close>

definition hex_digit :: "nat \<Rightarrow> char" where
  "hex_digit n = (if n < 10 then char_of (48 + n) else char_of (87 + n))"

definition hex_encode :: "nat list \<Rightarrow> string" where
  "hex_encode bs = concat (map (\<lambda>b. [hex_digit (b div 16), hex_digit (b mod 16)]) bs)"

definition newProvisionAttemptID :: "nat list option \<Rightarrow> string \<Rightarrow> string" where
  "newProvisionAttemptID buf stamp = (case buf of None \<Rightarrow> hex_encode (map of_char stamp) | Some bytes \<Rightarrow> hex_encode bytes)"

definition prependAPIAttempt :: "provision_attempt list \<Rightarrow> provision_attempt \<Rightarrow> provision_attempt list" where
  "prependAPIAttempt attempts attempt = attempt # attempts"

definition trimAPIProvisionAttempts :: "provision_status \<Rightarrow> provision_status" where
  "trimAPIProvisionAttempts status =
     (if length (ProvisionAttempts status) \<le> MaxProvisionAttempts then status
      else status\<lparr>ProvisionAttempts := take MaxProvisionAttempts (ProvisionAttempts status)\<rparr>)"

definition findAPIAttempt :: "provision_attempt list \<Rightarrow> string \<Rightarrow> provision_attempt option" where
  "findAPIAttempt attempts i = find (\<lambda>a. ID a = i) attempts"

definition new_attempt :: "time \<Rightarrow> string \<Rightarrow> provision_attempt" where
  "new_attempt now i = \<lparr>ID = i, StartedAt = now, CompletedAt = None, Phase = ProvisionAttemptRunning, Summary = [], Errors = [], BuildRef = [], DeploymentRef = []\<rparr>"

definition BeginProvisionAttempt :: "time \<Rightarrow> string \<Rightarrow> provision_status \<Rightarrow> provision_status" where
  "BeginProvisionAttempt now i status =
     trimAPIProvisionAttempts (status\<lparr>ProvisionAttempts := prependAPIAttempt (ProvisionAttempts status) (new_attempt now i), ActiveProvisionAttempt := i\<rparr>)"

definition EnsureActiveProvisionAttempt :: "time \<Rightarrow> string \<Rightarrow> provision_status \<Rightarrow> provision_status" where
  "EnsureActiveProvisionAttempt now i status =
     (if ActiveProvisionAttempt status \<noteq> [] \<and>
         (case findAPIAttempt (ProvisionAttempts status) (ActiveProvisionAttempt status) of None \<Rightarrow> False | Some a \<Rightarrow> Phase a = ProvisionAttemptRunning)
      then status else BeginProvisionAttempt now i status)"

text \<open>A loop over the attempts that ends at the first with an identifier, after \<open>f\<close> has changed it.\<close>

fun at_attempt :: "string \<Rightarrow> (provision_attempt \<Rightarrow> provision_attempt) \<Rightarrow> provision_attempt list \<Rightarrow> provision_attempt list" where
  "at_attempt i f [] = []"
| "at_attempt i f (a # as) = (if ID a \<noteq> i then a # at_attempt i f as else f a # as)"

definition add_error :: "time \<Rightarrow> string \<Rightarrow> provision_attempt \<Rightarrow> provision_attempt" where
  "add_error now message a =
     (if Phase a \<noteq> ProvisionAttemptRunning then a
      else if Errors a \<noteq> [] \<and> e_message (List.last (Errors a)) = message then a
      else a\<lparr>Errors := last_of MaxProvisionAttemptErrors (Errors a @ [\<lparr>RecordedAt = now, e_message = message\<rparr>])\<rparr>)"

definition RecordProvisionAttemptError :: "time \<Rightarrow> string \<Rightarrow> provision_status \<Rightarrow> string \<Rightarrow> bool \<Rightarrow> provision_status" where
  "RecordProvisionAttemptError now i status rawMessage counted =
     (if \<not> counted then status
      else let status = EnsureActiveProvisionAttempt now i status in
        if ActiveProvisionAttempt status = [] then status
        else status\<lparr>ProvisionAttempts := at_attempt (ActiveProvisionAttempt status) (add_error now (SanitizeProvisionMessage rawMessage)) (ProvisionAttempts status)\<rparr>)"

definition complete_attempt :: "time \<Rightarrow> attempt_phase \<Rightarrow> string \<Rightarrow> provision_attempt \<Rightarrow> provision_attempt" where
  "complete_attempt now phase summary a =
     a\<lparr>Phase := phase, Summary := summary, CompletedAt := Some now, Errors := last_of MaxProvisionAttemptErrorsRetained (Errors a)\<rparr>"

definition CompleteActiveProvisionAttempt :: "time \<Rightarrow> provision_status \<Rightarrow> attempt_phase \<Rightarrow> string \<Rightarrow> provision_status" where
  "CompleteActiveProvisionAttempt now status phase summary =
     (if ActiveProvisionAttempt status = [] then status
      else if findAPIAttempt (ProvisionAttempts status) (ActiveProvisionAttempt status) = None then status
      else status\<lparr>ProvisionAttempts := at_attempt (ActiveProvisionAttempt status) (complete_attempt now phase summary) (ProvisionAttempts status),
        ActiveProvisionAttempt := []\<rparr>)"

definition attach_refs :: "string \<Rightarrow> string \<Rightarrow> provision_attempt \<Rightarrow> provision_attempt" where
  "attach_refs buildRef deploymentRef a =
     (if Phase a \<noteq> ProvisionAttemptRunning then a
      else let a = (if buildRef \<noteq> [] then a\<lparr>BuildRef := buildRef\<rparr> else a)
           in if deploymentRef \<noteq> [] then a\<lparr>DeploymentRef := deploymentRef\<rparr> else a)"

definition AttachProvisionAttemptRefs :: "provision_status \<Rightarrow> string \<Rightarrow> string \<Rightarrow> provision_status" where
  "AttachProvisionAttemptRefs status buildRef deploymentRef =
     (if ActiveProvisionAttempt status = [] then status
      else status\<lparr>ProvisionAttempts := at_attempt (ActiveProvisionAttempt status) (attach_refs buildRef deploymentRef) (ProvisionAttempts status)\<rparr>)"

subsection \<open>What the controllers do (internal/controller/reconcile_not_ready.go, provision_attempt.go)\<close>

text \<open>
  \<open>reconcileRetryFromAPI\<close> and \<open>writeReconcileRetryToAPI\<close> copy the three fields of the retry state one by one, which is the identity
  here. A resource without a history has no \<open>provision_status\<close> (a nil pointer).
\<close>

definition beginProvisionReconcile :: "condition list \<Rightarrow> int \<Rightarrow> retry_state \<Rightarrow> retry_state \<times> bool" where
  "beginProvisionReconcile conditions generation retry =
     (let state = SyncReconcileRetryForGeneration retry generation in (state, ReconcileProvisionPaused conditions generation state))"

definition beginProvisionReconcileUnlessDeleting :: "bool \<Rightarrow> condition list \<Rightarrow> int \<Rightarrow> retry_state \<Rightarrow> retry_state \<times> bool" where
  "beginProvisionReconcileUnlessDeleting deleting conditions generation retry =
     (if deleting then (retry, False) else beginProvisionReconcile conditions generation retry)"

definition recordProvisionOnNotReady :: "time \<Rightarrow> string \<Rightarrow> provision_status \<Rightarrow> string \<Rightarrow> not_ready_outcome \<Rightarrow> provision_status" where
  "recordProvisionOnNotReady now i provision message outcome =
     (let counted = ReconcileFailureShouldCount message;
          provision = RecordProvisionAttemptError now i provision message counted
      in if \<not> o_terminal outcome then provision
         else let provision = EnsureActiveProvisionAttempt now i provision;
                  provision = (if \<not> counted then RecordProvisionAttemptError now i provision message True else provision)
              in CompleteActiveProvisionAttempt now provision ProvisionAttemptFailed (TerminalMessage message))"

definition completeProvisionSuccess :: "time \<Rightarrow> provision_status \<Rightarrow> provision_status" where
  "completeProvisionSuccess now provision =
     (if ActiveProvisionAttempt provision = [] then provision
      else CompleteActiveProvisionAttempt now provision ProvisionAttemptSucceeded ''Provisioned successfully'')"

definition finishNotReady ::
  "time \<Rightarrow> string \<Rightarrow> condition list \<Rightarrow> retry_state \<Rightarrow> provision_status option \<Rightarrow> int \<Rightarrow> string \<Rightarrow> (duration \<times> condition list) \<times> retry_state \<times> provision_status option" where
  "finishNotReady now i conditions retry provision generation message =
     (let outcome = ApplyNotReady now conditions retry generation message
      in ((if o_requeue_after outcome > 0 then o_requeue_after outcome else 0, o_conditions outcome), o_retry outcome,
          map_option (\<lambda>p. recordProvisionOnNotReady now i p message outcome) provision))"

section \<open>Giving a resource up\<close>

text \<open>A history of not-ready passes, each with its time and message, at one generation.\<close>

definition not_ready_pass :: "int \<Rightarrow> condition list \<times> retry_state \<Rightarrow> time \<times> string \<Rightarrow> condition list \<times> retry_state" where
  "not_ready_pass generation st h =
     (let out = ApplyNotReady (fst h) (fst st) (snd st) generation (snd h) in (o_conditions out, o_retry out))"

definition not_ready_run :: "int \<Rightarrow> condition list \<times> retry_state \<Rightarrow> (time \<times> string) list \<Rightarrow> condition list \<times> retry_state" where
  "not_ready_run generation st hs = foldl (not_ready_pass generation) st hs"

text \<open>The passes that count, since the last one that was only a wait.\<close>

definition counted_streak :: "(time \<times> string) list \<Rightarrow> (time \<times> string) list" where
  "counted_streak hs = rev (takeWhile (\<lambda>h. ReconcileFailureShouldCount (snd h)) (rev hs))"

lemma counted_streak_Nil [simp]: "counted_streak [] = []"
  by (simp add: counted_streak_def)

lemma counted_streak_snoc [simp]:
  "counted_streak (hs @ [h]) = (if ReconcileFailureShouldCount (snd h) then counted_streak hs @ [h] else [])"
  by (simp add: counted_streak_def)

lemma length_counted_streak: "length (counted_streak hs) \<le> length hs"
  by (simp add: counted_streak_def) (metis length_rev length_takeWhile_le)

lemma ApplyNotReady_wait:
  "\<not> ReconcileFailureShouldCount m \<Longrightarrow> o_retry (ApplyNotReady now cs r g m) = cleared \<and> \<not> o_terminal (ApplyNotReady now cs r g m)"
  by (simp add: ApplyNotReady_def ClearReconcileRetry_def)

lemma ApplyNotReady_counts:
  assumes "ReconcileFailureShouldCount m"
  shows "Failures (o_retry (ApplyNotReady now cs r g m)) = wrap32 (Failures r + 1)"
    and "FailureStarted (o_retry (ApplyNotReady now cs r g m)) = Some (case FailureStarted r of None \<Rightarrow> now | Some t \<Rightarrow> t)"
  using assms by (auto simp: ApplyNotReady_def Let_def split: prod.splits option.splits)

lemma ApplyNotReady_terminal:
  "o_terminal (ApplyNotReady now cs r g m) \<longleftrightarrow> ReconcileFailureShouldCount m \<and>
     (ReconcileFailureIsPermanent m \<or> wrap32 (Failures r + 1) \<ge> fst (reconcileFailureLimits m) \<or>
      tsub now (case FailureStarted r of None \<Rightarrow> now | Some t \<Rightarrow> t) \<ge> snd (reconcileFailureLimits m))"
  by (auto simp: ApplyNotReady_def Let_def split: prod.splits option.splits)

text \<open>The counters are those of the streak.\<close>

lemma not_ready_run_counts:
  assumes "length hs < 2 ^ 31 - 1"
  shows "Failures (snd (not_ready_run g (cs, cleared) hs)) = int (length (counted_streak hs)) \<and>
    FailureStarted (snd (not_ready_run g (cs, cleared) hs)) = (case counted_streak hs of [] \<Rightarrow> None | h # _ \<Rightarrow> Some (fst h))"
  using assms
proof (induction hs rule: rev_induct)
  case Nil
  then show ?case by (simp add: not_ready_run_def cleared_def)
next
  case (snoc h hs)
  let ?st = "not_ready_run g (cs, cleared) hs"
  have IH: "Failures (snd ?st) = int (length (counted_streak hs))"
      "FailureStarted (snd ?st) = (case counted_streak hs of [] \<Rightarrow> None | h # _ \<Rightarrow> Some (fst h))"
    using snoc by simp_all
  have step: "snd (not_ready_run g (cs, cleared) (hs @ [h])) = o_retry (ApplyNotReady (fst h) (fst ?st) (snd ?st) g (snd h))"
    by (simp add: not_ready_run_def not_ready_pass_def Let_def)
  show ?case
  proof (cases "ReconcileFailureShouldCount (snd h)")
    case True
    have "length (counted_streak hs) < 2 ^ 31 - 1" using length_counted_streak [of hs] snoc.prems by simp
    then have "in32 (int (length (counted_streak hs)) + 1)" by (simp add: in32_def max_int32_def)
    then show ?thesis using True IH step ApplyNotReady_counts [OF True] by (auto split: list.splits)
  next
    case False
    then show ?thesis using step ApplyNotReady_wait [OF False] by (simp add: cleared_def)
  qed
qed

lemma reason_SetCondition [simp]: "ReadyConditionReason (SetCondition now cs ConditionReady s r m) = r"
  by (auto simp: ReadyConditionReason_def find_SetCondition split: option.splits)

lemma ApplyNotReady_reason:
  "ReadyConditionReason (o_conditions (ApplyNotReady now cs r g m)) =
     (if o_terminal (ApplyNotReady now cs r g m) then ConditionReasonProvisionFailed else ConditionReasonReconcileError)"
  "o_requeue_after (ApplyNotReady now cs r g m) = (if o_terminal (ApplyNotReady now cs r g m) then 0 else RequeueAfterDefault)"
  by (auto simp: ApplyNotReady_def Let_def split: prod.splits option.splits)

text \<open>
  C32. After any history of not-ready passes, the next one gives the resource up exactly when its message counts and is
  permanent, or it is the fifth counted failure in a row, or three minutes have passed since the first of them; for an image that
  cannot be pulled it is ten minutes and no count. A pass that is only a wait starts the count over. When the resource is given
  up its reason says so and it is not looked at again by itself; otherwise it is, after half a minute.
\<close>

theorem gives_up_exactly:
  fixes now :: time and g :: int and cs :: "condition list" and m :: string
  assumes "length hs < 2 ^ 31 - 2"
  defines "first \<equiv> (case counted_streak hs of [] \<Rightarrow> now | h # _ \<Rightarrow> fst h)"
    and "out \<equiv> ApplyNotReady now (fst (not_ready_run g (cs, cleared) hs)) (snd (not_ready_run g (cs, cleared) hs)) g m"
  shows "(o_terminal out \<longleftrightarrow> ReconcileFailureShouldCount m \<and>
      (ReconcileFailureIsPermanent m \<or>
       (if IsImagePullFailure m then 10 * Minute \<le> now - first
        else 5 \<le> length (counted_streak hs) + 1 \<or> 3 * Minute \<le> now - first))) \<and>
    ReadyConditionReason (o_conditions out) = (if o_terminal out then ''ProvisionFailed'' else ''ReconcileError'') \<and>
    o_requeue_after out = (if o_terminal out then 0 else 30 * Second)"
proof -
  note c = not_ready_run_counts [of hs g cs]
  have n: "int (length (counted_streak hs)) + 1 < max_int32"
    using length_counted_streak [of hs] assms(1) by (simp add: max_int32_def)
  then have w: "wrap32 (int (length (counted_streak hs)) + 1) = int (length (counted_streak hs)) + 1"
    by (intro wrap32_id) (simp add: in32_def)
  have started: "(case FailureStarted (snd (not_ready_run g (cs, cleared) hs)) of None \<Rightarrow> now | Some t \<Rightarrow> t) = first"
    using c assms(1) by (simp add: first_def split: list.splits)
  have minutes: "10 * Minute \<le> tsub now first \<longleftrightarrow> 10 * Minute \<le> now - first" "3 * Minute \<le> tsub now first \<longleftrightarrow> 3 * Minute \<le> now - first"
    by (auto intro!: tsub_ge simp: duration_defs min_int64_def max_int64_def)
  have "o_terminal out \<longleftrightarrow> ReconcileFailureShouldCount m \<and>
      (ReconcileFailureIsPermanent m \<or>
       (if IsImagePullFailure m then 10 * Minute \<le> now - first
        else 5 \<le> length (counted_streak hs) + 1 \<or> 3 * Minute \<le> now - first))"
    unfolding out_def ApplyNotReady_terminal started using c n w minutes assms(1)
    by (auto simp: reconcileFailureLimits_def ReconcileFailureThreshold_def ReconcileFailureMaxDuration_def ImagePullFailureMaxDuration_def)
  moreover have "ReadyConditionReason (o_conditions out) = (if o_terminal out then ''ProvisionFailed'' else ''ReconcileError'')"
    by (simp add: out_def ApplyNotReady_reason ConditionReasonProvisionFailed_def ConditionReasonReconcileError_def)
  moreover have "o_requeue_after out = (if o_terminal out then 0 else 30 * Second)"
    by (simp add: out_def ApplyNotReady_reason RequeueAfterDefault_def)
  ultimately show ?thesis by blast
qed

theorem gives_up_exactly_witness:
  "o_terminal (ApplyNotReady 4 (fst (not_ready_run 1 ([], cleared) (map (\<lambda>t. (t, ''connection refused'')) [0, 1, 2, 3])))
     (snd (not_ready_run 1 ([], cleared) (map (\<lambda>t. (t, ''connection refused'')) [0, 1, 2, 3]))) 1 ''connection refused'')"
proof -
  have "ReconcileFailureShouldCount ''connection refused''" by code_simp
  moreover have "\<not> IsImagePullFailure ''connection refused''" by code_simp
  ultimately show ?thesis
    using gives_up_exactly [of "map (\<lambda>t. (t, ''connection refused'')) [0, 1, 2, 3]" 4 1 "[]" "''connection refused''"]
    by (simp add: counted_streak_def)
qed

subsection \<open>What a resource that was given up waits for\<close>



section \<open>The history of attempts\<close>

definition attempt_ok :: "provision_attempt \<Rightarrow> bool" where
  "attempt_ok a \<longleftrightarrow> (Phase a = ProvisionAttemptRunning \<longleftrightarrow> CompletedAt a = None) \<and> distinct_adj (map e_message (Errors a)) \<and>
     length (Errors a) \<le> (if Phase a = ProvisionAttemptRunning then 12 else 5)"

definition history_ok :: "provision_status \<Rightarrow> bool" where
  "history_ok st \<longleftrightarrow> length (ProvisionAttempts st) \<le> 8 \<and> (\<forall>a \<in> set (ProvisionAttempts st). attempt_ok a) \<and>
     (ActiveProvisionAttempt st \<noteq> [] \<longrightarrow> (case ProvisionAttempts st of [] \<Rightarrow> False
        | a # _ \<Rightarrow> ID a = ActiveProvisionAttempt st \<and> Phase a = ProvisionAttemptRunning))"

lemma last_of_append: "\<exists>ys. ys @ last_of n xs = xs"
  unfolding last_of_def by (metis append_Nil append_take_drop_id)

lemma length_last_of: "length (last_of n xs) \<le> n"
  by (simp add: last_of_def)

lemma distinct_adj_last_of:
  assumes "distinct_adj (map f xs)"
  shows "distinct_adj (map f (last_of n xs))"
proof -
  obtain ys where "xs = ys @ last_of n xs" using last_of_append by metis
  then show ?thesis using assms by (metis distinct_adj_append_iff map_append)
qed

lemma last_of_nonempty [simp]: "last_of (Suc n) xs = [] \<longleftrightarrow> xs = []"
  by (auto simp: last_of_def)

lemma last_last_of: "xs \<noteq> [] \<Longrightarrow> List.last (last_of (Suc n) xs) = List.last xs"
  by (auto simp: last_of_def)

lemma add_error_ok: "attempt_ok a \<Longrightarrow> attempt_ok (add_error now m a)"
proof -
  assume a: "attempt_ok a"
  have "distinct_adj (map e_message (last_of 12 (Errors a @ [\<lparr>RecordedAt = now, e_message = m\<rparr>])))"
    if "Errors a = [] \<or> e_message (List.last (Errors a)) \<noteq> m"
    using a that by (intro distinct_adj_last_of) (auto simp: attempt_ok_def distinct_adj_append_iff last_map)
  then show ?thesis using a length_last_of [of 12] by (auto simp: add_error_def attempt_ok_def MaxProvisionAttemptErrors_def)
qed

lemma add_error_last:
  "Phase a = ProvisionAttemptRunning \<Longrightarrow> Errors (add_error now m a) \<noteq> [] \<and> e_message (List.last (Errors (add_error now m a))) = m"
  by (auto simp: add_error_def MaxProvisionAttemptErrors_def last_last_of eval_nat_numeral)

lemma add_error_rest [simp]: "ID (add_error now m a) = ID a" "Phase (add_error now m a) = Phase a"
  by (simp_all add: add_error_def)

lemma attach_refs_rest [simp]: "ID (attach_refs b d a) = ID a" "Phase (attach_refs b d a) = Phase a"
    "attempt_ok (attach_refs b d a) = attempt_ok a"
  by (simp_all add: attach_refs_def Let_def attempt_ok_def)

lemma complete_attempt_ok: "attempt_ok a \<Longrightarrow> p \<noteq> ProvisionAttemptRunning \<Longrightarrow> attempt_ok (complete_attempt now p s a)"
  by (auto simp: complete_attempt_def attempt_ok_def MaxProvisionAttemptErrorsRetained_def distinct_adj_last_of
    intro: length_last_of [THEN order_trans])

text \<open>In a good history the loop over the attempts ends at the first one.\<close>

lemma history_ok_active:
  assumes "history_ok st" and "ActiveProvisionAttempt st \<noteq> []"
  obtains a as where "ProvisionAttempts st = a # as" and "ID a = ActiveProvisionAttempt st" and "Phase a = ProvisionAttemptRunning"
  using assms by (auto simp: history_ok_def split: list.splits)

lemma new_attempt_ok [simp]: "attempt_ok (new_attempt now i)" "ID (new_attempt now i) = i" "Phase (new_attempt now i) = ProvisionAttemptRunning"
  by (simp_all add: new_attempt_def attempt_ok_def)

lemma Begin_attempts: "ProvisionAttempts (BeginProvisionAttempt now i st) = new_attempt now i # take 7 (ProvisionAttempts st)"
  by (simp add: BeginProvisionAttempt_def trimAPIProvisionAttempts_def prependAPIAttempt_def MaxProvisionAttempts_def)

lemma Begin_active: "ActiveProvisionAttempt (BeginProvisionAttempt now i st) = i"
  by (simp add: BeginProvisionAttempt_def trimAPIProvisionAttempts_def)

lemma history_ok_Begin: "history_ok st \<Longrightarrow> i \<noteq> [] \<Longrightarrow> history_ok (BeginProvisionAttempt now i st)"
  unfolding history_ok_def Begin_attempts Begin_active by (auto dest: in_set_takeD)

lemma history_ok_Ensure: "history_ok st \<Longrightarrow> i \<noteq> [] \<Longrightarrow> history_ok (EnsureActiveProvisionAttempt now i st)"
  by (simp add: EnsureActiveProvisionAttempt_def history_ok_Begin)

lemma Ensure_active: "i \<noteq> [] \<Longrightarrow> ActiveProvisionAttempt (EnsureActiveProvisionAttempt now i st) \<noteq> []"
  by (simp add: EnsureActiveProvisionAttempt_def Begin_active)

lemma Ensure_same: "history_ok st \<Longrightarrow> ActiveProvisionAttempt st \<noteq> [] \<Longrightarrow> EnsureActiveProvisionAttempt now i st = st"
  by (erule (1) history_ok_active) (simp add: EnsureActiveProvisionAttempt_def findAPIAttempt_def)

text \<open>What an operation on the active attempt does to a good history.\<close>

lemma history_ok_at:
  assumes "history_ok st" and "ProvisionAttempts st = a # as" and "ID a = ActiveProvisionAttempt st"
    and "attempt_ok (f a)" and "ID (f a) = ID a" and "Phase (f a) = Phase a"
  shows "history_ok (st\<lparr>ProvisionAttempts := at_attempt (ActiveProvisionAttempt st) f (ProvisionAttempts st)\<rparr>)"
  using assms by (auto simp: history_ok_def)

lemma Record_counted:
  assumes "history_ok st" and "i \<noteq> []"
  shows "\<exists>a as. ProvisionAttempts (EnsureActiveProvisionAttempt now i st) = a # as \<and> Phase a = ProvisionAttemptRunning \<and>
      ID a = ActiveProvisionAttempt (EnsureActiveProvisionAttempt now i st) \<and> ID a \<noteq> [] \<and> attempt_ok a \<and>
      RecordProvisionAttemptError now i st m True =
        (EnsureActiveProvisionAttempt now i st)\<lparr>ProvisionAttempts := add_error now (SanitizeProvisionMessage m) a # as\<rparr>"
proof -
  let ?st = "EnsureActiveProvisionAttempt now i st"
  have ok: "history_ok ?st" and act: "ActiveProvisionAttempt ?st \<noteq> []" using history_ok_Ensure assms Ensure_active by simp_all
  obtain a as where a: "ProvisionAttempts ?st = a # as" "ID a = ActiveProvisionAttempt ?st" "Phase a = ProvisionAttemptRunning"
    using history_ok_active [OF ok act] by metis
  moreover have "attempt_ok a" using ok a(1) by (simp add: history_ok_def)
  moreover have "ID a \<noteq> []" using a(2) act by simp
  moreover have "RecordProvisionAttemptError now i st m True = ?st\<lparr>ProvisionAttempts := add_error now (SanitizeProvisionMessage m) a # as\<rparr>"
    using a act by (simp add: RecordProvisionAttemptError_def Let_def)
  ultimately show ?thesis by blast
qed

lemma history_ok_Record:
  assumes "history_ok st" and "i \<noteq> []"
  shows "history_ok (RecordProvisionAttemptError now i st m counted)"
proof (cases counted)
  case True
  obtain a as where a: "ProvisionAttempts (EnsureActiveProvisionAttempt now i st) = a # as" "Phase a = ProvisionAttemptRunning"
      "ID a = ActiveProvisionAttempt (EnsureActiveProvisionAttempt now i st)" "attempt_ok a"
      "RecordProvisionAttemptError now i st m True =
        (EnsureActiveProvisionAttempt now i st)\<lparr>ProvisionAttempts := add_error now (SanitizeProvisionMessage m) a # as\<rparr>"
    using Record_counted [OF assms] by metis
  show ?thesis using history_ok_at [OF history_ok_Ensure [OF assms] a(1,3), of "add_error now (SanitizeProvisionMessage m)"] a True add_error_ok by simp
next
  case False
  then show ?thesis using assms by (simp add: RecordProvisionAttemptError_def)
qed

lemma history_ok_Complete:
  assumes "history_ok st" and "p \<noteq> ProvisionAttemptRunning"
  shows "history_ok (CompleteActiveProvisionAttempt now st p s)"
proof (cases "ActiveProvisionAttempt st = []")
  case False
  then obtain a as where a: "ProvisionAttempts st = a # as" "ID a = ActiveProvisionAttempt st" "Phase a = ProvisionAttemptRunning"
    using history_ok_active [OF assms(1)] by metis
  then show ?thesis using assms complete_attempt_ok [of a p now s] False
    by (simp add: CompleteActiveProvisionAttempt_def findAPIAttempt_def history_ok_def)
qed (simp add: CompleteActiveProvisionAttempt_def assms)

lemma history_ok_Attach:
  assumes "history_ok st"
  shows "history_ok (AttachProvisionAttemptRefs st b d)"
proof (cases "ActiveProvisionAttempt st = []")
  case False
  then obtain a as where a: "ProvisionAttempts st = a # as" "ID a = ActiveProvisionAttempt st" "Phase a = ProvisionAttemptRunning"
    using history_ok_active [OF assms] by metis
  have "attempt_ok a" using assms a(1) by (simp add: history_ok_def)
  then show ?thesis using history_ok_at [OF assms a(1,2), of "attach_refs b d"] False by (simp add: AttachProvisionAttemptRefs_def)
qed (simp add: AttachProvisionAttemptRefs_def assms)

lemma history_ok_not_ready: "history_ok st \<Longrightarrow> i \<noteq> [] \<Longrightarrow> history_ok (recordProvisionOnNotReady now i st m out)"
  by (simp add: recordProvisionOnNotReady_def Let_def history_ok_Record history_ok_Ensure history_ok_Complete)

text \<open>The identifier of an attempt is never empty.\<close>

definition drawn :: "nat list option \<Rightarrow> string \<Rightarrow> bool" where
  "drawn buf stamp \<longleftrightarrow> (case buf of None \<Rightarrow> length stamp = 14 | Some bytes \<Rightarrow> length bytes = 8)"

lemma newProvisionAttemptID_nonempty: "drawn buf stamp \<Longrightarrow> newProvisionAttemptID buf stamp \<noteq> []"
  by (cases "case buf of None \<Rightarrow> map of_char stamp | Some bytes \<Rightarrow> bytes")
    (auto simp: drawn_def newProvisionAttemptID_def hex_encode_def split: option.splits)

text \<open>What happens to the history of a resource: its owner deploys, a pass finds it not ready or ready, a build is linked.\<close>

inductive history :: "provision_status \<Rightarrow> bool" where
  history_new: "history \<lparr>ActiveProvisionAttempt = [], ProvisionAttempts = []\<rparr>"
| history_deploy: "history st \<Longrightarrow> drawn buf stamp \<Longrightarrow> history (BeginProvisionAttempt now (newProvisionAttemptID buf stamp) st)"
| history_not_ready: "history st \<Longrightarrow> drawn buf stamp \<Longrightarrow>
    history (recordProvisionOnNotReady now (newProvisionAttemptID buf stamp) st m (ApplyNotReady now cs r g m))"
| history_ready: "history st \<Longrightarrow> history (completeProvisionSuccess now st)"
| history_attach: "history st \<Longrightarrow> history (AttachProvisionAttemptRefs st b d)"

lemma history_is_ok: "history st \<Longrightarrow> history_ok st"
proof (induction rule: history.induct)
  case history_new
  then show ?case by (simp add: history_ok_def)
next
  case (history_ready st now)
  then show ?case by (simp add: completeProvisionSuccess_def history_ok_Complete)
qed (auto intro: history_ok_Begin history_ok_not_ready history_ok_Attach dest: newProvisionAttemptID_nonempty)

lemma recordProvisionOnNotReady_counted:
  assumes ok: "history_ok st" and i: "i \<noteq> []" and counted: "ReconcileFailureShouldCount m"
  shows "\<exists>a as. ProvisionAttempts (recordProvisionOnNotReady now i st m out) = a # as \<and> Errors a \<noteq> [] \<and>
      e_message (List.last (Errors a)) = SanitizeProvisionMessage m \<and>
      (if o_terminal out
       then Phase a = ProvisionAttemptFailed \<and> Summary a = TerminalMessage m \<and> ActiveProvisionAttempt (recordProvisionOnNotReady now i st m out) = []
       else Phase a = ProvisionAttemptRunning \<and> ActiveProvisionAttempt (recordProvisionOnNotReady now i st m out) = ID a)"
proof -
  let ?rec = "RecordProvisionAttemptError now i st m True"
  obtain a as where a: "Phase a = ProvisionAttemptRunning" "ID a = ActiveProvisionAttempt (EnsureActiveProvisionAttempt now i st)" "ID a \<noteq> []"
      "?rec = (EnsureActiveProvisionAttempt now i st)\<lparr>ProvisionAttempts := add_error now (SanitizeProvisionMessage m) a # as\<rparr>"
    using Record_counted [OF ok i] by metis
  let ?a = "add_error now (SanitizeProvisionMessage m) a"
  have rec_: "ProvisionAttempts ?rec = ?a # as" "ActiveProvisionAttempt ?rec = ID a" using a(2,4) by simp_all
  have errs: "Errors ?a \<noteq> []" "e_message (List.last (Errors ?a)) = SanitizeProvisionMessage m" using add_error_last [OF a(1)] by simp_all
  show ?thesis
  proof (cases "o_terminal out")
    case False
    then show ?thesis using rec_ errs a(1) counted by (simp add: recordProvisionOnNotReady_def Let_def)
  next
    case True
    have "EnsureActiveProvisionAttempt now i ?rec = ?rec" using Ensure_same [OF history_ok_Record [OF ok i]] rec_(2) a(3) by simp
    then have "recordProvisionOnNotReady now i st m out = CompleteActiveProvisionAttempt now ?rec ProvisionAttemptFailed (TerminalMessage m)"
      using True counted by (simp add: recordProvisionOnNotReady_def Let_def)
    also have "\<dots> = ?rec\<lparr>ProvisionAttempts := complete_attempt now ProvisionAttemptFailed (TerminalMessage m) ?a # as, ActiveProvisionAttempt := []\<rparr>"
      using rec_ a(3) by (simp add: CompleteActiveProvisionAttempt_def findAPIAttempt_def)
    finally show ?thesis using True errs
      by (simp add: complete_attempt_def MaxProvisionAttemptErrorsRetained_def last_last_of eval_nat_numeral)
  qed
qed

text \<open>
  C13. Whatever happens to a resource, its history holds at most eight attempts, each with at most twelve errors, five once it has ended, no
  error twice in a row, and the active attempt is the newest and running. A pass that finds the resource not ready leaves the history alone
  when it is only a wait; otherwise the newest attempt ends with the pass's message in words for its owner, and it goes on, or has
  failed with the final message when the resource is given up.
\<close>

theorem not_ready_is_recorded:
  assumes "history st" and "drawn buf stamp"
    and "finishNotReady now (newProvisionAttemptID buf stamp) cs r (Some st) g m = ((requeue, cs'), r', Some st')"
  shows "length (ProvisionAttempts st') \<le> 8 \<and>
    (\<forall>a \<in> set (ProvisionAttempts st'). distinct_adj (map e_message (Errors a)) \<and>
       length (Errors a) \<le> (if Phase a = ProvisionAttemptRunning then 12 else 5)) \<and>
    (if \<not> ReconcileFailureShouldCount m then st' = st
     else \<exists>a as. ProvisionAttempts st' = a # as \<and> Errors a \<noteq> [] \<and> e_message (List.last (Errors a)) = SanitizeProvisionMessage m \<and>
       (if ReadyConditionReason cs' = ''ProvisionFailed''
        then Phase a = ProvisionAttemptFailed \<and> Summary a = TerminalMessage m \<and> ActiveProvisionAttempt st' = []
        else Phase a = ProvisionAttemptRunning \<and> ActiveProvisionAttempt st' = ID a))"
proof -
  let ?out = "ApplyNotReady now cs r g m"
  let ?i = "newProvisionAttemptID buf stamp"
  have i: "?i \<noteq> []" using newProvisionAttemptID_nonempty [OF assms(2)] .
  have ok: "history_ok st" using history_is_ok [OF assms(1)] .
  have st': "st' = recordProvisionOnNotReady now ?i st m ?out" and cs': "cs' = o_conditions ?out"
    using assms(3) by (simp_all add: finishNotReady_def Let_def)
  have reason: "ReadyConditionReason cs' = ''ProvisionFailed'' \<longleftrightarrow> o_terminal ?out"
    by (simp add: cs' ApplyNotReady_reason ConditionReasonProvisionFailed_def ConditionReasonReconcileError_def)
  have ok': "history_ok st'" using history_ok_not_ready [OF ok i] st' by simp
  have wait: "st' = st" if "\<not> ReconcileFailureShouldCount m"
    using that ApplyNotReady_wait [OF that] by (simp add: st' recordProvisionOnNotReady_def Let_def RecordProvisionAttemptError_def)
  have kept: "length (ProvisionAttempts st') \<le> 8" "\<forall>a \<in> set (ProvisionAttempts st'). attempt_ok a"
    using ok' unfolding history_ok_def by blast+
  have "\<forall>a \<in> set (ProvisionAttempts st'). distinct_adj (map e_message (Errors a)) \<and>
      length (Errors a) \<le> (if Phase a = ProvisionAttemptRunning then 12 else 5)"
    using kept(2) unfolding attempt_ok_def by blast
  then show ?thesis
    using kept(1) wait recordProvisionOnNotReady_counted [OF ok i, of m now ?out] unfolding reason st' [symmetric] by presburger
qed

theorem not_ready_is_recorded_witness:
  "\<exists>st' a as. finishNotReady 7 (newProvisionAttemptID (Some [1, 2, 3, 4, 5, 6, 7, 8]) []) [] cleared
      (Some \<lparr>ActiveProvisionAttempt = [], ProvisionAttempts = []\<rparr>) 1 ''access denied'' =
      ((0, [\<lparr>cond_type = ''Ready'', cond_status = ''False'', cond_reason = ''ProvisionFailed'', cond_message = ProvisionFailedUserMessage, cond_transition = 7\<rparr>]),
       \<lparr>Failures = 1, FailureStarted = Some 7, FailureGeneration = 1\<rparr>, Some st') \<and>
    ProvisionAttempts st' = a # as \<and> Phase a = ProvisionAttemptFailed"
proof -
  let ?st = "\<lparr>ActiveProvisionAttempt = [], ProvisionAttempts = []\<rparr>"
  let ?i = "newProvisionAttemptID (Some [1, 2, 3, 4, 5, 6, 7, 8]) []"
  have out: "ApplyNotReady 7 [] cleared 1 ''access denied'' =
      \<lparr>o_conditions = [\<lparr>cond_type = ''Ready'', cond_status = ''False'', cond_reason = ''ProvisionFailed'', cond_message = ProvisionFailedUserMessage, cond_transition = 7\<rparr>],
       o_retry = \<lparr>Failures = 1, FailureStarted = Some 7, FailureGeneration = 1\<rparr>, o_requeue_after = 0, o_terminal = True\<rparr>"
    by code_simp
  have fin: "finishNotReady 7 ?i [] cleared (Some ?st) 1 ''access denied'' =
      ((0, [\<lparr>cond_type = ''Ready'', cond_status = ''False'', cond_reason = ''ProvisionFailed'', cond_message = ProvisionFailedUserMessage, cond_transition = 7\<rparr>]),
       \<lparr>Failures = 1, FailureStarted = Some 7, FailureGeneration = 1\<rparr>,
       Some (recordProvisionOnNotReady 7 ?i ?st ''access denied'' (ApplyNotReady 7 [] cleared 1 ''access denied'')))"
    by (simp add: finishNotReady_def Let_def out)
  have "ReconcileFailureShouldCount ''access denied''" by code_simp
  moreover have "drawn (Some [1, 2, 3, 4, 5, 6, 7, 8]) []" by (simp add: drawn_def)
  moreover have "ReadyConditionReason [\<lparr>cond_type = ''Ready'', cond_status = ''False'', cond_reason = ''ProvisionFailed'', cond_message = ProvisionFailedUserMessage, cond_transition = 7\<rparr>] = ''ProvisionFailed''"
    by (simp add: ReadyConditionReason_def ConditionReady_def)
  ultimately have "\<exists>a as. ProvisionAttempts (recordProvisionOnNotReady 7 ?i ?st ''access denied'' (ApplyNotReady 7 [] cleared 1 ''access denied'')) = a # as \<and> Phase a = ProvisionAttemptFailed"
    using not_ready_is_recorded [OF history_new _ fin] by (simp only: if_True if_False simp_thms) blast
  then show ?thesis using fin by blast
qed

text \<open>A second deploy takes the place of an attempt that is still running, which then reads as running for good.\<close>

lemma superseded_attempt_runs_on:
  "history_ok st \<Longrightarrow> ProvisionAttempts st = a # as \<Longrightarrow> Phase a = ProvisionAttemptRunning \<Longrightarrow>
     ProvisionAttempts (CompleteActiveProvisionAttempt now' (BeginProvisionAttempt now i st) p s) ! 1 = a" if "i \<noteq> []"
  using that by (simp add: CompleteActiveProvisionAttempt_def Begin_active Begin_attempts findAPIAttempt_def)

section \<open>What the owner reads\<close>

definition operator_words :: "string list" where
  "operator_words = [''controller'', ''.svc'', ''dial tcp'', ''namespace'', ''helm'']"

definition plain_texts :: "string list" where
  "plain_texts = [''Provisioning issue'', ProvisionFailedUserMessage, RetryingProvisionMessage, ''Could not reach required platform services'',
     ''Object storage or platform services are not available'', ''Bucket name is not configured'', ''Waiting for deploy'', ''Provisioning error'']"

text \<open>The texts that are put in the place of a message are short and say nothing of the operator.\<close>

lemma plain_texts_plain:
  "list_all (\<lambda>t. length t \<le> 220 \<and> list_all (\<lambda>w. \<not> string_contains (to_lower t) w) operator_words) plain_texts"
  by code_simp

lemma SanitizeProvisionMessage_cases:
  assumes "\<not> string_contains (trim_space m) StartFailureMarker"
  shows "SanitizeProvisionMessage m \<in> set plain_texts \<or>
    SanitizeProvisionMessage m = trim_space m \<and> length (trim_space m) \<le> 220 \<and> list_all (\<lambda>w. \<not> string_contains (to_lower (trim_space m)) w) operator_words"
proof -
  have t1: "''Provisioning issue'' \<in> set plain_texts" and t2: "''Could not reach required platform services'' \<in> set plain_texts"
    and t3: "''Object storage or platform services are not available'' \<in> set plain_texts" and t4: "''Bucket name is not configured'' \<in> set plain_texts"
    and t5: "''Waiting for deploy'' \<in> set plain_texts" and t6: "''Provisioning error'' \<in> set plain_texts"
    and t7: "ProvisionFailedUserMessage \<in> set plain_texts" and t8: "RetryingProvisionMessage \<in> set plain_texts"
    unfolding plain_texts_def by (simp_all only: list.set insert_iff simp_thms)
  have same: "trim_space m = ProvisionFailedUserMessage \<or> trim_space m = RetryingProvisionMessage \<Longrightarrow> trim_space m \<in> set plain_texts"
    using t7 t8 by (elim disjE) simp_all
  have words: "list_all (\<lambda>w. \<not> string_contains l w) operator_words \<longleftrightarrow> \<not> (string_contains l ''controller'' \<or> string_contains l ''.svc'' \<or>
      string_contains l ''dial tcp'' \<or> string_contains l ''namespace'' \<or> string_contains l ''helm'')" for l
    by (simp add: operator_words_def)
  have pick: "(if e then t1 else if p then x else if s then x else if r then t2 else if w then t3 else if b then t4 else if d then t5 else if n > 220 then t6 else x) \<in> T \<or>
      (if e then t1 else if p then x else if s then x else if r then t2 else if w then t3 else if b then t4 else if d then t5 else if n > 220 then t6 else x) = x \<and> n \<le> 220 \<and> \<not> w"
    if "t1 \<in> T" "t2 \<in> T" "t3 \<in> T" "t4 \<in> T" "t5 \<in> T" "t6 \<in> T" "p \<Longrightarrow> x \<in> T" "\<not> s" for e p s r w b d and n :: nat and t1 t2 t3 t4 t5 t6 x :: string and T
    using that by auto
  show ?thesis unfolding SanitizeProvisionMessage_def Let_def words by (rule pick [OF t1 t2 t3 t4 t5 t6 same assms])
qed

text \<open>
  C21. What the history says of an attempt is in words for its owner: unless the message says why a copy of the service cannot
  start, which is kept, it has at most 220 characters and does not speak of controllers, namespaces, Helm or addresses inside the
  cluster.
\<close>

theorem history_in_plain_words:
  "if string_contains (trim_space m) StartFailureMarker then SanitizeProvisionMessage m = trim_space m
   else length (SanitizeProvisionMessage m) \<le> 220 \<and>
     list_all (\<lambda>w. \<not> string_contains (to_lower (SanitizeProvisionMessage m)) w) [''controller'', ''.svc'', ''dial tcp'', ''namespace'', ''helm'']"
proof (cases "string_contains (trim_space m) StartFailureMarker")
  case True
  then have "trim_space m \<noteq> []" by (auto simp: StartFailureMarker_def)
  then show ?thesis using True unfolding SanitizeProvisionMessage_def Let_def by simp
next
  case False
  have plain: "length t \<le> 220 \<and> list_all (\<lambda>w. \<not> string_contains (to_lower t) w) operator_words" if "t \<in> set plain_texts" for t
    using plain_texts_plain that unfolding list_all_iff by blast
  from SanitizeProvisionMessage_cases [OF False]
  have "length (SanitizeProvisionMessage m) \<le> 220 \<and> list_all (\<lambda>w. \<not> string_contains (to_lower (SanitizeProvisionMessage m)) w) operator_words"
    by (elim disjE conjE) (simp_all only: plain simp_thms)
  then show ?thesis using False by (simp only: if_False operator_words_def)
qed

end
