(* ===== verification/Netguard.thy ===== *)
theory Netguard
  imports Go_Prelude "HOL-Library.Word"
begin

section \<open>Addresses the operator does not connect to (pkg/netguard/netguard.go)\<close>

text \<open>
  An administrator types the address of an identity provider and the operator connects to it; the package refuses what
  only the operator's own machine reaches. What it uses of Go's \<open>net/netip\<close> and \<open>net\<close> is defined first: an address
  (\<open>netip.Addr\<close>, 32 or 128 bits, the latter with a zone), the reading of one from text, its predicates, and
  \<open>net.SplitHostPort\<close>. The environment variable that lets loopback through is an argument, its text.
\<close>

unbundle bit_operations_syntax

subsection \<open>net/netip\<close>

datatype addr = V4 "32 word" | V6 "128 word" string

definition octet :: "32 word \<Rightarrow> nat \<Rightarrow> 32 word" where
  "octet a i = drop_bit (24 - 8 * i) a AND 0xff"

text \<open>The first sixteen bits of a long address (\<open>v6u16(0)\<close>), and its first byte (\<open>v6(0)\<close>).\<close>

definition v6u16 :: "128 word \<Rightarrow> 128 word" where
  "v6u16 a = drop_bit 112 a AND 0xffff"

definition v6byte :: "128 word \<Rightarrow> 128 word" where
  "v6byte a = drop_bit 120 a AND 0xff"

text \<open>\<open>Unmap\<close>: an address in \<open>::ffff:0:0/96\<close> is the IPv4 address at its end. \<open>WithZone("")\<close> drops the zone.\<close>

definition Is4In6 :: "addr \<Rightarrow> bool" where
  "Is4In6 a = (case a of V4 _ \<Rightarrow> False | V6 n z \<Rightarrow> drop_bit 32 n = 0xffff)"

definition Unmap :: "addr \<Rightarrow> addr" where
  "Unmap a = (case a of V4 n \<Rightarrow> a | V6 n z \<Rightarrow> if Is4In6 a then V4 (ucast n) else a)"

definition WithoutZone :: "addr \<Rightarrow> addr" where
  "WithoutZone a = (case a of V4 n \<Rightarrow> a | V6 n z \<Rightarrow> V6 n [])"

definition IsLoopback :: "addr \<Rightarrow> bool" where
  "IsLoopback a = (case a of V4 n \<Rightarrow> octet n 0 = 127 | V6 n z \<Rightarrow> n = 1)"

definition IsLinkLocalUnicast :: "addr \<Rightarrow> bool" where
  "IsLinkLocalUnicast a = (case a of V4 n \<Rightarrow> octet n 0 = 169 \<and> octet n 1 = 254 | V6 n z \<Rightarrow> v6u16 n AND 0xffc0 = 0xfe80)"

definition IsLinkLocalMulticast :: "addr \<Rightarrow> bool" where
  "IsLinkLocalMulticast a = (case a of V4 n \<Rightarrow> octet n 0 = 224 \<and> octet n 1 = 0 \<and> octet n 2 = 0 | V6 n z \<Rightarrow> v6u16 n AND 0xff0f = 0xff02)"

definition IsInterfaceLocalMulticast :: "addr \<Rightarrow> bool" where
  "IsInterfaceLocalMulticast a = (case a of V4 n \<Rightarrow> False | V6 n z \<Rightarrow> v6u16 n AND 0xff0f = 0xff01)"

definition IsMulticast :: "addr \<Rightarrow> bool" where
  "IsMulticast a = (case a of V4 n \<Rightarrow> octet n 0 AND 0xf0 = 0xe0 | V6 n z \<Rightarrow> v6byte n = 0xff)"

definition IsUnspecified :: "addr \<Rightarrow> bool" where
  "IsUnspecified a \<longleftrightarrow> a = V4 0 \<or> a = V6 0 []"

subsection \<open>Reading an address\<close>

text \<open>Four decimal fields without leading zeros, separated by dots (\<open>parseIPv4Fields\<close>): \<open>val\<close> and \<open>digs\<close> are of the field that is being read.\<close>

fun ipv4_fields :: "int list \<Rightarrow> int \<Rightarrow> nat \<Rightarrow> string \<Rightarrow> int list option" where
  "ipv4_fields done val digs [] = (if length done = 3 \<and> digs > 0 then Some (done @ [val]) else None)"
| "ipv4_fields done val digs (c # cs) =
     (case digit_of c of
        Some d \<Rightarrow> if digs = 1 \<and> val = 0 then None
          else let val' = 10 * val + d in if val' > 255 then None else ipv4_fields done val' (digs + 1) cs
      | None \<Rightarrow> if c = CHR ''.'' \<and> digs > 0 \<and> length done < 3 then ipv4_fields (done @ [val]) 0 0 cs else None)"

definition bytes_word :: "int list \<Rightarrow> 'a::len word" where
  "bytes_word bs = of_int (foldl (\<lambda>k b. 256 * k + b) 0 bs)"

definition parseIPv4 :: "string \<Rightarrow> addr option" where
  "parseIPv4 s = map_option (\<lambda>bs. V4 (bytes_word bs)) (ipv4_fields [] 0 0 s)"

definition hex_of :: "char \<Rightarrow> int option" where
  "hex_of c = (let n = (of_char c :: int) in if 48 \<le> n \<and> n \<le> 57 then Some (n - 48)
     else if 97 \<le> n \<and> n \<le> 102 then Some (n - 87) else if 65 \<le> n \<and> n \<le> 70 then Some (n - 55) else None)"

text \<open>The hexadecimal digits at the front, their value and the rest; \<open>None\<close> for more than four.\<close>

fun hex_group :: "nat \<Rightarrow> int \<Rightarrow> string \<Rightarrow> (nat \<times> int \<times> string) option" where
  "hex_group off acc [] = Some (off, acc, [])"
| "hex_group off acc (c # cs) = (case hex_of c of None \<Rightarrow> Some (off, acc, c # cs)
     | Some d \<Rightarrow> if off > 3 then None else hex_group (off + 1) (16 * acc + d) cs)"

text \<open>
  The loop of \<open>parseIPv6\<close> over the groups: the bytes so far, where the ellipsis was, and the text that is left. A dot after a group
  means that the text from the group on is an IPv4 address. The first argument bounds the rounds: each adds two bytes, and the loop
  ends at sixteen.
\<close>

fun ipv6_groups :: "nat \<Rightarrow> int list \<Rightarrow> nat option \<Rightarrow> string \<Rightarrow> (int list \<times> nat option \<times> string) option" where
  "ipv6_groups 0 ip el s = Some (ip, el, s)"
| "ipv6_groups (Suc n) ip el s =
     (case hex_group 0 0 s of
        None \<Rightarrow> None
      | Some (off, acc, rest) \<Rightarrow>
          if off = 0 then None
          else if rest \<noteq> [] \<and> hd rest = CHR ''.'' then
            (if el = None \<and> length ip \<noteq> 12 \<or> length ip + 4 > 16 then None
             else map_option (\<lambda>bs. (ip @ bs, el, [])) (ipv4_fields [] 0 0 s))
          else let ip = ip @ [acc div 256, acc mod 256] in
          case rest of
            [] \<Rightarrow> Some (ip, el, [])
          | c # s' \<Rightarrow>
              if c \<noteq> CHR '':'' \<or> s' = [] then None
              else if hd s' = CHR '':'' then
                (if el \<noteq> None then None
                 else if tl s' = [] then Some (ip, Some (length ip), []) else ipv6_groups n ip (Some (length ip)) (tl s'))
              else ipv6_groups n ip el s')"

definition index_byte :: "char \<Rightarrow> string \<Rightarrow> nat option" where
  "index_byte c s = (if c \<in> set s then Some (length (takeWhile (\<lambda>x. x \<noteq> c) s)) else None)"

definition parseIPv6 :: "string \<Rightarrow> addr option" where
  "parseIPv6 input =
     (let (s, zone, bad) = (case index_byte (CHR ''%'') input of None \<Rightarrow> (input, [], False)
            | Some i \<Rightarrow> (take i input, drop (i + 1) input, drop (i + 1) input = []))
      in if bad then None
         else let (s, el) = (if take 2 s = ''::'' then (drop 2 s, Some 0) else (s, None))
         in if el = Some 0 \<and> s = [] then Some (V6 0 zone)
            else case ipv6_groups 8 [] el s of
              None \<Rightarrow> None
            | Some (ip, el, rest) \<Rightarrow>
                if rest \<noteq> [] then None
                else if length ip < 16 then
                  (case el of None \<Rightarrow> None
                   | Some e \<Rightarrow> Some (V6 (bytes_word (take e ip @ replicate (16 - length ip) 0 @ drop e ip)) zone))
                else if el \<noteq> None then None
                else Some (V6 (bytes_word ip) zone))"

text \<open>The first dot, colon or percent sign decides which kind of address the text is.\<close>

fun addr_kind :: "string \<Rightarrow> char option" where
  "addr_kind [] = None"
| "addr_kind (c # cs) = (if c = CHR ''.'' \<or> c = CHR '':'' \<or> c = CHR ''%'' then Some c else addr_kind cs)"

definition ParseAddr :: "string \<Rightarrow> addr option" where
  "ParseAddr s = (case addr_kind s of None \<Rightarrow> None
     | Some c \<Rightarrow> if c = CHR ''.'' then parseIPv4 s else if c = CHR '':'' then parseIPv6 s else None)"

subsection \<open>net.SplitHostPort\<close>

definition last_index_byte :: "char \<Rightarrow> string \<Rightarrow> nat option" where
  "last_index_byte c s = (case index_byte c (rev s) of None \<Rightarrow> None | Some i \<Rightarrow> Some (length s - 1 - i))"

datatype split_error = MissingPort | TooManyColons | MissingBracket | UnexpectedBracket

definition SplitHostPort :: "string \<Rightarrow> split_error + string \<times> string" where
  "SplitHostPort hostport =
     (case last_index_byte (CHR '':'') hostport of
        None \<Rightarrow> Inl MissingPort
      | Some i \<Rightarrow>
          (case (if hd hostport = CHR ''['' then
                   (case index_byte (CHR '']'') hostport of
                      None \<Rightarrow> Inl MissingBracket
                    | Some e \<Rightarrow>
                        if e + 1 = length hostport then Inl MissingPort
                        else if e + 1 = i then Inr (take (e - 1) (drop 1 hostport), 1, e + 1)
                        else if hostport ! (e + 1) = CHR '':'' then Inl TooManyColons else Inl MissingPort)
                 else let host = take i hostport in
                   if CHR '':'' \<in> set host then Inl TooManyColons else Inr (host, 0, 0)) of
             Inl e \<Rightarrow> Inl e
           | Inr (host, j, k) \<Rightarrow>
               if CHR ''['' \<in> set (drop j hostport) then Inl UnexpectedBracket
               else if CHR '']'' \<in> set (drop k hostport) then Inl UnexpectedBracket
               else Inr (host, drop (i + 1) hostport)))"

subsection \<open>netguard.go\<close>

text \<open>\<open>strconv.ParseBool\<close>, with the error read as false.\<close>

definition LoopbackAllowed :: "string \<Rightarrow> bool" where
  "LoopbackAllowed env \<longleftrightarrow> env \<in> {''1'', ''t'', ''T'', ''TRUE'', ''true'', ''True''}"

definition metadataAddresses :: "addr list" where
  "metadataAddresses = [V6 0xfd000ec2000000000000000000000254 [], V4 0x646464c8, V4 0xa83f8110]"

text \<open>\<open>nat64.Contains\<close>: the prefix \<open>64:ff9b::/96\<close>.\<close>

definition nat64_contains :: "addr \<Rightarrow> bool" where
  "nat64_contains a = (case a of V4 _ \<Rightarrow> False | V6 n z \<Rightarrow> z = [] \<and> drop_bit 32 n = 0x64ff9b0000000000000000)"

fun addr_bits :: "addr \<Rightarrow> nat" where
  "addr_bits (V4 n) = 0" | "addr_bits (V6 n z) = 1"

function refused :: "string \<Rightarrow> addr \<Rightarrow> bool" where
  "refused env address =
     (let a = WithoutZone (Unmap address) in
      if nat64_contains a then (case a of V6 n z \<Rightarrow> refused env (V4 (ucast n)) | V4 n \<Rightarrow> False)
      else if IsLoopback a then \<not> LoopbackAllowed env
      else IsLinkLocalUnicast a \<or> IsLinkLocalMulticast a \<or> IsInterfaceLocalMulticast a \<or>
        IsUnspecified a \<or> IsMulticast a \<or> a \<in> set metadataAddresses)"
  by pat_completeness auto

termination
  by (relation "measure (\<lambda>(env, a). addr_bits a)")
    (auto simp: WithoutZone_def Unmap_def nat64_contains_def split: addr.splits if_splits)

declare refused.simps [simp del]

text \<open>\<open>netip.AddrFromSlice\<close>: four or sixteen bytes.\<close>

definition Refused :: "string \<Rightarrow> int list \<Rightarrow> bool" where
  "Refused env ip =
     (if length ip = 4 then refused env (V4 (bytes_word ip)) else if length ip = 16 then refused env (V6 (bytes_word ip) []) else True)"

definition isLocalhostName :: "string \<Rightarrow> bool" where
  "isLocalhostName host \<longleftrightarrow> host = ''localhost'' \<or> has_suffix ''.localhost'' host"

definition trim_brackets :: "string \<Rightarrow> string" where
  "trim_brackets s = (let b = (\<lambda>c. c = CHR ''['' \<or> c = CHR '']'') in rev (dropWhile b (rev (dropWhile b s))))"

definition IsLoopbackHost :: "string \<Rightarrow> bool" where
  "IsLoopbackHost h =
     (let host = to_lower (trim_brackets (trim_space h)) in
      isLocalhostName host \<or> (case ParseAddr host of None \<Rightarrow> False | Some a \<Rightarrow> IsLoopback (WithoutZone (Unmap a))))"

datatype guard_error = IsLocalhost | IsRefused | NotSplit split_error

definition CheckHost :: "string \<Rightarrow> string \<Rightarrow> guard_error + unit" where
  "CheckHost env h =
     (let host = to_lower (trim_brackets (trim_space h)) in
      if isLocalhostName host then (if LoopbackAllowed env then Inr () else Inl IsLocalhost)
      else case ParseAddr host of None \<Rightarrow> Inr () | Some a \<Rightarrow> if refused env a then Inl IsRefused else Inr ())"

definition Control :: "string \<Rightarrow> string \<Rightarrow> guard_error + unit" where
  "Control env address =
     (case SplitHostPort address of
        Inl e \<Rightarrow> Inl (NotSplit e)
      | Inr (host, port) \<Rightarrow> (case ParseAddr host of None \<Rightarrow> Inl IsRefused
          | Some a \<Rightarrow> if refused env a then Inl IsRefused else Inr ()))"

section \<open>Which addresses are refused\<close>

text \<open>
  The specification, by ranges of numbers: the address that is reached when a connection is made to an address in whatever form, and the
  addresses that must not be reached.
\<close>

definition reached :: "addr \<Rightarrow> addr" where
  "reached a = (case a of V4 n \<Rightarrow> V4 n
     | V6 n z \<Rightarrow> if unat n div 2 ^ 32 = 0xffff \<or> unat n div 2 ^ 32 = 0x64ff9b0000000000000000 then V4 (of_nat (unat n mod 2 ^ 32)) else V6 n [])"

definition forbidden :: "bool \<Rightarrow> addr \<Rightarrow> bool" where
  "forbidden loopback a = (case a of
       V4 n \<Rightarrow> (let k = unat n in k div 2 ^ 24 = 127 \<and> \<not> loopback \<or> k div 2 ^ 16 = 169 * 256 + 254 \<or> k div 2 ^ 28 = 14 \<or> k = 0 \<or>
         k = ((100 * 256 + 100) * 256 + 100) * 256 + 200 \<or> k = ((168 * 256 + 63) * 256 + 129) * 256 + 16)
     | V6 n z \<Rightarrow> (let k = unat n in k = 1 \<and> \<not> loopback \<or> k div 2 ^ 118 = 0x3fa \<or> k div 2 ^ 120 = 0xff \<or> k = 0 \<or>
         k = 0xfd000ec2000000000000000000000254))"

lemma and_mask_nat: "(x :: nat) AND push_bit j (mask m) = 2 ^ j * (x div 2 ^ j mod 2 ^ m)"
proof -
  have "x AND push_bit j (mask m) = push_bit j (take_bit m (drop_bit j x))"
    by (rule bit_eqI) (auto simp: bit_simps)
  then show ?thesis by (simp add: push_bit_eq_mult take_bit_eq_mod drop_bit_eq_div mult.commute)
qed

lemma and_masks:
  fixes x :: nat
  shows "x AND 0xff = x mod 256" and "x AND 0xffff = x mod 65536" and "x AND 0xf0 = 16 * (x div 16 mod 16)"
    and "x AND 0xffc0 = 64 * (x div 64 mod 1024)" and "x AND 0xff00 = 256 * (x div 256 mod 256)"
  using and_mask_nat [of x 0 8] and_mask_nat [of x 0 16] and_mask_nat [of x 4 4] and_mask_nat [of x 6 10] and_mask_nat [of x 8 8]
  by (simp_all add: mask_eq_exp_minus_1 push_bit_eq_mult)

lemma unat_drop: "unat (drop_bit k (a :: 'a::len word)) = unat a div 2 ^ k"
  by (subst unsigned_drop_bit_eq) (simp add: drop_bit_eq_div take_bit_nat_eq_self)

lemma unat_octet: "unat (octet a i) = unat a div 2 ^ (24 - 8 * i) mod 256"
  by (simp add: octet_def unsigned_and_eq unat_drop and_masks)

lemma unat_v6u16: "unat (v6u16 a) = unat a div 2 ^ 112 mod 65536"
  by (simp add: v6u16_def unsigned_and_eq unat_drop and_masks)

lemma unat_v6byte: "unat (v6byte a) = unat a div 2 ^ 120 mod 256"
  by (simp add: v6byte_def unsigned_and_eq unat_drop and_masks)

lemma unat_32: "unat (a :: 32 word) < 2 ^ 32"
  using unsigned_less [of a, where 'a = nat] by simp

lemma unat_128: "unat (a :: 128 word) < 2 ^ 128"
  using unsigned_less [of a, where 'a = nat] by simp

lemma word_eq_unat: "(a :: 'a::len word) = b \<longleftrightarrow> unat a = unat b"
  by (simp add: word_unat_eq_iff)

text \<open>The arithmetic of the ranges, for the number that the leading bits are.\<close>

lemma leading_bits:
  fixes q :: nat
  shows "q < 65536 \<Longrightarrow> q div 256 mod 256 = 169 \<and> q mod 256 = 254 \<longleftrightarrow> q = 43518"
    and "q < 256 \<Longrightarrow> 16 * (q mod 256 div 16 mod 16) = 224 \<longleftrightarrow> q div 16 = 14"
    and "q < 65536 \<Longrightarrow> 64 * (q mod 65536 div 64 mod 1024) = 65152 \<longleftrightarrow> q div 64 = 1018"
    and "q < 65536 \<Longrightarrow> 256 * (q mod 65536 div 256 mod 256) = 65280 \<Longrightarrow> q div 256 = 255"
proof -
  show "q div 256 mod 256 = 169 \<and> q mod 256 = 254 \<longleftrightarrow> q = 43518" if "q < 65536"
  proof -
    have "q div 256 mod 256 = q div 256" using that by (simp add: less_mult_imp_div_less)
    moreover have "q = 256 * (q div 256) + q mod 256" by simp
    ultimately have "q = 43518" if "q div 256 mod 256 = 169 \<and> q mod 256 = 254" using that by linarith
    then show ?thesis by auto
  qed
  show "16 * (q mod 256 div 16 mod 16) = 224 \<longleftrightarrow> q div 16 = 14" if "q < 256"
    using that by (simp add: less_mult_imp_div_less)
  show "64 * (q mod 65536 div 64 mod 1024) = 65152 \<longleftrightarrow> q div 64 = 1018" if "q < 65536"
    using that by (simp add: less_mult_imp_div_less)
  show "q div 256 = 255" if "q < 65536" "256 * (q mod 65536 div 256 mod 256) = 65280"
    using that by (simp add: less_mult_imp_div_less)
qed

text \<open>Each predicate of \<open>netip\<close> as a range.\<close>

lemma loopback4: "octet n 0 = 127 \<longleftrightarrow> unat n div 2 ^ 24 = 127"
  using unat_32 [of n] by (simp add: word_eq_unat unat_octet)

lemma link_local4: "octet n 0 = 169 \<and> octet n 1 = 254 \<longleftrightarrow> unat n div 2 ^ 16 = 169 * 256 + 254"
proof -
  let ?q = "unat n div 65536"
  have "unat n div 2 ^ 24 = ?q div 256" by (simp add: div_mult2_eq [symmetric])
  moreover have "?q < 65536" using unat_32 [of n] by simp
  ultimately have "unat n div 2 ^ 24 mod 256 = 169 \<and> ?q mod 256 = 254 \<longleftrightarrow> ?q = 43518" using leading_bits(1) by simp
  then show ?thesis by (simp add: word_eq_unat unat_octet)
qed

lemma multicast4: "octet n 0 AND 0xf0 = 0xe0 \<longleftrightarrow> unat n div 2 ^ 28 = 14"
proof -
  let ?q = "unat n div 2 ^ 24"
  have "unat n div 2 ^ 28 = ?q div 16" by (simp add: div_mult2_eq [symmetric])
  moreover have "?q < 256" using unat_32 [of n] by simp
  moreover have "octet n 0 AND 0xf0 = 0xe0 \<longleftrightarrow> 16 * (?q mod 256 div 16 mod 16) = 0xe0"
    by (simp add: word_eq_unat unsigned_and_eq unat_octet and_masks)
  ultimately show ?thesis using leading_bits(2) by simp
qed

lemma link_local_multicast4: "octet n 0 = 224 \<Longrightarrow> octet n 0 AND 0xf0 = 0xe0"
  by simp

lemma link_local6: "v6u16 n AND 0xffc0 = 0xfe80 \<longleftrightarrow> unat n div 2 ^ 118 = 0x3fa"
proof -
  let ?q = "unat n div 2 ^ 112"
  have "unat n div 2 ^ 118 = ?q div 64" by (simp add: div_mult2_eq [symmetric])
  moreover have "?q < 65536" using unat_128 [of n] by simp
  moreover have "v6u16 n AND 0xffc0 = 0xfe80 \<longleftrightarrow> 64 * (?q mod 65536 div 64 mod 1024) = 0xfe80"
    by (simp add: word_eq_unat unsigned_and_eq unat_v6u16 and_masks)
  ultimately show ?thesis using leading_bits(3) by simp
qed

lemma multicast6: "v6byte n = 0xff \<longleftrightarrow> unat n div 2 ^ 120 = 0xff"
  using unat_128 [of n] by (simp add: word_eq_unat unat_v6byte)

lemma narrow_multicast6:
  assumes "v6u16 n AND 0xff0f = 0xff00 OR c" and "c = 1 \<or> c = 2"
  shows "v6byte n = 0xff"
proof -
  let ?q = "unat n div 2 ^ 112"
  have "v6u16 n AND 0xff00 = (v6u16 n AND 0xff0f) AND 0xff00" unfolding and.assoc by simp
  also have "\<dots> = 0xff00" unfolding assms(1) using assms(2) by (elim disjE) simp_all
  finally have "unat (v6u16 n AND 0xff00) = unat (0xff00 :: 128 word)" by simp
  then have "256 * (?q mod 65536 div 256 mod 256) = 0xff00" by (simp add: unsigned_and_eq unat_v6u16 and_masks)
  moreover have "unat n div 2 ^ 120 = ?q div 256" by (simp add: div_mult2_eq [symmetric])
  moreover have "?q < 65536" using unat_128 [of n] by simp
  ultimately have "unat n div 2 ^ 120 = 0xff" using leading_bits(4) [of ?q] by (simp only:)
  then show ?thesis by (simp only: multicast6)
qed

lemma prefix_96: "drop_bit 32 (n :: 128 word) = w \<longleftrightarrow> unat n div 2 ^ 32 = unat w"
  by (simp add: word_eq_unat unat_drop)

lemma low_32: "ucast (n :: 128 word) = (of_nat (unat n mod 2 ^ 32) :: 32 word)"
  by (simp add: word_eq_unat unsigned_ucast_eq unsigned_of_nat take_bit_eq_mod)

lemma refused_V4: "refused env (V4 n) \<longleftrightarrow> forbidden (LoopbackAllowed env) (V4 n)"
proof -
  have "octet n 0 = 224 \<and> octet n 1 = 0 \<and> octet n 2 = 0 \<Longrightarrow> octet n 0 AND 0xf0 = 0xe0" using link_local_multicast4 by blast
  moreover have "octet n 0 = 127 \<Longrightarrow> \<not> (octet n 0 = 169 \<and> octet n 1 = 254) \<and> octet n 0 AND 0xf0 \<noteq> 0xe0 \<and> n \<noteq> 0 \<and> n \<noteq> 0x646464c8 \<and> n \<noteq> 0xa83f8110"
    by (auto simp: octet_def)
  ultimately have "refused env (V4 n) \<longleftrightarrow> octet n 0 = 127 \<and> \<not> LoopbackAllowed env \<or> (octet n 0 = 169 \<and> octet n 1 = 254) \<or>
      octet n 0 AND 0xf0 = 0xe0 \<or> n = 0 \<or> n = 0x646464c8 \<or> n = 0xa83f8110"
    by (subst refused.simps) (auto simp: Unmap_def WithoutZone_def nat64_contains_def IsLoopback_def IsLinkLocalUnicast_def
      IsLinkLocalMulticast_def IsInterfaceLocalMulticast_def IsUnspecified_def IsMulticast_def metadataAddresses_def)
  also have "\<dots> \<longleftrightarrow> forbidden (LoopbackAllowed env) (V4 n)"
    unfolding loopback4 link_local4 multicast4 by (simp add: forbidden_def Let_def word_eq_unat)
  finally show ?thesis .
qed

lemma refused_V6:
  assumes "drop_bit 32 n \<noteq> 0xffff" and "drop_bit 32 n \<noteq> 0x64ff9b0000000000000000"
  shows "refused env (V6 n z) \<longleftrightarrow> forbidden (LoopbackAllowed env) (V6 n [])"
proof -
  have "v6u16 n AND 0xff0f = 0xff02 \<Longrightarrow> v6byte n = 0xff" "v6u16 n AND 0xff0f = 0xff01 \<Longrightarrow> v6byte n = 0xff"
    using narrow_multicast6 [of n 2] narrow_multicast6 [of n 1] by simp_all
  moreover have "n = 1 \<Longrightarrow> v6u16 n AND 0xffc0 \<noteq> 0xfe80 \<and> v6byte n \<noteq> 0xff" by (simp add: v6u16_def v6byte_def)
  ultimately have "refused env (V6 n z) \<longleftrightarrow> n = 1 \<and> \<not> LoopbackAllowed env \<or> v6u16 n AND 0xffc0 = 0xfe80 \<or> v6byte n = 0xff \<or> n = 0 \<or>
      n = 0xfd000ec2000000000000000000000254"
    using assms by (subst refused.simps) (auto simp: Unmap_def Is4In6_def WithoutZone_def nat64_contains_def IsLoopback_def IsLinkLocalUnicast_def
      IsLinkLocalMulticast_def IsInterfaceLocalMulticast_def IsUnspecified_def IsMulticast_def metadataAddresses_def)
  also have "\<dots> \<longleftrightarrow> forbidden (LoopbackAllowed env) (V6 n [])"
    unfolding link_local6 multicast6 by (simp add: forbidden_def Let_def word_eq_unat)
  finally show ?thesis .
qed

lemma refused_mapped: "drop_bit 32 n = 0xffff \<Longrightarrow> refused env (V6 n z) = refused env (V4 (ucast n))"
  by (subst (1 2) refused.simps) (simp add: Unmap_def Is4In6_def WithoutZone_def)

lemma refused_nat64: "drop_bit 32 n = 0x64ff9b0000000000000000 \<Longrightarrow> refused env (V6 n z) = refused env (V4 (ucast n))"
  by (subst refused.simps) (simp add: Unmap_def Is4In6_def WithoutZone_def nat64_contains_def)

lemma refused_iff: "refused env a \<longleftrightarrow> forbidden (LoopbackAllowed env) (reached a)"
proof (cases a)
  case (V4 n)
  then show ?thesis by (simp add: refused_V4 reached_def)
next
  case (V6 n z)
  have "(drop_bit 32 n = 0xffff \<longleftrightarrow> unat n div 2 ^ 32 = 0xffff)"
      "(drop_bit 32 n = 0x64ff9b0000000000000000 \<longleftrightarrow> unat n div 2 ^ 32 = 0x64ff9b0000000000000000)"
    unfolding prefix_96 by simp_all
  note p = this
  show ?thesis
  proof (cases "drop_bit 32 n = 0xffff \<or> drop_bit 32 n = 0x64ff9b0000000000000000")
    case True
    then have "refused env a \<longleftrightarrow> forbidden (LoopbackAllowed env) (V4 (ucast n))"
      using refused_mapped refused_nat64 refused_V4 V6 by metis
    then show ?thesis using True p by (simp only: V6 reached_def addr.case low_32 if_True)
  next
    case False
    then show ?thesis using refused_V6 p by (simp only: V6 reached_def addr.case if_False de_Morgan_disj simp_thms)
  qed
qed

text \<open>The constants are the addresses that the source has as text.\<close>

lemma metadata_texts: "map ParseAddr [''fd00:ec2::254'', ''100.100.100.200'', ''168.63.129.16''] = map Some metadataAddresses"
  by code_simp

lemma nat64_text: "ParseAddr ''64:ff9b::'' = Some (V6 (push_bit 32 0x64ff9b0000000000000000) [])"
  by code_simp

text \<open>
  C17. The operator connects to exactly those texts that are a host and a port, whose host is an address, and where the address that is
  reached, with the IPv4 address inside an IPv4-mapped or NAT64 address taken for it, is none of: this machine, unless loopback
  is allowed; the link-local addresses 169.254.0.0/16 and fe80::/10; the multicast addresses 224.0.0.0/4 and ff00::/8; the
  unspecified addresses; and the metadata addresses of three clouds. Allowing loopback lets through nothing else.
\<close>

theorem Control_iff:
  "(Control env address = Inr () \<longleftrightarrow>
     (\<exists>host port a. SplitHostPort address = Inr (host, port) \<and> ParseAddr host = Some a \<and> \<not> forbidden (LoopbackAllowed env) (reached a))) \<and>
   (forbidden False (reached a) \<and> \<not> forbidden True (reached a) \<longleftrightarrow>
     (case reached a of V4 n \<Rightarrow> unat n div 2 ^ 24 = 127 | V6 n z \<Rightarrow> unat n = 1))"
proof -
  have "Control env address = Inr () \<longleftrightarrow>
     (\<exists>host port a. SplitHostPort address = Inr (host, port) \<and> ParseAddr host = Some a \<and> \<not> forbidden (LoopbackAllowed env) (reached a))"
    by (auto simp: Control_def refused_iff split: sum.splits prod.splits option.splits if_splits)
  moreover have "forbidden False (reached a) \<and> \<not> forbidden True (reached a) \<longleftrightarrow>
     (case reached a of V4 n \<Rightarrow> unat n div 2 ^ 24 = 127 | V6 n z \<Rightarrow> unat n = 1)"
  proof (cases "reached a")
    case (V4 n)
    have "unat n div 2 ^ 24 = 127 \<Longrightarrow> unat n div 2 ^ 28 = 7" using div_mult2_eq [of "unat n" "2 ^ 24" 16] by simp
    moreover have "unat n div 2 ^ 24 = 127 \<Longrightarrow> unat n div 2 ^ 16 < 128 * 256 \<and> unat n \<ge> 127 * 2 ^ 24 \<and> unat n < 128 * 2 ^ 24" by auto
    ultimately show ?thesis by (auto simp: V4 forbidden_def Let_def)
  next
    case (V6 n z)
    then show ?thesis by (auto simp: forbidden_def Let_def)
  qed
  ultimately show ?thesis by blast
qed

lemma CheckHost_address:
  "CheckHost env h = Inl IsRefused \<longleftrightarrow> (let host = to_lower (trim_brackets (trim_space h)) in \<not> isLocalhostName host \<and>
     (\<exists>a. ParseAddr host = Some a \<and> forbidden (LoopbackAllowed env) (reached a)))"
  by (auto simp: CheckHost_def Let_def refused_iff split: option.splits)

section \<open>How much of a response is read\<close>

text \<open>
  An \<open>io.Reader\<close> is a function of its state and the length of the buffer: the bytes it puts there, an error or none, and its next
  state. \<open>limitedBody\<close> is such a function again, over another one, with what it may still read.
\<close>

datatype read_error = EOF | ErrTooLarge | ReadFailed string

type_synonym 's reader = "'s \<Rightarrow> nat \<Rightarrow> (char list \<times> read_error option) \<times> 's"

definition maxResponseBytes :: int where "maxResponseBytes = 2 ^ 20"

definition limited_read :: "'s reader \<Rightarrow> (int \<times> 's) reader" where
  "limited_read rd b p =
     (if fst b \<le> 0 then
        (case rd (snd b) 1 of ((bs, err), s) \<Rightarrow> if length bs > 0 then (([], Some ErrTooLarge), (fst b, s)) else (([], err), (fst b, s)))
      else (case rd (snd b) (if int p > fst b then nat (fst b) else p) of ((bs, err), s) \<Rightarrow> ((bs, err), (fst b - int (length bs), s))))"

text \<open>\<open>RoundTrip\<close>, for the body of a response that arrived.\<close>

definition RoundTrip :: "'s \<Rightarrow> int \<times> 's" where
  "RoundTrip body = (maxResponseBytes, body)"

text \<open>Reading until an error, with buffers of the given lengths, as \<open>io.ReadAll\<close> does: what was read, and the error if there was one.\<close>

fun read_all :: "'s reader \<Rightarrow> 's \<Rightarrow> nat list \<Rightarrow> char list \<times> read_error option" where
  "read_all rd s [] = ([], None)"
| "read_all rd s (p # ps) = (case rd s p of ((bs, err), s') \<Rightarrow>
     (case err of Some e \<Rightarrow> (bs, Some e) | None \<Rightarrow> (case read_all rd s' ps of (rest, e) \<Rightarrow> (bs @ rest, e))))"

text \<open>
  What the documentation of \<open>io.Reader\<close> promises: no more bytes than the buffer has room for, in order (\<open>content\<close> is what is left to
  read), the end only at the end, and some progress when there is room.
\<close>

locale body_reader =
  fixes rd :: "'s reader" and content :: "'s \<Rightarrow> char list"
  assumes rd_parts: "rd s p = ((bs, err), s') \<Longrightarrow> length bs \<le> p \<and> content s = bs @ content s'"
    and rd_end: "rd s p = ((bs, Some e), s') \<Longrightarrow> e = EOF \<and> content s' = []"
    and rd_progress: "rd s p = ((bs, None), s') \<Longrightarrow> 0 < p \<Longrightarrow> bs \<noteq> []"
begin

lemma read_all_limited:
  assumes "\<forall>p \<in> set ps. 0 < p" and "length (content s) + 1 < length ps" and "0 \<le> left"
  shows "read_all (limited_read rd) (left, s) ps =
    (if int (length (content s)) \<le> left then (content s, Some EOF) else (take (nat left) (content s), Some ErrTooLarge))"
  using assms
proof (induction ps arbitrary: left s)
  case (Cons p ps)
  show ?case
  proof (cases "left \<le> 0")
    case True
    obtain bs err s' where r: "rd s 1 = ((bs, err), s')" by (metis prod.exhaust)
    have parts: "content s = bs @ content s'" using rd_parts [OF r] by simp
    show ?thesis
    proof (cases "bs = []")
      case False
      then show ?thesis using True r parts Cons.prems(3) by (cases bs) (simp_all add: limited_read_def)
    next
      case Nil: True
      then have "err = Some EOF" "content s' = []" using rd_progress rd_end r by (cases err; auto)+
      then show ?thesis using True r parts Nil Cons.prems(3) by (simp add: limited_read_def)
    qed
  next
    case False
    define q where "q = (if int p > left then nat left else p)"
    obtain bs err s' where r: "rd s q = ((bs, err), s')" by (metis prod.exhaust)
    have parts: "length bs \<le> q" "content s = bs @ content s'" using rd_parts [OF r] by simp_all
    have q: "0 < q" "int q \<le> left" using False Cons.prems(1) by (simp_all add: q_def)
    have step: "limited_read rd (left, s) p = ((bs, err), (left - int (length bs), s'))" using False r by (auto simp: limited_read_def q_def)
    show ?thesis
    proof (cases err)
      case None
      have "bs \<noteq> []" using rd_progress r None q(1) by blast
      then have "length (content s') + 1 < length ps" using parts(2) Cons.prems(2) by (cases bs) simp_all
      moreover have "0 \<le> left - int (length bs)" using parts(1) q(2) by simp
      ultimately have "read_all (limited_read rd) (left - int (length bs), s') ps =
          (if int (length (content s')) \<le> left - int (length bs) then (content s', Some EOF)
           else (take (nat (left - int (length bs))) (content s'), Some ErrTooLarge))"
        using Cons.IH Cons.prems(1) by simp
      then show ?thesis using step None parts q(2) by (auto simp: nat_diff_distrib)
    next
      case (Some e)
      then show ?thesis using step rd_end [of s q bs e s'] r parts q(2) by simp
    qed
  qed
qed simp

text \<open>The limited body is a reader of what it lets through.\<close>

lemma limited_within: "limited_read rd b p = ((bs, err), b') \<Longrightarrow> length bs \<le> p \<and> int (length bs) \<le> max 0 (fst b)"
  using rd_parts [of "snd b" "if int p > fst b then nat (fst b) else p" bs err "snd b'"]
  by (auto simp: limited_read_def split: prod.splits if_splits)

end

text \<open>A body that is held in memory (\<open>bytes.Reader\<close>).\<close>

definition bytes_reader :: "char list reader" where
  "bytes_reader s p = (if s = [] then (([], Some EOF), []) else ((take p s, None), drop p s))"

interpretation mem: body_reader bytes_reader "\<lambda>s. s"
  by unfold_locales (auto simp: bytes_reader_def split: if_splits)



end
