(* ===== verification/Ip_Prefix.thy ===== *)
theory Ip_Prefix
  imports Netguard Go_Numbers
begin

section \<open>Ranges of addresses (net/netip)\<close>

text \<open>
  A range of addresses is an address and the number of its leading bits that all addresses of the range share
  (\<open>netip.Prefix\<close>): its reading from text, its text, and whether it contains an address. Two ranges are one inside the other or
  apart, and the text of a range reads back as the range; both are what the network policies rely on.
\<close>

unbundle bit_operations_syntax

type_synonym ip_prefix = "addr \<times> nat"

fun BitLen :: "addr \<Rightarrow> nat" where
  "BitLen (V4 n) = 32" | "BitLen (V6 n z) = 128"

fun Is4 :: "addr \<Rightarrow> bool" where
  "Is4 (V4 n) = True" | "Is4 (V6 n z) = False"

text \<open>\<open>Prefix.Contains\<close>: an address with a zone is in no range, and neither is one of the other kind.\<close>

fun prefix_has :: "ip_prefix \<Rightarrow> addr \<Rightarrow> bool" where
  "prefix_has (V4 b, k) (V4 a) \<longleftrightarrow> drop_bit (32 - k) a = drop_bit (32 - k) b"
| "prefix_has (V6 b z, k) (V6 a z') \<longleftrightarrow> z' = [] \<and> drop_bit (128 - k) a = drop_bit (128 - k) b"
| "prefix_has _ _ \<longleftrightarrow> False"

fun Masked :: "ip_prefix \<Rightarrow> ip_prefix" where
  "Masked (V4 b, k) = (V4 (push_bit (32 - k) (drop_bit (32 - k) b)), k)"
| "Masked (V6 b z, k) = (V6 (push_bit (128 - k) (drop_bit (128 - k) b)) [], k)"

definition ParsePrefix :: "string \<Rightarrow> ip_prefix option" where
  "ParsePrefix s =
     (case last_index_byte (CHR ''/'') s of
        None \<Rightarrow> None
      | Some i \<Rightarrow> (case ParseAddr (take i s) of
            None \<Rightarrow> None
          | Some ip \<Rightarrow>
              let bitsStr = drop (i + 1) s in
              if (case ip of V4 _ \<Rightarrow> False | V6 _ z \<Rightarrow> z \<noteq> []) then None
              else if length bitsStr > 1 \<and> \<not> (CHR ''1'' \<le> hd bitsStr \<and> hd bitsStr \<le> CHR ''9'') then None
              else (case parse_int64 bitsStr of
                  None \<Rightarrow> None
                | Some bits \<Rightarrow> if bits < 0 \<or> bits > int (BitLen ip) then None else Some (ip, nat bits))))"

text \<open>The text of an IPv4 address, and of a range of them.\<close>

definition octets :: "32 word \<Rightarrow> int list" where
  "octets n = (let k = uint n in [k div 2 ^ 24, k div 2 ^ 16 mod 256, k div 2 ^ 8 mod 256, k mod 256])"

definition addr4_text :: "32 word \<Rightarrow> string" where
  "addr4_text n = (case octets n of [a, b, c, d] \<Rightarrow> itoa a @ ''.'' @ itoa b @ ''.'' @ itoa c @ ''.'' @ itoa d | _ \<Rightarrow> [])"

definition prefix4_text :: "32 word \<Rightarrow> nat \<Rightarrow> string" where
  "prefix4_text n k = addr4_text n @ ''/'' @ itoa (int k)"

section \<open>Ranges nest or are apart\<close>

lemma drop_bit_mono_eq: "drop_bit i a = drop_bit i (b :: 'a::len word) \<Longrightarrow> i \<le> j \<Longrightarrow> drop_bit j a = drop_bit j b"
proof -
  assume "drop_bit i a = drop_bit i b" "i \<le> j"
  then have "drop_bit (j - i) (drop_bit i a) = drop_bit (j - i) (drop_bit i b)" by simp
  then show ?thesis using \<open>i \<le> j\<close> by (simp add: drop_bit_drop_bit)
qed

lemma prefix_around:
  assumes "prefix_has (V4 c, j) (V4 b)" and "j \<le> k" and "prefix_has (V4 b, k) (V4 a)"
  shows "prefix_has (V4 c, j) (V4 a)"
proof -
  have "drop_bit (32 - j) a = drop_bit (32 - j) b"
    using drop_bit_mono_eq [of "32 - k" a b "32 - j"] assms(2,3) by simp
  then show ?thesis using assms(1) by simp
qed

lemma prefixes_meet:
  assumes "prefix_has (V4 b, k) (V4 a)" and "prefix_has (V4 c, j) (V4 a)" and "j \<le> k"
  shows "prefix_has (V4 c, j) (V4 b)"
proof -
  have "drop_bit (32 - j) a = drop_bit (32 - j) b"
    using drop_bit_mono_eq [of "32 - k" a b "32 - j"] assms(1,3) by simp
  then show ?thesis using assms(2) by simp
qed

lemma drop_push: "drop_bit i (push_bit i (drop_bit i (b :: 'a::len word))) = drop_bit i b"
  by (rule bit_word_eqI) (auto simp: bit_simps dest: bit_imp_le_length)

lemma Masked_has [simp]: "prefix_has (Masked p) a = prefix_has p a"
  by (cases p; cases a; cases "fst p") (auto simp: drop_push)

lemma Masked_bits [simp]: "snd (Masked p) = snd p" "Is4 (fst (Masked p)) = Is4 (fst p)"
  by (cases p; cases "fst p"; simp)+

section \<open>Text reads back\<close>

lemma char_digits: "0 \<le> d \<Longrightarrow> d < 10 \<Longrightarrow> digit_of (char_of (48 + nat d)) = Some d"
  by simp

lemma itoa_small:
  assumes "0 \<le> n" and "n < 256"
  obtains "n < 10" "itoa n = [char_of (48 + nat n)]"
  | "10 \<le> n" "n < 100" "itoa n = [char_of (48 + nat (n div 10)), char_of (48 + nat (n mod 10))]"
  | "100 \<le> n" "itoa n = [char_of (48 + nat (n div 100)), char_of (48 + nat (n div 10 mod 10)), char_of (48 + nat (n mod 10))]"
proof -
  have d: "n div 10 div 10 = n div 100" by (simp add: div_mult2_eq [symmetric])
  consider "n < 10" | "10 \<le> n" "n < 100" | "100 \<le> n" by linarith
  then show ?thesis
  proof cases
    case 1
    then show ?thesis using itoa_digits(1) [of n] assms that(1) by simp
  next
    case 2
    then have "itoa (n div 10) = [char_of (48 + nat (n div 10))]" by (intro itoa_digits(1)) simp_all
    then show ?thesis using itoa_digits(2) [of n] 2 that(2) by (simp add: nat_mod_distrib)
  next
    case 3
    then have "itoa (n div 10) = itoa (n div 10 div 10) @ [char_of (48 + nat (n div 10) mod 10)]" by (intro itoa_digits(2)) simp
    moreover have "itoa (n div 10 div 10) = [char_of (48 + nat (n div 100))]" unfolding d using assms 3 by (intro itoa_digits(1)) simp_all
    ultimately show ?thesis using itoa_digits(2) [of n] 3 that(3) by (simp add: nat_mod_distrib)
  qed
qed

lemma read_digit:
  "0 \<le> d \<Longrightarrow> d < 10 \<Longrightarrow> \<not> (k = 1 \<and> v = 0) \<Longrightarrow> 10 * v + d < 256 \<Longrightarrow>
     ipv4_fields done v k (char_of (48 + nat d) # cs) = ipv4_fields done (10 * v + d) (Suc k) cs"
  by (auto simp: Let_def char_digits)

lemma read_field:
  assumes "0 \<le> n" and "n < 256"
  shows "\<exists>k > 0. \<forall>done cs. ipv4_fields done 0 0 (itoa n @ cs) = ipv4_fields done n k cs"
  using assms
proof (cases rule: itoa_small)
  case 1
  then show ?thesis using assms by (intro exI [of _ 1]) (simp add: Let_def)
next
  case 2
  then have "0 \<le> n div 10" "n div 10 < 10" "n div 10 \<noteq> 0" "10 * (n div 10) + n mod 10 = n" by auto
  with 2 show ?thesis using assms by (intro exI [of _ "Suc (Suc 0)"]) (simp add: Let_def)
next
  case 3
  have m: "10 * (n div 100) + n div 10 mod 10 = n div 10" 
  proof -
    have "10 * (n div 10 div 10) + n div 10 mod 10 = n div 10" by simp
    moreover have "n div 10 div 10 = n div 100" by (simp add: div_mult2_eq [symmetric])
    ultimately show ?thesis by metis
  qed
  have h: "n div 100 < 10" "n div 100 \<noteq> 0" "0 \<le> n div 100" "n div 10 < 256" using assms 3(1) by auto
  have "ipv4_fields done 0 0 (itoa n @ cs) = ipv4_fields done n (Suc (Suc (Suc 0))) cs" for "done" cs
  proof -
    have "ipv4_fields done 0 0 (itoa n @ cs) = ipv4_fields done (n div 100) (Suc 0) (char_of (48 + nat (n div 10 mod 10)) # char_of (48 + nat (n mod 10)) # cs)"
      using read_digit [of "n div 100" 0 0] h by (simp del: ipv4_fields.simps add: 3(2))
    also have "\<dots> = ipv4_fields done (n div 10) (Suc (Suc 0)) (char_of (48 + nat (n mod 10)) # cs)"
      using read_digit [of "n div 10 mod 10" "Suc 0" "n div 100"] h by (simp del: ipv4_fields.simps add: m)
    also have "\<dots> = ipv4_fields done n (Suc (Suc (Suc 0))) cs"
      using read_digit [of "n mod 10" "Suc (Suc 0)" "n div 10"] assms by (simp del: ipv4_fields.simps)
    finally show ?thesis .
  qed
  then show ?thesis by blast
qed

lemma read_four:
  assumes "0 \<le> a" "a < 256" "0 \<le> b" "b < 256" "0 \<le> c" "c < 256" "0 \<le> d" "d < 256"
  shows "ipv4_fields [] 0 0 (itoa a @ ''.'' @ itoa b @ ''.'' @ itoa c @ ''.'' @ itoa d) = Some [a, b, c, d]"
proof -
  have dot: "digit_of (CHR ''.'') = None" by code_simp
  obtain k1 where 1: "0 < k1" "\<And>done cs. ipv4_fields done 0 0 (itoa a @ cs) = ipv4_fields done a k1 cs" using read_field [OF assms(1,2)] by blast
  obtain k2 where 2: "0 < k2" "\<And>done cs. ipv4_fields done 0 0 (itoa b @ cs) = ipv4_fields done b k2 cs" using read_field [OF assms(3,4)] by blast
  obtain k3 where 3: "0 < k3" "\<And>done cs. ipv4_fields done 0 0 (itoa c @ cs) = ipv4_fields done c k3 cs" using read_field [OF assms(5,6)] by blast
  obtain k4 where 4: "0 < k4" "\<And>done cs. ipv4_fields done 0 0 (itoa d @ cs) = ipv4_fields done d k4 cs" using read_field [OF assms(7,8)] by blast
  show ?thesis using 1 2 3 4(1) 4(2) [of "[a, b, c]" "[]"] dot by simp
qed

lemma octets_word: "bytes_word (octets n) = n"
proof -
  have split256: "k = 256 * (k div 256) + k mod 256" for k :: int by simp
  have d: "uint n div 2 ^ 16 = uint n div 2 ^ 8 div 256" "uint n div 2 ^ 24 = uint n div 2 ^ 16 div 256" by (simp_all add: div_mult2_eq [symmetric])
  have "uint n = ((uint n div 2 ^ 24 * 256 + uint n div 2 ^ 16 mod 256) * 256 + uint n div 2 ^ 8 mod 256) * 256 + uint n mod 256"
    using split256 [of "uint n"] split256 [of "uint n div 2 ^ 8"] split256 [of "uint n div 2 ^ 16"] unfolding d by simp
  then have "foldl (\<lambda>k b. 256 * k + b) 0 (octets n) = uint n" by (simp add: octets_def Let_def)
  then show ?thesis by (simp add: bytes_word_def)
qed

lemma octets_range: "octets n = [a, b, c, d] \<Longrightarrow> 0 \<le> a \<and> a < 256 \<and> 0 \<le> b \<and> b < 256 \<and> 0 \<le> c \<and> c < 256 \<and> 0 \<le> d \<and> d < 256"
  using uint_bounded [of n] uint_nonnegative [of n] by (auto simp: octets_def Let_def pos_imp_zdiv_nonneg_iff)

lemma octets_four: obtains a b c d where "octets n = [a, b, c, d]"
  by (simp add: octets_def Let_def)

lemma addr_kind_skip: "\<forall>c \<in> set xs. c \<noteq> CHR ''.'' \<and> c \<noteq> CHR '':'' \<and> c \<noteq> CHR ''%'' \<Longrightarrow> addr_kind (xs @ ys) = addr_kind ys"
  by (induction xs) auto

text \<open>The text of an address, and of a range, read back.\<close>

lemma ParseAddr_text: "ParseAddr (addr4_text n) = Some (V4 n)"
proof -
  obtain a b c d where o: "octets n = [a, b, c, d]" by (rule octets_four)
  note r = octets_range [OF o]
  have t: "addr4_text n = itoa a @ ''.'' @ itoa b @ ''.'' @ itoa c @ ''.'' @ itoa d" by (simp add: addr4_text_def o)
  have "addr_kind (itoa a @ ''.'' @ itoa b @ ''.'' @ itoa c @ ''.'' @ itoa d) = Some (CHR ''.'')"
    by (subst addr_kind_skip) (use itoa_no_mark [of a] r in auto)
  moreover have "bytes_word [a, b, c, d] = n" using octets_word [of n] o by simp
  ultimately show ?thesis using r read_four by (simp add: ParseAddr_def t parseIPv4_def)
qed

lemma itoa_first: "10 \<le> n \<Longrightarrow> CHR ''1'' \<le> hd (itoa n) \<and> hd (itoa n) \<le> CHR ''9''" if "n \<le> 32"
proof -
  assume "10 \<le> n"
  with that obtain "itoa n = [char_of (48 + nat (n div 10)), char_of (48 + nat (n mod 10))]"
    using itoa_small [of n] by fastforce
  moreover have "n div 10 \<in> {1, 2, 3}" using \<open>10 \<le> n\<close> that by auto
  ultimately show ?thesis by (auto simp: less_eq_char_def)
qed

lemma ParsePrefix_text:
  assumes "k \<le> 32"
  shows "ParsePrefix (prefix4_text n k) = Some (V4 n, k)"
proof -
  have bits: "CHR ''/'' \<notin> set (itoa (int k))" using itoa_no_mark [of "int k"] by auto
  have i: "last_index_byte (CHR ''/'') (prefix4_text n k) = Some (length (addr4_text n))"
    using bits by (simp add: last_index_byte_def index_byte_def prefix4_text_def takeWhile_append)
  have first: "length (itoa (int k)) > 1 \<Longrightarrow> CHR ''1'' \<le> hd (itoa (int k)) \<and> hd (itoa (int k)) \<le> CHR ''9''"
    using itoa_first [of "int k"] itoa_digits(1) [of "int k"] assms by (cases "int k < 10") auto
  have "parse_int64 (itoa (int k)) = Some (int k)" using assms by (intro parse_itoa) (simp_all add: in64_def min_int64_def max_int64_def)
  then show ?thesis using i first assms ParseAddr_text [of n]
    by (simp add: ParsePrefix_def Let_def prefix4_text_def)
qed

end
