(* ===== verification/Egress.thy ===== *)
theory Egress
  imports Ip_Prefix Kube_Types
begin

section \<open>What leaves the cluster (pkg/platform/egress.go, networkpolicy.go, nodenetwork.go)\<close>

text \<open>
  The outbound limits of an organization (\<open>tenant_egress\<close>), the plan they are worked out to (\<open>PlanEgress\<close>: which ports are open to
  addresses outside the cluster, and which ranges of addresses are opened on ports of their own), the cluster's machines
  (\<open>NodeNetworkOf\<close>), and the network policy that is written from both (\<open>TenantCloudMetadataPolicy\<close>). What a network policy allows is
  the documented behaviour of Kubernetes, and is the specification: \<open>allows\<close>.

  A \<open>portSet\<close> is a function from ports to truth values; a map by protocol is an association list. A problem that \<open>PlanEgress\<close>
  reports is a value with the field it is in. The metadata of a policy and the description of an allowance, which nothing
  reads, are left out.
\<close>

subsection \<open>The limits\<close>

definition ProtocolTCP :: string where "ProtocolTCP = ''TCP''"
definition ProtocolUDP :: string where "ProtocolUDP = ''UDP''"
definition maxPort :: int where "maxPort = 65535"
definition DefaultAPIServerPort :: int where "DefaultAPIServerPort = 6443"
definition cloudMetadataCIDR :: string where "cloudMetadataCIDR = ''169.254.0.0/16''"
definition anywhereCIDR :: string where "anywhereCIDR = ''0.0.0.0/0''"

definition egressProtocols :: "string list" where "egressProtocols = [ProtocolTCP, ProtocolUDP]"

record port_range =
  pr_port :: int
  pr_end :: "int option"
  pr_protocol :: string

record egress_allow =
  al_cidr :: string
  al_ports :: "port_range list"

record tenant_egress =
  te_mail :: string
  te_allowed :: "port_range list option"
  te_blocked :: "port_range list option"
  te_allow :: "egress_allow list option"
  te_mining :: string

definition MailBlocked :: "tenant_egress \<Rightarrow> bool" where
  "MailBlocked e \<longleftrightarrow> te_mail e \<noteq> ''Open''"

definition MiningPoolsBlocked :: "tenant_egress \<Rightarrow> bool" where
  "MiningPoolsBlocked e \<longleftrightarrow> te_mining e = ''Blocked''"

text \<open>Ranging over a nil slice is ranging over an empty one.\<close>

definition elems :: "'a list option \<Rightarrow> 'a list" where
  "elems xs = (case xs of None \<Rightarrow> [] | Some ys \<Rightarrow> ys)"

definition MailPorts :: "int list" where
  "MailPorts = [25, 465, 587, 2465, 2525, 2587]"

definition MiningPoolPorts :: "port_range list" where
  "MiningPoolPorts = (let single = (\<lambda>p. \<lparr>pr_port = p, pr_end = None, pr_protocol = ProtocolTCP\<rparr>) in
     [\<lparr>pr_port = 3333, pr_end = Some 3336, pr_protocol = ProtocolTCP\<rparr>, single 4444, single 5555, single 7777,
      single 14433, single 14444, single 45700])"

definition EffectiveTenantEgress :: "tenant_egress option \<Rightarrow> tenant_egress option \<Rightarrow> tenant_egress option" where
  "EffectiveTenantEgress defaults own =
     (case (defaults, own) of
        (None, None) \<Rightarrow> None
      | _ \<Rightarrow>
          (let out = (case defaults of None \<Rightarrow> \<lparr>te_mail = [], te_allowed = None, te_blocked = None, te_allow = None, te_mining = []\<rparr> | Some d \<Rightarrow> d)
           in case own of
             None \<Rightarrow> Some out
           | Some o' \<Rightarrow>
               (let out = (if te_mail o' \<noteq> [] then out\<lparr>te_mail := te_mail o'\<rparr> else out);
                    out = (if te_allowed o' \<noteq> None then out\<lparr>te_allowed := te_allowed o'\<rparr> else out);
                    out = (if te_blocked o' \<noteq> None then out\<lparr>te_blocked := te_blocked o'\<rparr> else out);
                    out = (if te_allow o' \<noteq> None then out\<lparr>te_allow := te_allow o'\<rparr> else out);
                    out = (if te_mining o' \<noteq> [] then out\<lparr>te_mining := te_mining o'\<rparr> else out)
                in Some out)))"

subsection \<open>Sets of ports\<close>

type_synonym port_span = "int \<times> int"
type_synonym port_set = "int \<Rightarrow> bool"

definition fill :: "port_set \<Rightarrow> port_span \<Rightarrow> bool \<Rightarrow> port_set" where
  "fill s span v = (\<lambda>port. if fst span \<le> port \<and> port \<le> snd span then v else s port)"

text \<open>The end of the run of ports in the set that a port is in.\<close>

function run_end :: "port_set \<Rightarrow> int \<Rightarrow> int" where
  "run_end s port = (if port < maxPort \<and> s (port + 1) then run_end s (port + 1) else port)"
  by pat_completeness auto

termination
  by (relation "measure (\<lambda>(s, port). nat (maxPort - port))") auto

declare run_end.simps [simp del]

lemma run_end_le: "port \<le> run_end s port"
  by (induction s port rule: run_end.induct) (subst run_end.simps, auto)

function spans_from :: "port_set \<Rightarrow> int \<Rightarrow> port_span list" where
  "spans_from s port =
     (if port > maxPort then []
      else if \<not> s port then spans_from s (port + 1)
      else (port, run_end s port) # spans_from s (run_end s port + 1))"
  by pat_completeness auto

termination
proof (relation "measure (\<lambda>(s, port). nat (maxPort + 1 - port))")
  fix s :: port_set and port
  assume "\<not> port > maxPort"
  then show "((s, run_end s port + 1), s, port) \<in> measure (\<lambda>(s, port). nat (maxPort + 1 - port))"
    using run_end_le [of port s] by simp
qed auto

declare spans_from.simps [simp del]

definition spans :: "port_set \<Rightarrow> port_span list" where
  "spans s = spans_from s 1"

definition setOf :: "port_span list \<Rightarrow> port_set" where
  "setOf ss = foldl (\<lambda>set span. fill set span True) (\<lambda>_. False) ss"

definition spanOf :: "port_range \<Rightarrow> port_span" where
  "spanOf r = (pr_port r, case pr_end r of None \<Rightarrow> pr_port r | Some e \<Rightarrow> e)"

definition protocolOf :: "port_range \<Rightarrow> string" where
  "protocolOf r = (if pr_protocol r = [] then ProtocolTCP else pr_protocol r)"

datatype port_problem = PortOutside int | EndOutside int int | NotTCPorUDP string

definition checkPortRange :: "port_range \<Rightarrow> port_problem option" where
  "checkPortRange r =
     (if pr_port r < 1 \<or> pr_port r > maxPort then Some (PortOutside (pr_port r))
      else if (case pr_end r of None \<Rightarrow> False | Some e \<Rightarrow> e < pr_port r \<or> e > maxPort) then Some (EndOutside (case pr_end r of None \<Rightarrow> 0 | Some e \<Rightarrow> e) (pr_port r))
      else if pr_protocol r \<noteq> [] \<and> pr_protocol r \<noteq> ProtocolTCP \<and> pr_protocol r \<noteq> ProtocolUDP then Some (NotTCPorUDP (pr_protocol r))
      else None)"

datatype cidr_problem = NotIPv4Range string | NotFirstAddress string ip_prefix | NeverOpened string ip_prefix

definition neverAllowed :: "ip_prefix list" where
  "neverAllowed = [(V4 0xa9fe0000, 16), (V4 0x7f000000, 8)]"

definition allowancePrefix :: "string \<Rightarrow> cidr_problem + ip_prefix" where
  "allowancePrefix cidr =
     (case ParsePrefix cidr of
        None \<Rightarrow> Inl (NotIPv4Range cidr)
      | Some p \<Rightarrow>
          if \<not> Is4 (fst p) then Inl (NotIPv4Range cidr)
          else if p \<noteq> Masked p then Inl (NotFirstAddress cidr (Masked p))
          else (case find (\<lambda>closed. snd closed \<le> snd p \<and> prefix_has closed (fst p)) neverAllowed of
              Some closed \<Rightarrow> Inl (NeverOpened cidr closed)
            | None \<Rightarrow> Inr p))"

subsection \<open>The plan\<close>

type_synonym port_map = "(string \<times> port_span list) list"

definition spans_of :: "port_map \<Rightarrow> string \<Rightarrow> port_span list" where
  "spans_of m p = (case map_of m p of None \<Rightarrow> [] | Some ss \<Rightarrow> ss)"

record egress_plan =
  pl_open :: port_map
  pl_allowances :: "(ip_prefix \<times> port_map) list"
  pl_listed :: bool

text \<open>Ranges put together by protocol; a protocol that no range has is not in the map.\<close>

definition fill_range :: "bool \<Rightarrow> (string \<Rightarrow> port_set) \<Rightarrow> port_range \<Rightarrow> (string \<Rightarrow> port_set)" where
  "fill_range v sets r = sets(protocolOf r := fill (sets (protocolOf r)) (spanOf r) v)"

definition spansByProtocol :: "port_range list \<Rightarrow> port_map" where
  "spansByProtocol ranges =
     (let sets = foldl (fill_range True) (\<lambda>_ _. False) ranges
      in map (\<lambda>p. (p, spans (sets p))) (remdups (map protocolOf ranges)))"

datatype egress_problem = MailUnknown string | MiningUnknown string | AllowedEmpty | InAllowed nat port_problem | InBlocked nat port_problem
  | InAllow nat cidr_problem | AllowNoPorts nat | InAllowPorts nat nat port_problem | NoPortOpen

definition check_ranges :: "(nat \<Rightarrow> port_problem \<Rightarrow> egress_problem) \<Rightarrow> port_range list \<Rightarrow> egress_problem list" where
  "check_ranges field ranges = concat (map (\<lambda>(i, r). case checkPortRange r of None \<Rightarrow> [] | Some e \<Rightarrow> [field i e]) (enumerate 0 ranges))"

definition egress_problems :: "tenant_egress \<Rightarrow> egress_problem list" where
  "egress_problems e =
     (if te_mail e \<in> {[], ''Blocked'', ''Open''} then [] else [MailUnknown (te_mail e)]) @
     (if te_mining e \<in> {[], ''Blocked'', ''Open''} then [] else [MiningUnknown (te_mining e)]) @
     (if te_allowed e = Some [] then [AllowedEmpty] else []) @
     check_ranges InAllowed (elems (te_allowed e)) @
     check_ranges InBlocked (elems (te_blocked e)) @
     concat (map (\<lambda>(i, a).
       (case allowancePrefix (al_cidr a) of Inl p \<Rightarrow> [InAllow i p] | Inr _ \<Rightarrow> []) @
       (if al_ports a = [] then [AllowNoPorts i] else []) @
       check_ranges (InAllowPorts i) (al_ports a)) (enumerate 0 (elems (te_allow e))))"

definition open_ports :: "tenant_egress \<Rightarrow> string \<Rightarrow> port_set" where
  "open_ports e =
     (let o0 = (\<lambda>p. if te_allowed e = None then fill (\<lambda>_. False) (1, maxPort) True else (\<lambda>_. False));
          o1 = foldl (fill_range True) o0 (elems (te_allowed e));
          o2 = (if MailBlocked e then foldl (\<lambda>sets port. sets(ProtocolTCP := (sets ProtocolTCP)(port := False))) o1 MailPorts else o1);
          o3 = (if MiningPoolsBlocked e then foldl (fill_range False) o2 MiningPoolPorts else o2)
      in foldl (fill_range False) o3 (elems (te_blocked e)))"

definition PlanEgress :: "tenant_egress option \<Rightarrow> egress_problem list + egress_plan option" where
  "PlanEgress egress =
     (case egress of
        None \<Rightarrow> Inr None
      | Some e \<Rightarrow>
          if egress_problems e \<noteq> [] then Inl (egress_problems e)
          else let open = filter (\<lambda>(p, ss). ss \<noteq> []) (map (\<lambda>p. (p, spans (open_ports e p))) egressProtocols)
               in if open = [] then Inl [NoPortOpen]
                  else Inr (Some \<lparr>pl_open = open,
                    pl_allowances = concat (map (\<lambda>a. case allowancePrefix (al_cidr a) of Inl _ \<Rightarrow> [] | Inr p \<Rightarrow> [(p, spansByProtocol (al_ports a))]) (elems (te_allow e))),
                    pl_listed = (te_allowed e \<noteq> None)\<rparr>))"

definition ForEnvironment :: "egress_plan option \<Rightarrow> int \<Rightarrow> egress_plan option" where
  "ForEnvironment p apiPort =
     (case p of
        None \<Rightarrow> None
      | Some p \<Rightarrow>
          (let apiPort = (if apiPort \<le> 0 \<or> apiPort > maxPort then DefaultAPIServerPort else apiPort);
               set = (setOf (spans_of (pl_open p) ProtocolTCP))(apiPort := True)
           in Some (p\<lparr>pl_open := AList.update ProtocolTCP (spans set) (pl_open p)\<rparr>)))"

definition closesNothing :: "egress_plan \<Rightarrow> bool" where
  "closesNothing p \<longleftrightarrow> list_all (\<lambda>protocol. spans_of (pl_open p) protocol = [(1, maxPort)]) egressProtocols"

subsection \<open>The cluster's machines\<close>

record net_node =
  nn_labels :: labels
  nn_addresses :: "(string \<times> string) list" \<comment> \<open>type and address\<close>
  nn_podCIDRs :: "string list"
  nn_podCIDR :: string

record node_network =
  nw_blocked :: "string list"
  nw_api_addresses :: "string list"
  nw_api_port :: int

definition IsControlPlaneNode :: "net_node \<Rightarrow> bool" where
  "IsControlPlaneNode node \<longleftrightarrow> has_key (nn_labels node) ''node-role.kubernetes.io/control-plane'' \<or> has_key (nn_labels node) ''node-role.kubernetes.io/master''"

text \<open>Only IPv4 addresses pass, so an address here is its 32 bits.\<close>

definition blockableAddress :: "string \<Rightarrow> 32 word option" where
  "blockableAddress value =
     (case ParseAddr value of
        None \<Rightarrow> None
      | Some a \<Rightarrow> let a = Unmap a in
          (case a of V6 _ _ \<Rightarrow> None | V4 n \<Rightarrow> if IsUnspecified a \<or> IsLoopback a \<or> IsLinkLocalUnicast a then None else Some n))"

definition nodeHostAddresses :: "net_node \<Rightarrow> 32 word list" where
  "nodeHostAddresses node = concat (map (\<lambda>(t, address).
     if t \<noteq> ''InternalIP'' \<and> t \<noteq> ''ExternalIP'' then [] else case blockableAddress address of None \<Rightarrow> [] | Some n \<Rightarrow> [n]) (nn_addresses node))"

definition nodePodNetworkAddresses :: "net_node \<Rightarrow> 32 word list" where
  "nodePodNetworkAddresses node =
     (let cidrs = (if nn_podCIDRs node = [] \<and> nn_podCIDR node \<noteq> [] then [nn_podCIDR node] else nn_podCIDRs node)
      in concat (map (\<lambda>cidr. case ParsePrefix cidr of
           Some (V4 n, k) \<Rightarrow> if k > 29 then [] else (case fst (Masked (V4 n, k)) of V4 first \<Rightarrow> [first, first + 1] | V6 _ _ \<Rightarrow> [])
         | _ \<Rightarrow> []) cidrs))"

definition hostRanges :: "32 word list \<Rightarrow> string list" where
  "hostRanges addrs = map (\<lambda>n. prefix4_text n 32) (remdups_adj (sort addrs))"

definition NodeNetworkOf :: "net_node list \<Rightarrow> int \<Rightarrow> node_network" where
  "NodeNetworkOf nodes apiPort =
     (let apiPort = (if apiPort \<le> 0 then DefaultAPIServerPort else apiPort);
          hosts = concat (map nodeHostAddresses nodes);
          blocked = concat (map (\<lambda>node. nodeHostAddresses node @ nodePodNetworkAddresses node) nodes);
          controlPlane = concat (map nodeHostAddresses (filter IsControlPlaneNode nodes));
          controlPlane = (if controlPlane = [] then hosts else controlPlane)
      in \<lparr>nw_blocked = hostRanges blocked, nw_api_addresses = hostRanges controlPlane, nw_api_port = apiPort\<rparr>)"

subsection \<open>The policy\<close>

record np_port =
  np_protocol :: string
  np_number :: "int option"
  np_end :: "int option"

datatype peer = EveryPod | IPBlock string "string list"

record egress_rule =
  er_to :: "peer list"
  er_ports :: "np_port list"

definition port_entry :: "string \<Rightarrow> port_span \<Rightarrow> np_port" where
  "port_entry protocol span =
     (if span = (1, maxPort) then \<lparr>np_protocol = protocol, np_number = None, np_end = None\<rparr>
      else \<lparr>np_protocol = protocol, np_number = Some (fst span), np_end = (if snd span > fst span then Some (snd span) else None)\<rparr>)"

definition policyPorts :: "port_map \<Rightarrow> np_port list" where
  "policyPorts m = concat (map (\<lambda>protocol. map (port_entry protocol) (spans_of m protocol)) egressProtocols)"

text \<open>The ranges that become exceptions of an allowance; \<open>None\<close> when one is around it, or is not a range.\<close>

fun clip :: "ip_prefix \<Rightarrow> string list \<Rightarrow> string list option" where
  "clip p [] = Some []"
| "clip p (value # rest) =
     (case ParsePrefix value of
        None \<Rightarrow> None
      | Some c \<Rightarrow> let closed = Masked c in
          if snd closed \<le> snd p \<and> prefix_has closed (fst p) then None
          else if snd p < snd closed \<and> prefix_has p (fst closed) then map_option (\<lambda>inside. value # inside) (clip p rest)
          else clip p rest)"

text \<open>The text of a range; an allowance's is always IPv4.\<close>

definition clippedBlock :: "ip_prefix \<Rightarrow> string list \<Rightarrow> peer option" where
  "clippedBlock p except =
     (case fst p of V4 n \<Rightarrow> map_option (IPBlock (prefix4_text n (snd p))) (clip p except) | V6 _ _ \<Rightarrow> None)"

definition ported_rule :: "peer \<Rightarrow> port_map \<Rightarrow> egress_rule list" where
  "ported_rule block m = (if policyPorts m = [] then [] else [\<lparr>er_to = [block], er_ports = policyPorts m\<rparr>])"

definition allowance_rule :: "string list \<Rightarrow> ip_prefix \<times> port_map \<Rightarrow> egress_rule list" where
  "allowance_rule except x = (case clippedBlock (fst x) except of None \<Rightarrow> [] | Some block \<Rightarrow> ported_rule block (snd x))"

definition plan_rules :: "egress_plan \<Rightarrow> string list \<Rightarrow> egress_rule list" where
  "plan_rules p except = ported_rule (IPBlock anywhereCIDR except) (pl_open p) @ concat (map (allowance_rule except) (pl_allowances p))"

definition tcpPort :: "int \<Rightarrow> np_port" where
  "tcpPort port = \<lparr>np_protocol = ProtocolTCP, np_number = Some port, np_end = None\<rparr>"

definition TenantCloudMetadataPolicy :: "node_network option \<Rightarrow> egress_plan option \<Rightarrow> egress_rule list" where
  "TenantCloudMetadataPolicy nodes limits =
     (let except = cloudMetadataCIDR # (case nodes of None \<Rightarrow> [] | Some nw \<Rightarrow> nw_blocked nw);
          egress = (case limits of
              Some p \<Rightarrow> if closesNothing p then [\<lparr>er_to = [EveryPod, IPBlock anywhereCIDR except], er_ports = []\<rparr>]
                else \<lparr>er_to = [EveryPod], er_ports = []\<rparr> # plan_rules p except
            | None \<Rightarrow> [\<lparr>er_to = [EveryPod, IPBlock anywhereCIDR except], er_ports = []\<rparr>])
      in egress @ (case nodes of None \<Rightarrow> []
         | Some nw \<Rightarrow> if nw_api_addresses nw = [] then []
             else [\<lparr>er_to = map (\<lambda>address. IPBlock address []) (nw_api_addresses nw), er_ports = [tcpPort (nw_api_port nw)]\<rparr>]))"

definition CloudMetadataPolicy :: "node_network option \<Rightarrow> egress_rule list" where
  "CloudMetadataPolicy nodes = TenantCloudMetadataPolicy nodes None"

section \<open>What a policy allows\<close>

text \<open>A connection goes to a pod or to an IPv4 address outside the pod network, on a port of a protocol.\<close>

datatype dest = Pod | Outside "32 word"

definition cidr_has :: "string \<Rightarrow> 32 word \<Rightarrow> bool" where
  "cidr_has c a = (case ParsePrefix c of None \<Rightarrow> False | Some p \<Rightarrow> prefix_has p (V4 a))"

fun peer_has :: "peer \<Rightarrow> dest \<Rightarrow> bool" where
  "peer_has EveryPod Pod = True"
| "peer_has (IPBlock c ex) (Outside a) = (cidr_has c a \<and> \<not> list_ex (\<lambda>x. cidr_has x a) ex)"
| "peer_has _ _ = False"

definition port_has :: "np_port \<Rightarrow> string \<Rightarrow> int \<Rightarrow> bool" where
  "port_has np protocol port \<longleftrightarrow> np_protocol np = protocol \<and>
     (case np_number np of None \<Rightarrow> True | Some first \<Rightarrow> (case np_end np of None \<Rightarrow> port = first | Some e \<Rightarrow> first \<le> port \<and> port \<le> e))"

definition rule_allows :: "egress_rule \<Rightarrow> dest \<Rightarrow> string \<Rightarrow> int \<Rightarrow> bool" where
  "rule_allows r d protocol port \<longleftrightarrow> (er_to r = [] \<or> list_ex (\<lambda>p. peer_has p d) (er_to r)) \<and>
     (er_ports r = [] \<or> list_ex (\<lambda>np. port_has np protocol port) (er_ports r))"

definition allows :: "egress_rule list \<Rightarrow> dest \<Rightarrow> string \<Rightarrow> int \<Rightarrow> bool" where
  "allows rules d protocol port = list_ex (\<lambda>r. rule_allows r d protocol port) rules"

section \<open>Sets of ports and their ranges\<close>

definition in_spans :: "port_span list \<Rightarrow> int \<Rightarrow> bool" where
  "in_spans ss p = list_ex (\<lambda>s. fst s \<le> p \<and> p \<le> snd s) ss"

lemma in_spans_Nil [simp]: "\<not> in_spans [] q"
  by (simp add: in_spans_def)

lemma run_end_props:
  "s port \<Longrightarrow> port \<le> maxPort \<Longrightarrow> run_end s port \<le> maxPort \<and> (\<forall>q. port \<le> q \<and> q \<le> run_end s port \<longrightarrow> s q)"
proof (induction s port rule: run_end.induct)
  case (1 s port)
  show ?case
  proof (cases "port < maxPort \<and> s (port + 1)")
    case True
    then have "run_end s (port + 1) \<le> maxPort" "\<forall>q. port + 1 \<le> q \<and> q \<le> run_end s (port + 1) \<longrightarrow> s q" using 1 by auto
    moreover have "run_end s port = run_end s (port + 1)" using True by (simp add: run_end.simps [of s port])
    moreover have "q = port \<or> port + 1 \<le> q" if "port \<le> q" for q using that by linarith
    ultimately show ?thesis using "1.prems" by metis
  next
    case False
    then have "run_end s port = port" by (subst run_end.simps) auto
    then show ?thesis using "1.prems" by auto
  qed
qed

lemma in_spans_from: "in_spans (spans_from s port) q \<longleftrightarrow> port \<le> q \<and> q \<le> maxPort \<and> s q"
proof (induction s port rule: spans_from.induct)
  case (1 s port)
  consider "port > maxPort" | "port \<le> maxPort" "\<not> s port" | "port \<le> maxPort" "s port" by linarith
  then show ?case
  proof cases
    case 1
    then show ?thesis by (simp add: spans_from.simps [of s port] in_spans_def)
  next
    case 2
    then have "in_spans (spans_from s port) q \<longleftrightarrow> port + 1 \<le> q \<and> q \<le> maxPort \<and> s q"
      using "1.IH"(1) by (simp add: spans_from.simps [of s port])
    then show ?thesis using 2 by (cases "q = port") auto
  next
    case 3
    note r = run_end_props [of s port, OF 3(2,1)]
    have "in_spans (spans_from s port) q \<longleftrightarrow> (port \<le> q \<and> q \<le> run_end s port) \<or> (run_end s port + 1 \<le> q \<and> q \<le> maxPort \<and> s q)"
      using 3 "1.IH"(2) by (simp add: spans_from.simps [of s port] in_spans_def)
    then show ?thesis using r run_end_le [of port s] by auto
  qed
qed

lemma in_spans_spans: "in_spans (spans s) q \<longleftrightarrow> 1 \<le> q \<and> q \<le> maxPort \<and> s q"
  by (simp add: spans_def in_spans_from)

lemma setOf_spans: "setOf ss q = in_spans ss q"
proof -
  have "foldl (\<lambda>set span. fill set span True) s0 ss q = (s0 q \<or> in_spans ss q)" for s0
    by (induction ss arbitrary: s0) (auto simp: fill_def in_spans_def)
  then show ?thesis by (simp add: setOf_def)
qed

definition in_range :: "port_range \<Rightarrow> string \<Rightarrow> int \<Rightarrow> bool" where
  "in_range r protocol port \<longleftrightarrow> protocolOf r = protocol \<and> fst (spanOf r) \<le> port \<and> port \<le> snd (spanOf r)"

lemma fill_ranges:
  "foldl (fill_range v) sets ranges protocol port = (if list_ex (\<lambda>r. in_range r protocol port) ranges then v else sets protocol port)"
  by (induction ranges arbitrary: sets) (auto simp: fill_range_def fill_def in_range_def)

lemma close_ports:
  "foldl (\<lambda>sets port. sets(ProtocolTCP := (sets ProtocolTCP)(port := False))) sets ports protocol q =
     (sets protocol q \<and> \<not> (protocol = ProtocolTCP \<and> q \<in> set ports))"
  by (induction ports arbitrary: sets) auto

section \<open>What the limits leave open\<close>

definition limit_open :: "tenant_egress \<Rightarrow> string \<Rightarrow> int \<Rightarrow> bool" where
  "limit_open e protocol port \<longleftrightarrow>
     (te_allowed e = None \<or> list_ex (\<lambda>r. in_range r protocol port) (elems (te_allowed e))) \<and>
     \<not> (te_mail e \<noteq> ''Open'' \<and> protocol = ''TCP'' \<and> port \<in> {25, 465, 587, 2465, 2525, 2587}) \<and>
     \<not> (te_mining e = ''Blocked'' \<and> protocol = ''TCP'' \<and> (port \<in> {3333..3336} \<or> port \<in> {4444, 5555, 7777, 14433, 14444, 45700})) \<and>
     \<not> list_ex (\<lambda>r. in_range r protocol port) (elems (te_blocked e))"

lemma in_mining_pools: "list_ex (\<lambda>r. in_range r protocol port) MiningPoolPorts \<longleftrightarrow>
    protocol = ''TCP'' \<and> (port \<in> {3333..3336} \<or> port \<in> {4444, 5555, 7777, 14433, 14444, 45700})"
  by (auto simp: MiningPoolPorts_def in_range_def spanOf_def protocolOf_def ProtocolTCP_def)

lemma open_ports_iff:
  assumes "1 \<le> port" and "port \<le> maxPort"
  shows "open_ports e protocol port \<longleftrightarrow> limit_open e protocol port"
  using assms unfolding open_ports_def Let_def limit_open_def
  by (simp add: fill_ranges close_ports in_mining_pools MailBlocked_def MiningPoolsBlocked_def MailPorts_def ProtocolTCP_def fill_def elems_def)

definition sound_spans :: "port_map \<Rightarrow> bool" where
  "sound_spans m \<longleftrightarrow> (\<forall>p. \<forall>s \<in> set (spans_of m p). fst s \<le> snd s)"

lemma spans_from_sound: "x \<in> set (spans_from s port) \<Longrightarrow> fst x \<le> snd x"
proof (induction s port rule: spans_from.induct)
  case (1 s port)
  then show ?case using run_end_le [of port s] by (subst (asm) (2) spans_from.simps) (auto split: if_splits)
qed

lemma spans_sound: "x \<in> set (spans s) \<Longrightarrow> fst x \<le> snd x"
  by (simp add: spans_def spans_from_sound)

lemma policyPorts_has:
  assumes "sound_spans m" and "1 \<le> port" and "port \<le> maxPort"
  shows "list_ex (\<lambda>np. port_has np protocol port) (policyPorts m) \<longleftrightarrow> protocol \<in> set egressProtocols \<and> in_spans (spans_of m protocol) port"
proof -
  have entry: "port_has (port_entry q span) protocol port \<longleftrightarrow> q = protocol \<and> fst span \<le> port \<and> port \<le> snd span" if "fst span \<le> snd span" for q span
    using assms(2,3) that by (cases span) (auto simp: port_entry_def port_has_def)
  have sound: "fst s \<le> snd s" if "s \<in> set (spans_of m q)" for s q using assms(1) that unfolding sound_spans_def by blast
  have "list_ex (\<lambda>np. port_has np protocol port) (policyPorts m) \<longleftrightarrow>
      (\<exists>q \<in> set egressProtocols. \<exists>s \<in> set (spans_of m q). port_has (port_entry q s) protocol port)"
    unfolding policyPorts_def list_ex_iff by simp
  also have "\<dots> \<longleftrightarrow> (\<exists>q \<in> set egressProtocols. \<exists>s \<in> set (spans_of m q). q = protocol \<and> fst s \<le> port \<and> port \<le> snd s)"
    using entry sound by (intro bex_cong) simp_all
  finally show ?thesis unfolding in_spans_def list_ex_iff by blast
qed

lemma spans_of_map: "spans_of (map (\<lambda>p. (p, f p)) ps) p = (if p \<in> set ps then f p else [])"
  by (induction ps) (auto simp: spans_of_def)

lemma spans_of_filter: "spans_of (filter (\<lambda>(p, ss). ss \<noteq> []) (map (\<lambda>p. (p, f p)) ps)) p = (if p \<in> set ps then f p else [])"
  by (induction ps) (auto simp: spans_of_def)

lemma sound_spans_filter: "sound_spans (filter (\<lambda>(p, ss). ss \<noteq> []) (map (\<lambda>p. (p, spans (f p))) ps))"
  unfolding sound_spans_def spans_of_filter by (auto dest: spans_sound split: if_splits)

lemma PlanEgress_plan:
  assumes "PlanEgress (Some e) = Inr (Some plan)"
  shows "egress_problems e = []" and "sound_spans (pl_open plan)"
    and "protocol \<in> set egressProtocols \<Longrightarrow> in_spans (spans_of (pl_open plan) protocol) port \<longleftrightarrow> 1 \<le> port \<and> port \<le> maxPort \<and> limit_open e protocol port"
    and "pl_allowances plan = concat (map (\<lambda>a. case allowancePrefix (al_cidr a) of Inl _ \<Rightarrow> [] | Inr p \<Rightarrow> [(p, spansByProtocol (al_ports a))]) (elems (te_allow e)))"
proof -
  show "egress_problems e = []" using assms by (auto simp: PlanEgress_def split: if_splits)
  have open_: "pl_open plan = filter (\<lambda>(p, ss). ss \<noteq> []) (map (\<lambda>p. (p, spans (open_ports e p))) egressProtocols)"
    and "pl_allowances plan = concat (map (\<lambda>a. case allowancePrefix (al_cidr a) of Inl _ \<Rightarrow> [] | Inr p \<Rightarrow> [(p, spansByProtocol (al_ports a))]) (elems (te_allow e)))"
    using assms by (auto simp: PlanEgress_def Let_def split: if_splits)
  then show "pl_allowances plan = concat (map (\<lambda>a. case allowancePrefix (al_cidr a) of Inl _ \<Rightarrow> [] | Inr p \<Rightarrow> [(p, spansByProtocol (al_ports a))]) (elems (te_allow e)))" by simp
  show "sound_spans (pl_open plan)" unfolding open_ by (rule sound_spans_filter)
  show "in_spans (spans_of (pl_open plan) protocol) port \<longleftrightarrow> 1 \<le> port \<and> port \<le> maxPort \<and> limit_open e protocol port" if "protocol \<in> set egressProtocols"
    using that open_ports_iff unfolding open_ spans_of_filter by (auto simp: in_spans_spans)
qed

lemma PlanEgress_ok:
  assumes "egress_problems e = []" and "limit_open e protocol port" and "protocol \<in> set egressProtocols" and "1 \<le> port" and "port \<le> maxPort"
  shows "\<exists>plan. PlanEgress (Some e) = Inr (Some plan)"
proof -
  have "spans (open_ports e protocol) \<noteq> []" using in_spans_spans [of "open_ports e protocol" port] open_ports_iff [OF assms(4,5)] assms(2,4,5) by fastforce
  then have "filter (\<lambda>(p, ss). ss \<noteq> []) (map (\<lambda>p. (p, spans (open_ports e p))) egressProtocols) \<noteq> []"
    using assms(3) by (auto simp: filter_empty_conv)
  then show ?thesis using assms(1) by (simp add: PlanEgress_def Let_def)
qed

lemma spansByProtocol_has:
  "in_spans (spans_of (spansByProtocol rs) protocol) port \<longleftrightarrow> 1 \<le> port \<and> port \<le> maxPort \<and> list_ex (\<lambda>r. in_range r protocol port) rs"
proof -
  have "list_ex (\<lambda>r. in_range r protocol port) rs \<Longrightarrow> protocol \<in> set (map protocolOf rs)" by (auto simp: list_ex_iff in_range_def)
  then show ?thesis unfolding spansByProtocol_def Let_def spans_of_map
    by (auto simp: in_spans_spans fill_ranges)
qed

lemma spansByProtocol_sound: "sound_spans (spansByProtocol rs)"
  unfolding sound_spans_def spansByProtocol_def Let_def spans_of_map by (auto dest: spans_sound)

lemma ForEnvironment_plan:
  fixes apiPort :: int
  defines "api \<equiv> (if apiPort \<le> 0 \<or> apiPort > maxPort then DefaultAPIServerPort else apiPort)"
  assumes "sound_spans (pl_open p)" and "ForEnvironment (Some p) apiPort = Some q"
  shows "sound_spans (pl_open q)" and "pl_allowances q = pl_allowances p"
    and "protocol \<noteq> ProtocolTCP \<Longrightarrow> spans_of (pl_open q) protocol = spans_of (pl_open p) protocol"
    and "in_spans (spans_of (pl_open q) ProtocolTCP) port \<longleftrightarrow> 1 \<le> port \<and> port \<le> maxPort \<and> (port = api \<or> in_spans (spans_of (pl_open p) ProtocolTCP) port)"
proof -
  let ?set = "(setOf (spans_of (pl_open p) ProtocolTCP))(api := True)"
  have q: "q = p\<lparr>pl_open := AList.update ProtocolTCP (spans ?set) (pl_open p)\<rparr>"
    using assms(3) by (simp add: ForEnvironment_def Let_def api_def)
  have sp: "spans_of (pl_open q) protocol = (if protocol = ProtocolTCP then spans ?set else spans_of (pl_open p) protocol)" for protocol
    by (simp add: q spans_of_def update_conv)
  show "pl_allowances q = pl_allowances p" by (simp add: q)
  show "spans_of (pl_open q) protocol = spans_of (pl_open p) protocol" if "protocol \<noteq> ProtocolTCP" using that by (simp add: sp)
  show "sound_spans (pl_open q)" using assms(2) spans_sound unfolding sound_spans_def sp by (auto split: if_splits)
  show "in_spans (spans_of (pl_open q) ProtocolTCP) port \<longleftrightarrow> 1 \<le> port \<and> port \<le> maxPort \<and> (port = api \<or> in_spans (spans_of (pl_open p) ProtocolTCP) port)"
    by (auto simp: sp in_spans_spans setOf_spans)
qed

section \<open>Exceptions of an allowance\<close>

lemma ParsePrefix_bits: "ParsePrefix s = Some p \<Longrightarrow> snd p \<le> BitLen (fst p)"
  by (auto simp: ParsePrefix_def Let_def split: option.splits if_splits)

lemma V4_range: "Is4 (fst p) \<Longrightarrow> \<exists>n. fst p = V4 n"
  by (cases "fst p") auto

text \<open>One closed range against an allowance: around it, inside it, or apart.\<close>

lemma closed_around:
  assumes "snd closed \<le> k" and "prefix_has closed (V4 n)" and "prefix_has (V4 n, k) (V4 a)"
  shows "prefix_has closed (V4 a)"
proof (cases closed)
  case (Pair c j)
  then obtain b where "c = V4 b" using assms(2) by (cases c) auto
  then show ?thesis using prefix_around [of b j n k a] assms Pair by simp
qed

lemma closed_apart:
  assumes "\<not> (snd closed \<le> k \<and> prefix_has closed (V4 n))" and "\<not> (k < snd closed \<and> prefix_has (V4 n, k) (fst closed))"
    and "prefix_has (V4 n, k) (V4 a)"
  shows "\<not> prefix_has closed (V4 a)"
proof
  assume h: "prefix_has closed (V4 a)"
  obtain c j where cj: "closed = (c, j)" by (cases closed)
  then obtain b where b: "c = V4 b" using h by (cases c) auto
  show False
  proof (cases "j \<le> k")
    case True
    then show False using prefixes_meet [of n k a b j] assms h cj b by simp
  next
    case False
    then show False using prefixes_meet [of b j a n k] assms h cj b by simp
  qed
qed

lemma clip_has:
  assumes "\<forall>x \<in> set except. ParsePrefix x \<noteq> None" and in_range: "prefix_has (V4 n, k) (V4 a)"
  shows "(case clip (V4 n, k) except of None \<Rightarrow> list_ex (\<lambda>x. cidr_has x a) except
    | Some inside \<Rightarrow> list_ex (\<lambda>x. cidr_has x a) inside \<longleftrightarrow> list_ex (\<lambda>x. cidr_has x a) except)"
  using assms(1)
proof (induction except)
  case (Cons x except)
  obtain c where c: "ParsePrefix x = Some c" using Cons.prems by auto
  have has: "cidr_has x a = prefix_has (Masked c) (V4 a)" by (simp add: cidr_has_def c)
  have "\<forall>y \<in> set except. ParsePrefix y \<noteq> None" using Cons.prems by simp
  note IH = Cons.IH [OF this]
  consider (around) "snd (Masked c) \<le> k \<and> prefix_has (Masked c) (V4 n)"
    | (inside) "\<not> (snd (Masked c) \<le> k \<and> prefix_has (Masked c) (V4 n))" "k < snd (Masked c) \<and> prefix_has (V4 n, k) (fst (Masked c))"
    | (apart) "\<not> (snd (Masked c) \<le> k \<and> prefix_has (Masked c) (V4 n))" "\<not> (k < snd (Masked c) \<and> prefix_has (V4 n, k) (fst (Masked c)))" by blast
  then show ?case
  proof cases
    case around
    then have "cidr_has x a" using closed_around in_range has by blast
    then show ?thesis using around by (simp add: c Let_def del: Masked_has Masked_bits)
  next
    case inside
    then show ?thesis using IH by (cases "clip (V4 n, k) except") (simp_all only: clip.simps c option.case Let_def fst_conv snd_conv if_True if_False option.map list_ex_Nil_iff list_ex_Cons_iff simp_thms)
  next
    case apart
    then have "\<not> cidr_has x a" using closed_apart in_range has by blast
    then show ?thesis using IH apart by (simp only: clip.simps c option.case Let_def fst_conv snd_conv if_False list_ex_Nil_iff list_ex_Cons_iff simp_thms)
  qed
qed simp

lemma cidr_text: "k \<le> 32 \<Longrightarrow> cidr_has (prefix4_text n k) a = prefix_has (V4 n, k) (V4 a)"
  by (simp add: cidr_has_def ParsePrefix_text)

lemma clippedBlock_has:
  assumes "k \<le> 32" and "\<forall>x \<in> set except. ParsePrefix x \<noteq> None"
  shows "(case clippedBlock (V4 n, k) except of None \<Rightarrow> False | Some block \<Rightarrow> peer_has block (Outside a)) \<longleftrightarrow>
    prefix_has (V4 n, k) (V4 a) \<and> \<not> list_ex (\<lambda>x. cidr_has x a) except"
proof (cases "prefix_has (V4 n, k) (V4 a)")
  case True
  then show ?thesis using clip_has [OF assms(2) True] cidr_text [OF assms(1), of n a]
    by (cases "clip (V4 n, k) except") (simp_all only: clippedBlock_def fst_conv snd_conv addr.case option.map option.case peer_has.simps simp_thms)
next
  case False
  then show ?thesis using cidr_text [OF assms(1), of n a]
    by (cases "clip (V4 n, k) except") (simp_all only: clippedBlock_def fst_conv snd_conv addr.case option.map option.case peer_has.simps simp_thms)
qed

section \<open>What the policy closes and leaves open\<close>

lemma host_range_has: "cidr_has (prefix4_text n 32) a \<longleftrightarrow> a = n"
  by (simp add: cidr_text)

lemma hostRanges_has: "list_ex (\<lambda>x. cidr_has x a) (hostRanges ns) \<longleftrightarrow> a \<in> set ns"
  by (auto simp: hostRanges_def list_ex_iff host_range_has)

lemma hostRanges_parse: "x \<in> set (hostRanges ns) \<Longrightarrow> ParsePrefix x \<noteq> None"
  by (auto simp: hostRanges_def ParsePrefix_text)

lemma anywhere_has: "cidr_has anywhereCIDR a"
proof -
  have "ParsePrefix anywhereCIDR = Some (V4 0, 0)" by code_simp
  moreover have "drop_bit 32 a = 0" by (rule bit_word_eqI) (auto simp: bit_simps dest: bit_imp_le_length)
  ultimately show ?thesis by (simp add: cidr_has_def)
qed

lemma metadata_parse: "ParsePrefix cloudMetadataCIDR = Some (V4 0xa9fe0000, 16)"
  by code_simp

lemma metadata_has: "cidr_has cloudMetadataCIDR a \<longleftrightarrow> drop_bit 16 a = 0xa9fe"
  by (simp add: cidr_has_def metadata_parse)

text \<open>The rules a plan is written as, against the ranges it opens.\<close>

definition sound_allowances :: "(ip_prefix \<times> port_map) list \<Rightarrow> bool" where
  "sound_allowances as \<longleftrightarrow> (\<forall>(p, m) \<in> set as. (\<exists>n k. p = (V4 n, k) \<and> k \<le> 32) \<and> sound_spans m)"

lemma ported_rule_allows:
  "allows (ported_rule block m) d protocol port \<longleftrightarrow> peer_has block d \<and> list_ex (\<lambda>np. port_has np protocol port) (policyPorts m)"
  by (cases "policyPorts m = []") (auto simp: allows_def rule_allows_def ported_rule_def)

lemma allows_append: "allows (rs @ rs') d protocol port \<longleftrightarrow> allows rs d protocol port \<or> allows rs' d protocol port"
  by (simp add: allows_def)

lemma allows_concat: "allows (concat (map f xs)) d protocol port \<longleftrightarrow> list_ex (\<lambda>x. allows (f x) d protocol port) xs"
proof (induction xs)
  case Nil
  show ?case by (simp add: allows_def)
next
  case (Cons x xs)
  then show ?case by (simp add: allows_append)
qed

lemma allowance_rule_allows:
  assumes k: "k \<le> 32" and m: "sound_spans m" and ex: "\<forall>x \<in> set except. ParsePrefix x \<noteq> None"
    and protocol: "protocol \<in> set egressProtocols" and port: "1 \<le> port" "port \<le> maxPort"
  shows "allows (allowance_rule except ((V4 n, k), m)) (Outside a) protocol port \<longleftrightarrow>
    \<not> list_ex (\<lambda>x. cidr_has x a) except \<and> prefix_has (V4 n, k) (V4 a) \<and> in_spans (spans_of m protocol) port"
proof -
  have ports: "list_ex (\<lambda>np. port_has np protocol port) (policyPorts m) \<longleftrightarrow> in_spans (spans_of m protocol) port"
    using policyPorts_has [OF m port] protocol by blast
  have "allows (allowance_rule except ((V4 n, k), m)) (Outside a) protocol port \<longleftrightarrow>
      (case clippedBlock (V4 n, k) except of None \<Rightarrow> False | Some block \<Rightarrow> peer_has block (Outside a)) \<and> in_spans (spans_of m protocol) port"
    unfolding allowance_rule_def fst_conv snd_conv
    by (cases "clippedBlock (V4 n, k) except") (simp_all only: option.case ported_rule_allows ports, simp_all add: allows_def)
  then show ?thesis using clippedBlock_has [OF k ex, where n = n and a = a] by blast
qed

lemma plan_rules_allow:
  assumes "sound_spans (pl_open p)" and as: "sound_allowances (pl_allowances p)" and ex: "\<forall>x \<in> set except. ParsePrefix x \<noteq> None"
    and protocol: "protocol \<in> set egressProtocols" and port: "1 \<le> port" "port \<le> maxPort"
  shows "allows (plan_rules p except) (Outside a) protocol port \<longleftrightarrow> \<not> list_ex (\<lambda>x. cidr_has x a) except \<and>
    (in_spans (spans_of (pl_open p) protocol) port \<or>
     (\<exists>x \<in> set (pl_allowances p). prefix_has (fst x) (V4 a) \<and> in_spans (spans_of (snd x) protocol) port))"
proof -
  let ?closed = "list_ex (\<lambda>x. cidr_has x a) except"
  have main: "allows (ported_rule (IPBlock anywhereCIDR except) (pl_open p)) (Outside a) protocol port
      \<longleftrightarrow> \<not> ?closed \<and> in_spans (spans_of (pl_open p) protocol) port"
    using policyPorts_has [OF assms(1) port] protocol by (simp add: ported_rule_allows anywhere_has)
  have one: "allows (allowance_rule except x) (Outside a) protocol port \<longleftrightarrow> \<not> ?closed \<and> prefix_has (fst x) (V4 a) \<and> in_spans (spans_of (snd x) protocol) port"
    if "x \<in> set (pl_allowances p)" for x
  proof -
    obtain pre m where x: "x = (pre, m)" by (cases x)
    have "(\<exists>n k. pre = (V4 n, k) \<and> k \<le> 32) \<and> sound_spans m"
      using as that unfolding sound_allowances_def x by fast
    then obtain n k where "x = ((V4 n, k), m)" "k \<le> 32" "sound_spans m" using x by blast
    then show ?thesis using allowance_rule_allows [OF _ _ ex protocol port] by (simp only: fst_conv snd_conv)
  qed
  show ?thesis unfolding plan_rules_def allows_append allows_concat main list_ex_iff [of "\<lambda>x. allows (allowance_rule except x) _ _ _"] using one by blast
qed

lemma allowancePrefix_ok:
  assumes "allowancePrefix cidr = Inr p"
  shows "ParsePrefix cidr = Some p" and "\<exists>n k. p = (V4 n, k) \<and> k \<le> 32"
proof -
  have h: "ParsePrefix cidr = Some p" "Is4 (fst p)" using assms by (auto simp: allowancePrefix_def split: option.splits if_splits)
  then obtain n k where "p = (V4 n, k)" by (cases p; cases "fst p") auto
  with h show "ParsePrefix cidr = Some p" "\<exists>n k. p = (V4 n, k) \<and> k \<le> 32" using ParsePrefix_bits by fastforce+
qed

definition allowance_opens :: "tenant_egress \<Rightarrow> 32 word \<Rightarrow> string \<Rightarrow> int \<Rightarrow> bool" where
  "allowance_opens e a protocol port =
     list_ex (\<lambda>al. cidr_has (al_cidr al) a \<and> list_ex (\<lambda>r. in_range r protocol port) (al_ports al)) (elems (te_allow e))"

lemma allow_parses:
  assumes "egress_problems e = []" and "al \<in> set (elems (te_allow e))"
  obtains p where "allowancePrefix (al_cidr al) = Inr p"
proof -
  obtain i where "i < length (elems (te_allow e))" "elems (te_allow e) ! i = al" using assms(2) by (auto simp: in_set_conv_nth)
  then have "(i, al) \<in> set (enumerate 0 (elems (te_allow e)))" by (simp add: in_set_enumerate_eq)
  then have "(case allowancePrefix (al_cidr al) of Inl p \<Rightarrow> [InAllow i p] | Inr _ \<Rightarrow> []) = []" using assms(1) unfolding egress_problems_def by fastforce
  then show ?thesis using that by (cases "allowancePrefix (al_cidr al)") auto
qed

lemma plan_allowances:
  assumes plan: "PlanEgress (Some e) = Inr (Some plan)"
  shows "sound_allowances (pl_allowances plan)"
    and "1 \<le> port \<Longrightarrow> port \<le> maxPort \<Longrightarrow> (\<exists>x \<in> set (pl_allowances plan). prefix_has (fst x) (V4 a) \<and> in_spans (spans_of (snd x) protocol) port) \<longleftrightarrow> allowance_opens e a protocol port"
proof -
  have mem: "x \<in> set (pl_allowances plan) \<longleftrightarrow> (\<exists>al \<in> set (elems (te_allow e)). \<exists>p. allowancePrefix (al_cidr al) = Inr p \<and> x = (p, spansByProtocol (al_ports al)))" for x
    unfolding PlanEgress_plan(4) [OF plan] by (simp split: sum.splits) (metis Inr_inject sum.distinct(1))
  show "sound_allowances (pl_allowances plan)" unfolding sound_allowances_def
    using mem allowancePrefix_ok(2) spansByProtocol_sound by fastforce
  assume port: "1 \<le> port" "port \<le> maxPort"
  have each: "allowancePrefix (al_cidr al) = Inr p \<Longrightarrow> cidr_has (al_cidr al) a = prefix_has p (V4 a)" for al p
    using allowancePrefix_ok(1) by (simp add: cidr_has_def)
  show "(\<exists>x \<in> set (pl_allowances plan). prefix_has (fst x) (V4 a) \<and> in_spans (spans_of (snd x) protocol) port) \<longleftrightarrow> allowance_opens e a protocol port" (is "?l \<longleftrightarrow> _")
  proof -
    have "?l \<longleftrightarrow> (\<exists>al \<in> set (elems (te_allow e)). \<exists>p. allowancePrefix (al_cidr al) = Inr p \<and> prefix_has p (V4 a) \<and> list_ex (\<lambda>r. in_range r protocol port) (al_ports al))"
      using spansByProtocol_has port unfolding Bex_def mem by fastforce
    also have "\<dots> \<longleftrightarrow> allowance_opens e a protocol port"
      unfolding allowance_opens_def list_ex_iff [of _ "elems (te_allow e)"] using each allow_parses [OF PlanEgress_plan(1) [OF plan]] by metis
    finally show ?thesis .
  qed
qed

section \<open>The policy of an environment\<close>

text \<open>The addresses that no limit opens: the link-local range (the cloud's credentials service), and the cluster's machines. The API port of
  the control plane's own addresses is the one thing of them that stays open.\<close>

definition off_limits :: "net_node list \<Rightarrow> 32 word \<Rightarrow> bool" where
  "off_limits nodes a \<longleftrightarrow> drop_bit 16 a = 0xa9fe \<or> a \<in> set (concat (map (\<lambda>node. nodeHostAddresses node @ nodePodNetworkAddresses node) nodes))"

definition control_plane_has :: "net_node list \<Rightarrow> 32 word \<Rightarrow> bool" where
  "control_plane_has nodes a \<longleftrightarrow>
     (let own = concat (map nodeHostAddresses (filter IsControlPlaneNode nodes))
      in a \<in> set (if own = [] then concat (map nodeHostAddresses nodes) else own))"

definition api_port :: "int \<Rightarrow> int" where
  "api_port apiPort = (if apiPort \<le> 0 then 6443 else apiPort)"

definition policy_exceptions :: "net_node list \<Rightarrow> int \<Rightarrow> string list" where
  "policy_exceptions nodes apiPort = cloudMetadataCIDR # nw_blocked (NodeNetworkOf nodes apiPort)"

lemma exceptions_parse: "\<forall>x \<in> set (policy_exceptions nodes apiPort). ParsePrefix x \<noteq> None"
  using hostRanges_parse metadata_parse by (auto simp: policy_exceptions_def NodeNetworkOf_def Let_def)

lemma exceptions_have: "list_ex (\<lambda>x. cidr_has x a) (policy_exceptions nodes apiPort) \<longleftrightarrow> off_limits nodes a"
  by (simp add: policy_exceptions_def NodeNetworkOf_def Let_def metadata_has hostRanges_has off_limits_def)

definition api_rule :: "node_network \<Rightarrow> egress_rule list" where
  "api_rule nw = (if nw_api_addresses nw = [] then [] else [\<lparr>er_to = map (\<lambda>address. IPBlock address []) (nw_api_addresses nw), er_ports = [tcpPort (nw_api_port nw)]\<rparr>])"

lemma api_rule_allows:
  "allows (api_rule (NodeNetworkOf nodes apiPort)) (Outside a) protocol port \<longleftrightarrow> protocol = ''TCP'' \<and> port = api_port apiPort \<and> control_plane_has nodes a"
proof -
  let ?own = "concat (map nodeHostAddresses (filter IsControlPlaneNode nodes))"
  let ?cp = "if ?own = [] then concat (map nodeHostAddresses nodes) else ?own"
  have nw: "nw_api_addresses (NodeNetworkOf nodes apiPort) = hostRanges ?cp" "nw_api_port (NodeNetworkOf nodes apiPort) = api_port apiPort"
    by (simp_all only: NodeNetworkOf_def Let_def node_network.select_convs api_port_def DefaultAPIServerPort_def)
  have "list_ex (\<lambda>x. cidr_has x a) (hostRanges ?cp) \<longleftrightarrow> control_plane_has nodes a"
    unfolding hostRanges_has control_plane_has_def Let_def ..
  moreover have "list_ex (\<lambda>q. peer_has q (Outside a)) (map (\<lambda>address. IPBlock address []) xs) = list_ex (\<lambda>x. cidr_has x a) xs" for xs
    by (induction xs) auto
  moreover have "port_has (tcpPort (api_port apiPort)) protocol port \<longleftrightarrow> protocol = ''TCP'' \<and> port = api_port apiPort"
    by (auto simp: port_has_def tcpPort_def ProtocolTCP_def)
  ultimately show ?thesis
    by (cases "hostRanges ?cp = []") (auto simp only: api_rule_def nw allows_def rule_allows_def list_ex_Nil_iff list_ex_Cons_iff egress_rule.select_convs
      if_True if_False simp_thms list.distinct map_is_Nil_conv)
qed

lemma policy_rules:
  "TenantCloudMetadataPolicy (Some (NodeNetworkOf nodes apiPort)) (Some p) =
     (if closesNothing p then [\<lparr>er_to = [EveryPod, IPBlock anywhereCIDR (policy_exceptions nodes apiPort)], er_ports = []\<rparr>]
      else \<lparr>er_to = [EveryPod], er_ports = []\<rparr> # plan_rules p (policy_exceptions nodes apiPort)) @ api_rule (NodeNetworkOf nodes apiPort)"
  by (simp only: TenantCloudMetadataPolicy_def Let_def option.case policy_exceptions_def api_rule_def)

lemma closesNothing_open: "closesNothing p \<Longrightarrow> protocol \<in> set egressProtocols \<Longrightarrow> 1 \<le> port \<Longrightarrow> port \<le> maxPort \<Longrightarrow> in_spans (spans_of (pl_open p) protocol) port"
  by (auto simp: closesNothing_def in_spans_def list_all_iff)

lemma policy_allows:
  assumes "sound_spans (pl_open p)" and "sound_allowances (pl_allowances p)" and "protocol \<in> set egressProtocols" and "1 \<le> port" and "port \<le> maxPort"
  shows "allows (TenantCloudMetadataPolicy (Some (NodeNetworkOf nodes apiPort)) (Some p)) (Outside a) protocol port \<longleftrightarrow>
    \<not> off_limits nodes a \<and> (in_spans (spans_of (pl_open p) protocol) port \<or>
      (\<exists>x \<in> set (pl_allowances p). prefix_has (fst x) (V4 a) \<and> in_spans (spans_of (snd x) protocol) port)) \<or>
    protocol = ''TCP'' \<and> port = api_port apiPort \<and> control_plane_has nodes a"
proof (cases "closesNothing p")
  case True
  have "allows [\<lparr>er_to = [EveryPod, IPBlock anywhereCIDR (policy_exceptions nodes apiPort)], er_ports = []\<rparr>] (Outside a) protocol port \<longleftrightarrow> \<not> off_limits nodes a"
    by (simp add: allows_def rule_allows_def anywhere_has exceptions_have)
  then show ?thesis using closesNothing_open [OF True assms(3-5)] True
    by (simp only: policy_rules if_True allows_append api_rule_allows simp_thms)
next
  case False
  have "allows (\<lparr>er_to = [EveryPod], er_ports = []\<rparr> # rs) (Outside a) protocol port = allows rs (Outside a) protocol port" for rs
    by (simp add: allows_def rule_allows_def)
  then show ?thesis using plan_rules_allow [OF assms(1,2) exceptions_parse assms(3-5), of nodes apiPort a] False
    by (simp add: policy_rules allows_append api_rule_allows exceptions_have)
qed

lemma policy_pods: "allows (TenantCloudMetadataPolicy (Some (NodeNetworkOf nodes apiPort)) (Some p)) Pod protocol port"
  by (simp add: policy_rules allows_def rule_allows_def)

text \<open>
  C40. The network policy of an environment says exactly what the organization's limits say. Under limits that could be planned, for a TCP or UDP
  port and an IPv4 address outside the pod network: the pods of the environment may connect to it if and only if the address is neither link-local nor
  one of the cluster's machines, and the limits leave the port open, or it is the API's TCP port, or an allowance whose range contains the address
  has the port in one of its ranges; or if it is the API's TCP port at the control plane's own address. Every pod of the cluster stays reachable on
  every port.\<close>

theorem egress_policy_exact:
  assumes "PlanEgress (Some e) = Inr (Some plan)" and "protocol = ''TCP'' \<or> protocol = ''UDP''" and "1 \<le> port" and "port \<le> 65535" and "apiPort \<le> 65535"
  shows "(allows (TenantCloudMetadataPolicy (Some (NodeNetworkOf nodes apiPort)) (ForEnvironment (Some plan) apiPort)) (Outside a) protocol port \<longleftrightarrow>
      \<not> off_limits nodes a \<and> (limit_open e protocol port \<or> protocol = ''TCP'' \<and> port = api_port apiPort \<or> allowance_opens e a protocol port) \<or>
      protocol = ''TCP'' \<and> port = api_port apiPort \<and> control_plane_has nodes a) \<and>
    allows (TenantCloudMetadataPolicy (Some (NodeNetworkOf nodes apiPort)) (ForEnvironment (Some plan) apiPort)) Pod protocol port"
proof -
  obtain q where q: "ForEnvironment (Some plan) apiPort = Some q" by (simp add: ForEnvironment_def Let_def)
  have p: "protocol \<in> set egressProtocols" "port \<le> maxPort"
    using assms(2,4) by (auto simp: egressProtocols_def ProtocolTCP_def ProtocolUDP_def maxPort_def)
  note plan = PlanEgress_plan [OF assms(1)] and allow = plan_allowances [OF assms(1)]
  note env = ForEnvironment_plan [OF plan(2) q]
  have api: "(if apiPort \<le> 0 \<or> apiPort > maxPort then DefaultAPIServerPort else apiPort) = api_port apiPort"
    using assms(5) by (simp add: maxPort_def DefaultAPIServerPort_def api_port_def)
  have "in_spans (spans_of (pl_open q) protocol) port \<longleftrightarrow> limit_open e protocol port \<or> protocol = ''TCP'' \<and> port = api_port apiPort"
    using env(3) [of protocol] env(4) [of port] plan(3) [OF p(1), of port] p assms(3)
    by (cases "protocol = ProtocolTCP") (auto simp: api ProtocolTCP_def)
  moreover have "sound_allowances (pl_allowances q)" using allow(1) env(2) by simp
  ultimately show ?thesis
    using policy_allows [OF env(1) _ p(1) assms(3) p(2), of nodes apiPort a] policy_pods [of nodes apiPort q] allow(2) [OF assms(3) p(2), of a protocol]
    unfolding q env(2) by blast
qed

text \<open>Limits that close mail but for one server, on a cluster of one control plane node: mail leaves to that server only, and
  neither the node's SSH port nor the credentials service is reached, while the node's API port is.\<close>

definition mail_server_only :: tenant_egress where
  "mail_server_only = \<lparr>te_mail = ''Blocked'', te_allowed = None, te_blocked = None,
     te_allow = Some [\<lparr>al_cidr = ''203.0.113.25/32'', al_ports = [\<lparr>pr_port = 587, pr_end = None, pr_protocol = []\<rparr>]\<rparr>], te_mining = []\<rparr>"

definition one_node :: net_node where
  "one_node = \<lparr>nn_labels = [(''node-role.kubernetes.io/control-plane'', ''true'')], nn_addresses = [(''InternalIP'', ''10.0.0.5'')],
     nn_podCIDRs = [''10.42.0.0/24''], nn_podCIDR = []\<rparr>"

lemma one_node_addresses: "nodeHostAddresses one_node = [0x0a000005]" "nodePodNetworkAddresses one_node = [0x0a2a0000, 0x0a2a0001]" "IsControlPlaneNode one_node"
  by code_simp+

lemma mail_server_plan: "\<exists>plan. PlanEgress (Some mail_server_only) = Inr (Some plan)"
proof (rule PlanEgress_ok)
  show "egress_problems mail_server_only = []" by code_simp
  show "limit_open mail_server_only ''TCP'' 443" by code_simp
qed (simp_all add: egressProtocols_def ProtocolTCP_def maxPort_def)

lemma mail_server_opens: "allowance_opens mail_server_only 0xcb007119 ''TCP'' 587" "\<not> allowance_opens mail_server_only 0x08080808 ''TCP'' 587"
  by code_simp+

theorem egress_policy_exact_witness:
  "\<exists>plan. PlanEgress (Some mail_server_only) = Inr (Some plan) \<and>
     (let policy = TenantCloudMetadataPolicy (Some (NodeNetworkOf [one_node] 0)) (ForEnvironment (Some plan) 0)
      in allows policy (Outside 0xcb007119) ''TCP'' 587 \<and> \<not> allows policy (Outside 0x08080808) ''TCP'' 587 \<and>
         \<not> allows policy (Outside 0xa9fea9fe) ''TCP'' 80 \<and> \<not> allows policy (Outside 0x0a000005) ''TCP'' 22 \<and> allows policy (Outside 0x0a000005) ''TCP'' 6443)"
proof -
  obtain plan where plan: "PlanEgress (Some mail_server_only) = Inr (Some plan)" using mail_server_plan ..
  note exact = egress_policy_exact [OF plan _ _ _, of "''TCP''" _ 0 "[one_node]", THEN conjunct1, simplified]
  have lim: "\<not> limit_open mail_server_only ''TCP'' 587" by code_simp
  have off: "off_limits [one_node] a \<longleftrightarrow> drop_bit 16 a = 0xa9fe \<or> a \<in> {0x0a000005, 0x0a2a0000, 0x0a2a0001}" for a
    by (simp add: off_limits_def one_node_addresses)
  have api: "control_plane_has [one_node] a \<longleftrightarrow> a = 0x0a000005" "api_port 0 = 6443" for a
    by (simp_all add: control_plane_has_def one_node_addresses api_port_def)
  show ?thesis using plan exact mail_server_opens lim unfolding Let_def by (intro exI [of _ plan]) (simp add: off api)
qed

end
