(* ===== verification/Registry_Isolation.thy ===== *)
theory Registry_Isolation
  imports Netguard Kube_Types
begin

section \<open>Whose images are whose (pkg/platform/registry_isolation.go)\<close>

text \<open>
  With \<open>spec.tenancy.registry\<close> set, parts of registries belong to the platform and to organizations, and an organization runs and pushes only
  what is its own or nobody's. The one spelling of a repository (\<open>CanonicalRepository\<close>), the claims (\<open>NewRegistryClaims\<close>), who may use an
  image (\<open>Allows\<close>), and the registry and login a build gets (\<open>BuildRegistry\<close>).

  The reads of the API server are a parameter, \<open>reader\<close>: each may fail. A \<open>.dockerconfigjson\<close> is its text with what \<open>json.Unmarshal\<close> reads from it, and
  an \<open>auth\<close> what its base64 stands for. The words of a refusal are left out, its reason is kept.
\<close>

subsection \<open>Repositories\<close>

definition trim_right_slashes :: "string \<Rightarrow> string" where
  "trim_right_slashes s = rev (dropWhile (\<lambda>c. c = CHR ''/'') (rev s))"

definition trim_slashes :: "string \<Rightarrow> string" where
  "trim_slashes s = trim_right_slashes (dropWhile (\<lambda>c. c = CHR ''/'') s)"

definition ImageRepository :: "string \<Rightarrow> string" where
  "ImageRepository img =
     (let img = trim_space img;
          img = (case index_byte (CHR ''@'') img of None \<Rightarrow> img | Some i \<Rightarrow> take i img)
      in case last_index_byte (CHR '':'') img of
           None \<Rightarrow> img
         | Some colon \<Rightarrow> (case last_index_byte (CHR ''/'') img of
               None \<Rightarrow> take colon img
             | Some slash \<Rightarrow> if colon > slash then take colon img else img))"

definition trim_suffix :: "string \<Rightarrow> string \<Rightarrow> string" where
  "trim_suffix s suffix = (if has_suffix suffix s then take (length s - length suffix) s else s)"

definition CanonicalRepository :: "string \<Rightarrow> string" where
  "CanonicalRepository img =
     (let repository = to_lower (trim_slashes (ImageRepository (trim_right_slashes (trim_space img))))
      in if repository = [] then []
         else let (host, rest, hasPath) = (case index_byte (CHR ''/'') repository of
                     None \<Rightarrow> (repository, [], False)
                   | Some i \<Rightarrow> (take i repository, drop (i + 1) repository, True));
                  (host, rest) = (if \<not> hasPath \<or> (CHR ''.'' \<notin> set host \<and> CHR '':'' \<notin> set host \<and> host \<noteq> ''localhost'')
                     then (''docker.io'', repository) else (host, rest));
                  host = trim_suffix host '':443'';
                  host = (if host \<in> {''index.docker.io'', ''registry-1.docker.io'', ''registry.hub.docker.com''} then ''docker.io'' else host);
                  rest = (if host = ''docker.io'' \<and> CHR ''/'' \<notin> set rest then ''library/'' @ rest else rest)
              in host @ ''/'' @ rest)"

definition within :: "string \<Rightarrow> string \<Rightarrow> bool" where
  "within repository prefix \<longleftrightarrow> repository = prefix \<or> has_prefix (prefix @ ''/'') repository"

definition overlap :: "string \<Rightarrow> string \<Rightarrow> bool" where
  "overlap a b \<longleftrightarrow> within a b \<or> within b a"

definition NamespacedImage :: "string \<Rightarrow> string \<Rightarrow> string \<Rightarrow> string" where
  "NamespacedImage repository project app =
     (let base = ImageRepository repository;
          img = trim_right_slashes base @ ''/'' @ project @ ''/'' @ app;
          tag = (case cut_prefix base (trim_space repository) of None \<Rightarrow> trim_space repository | Some t \<Rightarrow> t)
      in if has_prefix '':'' tag then img @ tag else img)"

subsection \<open>Claims\<close>

record registry_claim =
  cl_repository :: string
  cl_org :: string
  cl_contested :: bool

record registry_claims =
  rc_claims :: "registry_claim list"
  rc_own :: "(string \<times> string) list"

record registry_spec =
  rg_repository :: string
  rg_credential :: "string option"

record organization =
  og_name :: string
  og_registry :: "registry_spec option"

definition ownConflicts :: "(string \<times> string) list \<Rightarrow> string \<Rightarrow> string \<Rightarrow> string \<Rightarrow> bool" where
  "ownConflicts own platformRepo org repository \<longleftrightarrow>
     platformRepo \<noteq> [] \<and> overlap repository platformRepo \<and> \<not> within repository (platformRepo @ ''/'' @ org) \<or>
     list_ex (\<lambda>(other, theirs). other \<noteq> org \<and> overlap repository theirs) own"

definition own_registries :: "organization list \<Rightarrow> (string \<times> string) list" where
  "own_registries orgs = foldl (\<lambda>own o'. case og_registry o' of
       None \<Rightarrow> own
     | Some registry \<Rightarrow> if CanonicalRepository (rg_repository registry) \<noteq> [] then AList.update (og_name o') (CanonicalRepository (rg_repository registry)) own else own) [] orgs"

definition own_claim :: "(string \<times> string) list \<Rightarrow> string \<Rightarrow> string \<Rightarrow> registry_claim" where
  "own_claim own platformRepo name = (let repository = lookup0 own name in
     \<lparr>cl_repository = repository, cl_org = name, cl_contested = ownConflicts own platformRepo name repository\<rparr>)"

definition NewRegistryClaims :: "string \<Rightarrow> organization list \<Rightarrow> registry_claims" where
  "NewRegistryClaims platformRepository orgs =
     (let platformRepo = CanonicalRepository platformRepository;
          own = own_registries orgs
      in \<lparr>rc_claims = (if platformRepo \<noteq> [] then \<lparr>cl_repository = platformRepo, cl_org = [], cl_contested = False\<rparr>
              # map (\<lambda>o'. \<lparr>cl_repository = platformRepo @ ''/'' @ og_name o', cl_org = og_name o', cl_contested = False\<rparr>) orgs else [])
              @ map (own_claim own platformRepo) (sort (map fst own)),
          rc_own = own\<rparr>)"

definition WouldConflict :: "registry_claims \<Rightarrow> string \<Rightarrow> string \<Rightarrow> string \<Rightarrow> bool" where
  "WouldConflict c platformRepository org repository \<longleftrightarrow>
     CanonicalRepository repository \<noteq> [] \<and> ownConflicts (rc_own c) (CanonicalRepository platformRepository) org (CanonicalRepository repository)"

definition OwnContested :: "registry_claims \<Rightarrow> string \<Rightarrow> bool" where
  "OwnContested c org =
     (case map_of (rc_own c) org of
        None \<Rightarrow> False
      | Some repository \<Rightarrow> (case find (\<lambda>claim. cl_org claim = org \<and> cl_repository claim = repository) (rc_claims c) of
            None \<Rightarrow> False
          | Some claim \<Rightarrow> cl_contested claim))"

text \<open>The longest claim so far, who owns a claim of that length, and whether one of them is contested.\<close>

definition closest :: "string \<Rightarrow> int \<times> string set \<times> bool \<Rightarrow> registry_claim \<Rightarrow> int \<times> string set \<times> bool" where
  "closest repository st claim =
     (case st of (longest, owners, contested) \<Rightarrow>
        if \<not> within repository (cl_repository claim) then st
        else if int (length (cl_repository claim)) > longest then (int (length (cl_repository claim)), {cl_org claim}, cl_contested claim)
        else if int (length (cl_repository claim)) = longest then (longest, insert (cl_org claim) owners, contested \<or> cl_contested claim)
        else st)"

definition Allows :: "registry_claims \<Rightarrow> string \<Rightarrow> string \<Rightarrow> bool" where
  "Allows c org img =
     (let repository = CanonicalRepository img
      in if repository = [] then True
         else case foldl (closest repository) (-1, {}, False) (rc_claims c) of (longest, owners, contested) \<Rightarrow>
           if longest < 0 then True
           else org \<noteq> [] \<and> \<not> contested \<and> card owners = 1 \<and> org \<in> owners)"

subsection \<open>The policy for one project\<close>

record auth_entry =
  ae_auth :: "string option" \<comment> \<open>what the base64 of \<open>auth\<close> stands for\<close>
  ae_username :: string
  ae_password :: string
  ae_identity :: string
  ae_token :: string

record docker_file =
  df_text :: string
  df_auths :: "auth_entry list option"

record registry_secret =
  rs_labels :: labels
  rs_config :: docker_file

record tenancy =
  tn_registry :: "string option"

record platform_config =
  pf_tenancy :: "tenancy option"
  pf_registry :: registry_spec

datatype read_error = NotFound | ReadFailed string

record reader =
  rd_config :: "read_error + platform_config"
  rd_project :: "string \<Rightarrow> read_error + string" \<comment> \<open>the organization a project names\<close>
  rd_orgs :: "read_error + organization list"
  rd_secret :: "string \<Rightarrow> string \<Rightarrow> read_error + registry_secret"

record isolation =
  ri_project :: string
  ri_org :: string
  ri_organization :: "organization option"
  ri_platform :: registry_spec
  ri_claims :: registry_claims

datatype refusal = OwnRegistryRequired | PlatformCredential | ForeignRepository

datatype registry_error = RegistryRefused refusal | RegistryFailed read_error

record build_app =
  ba_name :: string
  ba_namespace :: string
  ba_project :: string
  ba_registry :: registry_spec

definition SystemNamespace :: string where "SystemNamespace = ''geass-system''"
definition PlatformRegistrySecretName :: string where "PlatformRegistrySecretName = ''platform-registry''"
definition LabelOrgBuild :: string where "LabelOrgBuild = ''geass.dev/org-build''"
definition orgRegistrySecretPrefix :: string where "orgRegistrySecretPrefix = ''org-registry-''"

definition OrgRegistrySecretName :: "string \<Rightarrow> string" where
  "OrgRegistrySecretName org = ''org-registry-'' @ org"

definition RegistryPolicyOf :: "platform_config option \<Rightarrow> string" where
  "RegistryPolicyOf config =
     (case config of None \<Rightarrow> []
      | Some c \<Rightarrow> (case pf_tenancy c of None \<Rightarrow> []
         | Some t \<Rightarrow> (case tn_registry t of None \<Rightarrow> []
            | Some policy \<Rightarrow> if policy \<noteq> [] then policy else ''requireOwnRegistry'')))"

definition ResolveRegistryIsolation :: "reader \<Rightarrow> string \<Rightarrow> read_error + isolation option" where
  "ResolveRegistryIsolation rd project =
     (case rd_config rd of
        Inl NotFound \<Rightarrow> Inr None
      | Inl err \<Rightarrow> Inl err
      | Inr config \<Rightarrow>
          if RegistryPolicyOf (Some config) = [] \<or> project = [] then Inr None
          else let resolve = (\<lambda>org. case rd_orgs rd of
                   Inl err \<Rightarrow> Inl err
                 | Inr orgs \<Rightarrow> Inr (Some \<lparr>ri_project = project, ri_org = org,
                     ri_organization = (if org = [] then None else find (\<lambda>o'. og_name o' = org) (rev orgs)),
                     ri_platform = pf_registry config, ri_claims = NewRegistryClaims (rg_repository (pf_registry config)) orgs\<rparr>))
               in (case rd_project rd project of
                     Inl NotFound \<Rightarrow> resolve []
                   | Inl err \<Rightarrow> Inl err
                   | Inr org \<Rightarrow> if org = [] then Inr None else resolve org))"

definition ownRegistry :: "isolation \<Rightarrow> registry_spec option" where
  "ownRegistry i =
     (case ri_organization i of None \<Rightarrow> None
      | Some o' \<Rightarrow> (case og_registry o' of None \<Rightarrow> None
         | Some registry \<Rightarrow> if rg_repository registry = [] then None else Some registry))"

definition CheckDestination :: "isolation \<Rightarrow> string \<Rightarrow> registry_error option" where
  "CheckDestination i repository =
     (if \<not> Allows (ri_claims i) (ri_org i) repository then Some (RegistryRefused ForeignRepository) else None)"

definition CheckImage :: "isolation \<Rightarrow> string \<Rightarrow> registry_error option" where
  "CheckImage i img =
     (if has_prefix ''sha256:'' (to_lower (trim_space img)) then Some (RegistryRefused ForeignRepository)
      else if \<not> Allows (ri_claims i) (ri_org i) img then Some (RegistryRefused ForeignRepository) else None)"

definition registryLogins :: "docker_file \<Rightarrow> string list" where
  "registryLogins config =
     (case df_auths config of None \<Rightarrow> []
      | Some entries \<Rightarrow> concat (map (\<lambda>e.
          (case ae_auth e of None \<Rightarrow> [] | Some decoded \<Rightarrow> if decoded \<noteq> [] then [''login:'' @ decoded] else []) @
          (if ae_username e \<noteq> [] \<or> ae_password e \<noteq> [] then [''login:'' @ ae_username e @ '':'' @ ae_password e] else []) @
          map (\<lambda>t. ''token:'' @ t) (filter (\<lambda>t. t \<noteq> []) [ae_identity e, ae_token e])) entries))"

definition HoldsLoginOf :: "docker_file \<Rightarrow> docker_file \<Rightarrow> bool" where
  "HoldsLoginOf candidate of' =
     (if df_text candidate = [] \<or> df_text of' = [] then False
      else if trim_space (df_text candidate) = trim_space (df_text of') then True
      else list_ex (\<lambda>login. login \<in> set (registryLogins of')) (registryLogins candidate))"

definition platform_names :: "isolation \<Rightarrow> string list" where
  "platform_names i = PlatformRegistrySecretName # (case rg_credential (ri_platform i) of
     None \<Rightarrow> [] | Some name \<Rightarrow> if name \<noteq> [] \<and> name \<noteq> PlatformRegistrySecretName then [name] else [])"

fun holds_any :: "reader \<Rightarrow> docker_file \<Rightarrow> string list \<Rightarrow> read_error + bool" where
  "holds_any rd config [] = Inr False"
| "holds_any rd config (name # names) =
     (case rd_secret rd SystemNamespace name of
        Inl NotFound \<Rightarrow> holds_any rd config names
      | Inl err \<Rightarrow> Inl err
      | Inr secret \<Rightarrow> if HoldsLoginOf config (rs_config secret) then Inr True else holds_any rd config names)"

definition HoldsPlatformLogin :: "reader \<Rightarrow> isolation \<Rightarrow> docker_file \<Rightarrow> read_error + bool" where
  "HoldsPlatformLogin rd i config = (if df_text config = [] then Inr False else holds_any rd config (platform_names i))"

definition CheckCredential :: "reader \<Rightarrow> isolation \<Rightarrow> string \<Rightarrow> string option \<Rightarrow> registry_error option" where
  "CheckCredential rd i namespace ref =
     (case ref of None \<Rightarrow> None
      | Some name \<Rightarrow>
          if name = [] then None
          else if name = PlatformRegistrySecretName \<or> rg_credential (ri_platform i) = Some name then Some (RegistryRefused PlatformCredential)
          else if has_prefix orgRegistrySecretPrefix name \<and> (ri_org i = [] \<or> name \<noteq> OrgRegistrySecretName (ri_org i)) then Some (RegistryRefused PlatformCredential)
          else (case rd_secret rd namespace name of
              Inl NotFound \<Rightarrow> None
            | Inl err \<Rightarrow> Some (RegistryFailed err)
            | Inr secret \<Rightarrow>
                let owner = lookup0 (rs_labels secret) LabelOrgBuild in
                if owner \<noteq> [] \<and> owner \<noteq> ri_org i then Some (RegistryRefused PlatformCredential)
                else (case HoldsPlatformLogin rd i (rs_config secret) of
                    Inl err \<Rightarrow> Some (RegistryFailed err)
                  | Inr holds \<Rightarrow> if holds then Some (RegistryRefused PlatformCredential) else None)))"

definition BuildRegistry :: "reader \<Rightarrow> isolation \<Rightarrow> build_app \<Rightarrow> registry_error + string \<times> string option" where
  "BuildRegistry rd i app =
     (let checked = (\<lambda>repository credential. case CheckDestination i repository of
            Some err \<Rightarrow> Inl err
          | None \<Rightarrow> (case CheckCredential rd i (ba_namespace app) credential of
              Some err \<Rightarrow> Inl err
            | None \<Rightarrow> Inr (repository, credential)));
          credential = rg_credential (ba_registry app)
      in if rg_repository (ba_registry app) \<noteq> [] then checked (rg_repository (ba_registry app)) credential
         else (case ownRegistry i of
             None \<Rightarrow> Inl (RegistryRefused OwnRegistryRequired)
           | Some own \<Rightarrow>
               if OwnContested (ri_claims i) (ri_org i) then Inl (RegistryRefused ForeignRepository)
               else checked (NamespacedImage (rg_repository own) (ba_project app) (ba_name app))
                      (if credential = None then rg_credential own else credential)))"

section \<open>The closest claim\<close>

lemma within_refl [simp]: "within r r"
  by (simp add: within_def)

lemma within_length: "within r p \<Longrightarrow> length p \<le> length r"
  by (auto simp: within_def has_prefix_iff)

text \<open>Two claims around one repository are one around the other.\<close>

lemma within_nested:
  assumes "within r p" and "within r q" and "length p \<le> length q"
  shows "within q p"
proof (cases "length p = length q")
  case True
  then have "p = q" using assms(1,2) by (auto simp: within_def has_prefix_iff append_eq_append_conv2)
  then show ?thesis by simp
next
  case False
  then have "length (p @ ''/'') \<le> length q" using assms(3) by simp
  moreover have "has_prefix (p @ ''/'') r" using assms(1,2) False within_length [OF assms(2)] assms(3) by (auto simp: within_def)
  moreover have "take (length q) r = q" using assms(2) by (auto simp: within_def has_prefix_iff)
  ultimately have "take (length (p @ ''/'')) q = p @ ''/''" unfolding has_prefix_def by (metis min.absorb1 take_take)
  then show ?thesis by (simp add: within_def has_prefix_def)
qed

lemma within_trans: "within a b \<Longrightarrow> within b c \<Longrightarrow> within a c"
  by (auto simp: within_def has_prefix_iff)

lemma within_same_length: "within r p \<Longrightarrow> within r q \<Longrightarrow> length p = length q \<Longrightarrow> p = q"
  by (auto simp: within_def has_prefix_iff append_eq_append_conv2)

text \<open>The claims that hold a repository, and the most closely of them.\<close>

definition holders :: "string \<Rightarrow> registry_claim list \<Rightarrow> registry_claim set" where
  "holders r cs = {c \<in> set cs. within r (cl_repository c)}"

definition closest_of :: "string \<Rightarrow> registry_claim list \<Rightarrow> registry_claim set" where
  "closest_of r cs = {c \<in> holders r cs. \<forall>d \<in> holders r cs. length (cl_repository d) \<le> length (cl_repository c)}"

definition claim_length :: "registry_claim \<Rightarrow> int" where
  "claim_length c = int (length (cl_repository c))"

definition seen :: "registry_claim set \<Rightarrow> int \<times> string set \<times> bool \<Rightarrow> bool" where
  "seen H st \<longleftrightarrow> (case st of (l, ow, con) \<Rightarrow>
     (\<forall>c \<in> H. claim_length c \<le> l) \<and> (if H = {} then l = -1 else \<exists>c \<in> H. claim_length c = l) \<and>
     ow = cl_org ` {c \<in> H. claim_length c = l} \<and> (con \<longleftrightarrow> (\<exists>c \<in> H. claim_length c = l \<and> cl_contested c)))"

lemma closest_step:
  assumes "seen H (l, ow, con)" and c: "within r (cl_repository c)"
  shows "seen (insert c H) (closest r (l, ow, con) c)"
proof -
  have bound: "claim_length d \<le> l" if "d \<in> H" for d using assms(1) that by (simp add: seen_def)
  have top: "H = {} \<and> l = -1 \<or> (\<exists>d \<in> H. claim_length d = l)" using assms(1) by (simp add: seen_def split: if_splits)
  have ow: "ow = cl_org ` {d \<in> H. claim_length d = l}" and con: "con \<longleftrightarrow> (\<exists>d \<in> H. claim_length d = l \<and> cl_contested d)"
    using assms(1) by (simp_all add: seen_def)
  consider (longer) "claim_length c > l" | (same) "claim_length c = l" | (shorter) "claim_length c < l" by linarith
  then show ?thesis
  proof cases
    case longer
    then have only: "claim_length d \<noteq> claim_length c" if "d \<in> H" for d using bound [OF that] by linarith
    have "closest r (l, ow, con) c = (claim_length c, {cl_org c}, cl_contested c)" using c longer by (simp add: closest_def claim_length_def)
    moreover have "{d \<in> insert c H. claim_length d = claim_length c} = {c}" using only by blast
    moreover have "\<forall>d \<in> insert c H. claim_length d \<le> claim_length c" using bound longer by force
    ultimately show ?thesis using only by (auto simp: seen_def)
  next
    case same
    then have "closest r (l, ow, con) c = (l, insert (cl_org c) ow, con \<or> cl_contested c)" using c by (simp add: closest_def claim_length_def)
    moreover have "{d \<in> insert c H. claim_length d = l} = insert c {d \<in> H. claim_length d = l}" using same by blast
    ultimately show ?thesis using same bound ow con by (auto simp: seen_def)
  next
    case shorter
    then have "closest r (l, ow, con) c = (l, ow, con)" using c by (simp add: closest_def claim_length_def)
    moreover have "0 \<le> claim_length c" by (simp add: claim_length_def)
    moreover have "{d \<in> insert c H. claim_length d = l} = {d \<in> H. claim_length d = l}" using shorter by blast
    ultimately show ?thesis using shorter bound top ow con by (auto simp: seen_def)
  qed
qed

lemma closest_fold: "seen (holders r cs) (foldl (closest r) (-1, {}, False) cs)"
proof (induction cs rule: rev_induct)
  case Nil
  show ?case by (simp add: seen_def holders_def)
next
  case (snoc c cs)
  obtain l ow con where st: "foldl (closest r) (-1, {}, False) cs = (l, ow, con)" by (metis prod_cases3)
  show ?case
  proof (cases "within r (cl_repository c)")
    case True
    then have "holders r (cs @ [c]) = insert c (holders r cs)" by (auto simp: holders_def)
    then show ?thesis using closest_step [of "holders r cs" l ow con r c] snoc st True by simp
  next
    case False
    then have "holders r (cs @ [c]) = holders r cs" "closest r (l, ow, con) c = (l, ow, con)" by (auto simp: holders_def closest_def)
    then show ?thesis using snoc st by simp
  qed
qed

lemma Allows_iff:
  assumes r: "CanonicalRepository img = r" "r \<noteq> []"
  shows "Allows c org img \<longleftrightarrow> holders r (rc_claims c) = {} \<or> org \<noteq> [] \<and> (\<forall>d \<in> closest_of r (rc_claims c). cl_org d = org \<and> \<not> cl_contested d)"
proof -
  let ?H = "holders r (rc_claims c)"
  obtain l ow con where st: "foldl (closest r) (-1, {}, False) (rc_claims c) = (l, ow, con)" by (metis prod_cases3)
  have f: "seen ?H (l, ow, con)" using closest_fold [of r "rc_claims c"] st by simp
  have a: "Allows c org img \<longleftrightarrow> l < 0 \<or> org \<noteq> [] \<and> \<not> con \<and> card ow = 1 \<and> org \<in> ow" using r by (simp add: Allows_def st)
  show ?thesis
  proof (cases "?H = {}")
    case True
    then show ?thesis using a f by (simp add: seen_def)
  next
    case False
    then obtain d where d: "d \<in> ?H" "claim_length d = l" using f by (auto simp: seen_def)
    have bound: "claim_length e \<le> l" if "e \<in> ?H" for e using f that by (simp add: seen_def)
    have close: "closest_of r (rc_claims c) = {e \<in> ?H. claim_length e = l}"
    proof (intro set_eqI iffI)
      fix e assume "e \<in> closest_of r (rc_claims c)"
      then have "e \<in> ?H" "claim_length d \<le> claim_length e" using d(1) by (simp_all add: closest_of_def claim_length_def)
      then show "e \<in> {e \<in> ?H. claim_length e = l}" using bound d(2) by fastforce
    next
      fix e assume "e \<in> {e \<in> ?H. claim_length e = l}"
      then show "e \<in> closest_of r (rc_claims c)" using bound by (fastforce simp: closest_of_def claim_length_def)
    qed
    have "ow = cl_org ` closest_of r (rc_claims c)" "con \<longleftrightarrow> (\<exists>e \<in> closest_of r (rc_claims c). cl_contested e)" using f close by (auto simp: seen_def)
    moreover have "card ow = 1 \<and> org \<in> ow \<longleftrightarrow> ow = {org}" by (auto simp: card_1_singleton_iff)
    moreover have "0 \<le> l" "d \<in> closest_of r (rc_claims c)" using d close by (auto simp: claim_length_def)
    ultimately show ?thesis using a False by auto
  qed
qed

section \<open>Who owns what\<close>

text \<open>The one spelling of an organization's own registry.\<close>

definition registry_of :: "organization \<Rightarrow> string" where
  "registry_of o' = (case og_registry o' of None \<Rightarrow> [] | Some s \<Rightarrow> CanonicalRepository (rg_repository s))"

lemma own_registries_fold:
  "distinct (map og_name orgs) \<Longrightarrow> distinct (map fst own) \<Longrightarrow> fst ` set own \<inter> og_name ` set orgs = {} \<Longrightarrow>
     set (foldl (\<lambda>own o'. case og_registry o' of None \<Rightarrow> own
       | Some registry \<Rightarrow> if CanonicalRepository (rg_repository registry) \<noteq> [] then AList.update (og_name o') (CanonicalRepository (rg_repository registry)) own else own) own orgs) =
     set own \<union> {(og_name o', registry_of o') | o'. o' \<in> set orgs \<and> registry_of o' \<noteq> []}"
proof (induction orgs arbitrary: own)
  case (Cons x orgs)
  let ?step = "case og_registry x of None \<Rightarrow> own
       | Some registry \<Rightarrow> if CanonicalRepository (rg_repository registry) \<noteq> [] then AList.update (og_name x) (CanonicalRepository (rg_repository registry)) own else own"
  have new: "og_name x \<notin> fst ` set own" using Cons.prems(3) by auto
  have step: "?step = (if registry_of x \<noteq> [] then own @ [(og_name x, registry_of x)] else own)"
    using update_new [of "og_name x" own] new by (auto simp: registry_of_def split: option.splits)
  have "distinct (map fst ?step)" "fst ` set ?step \<inter> og_name ` set orgs = {}" using Cons.prems new unfolding step by auto
  then have "set (foldl (\<lambda>own o'. case og_registry o' of None \<Rightarrow> own
       | Some registry \<Rightarrow> if CanonicalRepository (rg_repository registry) \<noteq> [] then AList.update (og_name o') (CanonicalRepository (rg_repository registry)) own else own) ?step orgs) =
     set ?step \<union> {(og_name o', registry_of o') | o'. o' \<in> set orgs \<and> registry_of o' \<noteq> []}" using Cons by simp
  then show ?case unfolding foldl_Cons step by auto
qed simp

lemma own_registries_set:
  "distinct (map og_name orgs) \<Longrightarrow> set (own_registries orgs) = {(og_name o', registry_of o') | o'. o' \<in> set orgs \<and> registry_of o' \<noteq> []}"
  using own_registries_fold [of orgs "[]"] by (simp add: own_registries_def)

text \<open>An organization whose own registry is not its own to use.\<close>

definition contested_registry :: "string \<Rightarrow> organization list \<Rightarrow> organization \<Rightarrow> bool" where
  "contested_registry p orgs o' \<longleftrightarrow>
     p \<noteq> [] \<and> overlap (registry_of o') p \<and> \<not> within (registry_of o') (p @ ''/'' @ og_name o') \<or>
     (\<exists>x \<in> set orgs. og_name x \<noteq> og_name o' \<and> registry_of x \<noteq> [] \<and> overlap (registry_of o') (registry_of x))"

definition own_registry_claim :: "string \<Rightarrow> organization list \<Rightarrow> organization \<Rightarrow> registry_claim" where
  "own_registry_claim p orgs o' = \<lparr>cl_repository = registry_of o', cl_org = og_name o', cl_contested = contested_registry p orgs o'\<rparr>"

lemma own_unique:
  assumes "distinct (map og_name orgs)" and "o' \<in> set orgs" and "x \<in> set orgs" and "og_name o' = og_name x"
  shows "o' = x"
  using assms by (metis distinct_map inj_onD)

lemma lookup_own:
  assumes "distinct (map og_name orgs)" and "o' \<in> set orgs" and "registry_of o' \<noteq> []"
  shows "lookup0 (own_registries orgs) (og_name o') = registry_of o'"
proof -
  have in_own: "(og_name o', registry_of o') \<in> set (own_registries orgs)" using assms by (auto simp: own_registries_set)
  then obtain v where v: "map_of (own_registries orgs) (og_name o') = Some v" by (metis map_of_eq_None_iff fst_conv image_eqI not_Some_eq)
  then obtain x where "x \<in> set orgs" "og_name x = og_name o'" "v = registry_of x"
    using map_of_SomeD [OF v] assms(1) by (auto simp: own_registries_set)
  then show ?thesis using own_unique assms v by (metis lookup0_def option.case(2))
qed

lemma own_claims:
  assumes "distinct (map og_name orgs)"
  shows "own_claim (own_registries orgs) p ` (fst ` set (own_registries orgs)) =
    own_registry_claim p orgs ` {o' \<in> set orgs. registry_of o' \<noteq> []}"
proof -
  have one: "own_claim (own_registries orgs) p (og_name o') = own_registry_claim p orgs o'"
    if "o' \<in> set orgs" "registry_of o' \<noteq> []" for o'
    using lookup_own [OF assms that] own_registries_set [OF assms]
    unfolding own_claim_def Let_def own_registry_claim_def by (auto simp: ownConflicts_def contested_registry_def list_ex_iff)
  have "fst ` set (own_registries orgs) = og_name ` {o' \<in> set orgs. registry_of o' \<noteq> []}" using own_registries_set [OF assms] by force
  then have "own_claim (own_registries orgs) p ` (fst ` set (own_registries orgs)) = own_claim (own_registries orgs) p ` og_name ` {o' \<in> set orgs. registry_of o' \<noteq> []}" by simp
  also have "\<dots> = own_registry_claim p orgs ` {o' \<in> set orgs. registry_of o' \<noteq> []}" unfolding image_image using one by (intro image_cong) simp_all
  finally show ?thesis .
qed

definition platform_claim :: "string \<Rightarrow> registry_claim" where
  "platform_claim p = \<lparr>cl_repository = p, cl_org = [], cl_contested = False\<rparr>"

definition path_claim :: "string \<Rightarrow> organization \<Rightarrow> registry_claim" where
  "path_claim p o' = \<lparr>cl_repository = p @ ''/'' @ og_name o', cl_org = og_name o', cl_contested = False\<rparr>"

lemmas claim_defs = platform_claim_def path_claim_def own_registry_claim_def

lemma claims_set:
  assumes "distinct (map og_name orgs)" and "CanonicalRepository plat = p"
  shows "set (rc_claims (NewRegistryClaims plat orgs)) =
    (if p = [] then {} else insert (platform_claim p) (path_claim p ` set orgs)) \<union> own_registry_claim p orgs ` {o' \<in> set orgs. registry_of o' \<noteq> []}"
  using own_claims [OF assms(1), of p] assms(2)
  by (auto simp: NewRegistryClaims_def Let_def platform_claim_def path_claim_def [abs_def] simp del: image_image)

lemma closest_exists: "holders r cs \<noteq> {} \<Longrightarrow> \<exists>c. c \<in> closest_of r cs"
proof -
  let ?f = "\<lambda>c. length (cl_repository c)"
  assume h: "holders r cs \<noteq> {}"
  have fin: "finite (?f ` holders r cs)" by (simp add: holders_def)
  have "Max (?f ` holders r cs) \<in> ?f ` holders r cs" using Max_in [OF fin] h by blast
  then obtain c where "c \<in> holders r cs" "?f c = Max (?f ` holders r cs)" by (metis (no_types, lifting) imageE)
  then have "c \<in> closest_of r cs" using Max_ge [OF fin] by (auto simp: closest_of_def)
  then show ?thesis ..
qed

lemma path_within: "CHR ''/'' \<notin> set x \<Longrightarrow> within (p @ ''/'' @ x) (p @ ''/'' @ y) \<Longrightarrow> x = y"
  by (auto simp: within_def has_prefix_iff)

lemma path_in_platform: "within (p @ ''/'' @ x) p"
  by (simp add: within_def has_prefix_iff)

text \<open>Each of the claims that hold a repository most closely is around no other claim that holds it.\<close>

lemma closest_inside:
  assumes "d \<in> closest_of r cs" and "c \<in> set cs" and "within r (cl_repository c)"
  shows "within (cl_repository d) (cl_repository c)" and "within r (cl_repository d)" and "d \<in> set cs"
proof -
  have "c \<in> holders r cs" using assms(2,3) by (simp add: holders_def)
  then have "length (cl_repository c) \<le> length (cl_repository d)" using assms(1) by (auto simp: closest_of_def)
  moreover show d: "within r (cl_repository d)" "d \<in> set cs" using assms(1) by (auto simp: closest_of_def holders_def)
  ultimately show "within (cl_repository d) (cl_repository c)" using within_nested assms(3) by blast
qed

lemma claim_cases:
  assumes "distinct (map og_name orgs)" and "CanonicalRepository plat = p" and "d \<in> set (rc_claims (NewRegistryClaims plat orgs))"
  obtains (platform) "p \<noteq> []" "d = platform_claim p"
  | (path) x where "p \<noteq> []" "x \<in> set orgs" "d = path_claim p x"
  | (own) x where "x \<in> set orgs" "registry_of x \<noteq> []" "d = own_registry_claim p orgs x"
  using assms(3) unfolding claims_set [OF assms(1,2)] by (auto split: if_splits)

lemma overlap_nested: "within r a \<Longrightarrow> within r b \<Longrightarrow> overlap a b"
  unfolding overlap_def using within_nested [of r a b] within_nested [of r b a] by linarith

lemma uncontestedD:
  assumes "\<not> contested_registry p orgs o'"
  shows "p \<noteq> [] \<Longrightarrow> overlap (registry_of o') p \<Longrightarrow> within (registry_of o') (p @ ''/'' @ og_name o')"
    and "x \<in> set orgs \<Longrightarrow> registry_of x \<noteq> [] \<Longrightarrow> overlap (registry_of o') (registry_of x) \<Longrightarrow> og_name x = og_name o'"
  using assms by (auto simp: contested_registry_def)

definition named_well :: "organization list \<Rightarrow> bool" where
  "named_well orgs \<longleftrightarrow> distinct (map og_name orgs) \<and> list_all (\<lambda>o'. og_name o' \<noteq> [] \<and> CHR ''/'' \<notin> set (og_name o')) orgs"

lemma named_wellD:
  assumes "named_well orgs"
  shows "distinct (map og_name orgs)" and "o' \<in> set orgs \<Longrightarrow> og_name o' \<noteq> []" and "o' \<in> set orgs \<Longrightarrow> CHR ''/'' \<notin> set (og_name o')"
  using assms by (auto simp: named_well_def list_all_iff)

text \<open>When all claims that hold a repository most closely are one organization's, and uncontested, it is that organization's.\<close>

lemma Allows_owner:
  assumes "CanonicalRepository img = r" "r \<noteq> []" and "c \<in> set (rc_claims cs)" "within r (cl_repository c)" and "owner \<noteq> []"
    and "\<And>d. d \<in> closest_of r (rc_claims cs) \<Longrightarrow> cl_org d = owner \<and> \<not> cl_contested d"
  shows "Allows cs who img \<longleftrightarrow> who = owner"
proof -
  have h: "holders r (rc_claims cs) \<noteq> {}" using assms(3,4) by (auto simp: holders_def)
  then obtain d where "d \<in> closest_of r (rc_claims cs)" using closest_exists by blast
  then show ?thesis unfolding Allows_iff [OF assms(1,2), of cs who] using h assms(5,6) by metis
qed

lemma own_registry_is_own:
  assumes named: "named_well orgs" and p: "CanonicalRepository plat = p" and r: "CanonicalRepository img = r" "r \<noteq> []"
    and o: "o' \<in> set orgs" "registry_of o' \<noteq> []" "\<not> contested_registry p orgs o'" "within r (registry_of o')"
  shows "Allows (NewRegistryClaims plat orgs) who img \<longleftrightarrow> who = og_name o'"
proof -
  note names = named_wellD [OF named]
  let ?cs = "rc_claims (NewRegistryClaims plat orgs)"
  let ?c = "own_registry_claim p orgs o'"
  have c: "?c \<in> set ?cs" "cl_repository ?c = registry_of o'" using o claims_set [OF names(1) p] by (auto simp: own_registry_claim_def)
  have "cl_org d = og_name o' \<and> \<not> cl_contested d" if d: "d \<in> closest_of r ?cs" for d
  proof -
    note inside = closest_inside [OF d c(1), unfolded c(2), OF o(4)]
    from names(1) p inside(3) show ?thesis
    proof (cases rule: claim_cases)
      case platform
      then have w: "within p (registry_of o')" using inside(1) by (simp add: platform_claim_def)
      then have "within (registry_of o') (p @ ''/'' @ og_name o')" using uncontestedD(1) [OF o(3) platform(1)] by (simp add: overlap_def)
      from within_length [OF this] within_length [OF w] show ?thesis by simp
    next
      case (path x)
      then have w: "within (p @ ''/'' @ og_name x) (registry_of o')" using inside(1) by (simp add: path_claim_def)
      then have "within (registry_of o') (p @ ''/'' @ og_name o')"
        using uncontestedD(1) [OF o(3) path(1)] overlap_nested path_in_platform by blast
      from path_within [OF names(3) [OF path(2)] within_trans [OF w this]] show ?thesis using path(3) by (simp add: path_claim_def)
    next
      case (own x)
      then have "within (registry_of x) (registry_of o')" using inside(1) by (simp add: own_registry_claim_def)
      then have "og_name x = og_name o'" using uncontestedD(2) [OF o(3) own(1,2)] by (simp add: overlap_def)
      then have "x = o'" using own_unique names(1) own(1) o(1) by blast
      then show ?thesis using own(3) o(3) by (simp add: own_registry_claim_def)
    qed
  qed
  then show ?thesis using Allows_owner [OF r c(1), unfolded c(2), OF o(4) names(2) [OF o(1)]] by blast
qed

lemma platform_is_not_theirs:
  assumes named: "named_well orgs" and p: "CanonicalRepository plat = p" "p \<noteq> []" "within r p" and r: "CanonicalRepository img = r" "r \<noteq> []"
    and allowed: "Allows (NewRegistryClaims plat orgs) who img"
  shows "\<exists>o' \<in> set orgs. who = og_name o' \<and> within r (p @ ''/'' @ who)"
proof -
  note names = named_wellD [OF named]
  let ?cs = "rc_claims (NewRegistryClaims plat orgs)"
  have c: "platform_claim p \<in> set ?cs" "cl_repository (platform_claim p) = p" using p claims_set [OF names(1) p(1)] by (auto simp: platform_claim_def)
  then have h: "holders r ?cs \<noteq> {}" using p(3) by (auto simp: holders_def)
  then obtain d where d: "d \<in> closest_of r ?cs" using closest_exists by blast
  then have who: "who \<noteq> []" "cl_org d = who" "\<not> cl_contested d" using allowed h unfolding Allows_iff [OF r] by auto
  note inside = closest_inside [OF d c(1), unfolded c(2), OF p(3)]
  from names(1) p(1) inside(3) show ?thesis
  proof (cases rule: claim_cases)
    case platform
    then show ?thesis using who by (simp add: platform_claim_def)
  next
    case (path x)
    then show ?thesis using who inside(2) by (auto simp: path_claim_def)
  next
    case (own x)
    then have "within (registry_of x) p" "\<not> contested_registry p orgs x" "within r (registry_of x)" "who = og_name x"
      using inside(1,2) who by (auto simp: own_registry_claim_def)
    moreover from this have "within (registry_of x) (p @ ''/'' @ og_name x)" using uncontestedD(1) p(2) by (simp add: overlap_def)
    ultimately show ?thesis using own(1) within_trans by blast
  qed
qed

lemma path_is_own:
  assumes named: "named_well orgs" and p: "CanonicalRepository plat = p" "p \<noteq> []" and r: "CanonicalRepository img = r" "r \<noteq> []"
    and o: "o' \<in> set orgs" "within r (p @ ''/'' @ og_name o')"
    and free: "\<And>x. x \<in> set orgs \<Longrightarrow> registry_of x \<noteq> [] \<Longrightarrow> within r (registry_of x) \<Longrightarrow> \<not> contested_registry p orgs x"
  shows "Allows (NewRegistryClaims plat orgs) who img \<longleftrightarrow> who = og_name o'"
proof -
  note names = named_wellD [OF named]
  let ?cs = "rc_claims (NewRegistryClaims plat orgs)"
  let ?c = "path_claim p o'"
  have c: "?c \<in> set ?cs" "cl_repository ?c = p @ ''/'' @ og_name o'" using o p claims_set [OF names(1) p(1)] by (auto simp: path_claim_def)
  have "cl_org d = og_name o' \<and> \<not> cl_contested d" if d: "d \<in> closest_of r ?cs" for d
  proof -
    note inside = closest_inside [OF d c(1), unfolded c(2), OF o(2)]
    from names(1) p(1) inside(3) show ?thesis
    proof (cases rule: claim_cases)
      case platform
      then show ?thesis using within_length [OF inside(1)] by (simp add: platform_claim_def)
    next
      case (path x)
      then have "within (p @ ''/'' @ og_name x) (p @ ''/'' @ og_name o')" using inside(1) by (simp add: path_claim_def)
      from path_within [OF names(3) [OF path(2)] this] show ?thesis using path(3) by (simp add: path_claim_def)
    next
      case (own x)
      then have w: "within (registry_of x) (p @ ''/'' @ og_name o')" "within r (registry_of x)" using inside(1,2) by (simp_all add: own_registry_claim_def)
      note f = free [OF own(1,2) w(2)]
      have "overlap (registry_of x) p" using within_trans [OF w(1) path_in_platform] by (simp add: overlap_def)
      then have wx: "within (registry_of x) (p @ ''/'' @ og_name x)" using uncontestedD(1) [OF f p(2)] by blast
      have "og_name x = og_name o'"
      proof (cases "length (og_name x) \<le> length (og_name o')")
        case True
        then have "within (p @ ''/'' @ og_name o') (p @ ''/'' @ og_name x)" using within_nested [OF wx w(1)] by simp
        then show ?thesis using path_within [OF names(3) [OF o(1)]] by metis
      next
        case False
        then have "within (p @ ''/'' @ og_name x) (p @ ''/'' @ og_name o')" using within_nested [OF w(1) wx] by simp
        then show ?thesis using path_within [OF names(3) [OF own(1)]] by metis
      qed
      then show ?thesis using own(3) f by (simp add: own_registry_claim_def)
    qed
  qed
  then show ?thesis using Allows_owner [OF r c(1), unfolded c(2), OF o(2) names(2) [OF o(1)]] by blast
qed

lemma nobodys_is_free:
  assumes named: "named_well orgs" and p: "CanonicalRepository plat = p" and r: "CanonicalRepository img = r" "r \<noteq> []"
    and "p \<noteq> [] \<Longrightarrow> \<not> within r p" and "\<And>x. x \<in> set orgs \<Longrightarrow> registry_of x \<noteq> [] \<Longrightarrow> \<not> within r (registry_of x)"
  shows "Allows (NewRegistryClaims plat orgs) who img"
proof -
  note names = named_wellD [OF named]
  have "\<not> within r (cl_repository d)" if "d \<in> set (rc_claims (NewRegistryClaims plat orgs))" for d
    using names(1) p that
  proof (cases rule: claim_cases)
    case platform
    then show ?thesis using assms(5) by (simp add: platform_claim_def)
  next
    case (path x)
    then show ?thesis using assms(5) within_trans [OF _ path_in_platform] by (auto simp: path_claim_def)
  next
    case (own x)
    then show ?thesis using assms(6) by (simp add: own_registry_claim_def)
  qed
  then show ?thesis unfolding Allows_iff [OF r] by (auto simp: holders_def)
qed

text \<open>
  C39. An image is whose the claims say. For organizations with names of their own, and an image that names a repository: in the registry of an organization
  that is not contested, exactly that organization may use it; in the platform's repository, nobody but an organization with the image under its
  own path may, and under that path exactly the organization may unless a contested registry is around it; in none of
  these, everyone may.\<close>

theorem registry_isolation:
  assumes named: "named_well orgs" and r: "CanonicalRepository img = r" "r \<noteq> []" and p: "CanonicalRepository plat = p"
  shows "(\<forall>o' \<in> set orgs. registry_of o' \<noteq> [] \<and> \<not> contested_registry p orgs o' \<and> within r (registry_of o') \<longrightarrow>
      (Allows (NewRegistryClaims plat orgs) who img \<longleftrightarrow> who = og_name o')) \<and>
    (p \<noteq> [] \<and> within r p \<and> Allows (NewRegistryClaims plat orgs) who img \<longrightarrow> (\<exists>o' \<in> set orgs. who = og_name o' \<and> within r (p @ ''/'' @ who))) \<and>
    (\<forall>o' \<in> set orgs. p \<noteq> [] \<and> within r (p @ ''/'' @ og_name o') \<and>
      (\<forall>x \<in> set orgs. registry_of x \<noteq> [] \<and> within r (registry_of x) \<longrightarrow> \<not> contested_registry p orgs x) \<longrightarrow>
      (Allows (NewRegistryClaims plat orgs) who img \<longleftrightarrow> who = og_name o')) \<and>
    ((p = [] \<or> \<not> within r p) \<and> (\<forall>x \<in> set orgs. registry_of x = [] \<or> \<not> within r (registry_of x)) \<longrightarrow> Allows (NewRegistryClaims plat orgs) who img)"
  using own_registry_is_own [OF named p r, of _ who] platform_is_not_theirs [OF named p _ _ r, of who] path_is_own [OF named p _ r, of _ who]
    nobodys_is_free [OF named p r, of who]
  by (intro conjI ballI impI) blast+

definition two_orgs :: "organization list" where
  "two_orgs = [\<lparr>og_name = ''org-a'', og_registry = Some \<lparr>rg_repository = ''ghcr.io/acme/builds'', rg_credential = None\<rparr>\<rparr>, \<lparr>og_name = ''org-c'', og_registry = None\<rparr>]"

text \<open>The registry of \<open>org-a\<close>, spelled otherwise, and the path of \<open>org-c\<close> in the platform's repository.\<close>

theorem registry_isolation_witness:
  "(let claims = NewRegistryClaims ''registry.example.com/platform'' two_orgs in
     Allows claims ''org-a'' ''GHCR.IO:443/acme/builds/shop/api:v1'' \<and> \<not> Allows claims ''org-c'' ''GHCR.IO:443/acme/builds/shop/api:v1'' \<and>
     Allows claims ''org-c'' ''registry.example.com/platform/org-c/api'' \<and> \<not> Allows claims ''org-a'' ''registry.example.com/platform/org-c/api'' \<and>
     Allows claims ''org-c'' ''nginx:alpine'')"
proof -
  have n: "named_well two_orgs" by code_simp
  have p: "CanonicalRepository ''registry.example.com/platform'' = ''registry.example.com/platform''" by code_simp
  have imgs: "CanonicalRepository ''GHCR.IO:443/acme/builds/shop/api:v1'' = ''ghcr.io/acme/builds/shop/api''"
    "CanonicalRepository ''registry.example.com/platform/org-c/api'' = ''registry.example.com/platform/org-c/api''"
    "CanonicalRepository ''nginx:alpine'' = ''docker.io/library/nginx''" by code_simp+
  have regs: "map registry_of two_orgs = [''ghcr.io/acme/builds'', []]" by code_simp
  have free: "\<not> contested_registry ''registry.example.com/platform'' two_orgs (two_orgs ! 0)" by code_simp
  note own = registry_isolation [OF n imgs(1) _ p, THEN conjunct1, rule_format, of "two_orgs ! 0"]
    and path = registry_isolation [OF n imgs(2) _ p, THEN conjunct2, THEN conjunct2, THEN conjunct1, rule_format, of "two_orgs ! 1"]
    and nobody = registry_isolation [OF n imgs(3) _ p, THEN conjunct2, THEN conjunct2, THEN conjunct2, rule_format]
  have w: "within ''ghcr.io/acme/builds/shop/api'' ''ghcr.io/acme/builds''" "within ''registry.example.com/platform/org-c/api'' (''registry.example.com/platform'' @ ''/'' @ ''org-c'')"
    "\<not> within ''registry.example.com/platform/org-c/api'' ''ghcr.io/acme/builds''" "\<not> within ''docker.io/library/nginx'' ''registry.example.com/platform''"
    "\<not> within ''docker.io/library/nginx'' ''ghcr.io/acme/builds''" by code_simp+
  have two: "two_orgs ! 0 \<in> set two_orgs" "two_orgs ! 1 \<in> set two_orgs" "og_name (two_orgs ! 0) = ''org-a''" "og_name (two_orgs ! 1) = ''org-c''"
    "registry_of (two_orgs ! 0) = ''ghcr.io/acme/builds''" by code_simp+
  have each: "\<forall>x \<in> set two_orgs. registry_of x = [] \<or> registry_of x = ''ghcr.io/acme/builds''" by code_simp
  have a: "Allows (NewRegistryClaims ''registry.example.com/platform'' two_orgs) who ''GHCR.IO:443/acme/builds/shop/api:v1'' \<longleftrightarrow> who = ''org-a''" for who
    using own two w(1) free by simp
  have c: "Allows (NewRegistryClaims ''registry.example.com/platform'' two_orgs) who ''registry.example.com/platform/org-c/api'' \<longleftrightarrow> who = ''org-c''" for who
  proof -
    have "\<forall>x \<in> set two_orgs. registry_of x \<noteq> [] \<and> within ''registry.example.com/platform/org-c/api'' (registry_of x) \<longrightarrow>
        \<not> contested_registry ''registry.example.com/platform'' two_orgs x" using each w(3) by metis
    then show ?thesis using path [of who] two(2,4) w(2) by simp
  qed
  have "Allows (NewRegistryClaims ''registry.example.com/platform'' two_orgs) ''org-c'' ''nginx:alpine''"
    by (rule nobody) (use w(4,5) each in auto)
  then show ?thesis using a c by (simp add: Let_def)
qed

text \<open>The registry of a Docker Hub account: its claim is not around what is built into it, so another organization may run that.\<close>

lemma docker_hub_account_unclaimed:
  "CanonicalRepository ''docker.io/acme'' = ''docker.io/library/acme'' \<and>
   NamespacedImage ''docker.io/acme'' ''shop'' ''api'' = ''docker.io/acme/shop/api'' \<and>
   Allows (NewRegistryClaims [] [\<lparr>og_name = ''org-a'', og_registry = Some \<lparr>rg_repository = ''docker.io/acme'', rg_credential = None\<rparr>\<rparr>]) ''org-b'' ''docker.io/acme/shop/api''"
  by code_simp

section \<open>What a build is given\<close>

lemma holds_any_False:
  "holds_any rd config names = Inr False \<Longrightarrow> n \<in> set names \<Longrightarrow> rd_secret rd SystemNamespace n = Inr s \<Longrightarrow> \<not> HoldsLoginOf config (rs_config s)"
proof (induction names)
  case (Cons x names)
  then show ?case by (cases "rd_secret rd SystemNamespace x") (auto split: read_error.splits if_splits)
qed simp

text \<open>The Secrets that hold the platform's login.\<close>

definition platform_secret :: "isolation \<Rightarrow> string \<Rightarrow> bool" where
  "platform_secret i name \<longleftrightarrow> name = ''platform-registry'' \<or> rg_credential (ri_platform i) = Some name \<and> name \<noteq> []"

lemma platform_names_set: "n \<in> set (platform_names i) \<longleftrightarrow> platform_secret i n"
  by (auto simp: platform_names_def platform_secret_def PlatformRegistrySecretName_def split: option.splits)

text \<open>A login that an organization may be given: not the platform's, by name or by what is in it, and not another organization's.\<close>

definition login_apart :: "reader \<Rightarrow> isolation \<Rightarrow> string \<Rightarrow> string \<Rightarrow> bool" where
  "login_apart rd i namespace name \<longleftrightarrow>
     \<not> platform_secret i name \<and>
     (\<forall>org. name = ''org-registry-'' @ org \<longrightarrow> org = ri_org i \<and> org \<noteq> []) \<and>
     (\<forall>secret. rd_secret rd namespace name = Inr secret \<longrightarrow>
        lookup0 (rs_labels secret) ''geass.dev/org-build'' \<in> {[], ri_org i} \<and>
        (\<forall>n s. platform_secret i n \<and> rd_secret rd ''geass-system'' n = Inr s \<longrightarrow> \<not> HoldsLoginOf (rs_config secret) (rs_config s)))"

lemma CheckCredential_apart:
  assumes ok: "CheckCredential rd i namespace (Some name) = None" and "name \<noteq> []"
  shows "login_apart rd i namespace name"
proof -
  have n: "\<not> platform_secret i name" "\<not> (has_prefix orgRegistrySecretPrefix name \<and> (ri_org i = [] \<or> name \<noteq> OrgRegistrySecretName (ri_org i)))"
    using assms by (auto simp: CheckCredential_def platform_secret_def PlatformRegistrySecretName_def split: if_splits)
  have org: "org = ri_org i \<and> org \<noteq> []" if "name = ''org-registry-'' @ org" for org
    using n(2) that by (auto simp: orgRegistrySecretPrefix_def OrgRegistrySecretName_def has_prefix_def)
  have "lookup0 (rs_labels secret) ''geass.dev/org-build'' \<in> {[], ri_org i} \<and>
      (\<forall>n s. platform_secret i n \<and> rd_secret rd ''geass-system'' n = Inr s \<longrightarrow> \<not> HoldsLoginOf (rs_config secret) (rs_config s))"
    if s: "rd_secret rd namespace name = Inr secret" for secret
  proof -
    have l: "lookup0 (rs_labels secret) LabelOrgBuild \<in> {[], ri_org i}" "HoldsPlatformLogin rd i (rs_config secret) = Inr False"
      using ok assms(2) s by (auto simp: CheckCredential_def Let_def split: if_splits sum.splits)
    have "\<not> HoldsLoginOf (rs_config secret) (rs_config t)" if "platform_secret i m" "rd_secret rd SystemNamespace m = Inr t" for m t
    proof (cases "df_text (rs_config secret) = []")
      case True
      then show ?thesis by (simp add: HoldsLoginOf_def)
    next
      case False
      then show ?thesis using l(2) holds_any_False that platform_names_set by (simp add: HoldsPlatformLogin_def)
    qed
    then show ?thesis using l(1) unfolding LabelOrgBuild_def SystemNamespace_def by blast
  qed
  then show ?thesis using n(1) org unfolding login_apart_def by blast
qed

lemma Resolve_isolation:
  assumes "ResolveRegistryIsolation rd project = Inr (Some i)"
  obtains config orgs where "rd_config rd = Inr config" "rd_orgs rd = Inr orgs" "ri_platform i = pf_registry config"
    "ri_claims i = NewRegistryClaims (rg_repository (pf_registry config)) orgs" "ri_org i = [] \<or> rd_project rd project = Inr (ri_org i)"
    "\<And>o'. ri_organization i = Some o' \<Longrightarrow> o' \<in> set orgs \<and> og_name o' = ri_org i"
proof -
  obtain config where c: "rd_config rd = Inr config" and on: "RegistryPolicyOf (Some config) \<noteq> []" "project \<noteq> []"
    using assms by (auto simp: ResolveRegistryIsolation_def split: sum.splits read_error.splits if_splits)
  obtain org where org: "org = [] \<or> rd_project rd project = Inr org" and res: "(case rd_orgs rd of Inl err \<Rightarrow> Inl err
      | Inr orgs \<Rightarrow> Inr (Some \<lparr>ri_project = project, ri_org = org, ri_organization = (if org = [] then None else find (\<lambda>o'. og_name o' = org) (rev orgs)),
          ri_platform = pf_registry config, ri_claims = NewRegistryClaims (rg_repository (pf_registry config)) orgs\<rparr>)) = Inr (Some i)"
    using assms on by (cases "rd_project rd project") (auto simp: ResolveRegistryIsolation_def c Let_def split: read_error.splits if_splits)
  obtain orgs where o: "rd_orgs rd = Inr orgs" using res by (cases "rd_orgs rd") auto
  then have i: "i = \<lparr>ri_project = project, ri_org = org, ri_organization = (if org = [] then None else find (\<lambda>o'. og_name o' = org) (rev orgs)),
      ri_platform = pf_registry config, ri_claims = NewRegistryClaims (rg_repository (pf_registry config)) orgs\<rparr>" using res by simp
  have "o' \<in> set orgs \<and> og_name o' = ri_org i" if "ri_organization i = Some o'" for o'
    using that by (auto simp: i find_Some_iff in_set_conv_nth split: if_splits) (metis length_rev nth_mem set_rev in_set_conv_nth)
  then show ?thesis using that [OF c o] org i by simp
qed


text \<open>A service of \<open>org-a\<close> that names no registry, with a login saved for the organization.\<close>

definition sample_reader :: reader where
  "sample_reader = \<lparr>rd_config = Inr \<lparr>pf_tenancy = Some \<lparr>tn_registry = Some []\<rparr>, pf_registry = \<lparr>rg_repository = ''registry.example.com/platform'', rg_credential = None\<rparr>\<rparr>,
     rd_project = (\<lambda>project. if project = ''shop'' then Inr ''org-a'' else Inl NotFound),
     rd_orgs = Inr [\<lparr>og_name = ''org-a'', og_registry = Some \<lparr>rg_repository = ''ghcr.io/acme/builds:edge'', rg_credential = Some ''org-registry-org-a''\<rparr>\<rparr>],
     rd_secret = (\<lambda>namespace name. if name = ''org-registry-org-a'' then Inr \<lparr>rs_labels = [(''geass.dev/org-build'', ''org-a'')],
       rs_config = \<lparr>df_text = ''a'', df_auths = Some [\<lparr>ae_auth = Some ''acme:0rg'', ae_username = [], ae_password = [], ae_identity = [], ae_token = []\<rparr>]\<rparr>\<rparr>
       else if name = ''platform-registry'' then Inr \<lparr>rs_labels = [],
       rs_config = \<lparr>df_text = ''b'', df_auths = Some [\<lparr>ae_auth = Some ''bot:p4ss'', ae_username = [], ae_password = [], ae_identity = [], ae_token = []\<rparr>]\<rparr>\<rparr>
       else Inl NotFound)\<rparr>"

definition sample_app :: build_app where
  "sample_app = \<lparr>ba_name = ''api'', ba_namespace = ''geass-system'', ba_project = ''shop'', ba_registry = \<lparr>rg_repository = [], rg_credential = None\<rparr>\<rparr>"


text \<open>The dashboard lets an organization take a registry that conflicts with none. Then it is not contested, and takes nothing from anyone.\<close>

lemma registry_of_update [simp]: "registry_of (o'\<lparr>og_registry := Some s\<rparr>) = CanonicalRepository (rg_repository s)"
  by (simp add: registry_of_def)

lemma overlap_sym: "overlap a b = overlap b a"
  by (auto simp: overlap_def)

lemma accepted_registry_is_own:
  fixes orgs o' s
  defines "orgs' \<equiv> map (\<lambda>x. if og_name x = og_name o' then x\<lparr>og_registry := Some s\<rparr> else x) orgs"
  assumes named: "named_well orgs" and "o' \<in> set orgs" and p: "CanonicalRepository plat = p" and "CanonicalRepository (rg_repository s) \<noteq> []"
    and free: "\<not> WouldConflict (NewRegistryClaims plat orgs) plat (og_name o') (rg_repository s)"
  shows "\<not> contested_registry p orgs' (o'\<lparr>og_registry := Some s\<rparr>)"
    and "x \<in> set orgs \<Longrightarrow> og_name x \<noteq> og_name o' \<Longrightarrow> registry_of x \<noteq> [] \<Longrightarrow> \<not> contested_registry p orgs x \<Longrightarrow> \<not> contested_registry p orgs' x"
proof -
  let ?r = "CanonicalRepository (rg_repository s)"
  have "\<not> ownConflicts (own_registries orgs) p (og_name o') ?r" using free assms(5) p by (simp add: WouldConflict_def NewRegistryClaims_def Let_def)
  then have apart: "\<not> (p \<noteq> [] \<and> overlap ?r p \<and> \<not> within ?r (p @ ''/'' @ og_name o'))"
    and others: "\<And>x. x \<in> set orgs \<Longrightarrow> og_name x \<noteq> og_name o' \<Longrightarrow> registry_of x \<noteq> [] \<Longrightarrow> \<not> overlap ?r (registry_of x)"
    using own_registries_set [OF named_wellD(1) [OF named]] by (fastforce simp: ownConflicts_def list_ex_iff)+
  have mem: "y \<in> set orgs' \<longleftrightarrow> (\<exists>x \<in> set orgs. y = (if og_name x = og_name o' then x\<lparr>og_registry := Some s\<rparr> else x))" for y
    unfolding orgs'_def by auto
  show "\<not> contested_registry p orgs' (o'\<lparr>og_registry := Some s\<rparr>)"
    using apart others unfolding contested_registry_def Bex_def mem by (auto split: if_splits)
  show "\<not> contested_registry p orgs' x" if x: "x \<in> set orgs" "og_name x \<noteq> og_name o'" "registry_of x \<noteq> []" "\<not> contested_registry p orgs x"
  proof -
    have "\<not> overlap (registry_of x) (registry_of y)" if y: "y \<in> set orgs'" "og_name y \<noteq> og_name x" "registry_of y \<noteq> []" for y
    proof (cases "og_name y = og_name o'")
      case True
      moreover obtain z where "y = (if og_name z = og_name o' then z\<lparr>og_registry := Some s\<rparr> else z)" using y(1) unfolding mem by blast
      ultimately have "registry_of y = ?r" by (metis registry_of_update)
      then show ?thesis using others [OF x(1-3)] overlap_sym by simp
    next
      case False
      then have "y \<in> set orgs" using y(1) unfolding mem by (auto split: if_splits)
      then show ?thesis using x(4) y by (auto simp: contested_registry_def)
    qed
    then show ?thesis using x(4) by (auto simp: contested_registry_def)
  qed
qed

text \<open>When the registry of an organization is its path in the platform's repository, \<open>OwnContested\<close> finds the claim to the path, which never is contested.\<close>

lemma OwnContested_misses_path:
  "\<exists>orgs. OwnContested (NewRegistryClaims ''r.io/p'' orgs) ''a'' = False \<and> contested_registry ''r.io/p'' orgs (orgs ! 0) \<and> og_name (orgs ! 0) = ''a'' \<and>
     \<not> Allows (NewRegistryClaims ''r.io/p'' orgs) ''a'' ''r.io/p/a/shop/api''"
proof -
  let ?orgs = "[\<lparr>og_name = ''a'', og_registry = Some \<lparr>rg_repository = ''r.io/p/a'', rg_credential = None\<rparr>\<rparr>,
    \<lparr>og_name = ''b'', og_registry = Some \<lparr>rg_repository = ''r.io/p/a/x'', rg_credential = None\<rparr>\<rparr>]"
  have "OwnContested (NewRegistryClaims ''r.io/p'' ?orgs) ''a'' = False" "contested_registry ''r.io/p'' ?orgs (?orgs ! 0)"
    "\<not> Allows (NewRegistryClaims ''r.io/p'' ?orgs) ''a'' ''r.io/p/a/shop/api''" by code_simp+
  then show ?thesis by (intro exI [of _ ?orgs]) simp
qed

end
