(* ===== verification/Backups.thy ===== *)
theory Backups
  imports Usage_Clock Netguard
begin

section \<open>Backups and what is kept of them (pkg/platform/backup.go)\<close>

text \<open>
  The names of a database's backups, the moments they stand for, which of them a restore may ask for, and which are old enough to be
  deleted. A time is counted as in \<open>Usage_Clock\<close>, in UTC; \<open>parse_stamp\<close> is \<open>time.Parse\<close> with a layout of the shape
  \<open>20060102<sep>150405<end>\<close>, with the fraction of a second that \<open>Parse\<close> accepts after the seconds though the layout has none.
  \<open>slices.SortFunc\<close> may leave backups of the same moment in any order; here they stay in the order of their keys, and no theorem depends on it.
\<close>

unbundle bit_operations_syntax

subsection \<open>Time stamps\<close>

text \<open>The fraction: a point or comma and digits, of which nine count.\<close>

definition fraction :: "string \<Rightarrow> int \<times> string" where
  "fraction s =
     (case s of
        mark # d # r \<Rightarrow>
          if (mark = CHR ''.'' \<or> mark = CHR '','') \<and> digit_of d \<noteq> None
          then let digits = takeWhile (\<lambda>c. digit_of c \<noteq> None) (d # r);
                   used = take 9 digits
               in ((case parse_digits 0 used of None \<Rightarrow> 0 | Some n \<Rightarrow> n * 10 ^ (9 - length used)), dropWhile (\<lambda>c. digit_of c \<noteq> None) (d # r))
          else (0, s)
      | _ \<Rightarrow> (0, s))"

definition parse_stamp :: "string \<Rightarrow> string \<Rightarrow> string \<Rightarrow> time option" where
  "parse_stamp sep rest s =
     (if length s < 4 then None else
      case parse_digits 0 (take 4 s) of None \<Rightarrow> None | Some y \<Rightarrow>
      (case getnum True (drop 4 s) of None \<Rightarrow> None | Some (m, s) \<Rightarrow>
       if m \<le> 0 \<or> 12 < m then None else
      (case getnum True s of None \<Rightarrow> None | Some (d, s) \<Rightarrow>
      (case cut_prefix sep s of None \<Rightarrow> None | Some s \<Rightarrow>
      (case getnum False s of None \<Rightarrow> None | Some (h, s) \<Rightarrow>
       if h < 0 \<or> 24 \<le> h then None else
      (case getnum True s of None \<Rightarrow> None | Some (mi, s) \<Rightarrow>
       if mi < 0 \<or> 60 \<le> mi then None else
      (case getnum True s of None \<Rightarrow> None | Some (sec, s) \<Rightarrow>
       if sec < 0 \<or> 60 \<le> sec then None else
      (case fraction s of (ns, s) \<Rightarrow>
       if s \<noteq> rest \<or> d < 1 \<or> d > month_lengths y ! nat (m - 1) then None
       else Some (days_of y m d * Day + h * Hour + mi * Minute + sec * Second + ns)))))))))"

definition format_stamp :: "string \<Rightarrow> string \<Rightarrow> time \<Rightarrow> string" where
  "format_stamp sep rest t =
     formatDay t @ sep @ pad 2 (t mod Day div Hour) @ pad 2 (t mod Hour div Minute) @ pad 2 (t mod Minute div Second) @ rest"

subsection \<open>Names and places\<close>

definition DefaultBackupRetentionDays :: int where "DefaultBackupRetentionDays = 7"
definition MaxBackupRetentionDays :: int where "MaxBackupRetentionDays = 365"
definition DeletedBackupRetention :: duration where "DeletedBackupRetention = 7 * 24 * Hour"
definition MaxRestorePoints :: nat where "MaxRestorePoints = 100"
definition maxBackupServerNameBase :: nat where "maxBackupServerNameBase = 40"
definition BinlogPruneMargin :: duration where "BinlogPruneMargin = Hour"
definition DumpFileExtension :: string where "DumpFileExtension = ''sql.gz''"
definition PhysicalBackupFilePrefix :: string where "PhysicalBackupFilePrefix = ''physicalbackup-''"
definition PhysicalBackupFileSuffix :: string where "PhysicalBackupFileSuffix = ''.xb.gz''"

text \<open>\<open>hash/fnv.New32a\<close>, and \<open>%08x\<close>.\<close>

definition fnv32a :: "string \<Rightarrow> 32 word" where
  "fnv32a s = foldl (\<lambda>h c. (h XOR of_nat (of_char c)) * 16777619) 2166136261 s"

definition hex_digit :: "nat \<Rightarrow> char" where
  "hex_digit n = (if n < 10 then char_of (48 + n) else char_of (87 + n))"

definition hex8 :: "32 word \<Rightarrow> string" where
  "hex8 w = map (\<lambda>i. hex_digit (unat w div 16 ^ i mod 16)) [7, 6, 5, 4, 3, 2, 1, 0]"

definition BackupServerName :: "string \<Rightarrow> string \<Rightarrow> string" where
  "BackupServerName database uid =
     (let suff = filter (\<lambda>c. c \<noteq> CHR ''-'') uid;
          suff = (if length suff > 8 then take 8 suff else suff);
          suff = (if suff = [] then hex8 (fnv32a database) else suff);
          base = (if length database > maxBackupServerNameBase
            then rev (dropWhile (\<lambda>c. c = CHR ''-'' \<or> c = CHR ''.'') (rev (take maxBackupServerNameBase database))) else database)
      in base @ ''-'' @ suff)"

definition BackupRetentionPolicy :: "int \<Rightarrow> string" where
  "BackupRetentionPolicy days =
     (let days = (if days \<le> 0 then DefaultBackupRetentionDays else days);
          days = (if days > MaxBackupRetentionDays then MaxBackupRetentionDays else days)
      in itoa days @ ''d'')"

definition BackupSchedule :: "string \<Rightarrow> string" where
  "BackupSchedule uid = ''0 '' @ itoa (int (unat (fnv32a uid mod 60))) @ '' 2 * * *''"

text \<open>\<open>strings.Fields\<close>, after the letters read so far of a field.\<close>

fun string_fields :: "string \<Rightarrow> string \<Rightarrow> string list" where
  "string_fields w [] = (if w = [] then [] else [w])"
| "string_fields w (c # cs) =
     (if is_space c then (if w = [] then string_fields [] cs else w # string_fields [] cs) else string_fields (w @ [c]) cs)"

definition DumpSchedule :: "string \<Rightarrow> string" where
  "DumpSchedule uid = (let fields = string_fields [] (BackupSchedule uid) in fields ! 1 @ '' '' @ fields ! 2 @ '' * * *'')"

definition BackupDestinationPath :: "string \<Rightarrow> string \<Rightarrow> string" where
  "BackupDestinationPath bucket project = ''s3://'' @ bucket @ ''/'' @ project"

definition BackupObjectPrefix :: "string \<Rightarrow> string \<Rightarrow> string" where
  "BackupObjectPrefix project serverName = project @ ''/'' @ serverName @ ''/''"

definition PhysicalObjectPrefix :: "string \<Rightarrow> string \<Rightarrow> string" where
  "PhysicalObjectPrefix project serverName = BackupObjectPrefix project serverName @ ''physical/''"

definition BinlogObjectPrefix :: "string \<Rightarrow> string \<Rightarrow> string" where
  "BinlogObjectPrefix project serverName = BackupObjectPrefix project serverName @ ''binlogs/''"

definition DumpObjectPrefix :: "string \<Rightarrow> string \<Rightarrow> string" where
  "DumpObjectPrefix project serverName = BackupObjectPrefix project serverName @ ''dumps/''"

definition BackupDeleteAfter :: "time \<Rightarrow> time" where
  "BackupDeleteAfter now = now + DeletedBackupRetention"

definition BackupObjectBaseURL :: "string \<Rightarrow> string \<Rightarrow> string" where
  "BackupObjectBaseURL bucket region =
     (if CHR ''.'' \<in> set bucket then ''https://s3.'' @ region @ ''.amazonaws.com/'' @ bucket
      else ''https://'' @ bucket @ ''.s3.'' @ region @ ''.amazonaws.com'')"

subsection \<open>Snapshots and physical backups\<close>

text \<open>What is after the last slash of a key.\<close>

definition key_name :: "string \<Rightarrow> string" where
  "key_name key = (case last_index_byte (CHR ''/'') key of None \<Rightarrow> key | Some i \<Rightarrow> drop (i + 1) key)"

definition DumpObjectName :: "time \<Rightarrow> string" where
  "DumpObjectName t = format_stamp ''T'' ''Z'' t @ ''.'' @ DumpFileExtension"

definition ParseDumpObject :: "string \<Rightarrow> (string \<times> time) option" where
  "ParseDumpObject key =
     (let name = key_name key in
      case index_byte (CHR ''.'') name of
        None \<Rightarrow> None
      | Some i \<Rightarrow> (case parse_stamp ''T'' ''Z'' (take i name) of
            None \<Rightarrow> None
          | Some t \<Rightarrow> Some (take i name, t)))"

definition cut_suffix :: "string \<Rightarrow> string \<Rightarrow> string option" where
  "cut_suffix p s = (if has_suffix p s then Some (take (length s - length p) s) else None)"

definition ParsePhysicalObject :: "string \<Rightarrow> (string \<times> time) option" where
  "ParsePhysicalObject key =
     (case cut_prefix PhysicalBackupFilePrefix (key_name key) of
        None \<Rightarrow> None
      | Some stamp \<Rightarrow> (case cut_suffix PhysicalBackupFileSuffix stamp of
            None \<Rightarrow> None
          | Some stamp \<Rightarrow> (case parse_stamp [] [] stamp of
                None \<Rightarrow> None
              | Some t \<Rightarrow> Some (format_stamp ''T'' ''Z'' t, t))))"

definition ParseRestorePointTime :: "string \<Rightarrow> time option" where
  "ParseRestorePointTime s = parse_stamp ''T'' ''Z'' s"

record restore_point =
  rp_id :: string
  rp_time :: time

definition newest_first :: "(string \<times> time) list \<Rightarrow> restore_point list" where
  "newest_first found = take MaxRestorePoints (sort_cmp (\<lambda>a b. cmp_compare (rp_time b) (rp_time a)) (map (\<lambda>(i, t). \<lparr>rp_id = i, rp_time = t\<rparr>) found))"

definition PhysicalRestorePoints :: "string list \<Rightarrow> restore_point list" where
  "PhysicalRestorePoints keys = newest_first (List.map_filter ParsePhysicalObject keys)"

definition DumpRestorePoints :: "string list \<Rightarrow> restore_point list" where
  "DumpRestorePoints keys = newest_first (List.map_filter ParseDumpObject keys)"

definition snapshots_of :: "string list \<Rightarrow> (string \<times> time) list" where
  "snapshots_of keys = List.map_filter (\<lambda>key. map_option (\<lambda>(i, t). (key, t)) (ParseDumpObject key)) keys"

definition ExpiredDumpKeys :: "string list \<Rightarrow> int \<Rightarrow> time \<Rightarrow> string list" where
  "ExpiredDumpKeys keys retentionDays now =
     (let retentionDays = (if retentionDays \<le> 0 then DefaultBackupRetentionDays else retentionDays);
          snapshots = snapshots_of keys
      in if length snapshots < 2 then []
         else let snapshots = sort_cmp (\<lambda>a b. cmp_compare (snd b) (snd a)) snapshots;
                  cutoff = now - retentionDays * Day
              in map fst (filter (\<lambda>candidate. snd candidate < cutoff) (tl snapshots)))"

record stored_object =
  so_key :: string
  so_modified :: time

text \<open>The zero time, which a sort of the code takes for no time, is 0.\<close>

definition oldest_backup :: "string list \<Rightarrow> time" where
  "oldest_backup keys = foldl (\<lambda>oldest key. case ParsePhysicalObject key of
     None \<Rightarrow> oldest | Some (i, t) \<Rightarrow> if oldest = 0 \<or> t < oldest then t else oldest) 0 keys"

definition ExpiredBinlogs :: "stored_object list \<Rightarrow> string list \<Rightarrow> string list" where
  "ExpiredBinlogs objects physicalKeys =
     (let oldest = oldest_backup physicalKeys in
      if oldest = 0 then []
      else let cutoff = oldest - BinlogPruneMargin
           in map so_key (filter (\<lambda>object. \<not> (\<not> has_suffix ''.gz'' (key_name (so_key object)) \<or> so_modified object = 0 \<or> \<not> so_modified object < cutoff)) objects))"

definition RestoreTargetTime :: "time \<Rightarrow> string" where
  "RestoreTargetTime t = (case civil (t div Day) of (y, m, d) \<Rightarrow>
     pad 4 y @ ''-'' @ pad 2 m @ ''-'' @ pad 2 d @ '' '' @ pad 2 (t mod Day div Hour) @ '':'' @ pad 2 (t mod Hour div Minute) @ '':'' @
     pad 2 (t mod Minute div Second) @ ''.'' @ pad 6 (t mod Second div 1000) @ ''+00'')"

subsection \<open>State and kinds\<close>

record backup_health =
  bh_StorageReady :: bool
  bh_StorageError :: string
  bh_Archiving :: "bool option"
  bh_LastSuccess :: "time option"
  bh_LastFailure :: "time option"
  bh_Unrestorable :: string

datatype backup_state = NeedsStorage | Starting | Protected | AtRisk

definition DatabaseBackupState :: "backup_health \<Rightarrow> backup_state \<times> string" where
  "DatabaseBackupState health =
     (if \<not> bh_StorageReady health then
        (if bh_StorageError health \<noteq> [] then (NeedsStorage, ''Backup storage is not working: '' @ bh_StorageError health)
         else (NeedsStorage, ''Choose where backups are stored to protect this database''))
      else if bh_Archiving health = Some False then (AtRisk, ''Recent changes are not being saved to backup storage'')
      else if bh_Unrestorable health \<noteq> [] then (AtRisk, bh_Unrestorable health)
      else if (case bh_LastFailure health of None \<Rightarrow> False
          | Some f \<Rightarrow> (case bh_LastSuccess health of None \<Rightarrow> True | Some s \<Rightarrow> f > s)) then (AtRisk, ''The latest backup failed'')
      else if bh_LastSuccess health = None then (Starting, ''Taking the first backup'')
      else (Protected, ''Backups are running''))"

datatype backup_kind = BackupKindNone | BackupKindContinuous | BackupKindSnapshot

definition DatabaseBackupKind :: "string \<Rightarrow> string \<Rightarrow> bool \<Rightarrow> backup_kind" where
  "DatabaseBackupKind engine placement highAvailability =
     (if placement = ''External'' then BackupKindNone
      else if engine = ''Postgres'' \<or> engine = [] then BackupKindContinuous
      else if engine = ''MariaDB'' then (if highAvailability then BackupKindContinuous else BackupKindSnapshot)
      else if engine = ''MySQL'' \<or> engine = ''SQLite'' then BackupKindSnapshot
      else BackupKindNone)"

record backup_archive =
  ba_engine :: string
  ba_highAvailability :: bool
  ba_points :: "restore_point list"
  ba_windowStart :: "time option"
  ba_windowEnd :: "time option"

definition ArchiveBackupKind :: "backup_archive \<Rightarrow> backup_kind" where
  "ArchiveBackupKind archive = DatabaseBackupKind (ba_engine archive) [] (ba_highAvailability archive)"

datatype restore_problem = BothGiven | OnlyRestorePoints | NoRestorePoints | PointNotAvailable | BeforeWindow | AfterWindow

definition ValidateRestoreTarget :: "backup_archive \<Rightarrow> string \<Rightarrow> time option \<Rightarrow> restore_problem option" where
  "ValidateRestoreTarget archive restorePoint moment =
     (if restorePoint \<noteq> [] \<and> moment \<noteq> None then Some BothGiven
      else if moment \<noteq> None \<and> ArchiveBackupKind archive = BackupKindSnapshot then Some OnlyRestorePoints
      else if ba_points archive = [] then Some NoRestorePoints
      else if restorePoint \<noteq> [] then
        (if list_ex (\<lambda>point. rp_id point = restorePoint) (ba_points archive) then None else Some PointNotAvailable)
      else (case moment of
          None \<Rightarrow> None
        | Some t \<Rightarrow>
            if (case ba_windowStart archive of None \<Rightarrow> False | Some start \<Rightarrow> t < start) then Some BeforeWindow
            else if (case ba_windowEnd archive of None \<Rightarrow> False | Some e \<Rightarrow> t > e) then Some AfterWindow
            else None))"

section \<open>Names read back\<close>

lemma fraction_none: "s = [] \<or> hd s \<noteq> CHR ''.'' \<and> hd s \<noteq> CHR '','' \<Longrightarrow> fraction s = (0, s)"
  by (cases s; cases "tl s") (auto simp: fraction_def)

lemma clock_parts:
  fixes t :: time
  shows "t mod Day div Hour * Hour + t mod Hour div Minute * Minute + t mod Minute div Second * Second = t mod Day - t mod Second"
proof -
  have "t mod Day mod Hour = t mod Hour" by (simp add: Day_def mod_mod_cancel)
  then have h: "t mod Day div Hour * Hour = t mod Day - t mod Hour" using div_mult_mod_eq [of "t mod Day" Hour] by linarith
  have "t mod Hour mod Minute = t mod Minute" by (simp add: duration_defs mod_mod_cancel)
  then have m: "t mod Hour div Minute * Minute = t mod Hour - t mod Minute" using div_mult_mod_eq [of "t mod Hour" Minute] by linarith
  have "t mod Minute mod Second = t mod Second" by (simp add: duration_defs mod_mod_cancel)
  then have "t mod Minute div Second * Second = t mod Minute - t mod Second" using div_mult_mod_eq [of "t mod Minute" Second] by linarith
  with h m show ?thesis by linarith
qed

lemma clock_range:
  fixes t :: time
  shows "0 \<le> t mod Day div Hour \<and> t mod Day div Hour < 24" "0 \<le> t mod Hour div Minute \<and> t mod Hour div Minute < 60"
    "0 \<le> t mod Minute div Second \<and> t mod Minute div Second < 60"
  using pos_mod_bound [of Day t] pos_mod_bound [of Hour t] pos_mod_bound [of Minute t]
  by (simp_all add: pos_imp_zdiv_nonneg_iff div_below Day_def) (simp_all add: div_below duration_defs)

definition dated :: "time \<Rightarrow> bool" where
  "dated t \<longleftrightarrow> 0 \<le> t \<and> t < days_before_year 10000 * Day"

lemma parse_stamp_format:
  assumes t: "dated t" and sep: "sep = [] \<or> sep = ''T''" and rest: "rest = [] \<or> rest = ''Z''"
  shows "parse_stamp sep rest (format_stamp sep rest t) = Some (t - t mod Second)"
proof -
  obtain y m d where c: "civil (t div Day) = (y, m, d)" by (cases "civil (t div Day)") auto
  have n: "0 \<le> t div Day" using t by (simp add: pos_imp_zdiv_nonneg_iff dated_def)
  have "t div Day < days_before_year 10000" using t by (intro div_below) (simp_all add: dated_def)
  note date = civil_date [OF n c] and year = year_before_10000 [OF n c this]
  have f: "fraction rest = (0, rest)" using rest by (intro fraction_none) auto
  have total: "days_of y m d * Day + t mod Day div Hour * Hour + t mod Hour div Minute * Minute + t mod Minute div Second * Second = t - t mod Second"
  proof -
    have "days_of y m d = t div Day" using date by simp
    then have "days_of y m d * Day = t div Day * Day" by simp
    then show ?thesis using clock_parts [of t] div_mult_mod_eq [of t Day] by linarith
  qed
  show ?thesis
    using pad4 [of y] date year clock_range [of t] c total
    by (simp add: parse_stamp_def format_stamp_def formatDay_def getnum_pad2 f)
qed

lemma key_name_append: "CHR ''/'' \<notin> set name \<Longrightarrow> key_name (folder @ ''/'' @ name) = name"
  by (simp add: key_name_def last_index_byte_def index_byte_def takeWhile_append)

lemma index_byte_append: "c \<notin> set xs \<Longrightarrow> index_byte c (xs @ c # ys) = Some (length xs)"
  by (simp add: index_byte_def takeWhile_append)

lemma pad_no_mark: "0 \<le> n \<Longrightarrow> c \<in> set (pad w n) \<Longrightarrow> c \<noteq> CHR ''.'' \<and> c \<noteq> CHR ''/''"
  using itoa_no_mark [of n c] by (auto simp: pad_def Let_def)

lemma stamp_no_mark:
  assumes "dated t" and "c \<in> set (format_stamp sep rest t)" and "sep = [] \<or> sep = ''T''" and "rest = [] \<or> rest = ''Z''"
  shows "c \<noteq> CHR ''.'' \<and> c \<noteq> CHR ''/''"
proof -
  obtain y m d where c: "civil (t div Day) = (y, m, d)" by (cases "civil (t div Day)") auto
  have "0 \<le> t div Day" using assms(1) by (simp add: pos_imp_zdiv_nonneg_iff dated_def)
  note date = civil_date [OF this c]
  note pads = pad_no_mark [of y c 4] pad_no_mark [of m c 2] pad_no_mark [of d c 2] pad_no_mark [of "t mod Day div Hour" c 2]
    pad_no_mark [of "t mod Hour div Minute" c 2] pad_no_mark [of "t mod Minute div Second" c 2]
  have "c \<in> set (pad 4 y) \<or> c \<in> set (pad 2 m) \<or> c \<in> set (pad 2 d) \<or> c \<in> set (pad 2 (t mod Day div Hour)) \<or> c \<in> set (pad 2 (t mod Hour div Minute)) \<or>
      c \<in> set (pad 2 (t mod Minute div Second)) \<or> c \<in> {CHR ''T'', CHR ''Z''}"
    using assms(2-4) by (auto simp: format_stamp_def formatDay_def c)
  then show ?thesis using pads date clock_range [of t] by auto
qed

lemma ParseDumpObject_name:
  assumes "dated t"
  shows "ParseDumpObject (folder @ ''/'' @ DumpObjectName t) = Some (format_stamp ''T'' ''Z'' t, t - t mod Second)"
proof -
  note marks = stamp_no_mark [OF assms, of _ "''T''" "''Z''", simplified]
  have "key_name (folder @ ''/'' @ DumpObjectName t) = DumpObjectName t"
    using marks by (intro key_name_append) (auto simp: DumpObjectName_def DumpFileExtension_def)
  moreover have "index_byte (CHR ''.'') (DumpObjectName t) = Some (length (format_stamp ''T'' ''Z'' t))"
    using marks index_byte_append by (auto simp: DumpObjectName_def)
  ultimately show ?thesis using parse_stamp_format [OF assms, of "''T''" "''Z''"]
    by (simp add: ParseDumpObject_def Let_def DumpObjectName_def)
qed

lemma ParseRestorePoint_id: "ParsePhysicalObject key = Some (i, t) \<Longrightarrow> dated t \<Longrightarrow> ParseRestorePointTime i = Some (t - t mod Second)"
  using parse_stamp_format [of t "''T''" "''Z''"] by (auto simp: ParsePhysicalObject_def ParseRestorePointTime_def split: option.splits)

text \<open>One backup window: the snapshots are taken at the minute of the daily backups, which is one of an hour.\<close>

lemma string_fields_word: "\<forall>c \<in> set xs. \<not> is_space c \<Longrightarrow> string_fields w (xs @ ys) = string_fields (w @ xs) ys"
  by (induction xs arbitrary: w) auto

lemma digit_no_space: "digit_of c \<noteq> None \<Longrightarrow> \<not> is_space c"
  by (auto simp: digit_of_def is_space_def Let_def split: if_splits)

lemma one_backup_window:
  "\<exists>minute. 0 \<le> minute \<and> minute < 60 \<and> BackupSchedule uid = ''0 '' @ itoa minute @ '' 2 * * *'' \<and> DumpSchedule uid = itoa minute @ '' 2 * * *''"
proof -
  let ?m = "int (unat (fnv32a uid mod 60))"
  have "unat (fnv32a uid mod 60) < 60" using word_mod_less_divisor [of 60 "fnv32a uid"] by (simp add: word_less_nat_alt)
  then have m: "?m < 60" by linarith
  have sp: "is_space (CHR '' '')" "\<not> is_space (CHR ''0'')" "\<not> is_space (CHR ''2'')" "\<not> is_space (CHR ''*'')" by code_simp+
  have "\<forall>c \<in> set (itoa ?m). \<not> is_space c" using digits_only [of "nat ?m"] digit_no_space by (auto simp: itoa_def)
  then have "string_fields [] (BackupSchedule uid) = [''0'', itoa ?m, ''2'', ''*'', ''*'', ''*'']"
    by (simp add: BackupSchedule_def sp string_fields_word)
  then have "DumpSchedule uid = itoa ?m @ '' 2 * * *''" by (simp add: DumpSchedule_def)
  then show ?thesis using m by (intro exI [of _ ?m]) (simp add: BackupSchedule_def)
qed

section \<open>Newest first\<close>

interpretation snapshot_order: weak_order "\<lambda>a b :: string \<times> time. cmp_compare (snd b) (snd a)"
  by (rule weak_order_flip [OF weak_order_compare])

interpretation point_order: weak_order "\<lambda>a b. cmp_compare (rp_time b) (rp_time a)"
  by (rule weak_order_flip [OF weak_order_compare])

lemma compare_le [simp]: "cmp_compare a b \<le> 0 \<longleftrightarrow> a \<le> b"
  by (auto simp: cmp_compare_def)

lemma newest_first_points:
  shows "length (newest_first found) \<le> 100"
    and "sorted_wrt (\<lambda>a b. rp_time b \<le> rp_time a) (newest_first found)"
    and "p \<in> set (newest_first found) \<Longrightarrow> (rp_id p, rp_time p) \<in> set found"
    and "(i, t) \<in> set found \<Longrightarrow> \<lparr>rp_id = i, rp_time = t\<rparr> \<in> set (newest_first found) \<or>
      length (newest_first found) = 100 \<and> (\<forall>p \<in> set (newest_first found). t \<le> rp_time p)"
proof -
  let ?all = "sort_cmp (\<lambda>a b. cmp_compare (rp_time b) (rp_time a)) (map (\<lambda>(i, t). \<lparr>rp_id = i, rp_time = t\<rparr>) found)"
  have s: "sorted_wrt (\<lambda>a b. rp_time b \<le> rp_time a) ?all" using point_order.sorted_sort_cmp by simp
  have split: "?all = newest_first found @ drop 100 ?all" by (simp add: newest_first_def MaxRestorePoints_def)
  then have s2: "sorted_wrt (\<lambda>a b. rp_time b \<le> rp_time a) (newest_first found @ drop 100 ?all)" using s by simp
  show "length (newest_first found) \<le> 100" by (simp add: newest_first_def MaxRestorePoints_def)
  show "sorted_wrt (\<lambda>a b. rp_time b \<le> rp_time a) (newest_first found)" using s2 by (simp add: sorted_wrt_append)
  show "(rp_id p, rp_time p) \<in> set found" if "p \<in> set (newest_first found)"
  proof -
    have "p \<in> set ?all" using that split by (metis Un_iff set_append)
    then show ?thesis by auto
  qed
  assume "(i, t) \<in> set found"
  then have "\<lparr>rp_id = i, rp_time = t\<rparr> \<in> set ?all" by force
  then consider "\<lparr>rp_id = i, rp_time = t\<rparr> \<in> set (newest_first found)" | (old) "\<lparr>rp_id = i, rp_time = t\<rparr> \<in> set (drop 100 ?all)"
    by (metis split Un_iff set_append)
  then show "\<lparr>rp_id = i, rp_time = t\<rparr> \<in> set (newest_first found) \<or> length (newest_first found) = 100 \<and> (\<forall>p \<in> set (newest_first found). t \<le> rp_time p)"
  proof cases
    case old
    then have "drop 100 ?all \<noteq> []" by (metis empty_iff empty_set)
    then have "length (newest_first found) = 100" by (simp add: newest_first_def MaxRestorePoints_def)
    moreover have "\<forall>p \<in> set (newest_first found). \<forall>q \<in> set (drop 100 ?all). rp_time q \<le> rp_time p" using s2 by (simp add: sorted_wrt_append)
    ultimately show ?thesis using old by fastforce
  qed simp
qed

section \<open>What is deleted\<close>

lemma map_filter_set: "y \<in> set (List.map_filter f xs) \<longleftrightarrow> (\<exists>x \<in> set xs. f x = Some y)"
  by (induction xs) (auto simp: map_filter_simps split: option.splits)

lemma snapshots_of_set: "(k, t) \<in> set (snapshots_of keys) \<longleftrightarrow> k \<in> set keys \<and> (\<exists>i. ParseDumpObject k = Some (i, t))"
  unfolding snapshots_of_def map_filter_set by (auto split: prod.splits)

lemma snapshots_of_keys: "fst ` set (snapshots_of keys) \<subseteq> set keys"
  using snapshots_of_set by fastforce

lemma snapshots_of_distinct: "distinct keys \<Longrightarrow> distinct (map fst (snapshots_of keys))"
proof (induction keys)
  case (Cons k keys)
  then show ?case using snapshots_of_keys [of keys] by (auto simp: snapshots_of_def map_filter_simps split: option.splits)
qed (simp add: snapshots_of_def map_filter_simps)

definition kept_days :: "int \<Rightarrow> int" where
  "kept_days n = (if n \<le> 0 then 7 else n)"

definition snapshot_at :: "string list \<Rightarrow> string \<Rightarrow> time \<Rightarrow> bool" where
  "snapshot_at keys k t \<longleftrightarrow> k \<in> set keys \<and> (\<exists>i. ParseDumpObject k = Some (i, t))"

lemma expired_cases:
  assumes "distinct keys" and "snapshot_at keys k0 t0"
  obtains newest tn where "snapshot_at keys newest tn" and "\<And>k t. snapshot_at keys k t \<Longrightarrow> t \<le> tn"
    and "\<And>k. k \<in> set (ExpiredDumpKeys keys n now) \<longleftrightarrow> k \<noteq> newest \<and> (\<exists>t. snapshot_at keys k t \<and> t < now - kept_days n * Day)"
proof -
  let ?sorted = "sort_cmp (\<lambda>a b. cmp_compare (snd b) (snd a)) (snapshots_of keys)"
  have mem: "(k, t) \<in> set ?sorted \<longleftrightarrow> snapshot_at keys k t" for k t by (simp add: snapshots_of_set snapshot_at_def)
  then have "?sorted \<noteq> []" using assms(2) by (metis empty_iff empty_set)
  then obtain newest tn others where sorted: "?sorted = (newest, tn) # others" by (metis list.exhaust surj_pair)
  have top: "t \<le> tn" if "snapshot_at keys k t" for k t
    using snapshot_order.sorted_sort_cmp [of "snapshots_of keys"] that mem [of k t] unfolding sorted by auto
  have d: "distinct (map fst ?sorted)" using snapshots_of_distinct [OF assms(1)] by (metis mset_map mset_sort_cmp mset_eq_imp_distinct_iff)
  have rest: "(k, t) \<in> set others \<longleftrightarrow> k \<noteq> newest \<and> snapshot_at keys k t" for k t
    using mem [of k t] d unfolding sorted by (auto simp: snapshot_at_def rev_image_eqI)
  have "ExpiredDumpKeys keys n now = map fst (filter (\<lambda>c. snd c < now - kept_days n * Day) others)"
  proof (cases "length (snapshots_of keys) < 2")
    case True
    then have "length ?sorted < 2" by simp
    then have "others = []" unfolding sorted by (cases others) auto
    then show ?thesis using True by (simp add: ExpiredDumpKeys_def)
  next
    case False
    then show ?thesis using sorted by (simp add: ExpiredDumpKeys_def Let_def kept_days_def DefaultBackupRetentionDays_def)
  qed
  then have "k \<in> set (ExpiredDumpKeys keys n now) \<longleftrightarrow> k \<noteq> newest \<and> (\<exists>t. snapshot_at keys k t \<and> t < now - kept_days n * Day)" for k
    using rest by (force simp: image_iff)
  then show ?thesis using that mem [of newest tn] top unfolding sorted by simp
qed

text \<open>
  C38. The last copy is never deleted. Of the snapshots of a database, those that are deleted are the ones older than the retention, seven days if none is set, but
  for one: a newest snapshot is kept, however old it is, and whatever else is in the folder.\<close>

theorem newest_snapshot_kept:
  assumes "distinct keys" and "snapshot_at keys k0 t0"
  shows "\<exists>newest tn. snapshot_at keys newest tn \<and> (\<forall>k t. snapshot_at keys k t \<longrightarrow> t \<le> tn) \<and>
    (\<forall>k. k \<in> set (ExpiredDumpKeys keys n now) \<longleftrightarrow> k \<noteq> newest \<and> (\<exists>t. snapshot_at keys k t \<and> t < now - (if n \<le> 0 then 7 else n) * Day))"
proof -
  obtain newest tn where new: "snapshot_at keys newest tn" "\<And>k t. snapshot_at keys k t \<Longrightarrow> t \<le> tn"
    and out: "\<And>k. k \<in> set (ExpiredDumpKeys keys n now) \<longleftrightarrow> k \<noteq> newest \<and> (\<exists>t. snapshot_at keys k t \<and> t < now - kept_days n * Day)"
    using expired_cases [OF assms, where n = n and now = now] by blast
  show ?thesis by (rule exI [of _ newest], rule exI [of _ tn]) (use new out in \<open>simp add: kept_days_def\<close>)
qed

definition jan :: "int \<Rightarrow> string" where
  "jan d = ''shop/main/dumps/202401'' @ pad 2 d @ ''T021500Z.sql.gz''"

text \<open>Three snapshots of January, of which two are older than three days on the twentieth, and a stray file.\<close>

theorem newest_snapshot_kept_witness:
  "\<exists>newest tn. snapshot_at [jan 1, ''shop/main/dumps/'', jan 9, jan 5] newest tn \<and> (\<forall>k t. snapshot_at [jan 1, ''shop/main/dumps/'', jan 9, jan 5] k t \<longrightarrow> t \<le> tn) \<and>
     newest \<notin> set (ExpiredDumpKeys [jan 1, ''shop/main/dumps/'', jan 9, jan 5] 3 (days_of 2024 1 20 * Day)) \<and>
     ExpiredDumpKeys [jan 1, ''shop/main/dumps/'', jan 9, jan 5] 3 (days_of 2024 1 20 * Day) = [jan 5, jan 1]"
proof -
  let ?keys = "[jan 1, ''shop/main/dumps/'', jan 9, jan 5]"
  have d: "distinct ?keys" by code_simp
  have "map_option snd (ParseDumpObject (jan 1)) = Some (days_of 2024 1 1 * Day + 2 * Hour + 15 * Minute)" by code_simp
  then have k: "snapshot_at ?keys (jan 1) (days_of 2024 1 1 * Day + 2 * Hour + 15 * Minute)" by (auto simp: snapshot_at_def)
  have e: "ExpiredDumpKeys ?keys 3 (days_of 2024 1 20 * Day) = [jan 5, jan 1]" by code_simp
  show ?thesis using newest_snapshot_kept [OF d k, of 3 "days_of 2024 1 20 * Day"] e by metis
qed

text \<open>The oldest physical backup is the least of their times.\<close>

definition physical_times :: "string list \<Rightarrow> time list" where
  "physical_times keys = map snd (List.map_filter ParsePhysicalObject keys)"

definition earlier :: "time \<Rightarrow> time \<Rightarrow> time" where
  "earlier oldest t = (if oldest = 0 \<or> t < oldest then t else oldest)"

lemma oldest_backup_times: "oldest_backup keys = foldl earlier 0 (physical_times keys)"
proof -
  have "foldl (\<lambda>oldest key. case ParsePhysicalObject key of None \<Rightarrow> oldest | Some (i, t) \<Rightarrow> if oldest = 0 \<or> t < oldest then t else oldest) o0 keys =
      foldl earlier o0 (physical_times keys)" for o0
    by (induction keys arbitrary: o0) (auto simp: physical_times_def map_filter_simps earlier_def split: option.splits)
  then show ?thesis by (simp add: oldest_backup_def)
qed

lemma earlier_least:
  "0 < o0 \<Longrightarrow> \<forall>t \<in> set ts. 0 < t \<Longrightarrow> foldl earlier o0 ts \<in> insert o0 (set ts) \<and> (\<forall>t \<in> insert o0 (set ts). foldl earlier o0 ts \<le> t)"
proof (induction ts arbitrary: o0)
  case (Cons t ts)
  define o1 where "o1 = earlier o0 t"
  have o1: "0 < o1" "o1 \<le> o0" "o1 \<le> t" "o1 = o0 \<or> o1 = t" using Cons.prems by (auto simp: o1_def earlier_def)
  have IH: "foldl earlier o1 ts \<in> insert o1 (set ts)" "\<forall>u \<in> insert o1 (set ts). foldl earlier o1 ts \<le> u" using Cons.IH [OF o1(1)] Cons.prems by auto
  have "foldl earlier o0 (t # ts) = foldl earlier o1 ts" by (simp add: o1_def)
  moreover have "foldl earlier o1 ts \<in> insert o0 (set (t # ts))" using IH(1) o1(4) by auto
  moreover have "foldl earlier o1 ts \<le> u" if "u \<in> insert o0 (set (t # ts))" for u
    using that IH(2) o1(2,3) by fastforce
  ultimately show ?case by simp
qed simp

lemma oldest_backup_least:
  assumes "\<forall>t \<in> set (physical_times keys). 0 < t" and "physical_times keys \<noteq> []"
  shows "oldest_backup keys \<in> set (physical_times keys) \<and> (\<forall>t \<in> set (physical_times keys). oldest_backup keys \<le> t)"
proof -
  obtain t ts where ts: "physical_times keys = t # ts" using assms(2) by (cases "physical_times keys") auto
  then have "oldest_backup keys = foldl earlier t ts" by (simp add: oldest_backup_times earlier_def)
  then show ?thesis using earlier_least [of t ts] assms(1) ts by simp
qed

text \<open>
  C11. A log that a restore can need is kept. Whatever is in the bucket, an archived log is deleted exactly when there is a physical backup, and the log was written
  more than an hour before every one of them; what is not a compressed log, such as the inventory, never is.\<close>

theorem needed_binlogs_kept:
  assumes "\<forall>t \<in> set (physical_times physical). 0 < t"
  shows "key \<in> set (ExpiredBinlogs objects physical) \<longleftrightarrow>
    (\<exists>object \<in> set objects. so_key object = key \<and> has_suffix ''.gz'' (key_name key) \<and> so_modified object \<noteq> 0 \<and>
      physical_times physical \<noteq> [] \<and> (\<forall>t \<in> set (physical_times physical). so_modified object < t - Hour))"
proof (cases "physical_times physical = []")
  case True
  then show ?thesis by (simp add: ExpiredBinlogs_def oldest_backup_times)
next
  case False
  note least = oldest_backup_least [OF assms False]
  then have "oldest_backup physical \<noteq> 0" using assms by fastforce
  then have "key \<in> set (ExpiredBinlogs objects physical) \<longleftrightarrow> (\<exists>object \<in> set objects. so_key object = key \<and> has_suffix ''.gz'' (key_name key) \<and>
      so_modified object \<noteq> 0 \<and> so_modified object < oldest_backup physical - Hour)"
    by (auto simp: ExpiredBinlogs_def Let_def BinlogPruneMargin_def)
  moreover have "x < oldest_backup physical - Hour \<longleftrightarrow> (\<forall>t \<in> set (physical_times physical). x < t - Hour)" for x
    using least by fastforce
  ultimately show ?thesis using False by simp
qed

text \<open>Two physical backups, and logs from before the first and from half an hour before it.\<close>

definition some_logs :: "stored_object list" where
  "some_logs = [\<lparr>so_key = ''b/1.gz'', so_modified = days_of 2024 1 4 * Day\<rparr>, \<lparr>so_key = ''b/2.gz'', so_modified = days_of 2024 1 5 * Day - 30 * Minute\<rparr>,
     \<lparr>so_key = ''b/index.yaml'', so_modified = days_of 2024 1 1 * Day\<rparr>]"

theorem needed_binlogs_kept_witness:
  "''b/1.gz'' \<in> set (ExpiredBinlogs some_logs [''p/physicalbackup-20240109000000.xb.gz'', ''p/physicalbackup-20240105000000.xb.gz'']) \<and>
   ''b/2.gz'' \<notin> set (ExpiredBinlogs some_logs [''p/physicalbackup-20240109000000.xb.gz'', ''p/physicalbackup-20240105000000.xb.gz''])"
proof -
  let ?p = "[''p/physicalbackup-20240109000000.xb.gz'', ''p/physicalbackup-20240105000000.xb.gz'']"
  have times: "physical_times ?p = [days_of 2024 1 9 * Day, days_of 2024 1 5 * Day]" by code_simp
  have pos: "\<forall>t \<in> set (physical_times ?p). 0 < t" unfolding times by code_simp
  have "(\<exists>object \<in> set some_logs. so_key object = ''b/1.gz'' \<and> has_suffix ''.gz'' (key_name ''b/1.gz'') \<and> so_modified object \<noteq> 0 \<and>
      physical_times ?p \<noteq> [] \<and> (\<forall>t \<in> set (physical_times ?p). so_modified object < t - Hour))" unfolding times by code_simp
  moreover have "\<not> (\<exists>object \<in> set some_logs. so_key object = ''b/2.gz'' \<and> has_suffix ''.gz'' (key_name ''b/2.gz'') \<and> so_modified object \<noteq> 0 \<and>
      physical_times ?p \<noteq> [] \<and> (\<forall>t \<in> set (physical_times ?p). so_modified object < t - Hour))" unfolding times by code_simp
  ultimately show ?thesis using needed_binlogs_kept [OF pos] by blast
qed

section \<open>What may be restored\<close>

text \<open>A target is accepted exactly when there is something to start from, and it is one of the restore points or, where every change is kept, a moment of the window.\<close>

lemma ValidateRestoreTarget_iff:
  "ValidateRestoreTarget archive restorePoint moment = None \<longleftrightarrow> ba_points archive \<noteq> [] \<and>
     (case moment of
        None \<Rightarrow> restorePoint = [] \<or> restorePoint \<in> rp_id ` set (ba_points archive)
      | Some t \<Rightarrow> restorePoint = [] \<and> ArchiveBackupKind archive \<noteq> BackupKindSnapshot \<and>
          (\<forall>start. ba_windowStart archive = Some start \<longrightarrow> start \<le> t) \<and> (\<forall>e. ba_windowEnd archive = Some e \<longrightarrow> t \<le> e))"
  by (cases moment; cases "ba_windowStart archive"; cases "ba_windowEnd archive")
    (auto simp: ValidateRestoreTarget_def list_ex_iff split: if_splits)

lemma Protected_iff:
  "fst (DatabaseBackupState health) = Protected \<longleftrightarrow> bh_StorageReady health \<and> bh_Archiving health \<noteq> Some False \<and> bh_Unrestorable health = [] \<and>
     (\<exists>s. bh_LastSuccess health = Some s \<and> (\<forall>f. bh_LastFailure health = Some f \<longrightarrow> f \<le> s))"
  by (cases "bh_LastSuccess health"; cases "bh_LastFailure health") (auto simp: DatabaseBackupState_def)

text \<open>A restore point of an archive can be asked for: the points that are listed are accepted, by their names.\<close>

lemma listed_point_accepted:
  "p \<in> set (ba_points archive) \<Longrightarrow> ValidateRestoreTarget archive (rp_id p) None = None"
  by (auto simp: ValidateRestoreTarget_iff)

end
