(* ===== verification/Spec2Isabelle.thy ===== *)
theory Spec2Isabelle
  imports Mail_Limiter Abuse_Signal Pool_Upkeep Lease Release_Versions Usage_Bills Crd_Compat Provisioning Egress Registry_Isolation Backups
begin

text \<open>
  \<^bold>\<open>The Geass operator\<close>

  Geass runs applications, databases and buckets for organizations on a K3s cluster: an operator (\<open>internal/controller\<close>) brings
  the cluster to what the custom resources ask for, a dashboard (\<open>internal/dashboard\<close>) writes those resources, a mail relay
  (\<open>internal/mailrelay\<close>) sends mail for the organizations, and packages under \<open>pkg\<close> hold the decisions they share. This development
  models the decisions and the state machines of the operator, as HOL functions over the same data, and proves what makes them
  correct. Every definition that models code is named after the Go function it is read from.

  \<^bold>\<open>The parts, and how they meet\<close>

  \<^item> \<open>Go_Prelude\<close>: what the sources use of Go (integers with their wrap-around, saturating time, stable sorting, maps, strings,
    decimal numbers). The locale \<open>weak_order\<close> is the contract of a comparison function; sorting is proved once in it and
    interpreted for the comparisons that the code sorts with.
  \<^item> \<open>Go_Numbers\<close>: decimal numbers read back from their text.
  \<^item> \<open>Kube_Types\<close>, \<open>Conditions\<close>: the Kubernetes objects, as records of the fields that are read or written, and the conditions of a
    resource (\<open>pkg/platform/conditions.go\<close>).
  \<^item> \<open>Mail_Limiter\<close> (\<open>internal/mailrelay/limiter.go\<close>): the sliding windows of an organization's mail. The locale \<open>sliding_counter\<close> is the
    contract of a window, the ring of buckets is interpreted as one for each of the three windows, and no window ever
    holds more than its limit, in any interleaving of reservations (C1, C2).
  \<^item> \<open>Abuse_Signal\<close> (\<open>pkg/abuse\<close>): the samples of a service's CPU and the suspicion they raise; \<open>Observe\<close> keeps exactly the longest unbroken
    streak, and raises a suspicion exactly at the end of the window (C4, C5, C8).
  \<^item> \<open>Placement\<close>, \<open>Capacity\<close>, \<open>Scheduling\<close>, \<open>Autoscale\<close> (\<open>pkg/platform\<close>): where a workload may run, what it asks for, what the cluster has
    free, and how many nodes it needs. A placement is read back from the node it was written onto (C9), the eligible nodes are
    exactly those where the pod can be scheduled (\<open>eligible_on_placed_node\<close>, C16), the index of pod usage refines reading all pods (C14; locale \<open>pod_index\<close>), what the
    capacity check admits fits (C15), and the packings that grow and shrink a pool are exact or sound (C19, C20; locale
    \<open>first_fit\<close>, interpreted for both loops).
  \<^item> \<open>Pool_Types\<close>, \<open>Pool_World\<close>, \<open>Pool_Nodes\<close>, \<open>Pool_Scale\<close>, \<open>Pool_Reconcile\<close>, \<open>Pool_Upkeep\<close>: the node pool controller
    (\<open>geassnodepool_controller.go\<close>, \<open>nodepool_nodes.go\<close>, \<open>nodepool_scale.go\<close>, \<open>nodepool_housekeeping.go\<close>, \<open>nodedrain.go\<close>, \<open>status.go\<close>), which calls the previous
    group. \<open>Pool_World\<close> is the API server and the provider with a supply of failures, one entry for each call, so a theorem about
    every world is one about every sequence of failing calls; \<open>keeps\<close> is the contract that each operation is shown to keep,
    and the locale \<open>api_read\<close> that of a call that only reads. A pass makes at most the nodes it may (C24, C27), loses none and leaves
    what others did alone (C28), removes only what is safe to remove (C26), sweeps only orphans (C29) and counts a
    failure once (C30); data stays off ephemeral nodes (C23), labels are valid (C31).
  \<^item> \<open>Migrations\<close>, \<open>Lease\<close> (\<open>pkg/migrations\<close>): data migrations with failing calls and other writers between any two calls (C33, C34, C36;
    locale \<open>migration_plan\<close>, interpreted for the migrations of the release), and the wait for the previous operator, which ends (C37).
  \<^item> \<open>Release_Versions\<close> (\<open>pkg/release\<close>): the order of releases and which K3s upgrades are allowed (\<open>CheckK3sUpgrade_iff\<close>).
  \<^item> \<open>Crd_Compat\<close> (\<open>pkg/crdcompat\<close>): the comparison of a release's resource definitions with the next one's. The specification is what the API server
    does with a stored value, \<open>valid\<close> and \<open>prune\<close>: when the comparison finds nothing, stored values stay as they are (C10), and what only
    adds is accepted (C22).
  \<^item> \<open>Usage_Clock\<close>, \<open>Usage_Measure\<close>, \<open>Metering\<close>, \<open>Usage_Bills\<close> (\<open>pkg/metering\<close>): what each organization reserves and the hours it is billed for. The
    names of hours round trip (locale \<open>hour_names\<close>); whose a pod is (C25); no time is billed twice whatever fails, restarts or writes in
    between (C3), an undisturbed sample counts all of the time (C7), closed hours are final (C12) and a read returns every hour (\<open>Read_returns_every_hour\<close>).
  \<^item> \<open>Provisioning\<close> (\<open>pkg/platform/reconcile_retry.go\<close>, \<open>provision_attempt.go\<close>, \<open>internal/controller/reconcile_not_ready.go\<close>): what every controller
    does when a resource is not ready. When it is given up (C32), what it waits for after that (C35), the history of attempts
    within its limits (C13) and in words for its owner (C21). The histories of a resource are the inductive predicate \<open>history\<close>.
  \<^item> \<open>Netguard\<close> (\<open>pkg/netguard\<close>): the addresses the operator does not connect to, with the reading of addresses of \<open>net/netip\<close>, as ranges of
    numbers (C17), and how much of a response it reads (C6; locale \<open>body_reader\<close>).
  \<^item> \<open>Ip_Prefix\<close>, \<open>Egress\<close> (\<open>pkg/platform/egress.go\<close>, \<open>nodenetwork.go\<close>, \<open>networkpolicy.go\<close>): ranges of addresses, the outbound limits of an organization and the network
    policy that is written from them. The specification is what a network policy allows (\<open>allows\<close>): the policy allows exactly what the
    limits leave open, and never the credentials service of the cloud or the cluster's machines (C40).
  \<^item> \<open>Registry_Isolation\<close> (\<open>pkg/platform/registry_isolation.go\<close>): which part of a registry is whose. An image in an organization's registry is for that
    organization alone (C39), and a build of an organization is given no login of the platform's or of another (C18). The reads of the API server are a parameter,
    and each may fail.
  \<^item> \<open>Backups\<close> (\<open>pkg/platform/backup.go\<close>): the names of backups and the moments they stand for, which read back; the newest snapshot is never deleted (C38), nor a
    log that a restore can need (C11); the restores that are accepted and the state that is shown. \<open>weak_order\<close> is interpreted for both orders, newest first.

  \<^bold>\<open>How the code is read\<close>

  State is passed explicitly, as records; an error is a value (\<open>error + 'a\<close>, \<open>option\<close> or a datatype with a constructor for each message).
  A method that holds a mutex for its whole body is one step. The clock is read once in a pass or a call. An \<open>int64\<close> or \<open>int32\<close> is an
  \<open>int\<close>, with \<open>wrap64\<close> and \<open>wrap32\<close> where a sum of the source can leave its range; amounts of CPU and memory of a cluster, which stay far below it, are
  plain integers. A \<open>float64\<close> is the rational number it stands for. White space and letter case are those of ASCII. JSON and YAML text
  is the value it stands for. Code outside the repository is a parameter with what is relied on as hypotheses: the cloud provider, the version
  library, the digest, the printing of quantities, the body of a response, the random suffixes and identifiers.

  Loops are structural recursions or have a termination proof. Fuel is used in three places: \<open>patch_status\<close> (the five tries of
  \<open>statusRetrySteps\<close>, as in the code), the tries of \<open>Run\<close> in \<open>Migrations\<close> likewise, and \<open>ipv6_groups\<close>, which starts with eight
  since each round reads two of sixteen bytes. The wait for the lease may go on for ever if the clock stands still: it is a partial function, and
  shown to return when the clock advances.

  \<^bold>\<open>What is not modelled\<close>

  The dashboard with its sessions and pages, the command line, the controllers that only render Kubernetes objects of
  applications, databases, buckets and clusters, the drivers of cloud providers, SSH, installation, GitHub, sign-in, alerts, templates, the MCP
  server and the SMTP sessions of the mail relay: they are input and output over third-party packages, or text. Of the modelled packages,
  the encodings of a placement, log lines and metrics are left out.
\<close>

end
